(* ===== verification/Prelude.thy ===== *)
theory Prelude
  imports Main "HOL-Library.AList" "HOL-Library.Multiset" "HOL-Library.Sublist"
    "HOL-Library.Char_ord" "HOL-Library.List_Lexorder"
begin

text \<open>
  Shared vocabulary of the development: Go strings as byte strings with the functions of
  package \<^verbatim>\<open>strings\<close> the sources call, instants and durations, Go maps as association
  lists, \<^verbatim>\<open>sort.Slice\<close>, bounded suffixes of event histories, and the record of
  standard-library functions whose tables or parsers the model leaves open.
\<close>

section \<open>Collections of facts\<close>

named_theorems go_string \<open>rewriting of string functions\<close>
named_theorems go_map \<open>lookups in updated association lists\<close>

section \<open>Strings\<close>

text \<open>
  A Go string is a sequence of bytes, which is what \<^typ>\<open>string\<close> is; \<^verbatim>\<open>len\<close> counts bytes
  as \<^const>\<open>length\<close> does, and \<^verbatim>\<open><\<close> is the bytewise lexicographic order of
  \<^verbatim>\<open>List_Lexorder\<close> and \<^verbatim>\<open>Char_ord\<close>.
  \<^verbatim>\<open>unicode.IsSpace\<close> holds of the runes with the following UTF-8 encodings.
\<close>

definition space_runes :: "string list" where
  "space_runes =
    [[CHR 0x20], [CHR 0x09], [CHR 0x0A], [CHR 0x0B], [CHR 0x0C], [CHR 0x0D],
     [CHR 0xC2, CHR 0x85], [CHR 0xC2, CHR 0xA0], [CHR 0xE1, CHR 0x9A, CHR 0x80],
     [CHR 0xE2, CHR 0x80, CHR 0x80], [CHR 0xE2, CHR 0x80, CHR 0x81],
     [CHR 0xE2, CHR 0x80, CHR 0x82], [CHR 0xE2, CHR 0x80, CHR 0x83],
     [CHR 0xE2, CHR 0x80, CHR 0x84], [CHR 0xE2, CHR 0x80, CHR 0x85],
     [CHR 0xE2, CHR 0x80, CHR 0x86], [CHR 0xE2, CHR 0x80, CHR 0x87],
     [CHR 0xE2, CHR 0x80, CHR 0x88], [CHR 0xE2, CHR 0x80, CHR 0x89],
     [CHR 0xE2, CHR 0x80, CHR 0x8A], [CHR 0xE2, CHR 0x80, CHR 0xA8],
     [CHR 0xE2, CHR 0x80, CHR 0xA9], [CHR 0xE2, CHR 0x80, CHR 0xAF],
     [CHR 0xE2, CHR 0x81, CHR 0x9F], [CHR 0xE3, CHR 0x80, CHR 0x80]]"

text \<open>Drop encodings of the listed runes from the front for as long as there is one.\<close>

function strip_runes :: "string list \<Rightarrow> string \<Rightarrow> string" where
  "strip_runes ws s =
     (case find (\<lambda>w. w \<noteq> [] \<and> prefix w s) ws of
        None \<Rightarrow> s
      | Some w \<Rightarrow> strip_runes ws (drop (length w) s))"
  by pat_completeness auto
termination
proof (relation "measure (length \<circ> snd)")
  fix ws s w
  assume "find (\<lambda>w. w \<noteq> [] \<and> prefix w s) ws = Some w"
  then have "w \<noteq> [] \<and> prefix w s" by (auto simp: find_Some_iff)
  then have "length s \<noteq> 0 \<and> length w \<noteq> 0" by auto
  then show "((ws, drop (length w) s), (ws, s)) \<in> measure (length \<circ> snd)" by auto
qed simp

declare strip_runes.simps [simp del]

definition TrimSpace :: "string \<Rightarrow> string" where
  "TrimSpace s = rev (strip_runes (map rev space_runes) (rev (strip_runes space_runes s)))"

lemma strip_runes_suffix: "\<exists>p. s = p @ strip_runes ws s"
proof (induction ws s rule: strip_runes.induct)
  case (1 ws s)
  show ?case
  proof (cases "find (\<lambda>w. w \<noteq> [] \<and> prefix w s) ws")
    case None
    then show ?thesis by (simp add: strip_runes.simps [of ws s])
  next
    case (Some w)
    with 1 obtain p where "drop (length w) s = p @ strip_runes ws (drop (length w) s)" by blast
    then have "s = (take (length w) s @ p) @ strip_runes ws (drop (length w) s)"
      by (metis append.assoc append_take_drop_id)
    moreover have "strip_runes ws s = strip_runes ws (drop (length w) s)"
      using Some by (simp add: strip_runes.simps [of ws s])
    ultimately show ?thesis by metis
  qed
qed

lemma strip_runes_clean:
  "w \<in> set ws \<Longrightarrow> w \<noteq> [] \<Longrightarrow> \<not> prefix w (strip_runes ws s)"
proof (induction ws s rule: strip_runes.induct)
  case (1 ws s)
  show ?case
  proof (cases "find (\<lambda>w. w \<noteq> [] \<and> prefix w s) ws")
    case None
    then have "strip_runes ws s = s" by (simp add: strip_runes.simps [of ws s])
    with None 1(2,3) show ?thesis by (auto simp: find_None_iff)
  next
    case (Some v)
    then have "strip_runes ws s = strip_runes ws (drop (length v) s)"
      by (simp add: strip_runes.simps [of ws s])
    with Some 1 show ?thesis by simp
  qed
qed

lemma strip_runes_id:
  "(\<And>w. w \<in> set ws \<Longrightarrow> w \<noteq> [] \<Longrightarrow> \<not> prefix w s) \<Longrightarrow> strip_runes ws s = s"
  by (subst strip_runes.simps) (auto simp: find_Some_iff split: option.split)

lemma TrimSpace_prefix_strip: "prefix (TrimSpace s) (strip_runes space_runes s)"
proof -
  obtain p where "rev (strip_runes space_runes s) =
      p @ strip_runes (map rev space_runes) (rev (strip_runes space_runes s))"
    using strip_runes_suffix by blast
  then have "strip_runes space_runes s = TrimSpace s @ rev p"
    unfolding TrimSpace_def by (metis rev_append rev_rev_ident)
  then show ?thesis by (simp add: prefix_def)
qed

lemma TrimSpace_idem [simp, go_string]: "TrimSpace (TrimSpace s) = TrimSpace s"
proof -
  let ?t = "strip_runes (map rev space_runes) (rev (strip_runes space_runes s))"
  have "strip_runes space_runes (TrimSpace s) = TrimSpace s"
  proof (rule strip_runes_id)
    fix w assume "w \<in> set space_runes" "w \<noteq> []"
    then have "\<not> prefix w (strip_runes space_runes s)" by (rule strip_runes_clean)
    with TrimSpace_prefix_strip show "\<not> prefix w (TrimSpace s)"
      by (meson prefix_order.trans)
  qed
  moreover have "strip_runes (map rev space_runes) ?t = ?t"
    by (rule strip_runes_id) (rule strip_runes_clean)
  ultimately show ?thesis unfolding TrimSpace_def by simp
qed

lemma TrimSpace_Nil [simp, go_string]: "TrimSpace [] = []"
  by (simp add: TrimSpace_def strip_runes_id)

lemma set_TrimSpace: "set (TrimSpace s) \<subseteq> set s"
proof -
  obtain p where "s = p @ strip_runes space_runes s" using strip_runes_suffix by blast
  then have "set (strip_runes space_runes s) \<subseteq> set s" by (metis set_append Un_upper2)
  with TrimSpace_prefix_strip show ?thesis by (meson set_mono_prefix subset_trans)
qed

text \<open>
  A string that starts and ends with a byte of none of the white-space encodings is left alone.
\<close>

definition solid :: "char \<Rightarrow> bool" where
  "solid c \<longleftrightarrow> (\<forall>w \<in> set space_runes. c \<notin> set w)"

lemma TrimSpace_id:
  assumes "solid (hd s)" and "solid (last s)"
  shows "TrimSpace s = s"
proof (cases "s = []")
  case False
  have "strip_runes space_runes s = s"
  proof (rule strip_runes_id)
    fix w assume w: "w \<in> set space_runes" "w \<noteq> []"
    show "\<not> prefix w s"
    proof
      assume "prefix w s"
      then have "hd w = hd s" using w(2) by (auto simp: prefix_def)
      then show False using assms(1) w unfolding solid_def by (metis hd_in_set)
    qed
  qed
  moreover have "strip_runes (map rev space_runes) (rev s) = rev s"
  proof (rule strip_runes_id)
    fix w assume w: "w \<in> set (map rev space_runes)" "w \<noteq> []"
    show "\<not> prefix w (rev s)"
    proof
      assume "prefix w (rev s)"
      then have "hd w = last s" using w(2) by (auto simp: prefix_def hd_rev [symmetric])
      moreover have "hd w \<in> set w" using w(2) by simp
      ultimately show False using assms(2) w(1) unfolding solid_def by auto
    qed
  qed
  ultimately show ?thesis by (simp add: TrimSpace_def)
qed simp

subsection \<open>Lower case\<close>

text \<open>
  \<^verbatim>\<open>strings.ToLower\<close> maps an ASCII string byte by byte; any other string goes through the
  Unicode tables, which are the argument \<open>u\<close>.
\<close>

definition is_ascii :: "char \<Rightarrow> bool" where
  "is_ascii c \<longleftrightarrow> of_char c < (128::nat)"

definition lower_char :: "char \<Rightarrow> char" where
  "lower_char c = (if CHR ''A'' \<le> c \<and> c \<le> CHR ''Z'' then char_of (of_char c + 32 :: nat) else c)"

definition ToLower :: "(string \<Rightarrow> string) \<Rightarrow> string \<Rightarrow> string" where
  "ToLower u s = (if list_all is_ascii s then map lower_char s else u s)"

definition lower_alpha :: "char \<Rightarrow> bool" where
  "lower_alpha c \<longleftrightarrow> CHR ''a'' \<le> c \<and> c \<le> CHR ''z''"

definition upper_alpha :: "char \<Rightarrow> bool" where
  "upper_alpha c \<longleftrightarrow> CHR ''A'' \<le> c \<and> c \<le> CHR ''Z''"

definition numeric :: "char \<Rightarrow> bool" where
  "numeric c \<longleftrightarrow> CHR ''0'' \<le> c \<and> c \<le> CHR ''9''"

lemma lower_char_id: "\<not> upper_alpha c \<Longrightarrow> lower_char c = c"
  by (auto simp: lower_char_def upper_alpha_def)

lemma ToLower_id [go_string]:
  "list_all (\<lambda>c. is_ascii c \<and> \<not> upper_alpha c) s \<Longrightarrow> ToLower u s = s"
  unfolding ToLower_def
  by (simp add: list_all_iff map_idI lower_char_id)

lemma ToLower_Nil [simp, go_string]: "ToLower u [] = []"
  by (simp add: ToLower_def)

lemma char_between:
  "(a :: char) \<le> c \<longleftrightarrow> (of_char a :: nat) \<le> of_char c"
  by (simp add: less_eq_char_def)

lemma lower_alpha_plain: "lower_alpha c \<Longrightarrow> is_ascii c \<and> \<not> upper_alpha c"
  by (simp add: lower_alpha_def is_ascii_def upper_alpha_def char_between)

lemma numeric_plain: "numeric c \<Longrightarrow> is_ascii c \<and> \<not> upper_alpha c"
  by (simp add: numeric_def is_ascii_def upper_alpha_def char_between)

lemma lower_alpha_solid: "lower_alpha c \<Longrightarrow> solid c"
  by (auto simp: lower_alpha_def solid_def space_runes_def char_between)

lemma numeric_solid: "numeric c \<Longrightarrow> solid c"
  by (auto simp: numeric_def solid_def space_runes_def char_between)

lemma punct_solid: "solid CHR ''.''" "solid CHR ''-''" "solid CHR ''_''"
  by (simp_all add: solid_def space_runes_def)

lemma punct_plain:
  "is_ascii CHR ''.'' \<and> \<not> upper_alpha CHR ''.''" "is_ascii CHR ''-'' \<and> \<not> upper_alpha CHR ''-''"
  "is_ascii CHR ''_'' \<and> \<not> upper_alpha CHR ''_''"
  by (simp_all add: is_ascii_def upper_alpha_def char_between)

lemmas plain_chars = lower_alpha_plain numeric_plain punct_plain
lemmas solid_chars = lower_alpha_solid numeric_solid punct_solid

subsection \<open>Prefixes and suffixes\<close>

abbreviation HasPrefix :: "string \<Rightarrow> string \<Rightarrow> bool" where
  "HasPrefix s p \<equiv> prefix p s"

abbreviation HasSuffix :: "string \<Rightarrow> string \<Rightarrow> bool" where
  "HasSuffix s p \<equiv> suffix p s"

abbreviation Contains :: "string \<Rightarrow> string \<Rightarrow> bool" where
  "Contains s p \<equiv> sublist p s"

definition ContainsAny :: "string \<Rightarrow> string \<Rightarrow> bool" where
  "ContainsAny s chars = list_ex (\<lambda>c. c \<in> set chars) s"

definition TrimPrefix :: "string \<Rightarrow> string \<Rightarrow> string" where
  "TrimPrefix s p = (if HasPrefix s p then drop (length p) s else s)"

definition TrimSuffix :: "string \<Rightarrow> string \<Rightarrow> string" where
  "TrimSuffix s p = (if HasSuffix s p then take (length s - length p) s else s)"

subsection \<open>Decimal numerals\<close>

fun nat_digits :: "nat \<Rightarrow> string" where
  "nat_digits n =
     (if n < 10 then [char_of (48 + n)] else nat_digits (n div 10) @ [char_of (48 + n mod 10)])"

declare nat_digits.simps [simp del]

text \<open>\<^verbatim>\<open>strconv.Itoa\<close>, which is also what \<^verbatim>\<open>%d\<close> prints.\<close>

definition Itoa :: "int \<Rightarrow> string" where
  "Itoa i = (if i < 0 then CHR ''-'' # nat_digits (nat (- i)) else nat_digits (nat i))"

definition digits_value :: "string \<Rightarrow> nat" where
  "digits_value s = foldl (\<lambda>a c. 10 * a + (of_char c - 48)) 0 s"

lemma digits_value_nat_digits [simp]: "digits_value (nat_digits n) = n"
proof (induction n rule: nat_digits.induct)
  case (1 n)
  show ?case
  proof (cases "n < 10")
    case True
    then show ?thesis by (simp add: nat_digits.simps [of n] digits_value_def)
  next
    case False
    with 1 have "digits_value (nat_digits (n div 10)) = n div 10" by simp
    moreover have "of_char (char_of (48 + n mod 10) :: char) = 48 + n mod 10" by simp
    ultimately show ?thesis
      using False by (simp add: nat_digits.simps [of n] digits_value_def)
  qed
qed

lemma nat_digits_numeric: "c \<in> set (nat_digits n) \<Longrightarrow> numeric c"
proof (induction n rule: nat_digits.induct)
  case (1 n)
  have dig: "k < 10 \<Longrightarrow> numeric (char_of (48 + k))" for k :: nat
    by (simp add: numeric_def char_between)
  show ?case
  proof (cases "n < 10")
    case True
    with 1 dig [of n] show ?thesis by (simp add: nat_digits.simps [of n])
  next
    case False
    with 1 dig [of "n mod 10"] show ?thesis by (auto simp: nat_digits.simps [of n])
  qed
qed

lemma nat_digits_not_Nil [simp]: "nat_digits n \<noteq> []"
  by (subst nat_digits.simps) simp

lemma Itoa_inj: "Itoa i = Itoa j \<longleftrightarrow> i = j"
proof
  have no_minus: "nat_digits n \<noteq> CHR ''-'' # s" for n s
    using nat_digits_numeric [of "CHR ''-''" n] by (auto simp: numeric_def char_between)
  have inj: "nat_digits m = nat_digits n \<Longrightarrow> m = n" for m n
    by (metis digits_value_nat_digits)
  assume "Itoa i = Itoa j"
  then show "i = j"
    by (auto simp: Itoa_def no_minus no_minus [symmetric] split: if_splits dest!: inj)
qed simp

section \<open>Instants and durations\<close>

text \<open>
  A \<^verbatim>\<open>time.Time\<close> is the number of nanoseconds since Go's zero instant, so \<^verbatim>\<open>IsZero\<close> is
  equality with 0, \<^verbatim>\<open>UTC\<close> is the identity, and \<^verbatim>\<open>Before\<close>, \<^verbatim>\<open>After\<close> and \<^verbatim>\<open>Equal\<close> are the
  comparisons of \<^typ>\<open>int\<close>. A \<^verbatim>\<open>time.Duration\<close> is a signed 64-bit count of nanoseconds;
  \<^verbatim>\<open>Sub\<close> saturates at its bounds and Go's division truncates towards zero.
\<close>

type_synonym time = int
type_synonym duration = int

definition max_int64 :: int where
  "max_int64 = 2 ^ 63 - 1"

definition min_int64 :: int where
  "min_int64 = - (2 ^ 63)"

definition wrap64 :: "int \<Rightarrow> int" where
  "wrap64 x = (x + 2 ^ 63) mod 2 ^ 64 - 2 ^ 63"

lemma wrap64_id: "min_int64 \<le> x \<Longrightarrow> x \<le> max_int64 \<Longrightarrow> wrap64 x = x"
  by (simp add: wrap64_def min_int64_def max_int64_def)

lemma wrap64_bounds: "min_int64 \<le> wrap64 x \<and> wrap64 x \<le> max_int64"
proof -
  have "0 \<le> (x + 2 ^ 63) mod 2 ^ 64" and "(x + 2 ^ 63) mod 2 ^ 64 < (2 ^ 64 :: int)"
    by simp_all
  then show ?thesis unfolding wrap64_def min_int64_def max_int64_def by simp
qed

definition go_div :: "int \<Rightarrow> int \<Rightarrow> int" where
  "go_div a b = sgn a * sgn b * (\<bar>a\<bar> div \<bar>b\<bar>)"

lemma go_div_pos: "0 \<le> a \<Longrightarrow> 0 < b \<Longrightarrow> go_div a b = a div b"
  by (auto simp: go_div_def sgn_if)

abbreviation IsZero :: "time \<Rightarrow> bool" where
  "IsZero t \<equiv> t = 0"

definition time_Sub :: "time \<Rightarrow> time \<Rightarrow> duration" where
  "time_Sub a b = max min_int64 (min max_int64 (a - b))"

definition Milliseconds :: "duration \<Rightarrow> int" where
  "Milliseconds d = go_div d 1000000"

abbreviation Millisecond :: duration where "Millisecond \<equiv> 1000000"
abbreviation Second :: duration where "Second \<equiv> 1000000000"
abbreviation Minute :: duration where "Minute \<equiv> 60 * Second"
abbreviation Hour :: duration where "Hour \<equiv> 60 * Minute"

section \<open>Go maps\<close>

text \<open>
  A Go map is an association list with distinct keys. The position of an entry stands for the
  unspecified order in which \<^verbatim>\<open>range\<close> visits it; results that are sorted afterwards are
  shown not to depend on it.
\<close>

type_synonym ('k, 'v) gomap = "('k \<times> 'v) list"

abbreviation get :: "('k, 'v) gomap \<Rightarrow> 'k \<Rightarrow> 'v option" where
  "get m k \<equiv> map_of m k"

abbreviation put :: "'k \<Rightarrow> 'v \<Rightarrow> ('k, 'v) gomap \<Rightarrow> ('k, 'v) gomap" where
  "put k v m \<equiv> AList.update k v m"

abbreviation del :: "'k \<Rightarrow> ('k, 'v) gomap \<Rightarrow> ('k, 'v) gomap" where
  "del k m \<equiv> AList.delete k m"

text \<open>A read of an absent key yields the zero value of the element type.\<close>

definition get_or :: "'v \<Rightarrow> ('k, 'v) gomap \<Rightarrow> 'k \<Rightarrow> 'v" where
  "get_or z m k = (case get m k of None \<Rightarrow> z | Some v \<Rightarrow> v)"

definition keys_distinct :: "('k, 'v) gomap \<Rightarrow> bool" where
  "keys_distinct m \<longleftrightarrow> distinct (map fst m)"

lemma get_put [simp, go_map]: "get (put k v m) k' = (if k' = k then Some v else get m k')"
  by (simp add: update_conv')

lemma get_del [simp, go_map]: "get (del k m) k' = (if k' = k then None else get m k')"
  by (simp add: delete_conv')

lemma keys_distinct_put [simp]: "keys_distinct m \<Longrightarrow> keys_distinct (put k v m)"
  by (simp add: keys_distinct_def distinct_update)

lemma keys_distinct_del [simp]: "keys_distinct m \<Longrightarrow> keys_distinct (del k m)"
  by (simp add: keys_distinct_def distinct_delete)

lemma keys_distinct_Nil [simp]: "keys_distinct []"
  by (simp add: keys_distinct_def)

lemma keys_distinct_filter: "keys_distinct m \<Longrightarrow> keys_distinct (filter P m)"
  by (auto simp: keys_distinct_def distinct_map inj_on_def)

lemma get_filter:
  "keys_distinct m \<Longrightarrow>
     get (filter P m) k = (case get m k of None \<Rightarrow> None | Some v \<Rightarrow> if P (k, v) then Some v else None)"
  by (induction m) (auto simp: keys_distinct_def split: option.splits dest: map_of_SomeD
      intro: map_of_is_SomeI simp: map_of_eq_None_iff)

lemma get_Some_set: "get m k = Some v \<Longrightarrow> (k, v) \<in> set m"
  by (rule map_of_SomeD)

lemma in_set_get: "keys_distinct m \<Longrightarrow> (k, v) \<in> set m \<longleftrightarrow> get m k = Some v"
  by (auto simp: keys_distinct_def)

lemma get_or_put [simp, go_map]: "get_or z (put k v m) k' = (if k' = k then v else get_or z m k')"
  by (simp add: get_or_def)

section \<open>Sorting\<close>

text \<open>
  \<^verbatim>\<open>sort.Slice\<close> sorts by a \<^verbatim>\<open>less\<close> function. It is modelled by insertion; the locale
  below shows that for a strict weak order the result is a sorted permutation, and that it is
  the only one when \<^verbatim>\<open>less\<close> tells the elements apart.
\<close>

fun insert_by :: "('a \<Rightarrow> 'a \<Rightarrow> bool) \<Rightarrow> 'a \<Rightarrow> 'a list \<Rightarrow> 'a list" where
  "insert_by lt x [] = [x]"
| "insert_by lt x (y # ys) = (if lt y x then y # insert_by lt x ys else x # y # ys)"

fun sort_by :: "('a \<Rightarrow> 'a \<Rightarrow> bool) \<Rightarrow> 'a list \<Rightarrow> 'a list" where
  "sort_by lt [] = []"
| "sort_by lt (x # xs) = insert_by lt x (sort_by lt xs)"

lemma mset_insert_by [simp]: "mset (insert_by lt x xs) = add_mset x (mset xs)"
  by (induction xs) auto

lemma mset_sort_by [simp]: "mset (sort_by lt xs) = mset xs"
  by (induction xs) auto

lemma set_sort_by [simp]: "set (sort_by lt xs) = set xs"
  by (metis mset_sort_by set_mset_mset)

lemma set_insert_by [simp]: "set (insert_by lt x xs) = insert x (set xs)"
  by (metis mset_insert_by set_mset_add_mset_insert set_mset_mset)

lemma length_sort_by [simp]: "length (sort_by lt xs) = length xs"
  by (metis mset_sort_by size_mset)

lemma distinct_sort_by [simp]: "distinct (sort_by lt xs) = distinct xs"
  by (metis mset_eq_imp_distinct_iff mset_sort_by)

locale slice_order =
  fixes lt :: "'a \<Rightarrow> 'a \<Rightarrow> bool"
  assumes asym: "lt x y \<Longrightarrow> \<not> lt y x"
    and ntrans: "\<not> lt x y \<Longrightarrow> \<not> lt y z \<Longrightarrow> \<not> lt x z"
begin

lemma sorted_insert_by:
  "sorted_wrt (\<lambda>a b. \<not> lt b a) xs \<Longrightarrow> sorted_wrt (\<lambda>a b. \<not> lt b a) (insert_by lt x xs)"
proof (induction xs)
  case (Cons y ys)
  show ?case
  proof (cases "lt y x")
    case True
    with Cons asym show ?thesis by auto
  next
    case False
    have "\<not> lt z x" if "z \<in> set ys" for z
      using Cons.prems that False ntrans [of z y x] by auto
    with False Cons.prems show ?thesis by auto
  qed
qed simp

lemma sorted_sort_by: "sorted_wrt (\<lambda>a b. \<not> lt b a) (sort_by lt xs)"
  by (induction xs) (simp_all add: sorted_insert_by)

lemma sort_by_hd_least:
  assumes "sort_by lt xs = y # ys" and "x \<in> set xs"
  shows "\<not> lt x y"
proof -
  have "sorted_wrt (\<lambda>a b. \<not> lt b a) (y # ys)"
    using sorted_sort_by [of xs] assms(1) by simp
  moreover have "x = y \<or> x \<in> set ys"
    using assms by (metis set_ConsD set_sort_by)
  ultimately show ?thesis using asym by auto
qed

lemma sorted_unique:
  assumes "mset xs = mset ys"
    and "sorted_wrt (\<lambda>a b. \<not> lt b a) xs" and "sorted_wrt (\<lambda>a b. \<not> lt b a) ys"
    and "\<And>a b. a \<in> set xs \<Longrightarrow> b \<in> set xs \<Longrightarrow> a \<noteq> b \<Longrightarrow> lt a b \<or> lt b a"
  shows "xs = ys"
  using assms
proof (induction xs arbitrary: ys)
  case (Cons x xs)
  then obtain y ys' where ys: "ys = y # ys'" by (cases ys) auto
  have sets: "set (x # xs) = set ys" using Cons.prems(1) by (metis set_mset_mset)
  have "x = y"
  proof (rule ccontr)
    assume ne: "x \<noteq> y"
    from sets ys have "y \<in> set (x # xs)" and "x \<in> set ys" by auto
    with ne ys have "y \<in> set xs" and "x \<in> set ys'" by auto
    then have "\<not> lt y x" and "\<not> lt x y" using Cons.prems(2,3) ys by auto
    moreover have "lt x y \<or> lt y x"
      using Cons.prems(4) ne \<open>y \<in> set xs\<close> by auto
    ultimately show False by blast
  qed
  moreover have "xs = ys'"
    using Cons.IH [of ys'] Cons.prems ys \<open>x = y\<close> by auto
  ultimately show ?case using ys by simp
qed simp

lemma sort_by_order_irrelevant:
  assumes "mset xs = mset ys"
    and "\<And>a b. a \<in> set xs \<Longrightarrow> b \<in> set xs \<Longrightarrow> a \<noteq> b \<Longrightarrow> lt a b \<or> lt b a"
  shows "sort_by lt xs = sort_by lt ys"
proof (rule sorted_unique)
  show "mset (sort_by lt xs) = mset (sort_by lt ys)" using assms(1) by simp
qed (use assms(2) sorted_sort_by in auto)

end

text \<open>The order by creation time and then by identifier, which most listings use.\<close>

definition created_then_id :: "('a \<Rightarrow> time) \<Rightarrow> ('a \<Rightarrow> string) \<Rightarrow> 'a \<Rightarrow> 'a \<Rightarrow> bool" where
  "created_then_id created ident a b =
     (if created a = created b then ident a < ident b else created a < created b)"

interpretation created_id: slice_order "created_then_id created ident" for created ident
  by unfold_locales (auto simp: created_then_id_def split: if_splits)

lemma created_then_id_total:
  "ident a \<noteq> ident b \<Longrightarrow> created_then_id created ident a b \<or> created_then_id created ident b a"
  by (auto simp: created_then_id_def)

subsection \<open>Maps keyed by a field of their values\<close>

definition keyed :: "('v \<Rightarrow> 'k) \<Rightarrow> ('k, 'v) gomap \<Rightarrow> bool" where
  "keyed f m \<longleftrightarrow> keys_distinct m \<and> (\<forall>k v. get m k = Some v \<longrightarrow> f v = k)"

lemma keyed_Nil [simp]: "keyed f []"
  by (simp add: keyed_def)

lemma keyed_put [simp]: "keyed f m \<Longrightarrow> f v = k \<Longrightarrow> keyed f (put k v m)"
  by (simp add: keyed_def)

lemma keyed_del [simp]: "keyed f m \<Longrightarrow> keyed f (del k m)"
  by (simp add: keyed_def)

lemma keyedD: "keyed f m \<Longrightarrow> get m k = Some v \<Longrightarrow> f v = k"
  by (simp add: keyed_def)

lemma keyed_values:
  assumes "keyed f m"
  shows "distinct (map snd m)" and "inj_on f (snd ` set m)"
    and "v \<in> snd ` set m \<longleftrightarrow> get m (f v) = Some v"
proof -
  have key: "f (snd e) = fst e" if "e \<in> set m" for e
  proof -
    have "keys_distinct m" using assms by (simp add: keyed_def)
    moreover have "(fst e, snd e) \<in> set m" using that by simp
    ultimately have "get m (fst e) = Some (snd e)" using in_set_get by metis
    then show ?thesis by (rule keyedD [OF assms])
  qed
  then have eq: "map f (map snd m) = map fst m" by (auto simp: comp_def intro!: map_cong)
  have "distinct (map f (map snd m))" using assms unfolding eq keyed_def keys_distinct_def by blast
  then show "distinct (map snd m)" and "inj_on f (snd ` set m)"
    unfolding distinct_map [of f] by simp_all
  show "v \<in> snd ` set m \<longleftrightarrow> get m (f v) = Some v"
  proof
    assume "v \<in> snd ` set m"
    then obtain e where e: "e \<in> set m" "v = snd e" by blast
    have "(f v, v) = e" using key [OF e(1)] e(2) by simp
    then have "(f v, v) \<in> set m" using e(1) by simp
    moreover have "keys_distinct m" using assms by (simp add: keyed_def)
    ultimately show "get m (f v) = Some v" using in_set_get by metis
  next
    assume "get m (f v) = Some v"
    then have "(f v, v) \<in> set m" by (rule get_Some_set)
    then show "v \<in> snd ` set m" by (rule image_eqI [rotated]) simp
  qed
qed

text \<open>A listing of such a map does not depend on the order of its entries.\<close>

lemma keyed_listing:
  assumes "keyed f m" and "keyed f m'" and "get m = get m'"
  shows "sort_by (created_then_id created f) (filter P (map snd m))
    = sort_by (created_then_id created f) (filter P (map snd m'))"
proof (rule created_id.sort_by_order_irrelevant)
  have "snd ` set m = snd ` set m'"
  proof (rule set_eqI)
    show "v \<in> snd ` set m \<longleftrightarrow> v \<in> snd ` set m'" for v
      unfolding keyed_values(3) [OF assms(1)] keyed_values(3) [OF assms(2)] assms(3) ..
  qed
  then have "mset (map snd m) = mset (map snd m')"
    using set_eq_iff_mset_eq_distinct [OF keyed_values(1) [OF assms(1)] keyed_values(1) [OF assms(2)]]
    unfolding set_map by blast
  then show "mset (filter P (map snd m)) = mset (filter P (map snd m'))" by (simp only: mset_filter)
  show "created_then_id created f a b \<or> created_then_id created f b a"
    if "a \<in> set (filter P (map snd m))" "b \<in> set (filter P (map snd m))" "a \<noteq> b" for a b
    using that keyed_values(2) [OF assms(1)] by (intro created_then_id_total) (auto simp: inj_on_def)
qed

section \<open>Bounded histories\<close>

definition take_last :: "nat \<Rightarrow> 'a list \<Rightarrow> 'a list" where
  "take_last n xs = drop (length xs - n) xs"

lemma length_take_last [simp]: "length (take_last n xs) = min n (length xs)"
  by (simp add: take_last_def)

lemma suffix_take_last: "suffix (take_last n xs) xs"
  by (simp add: take_last_def suffix_drop)

lemma take_last_all [simp]: "length xs \<le> n \<Longrightarrow> take_last n xs = xs"
  by (simp add: take_last_def)

lemma take_last_snoc: "0 < n \<Longrightarrow> take_last n (xs @ [x]) = take_last (n - 1) xs @ [x]"
  by (cases n) (auto simp: take_last_def Suc_diff_le)

lemma take_last_append:
  "take_last n (xs @ ys) = (if n \<le> length ys then take_last n ys else take_last (n - length ys) xs @ ys)"
  by (auto simp: take_last_def)

section \<open>Standard-library functions left open\<close>

text \<open>
  The tables and parsers of the Go standard library that the sources call and whose result no
  theorem of this development constrains: every theorem holds for whatever these functions
  compute.
\<close>

record URL =
  u_Scheme :: string
  u_Opaque :: string
  u_User :: "string option"
  u_Host :: string
  u_Path :: string
  u_RawQuery :: string
  u_Fragment :: string

record golib =
  lib_lower :: "string \<Rightarrow> string"             \<comment> \<open>\<^verbatim>\<open>strings.ToLower\<close> of a string with a non-ASCII byte\<close>
  lib_url_Parse :: "string \<Rightarrow> URL option"     \<comment> \<open>\<^verbatim>\<open>url.Parse\<close>, \<^const>\<open>None\<close> for an error\<close>
  lib_url_JoinPath :: "URL \<Rightarrow> string \<Rightarrow> string option" \<comment> \<open>\<^verbatim>\<open>url.JoinPath(u.String(), p)\<close>\<close>
  lib_sha256_hex :: "string \<Rightarrow> string"        \<comment> \<open>hexadecimal SHA-256 digest\<close>
  lib_json_object :: "string \<Rightarrow> string option" \<comment> \<open>decode a JSON object and encode it again\<close>
  lib_Duration_String :: "duration \<Rightarrow> string" \<comment> \<open>\<^verbatim>\<open>%s\<close> of a duration\<close>

abbreviation lower :: "golib \<Rightarrow> string \<Rightarrow> string" where
  "lower L s \<equiv> ToLower (lib_lower L) s"

text \<open>\<^verbatim>\<open>strings.ToLower(strings.TrimSpace(s))\<close>\<close>

abbreviation lower_trim :: "golib \<Rightarrow> string \<Rightarrow> string" where
  "lower_trim L s \<equiv> lower L (TrimSpace s)"

text \<open>A concrete instance, for evaluation at concrete inputs.\<close>

definition sample_lib :: golib where
  "sample_lib = \<lparr> lib_lower = id,
     lib_url_Parse = (\<lambda>s. if HasPrefix s ''http://'' then
        Some \<lparr> u_Scheme = ''http'', u_Opaque = '''', u_User = None, u_Host = drop 7 s,
               u_Path = '''', u_RawQuery = '''', u_Fragment = '''' \<rparr> else None),
     lib_url_JoinPath = (\<lambda>u p. Some (u_Scheme u @ ''://'' @ u_Host u @ ''/'' @ p)),
     lib_sha256_hex = id,
     lib_json_object = (\<lambda>s. Some s),
     lib_Duration_String = Itoa \<rparr>"

subsection \<open>Lower case of trimmed strings\<close>

text \<open>
  What the sources expect of \<^verbatim>\<open>strings.ToLower\<close>: a second trimming and lowering of a trimmed
  and lowered string changes nothing. For an ASCII string it is proved, for the Unicode tables
  it is a hypothesis where it is needed.
\<close>

definition lower_settles :: "golib \<Rightarrow> bool" where
  "lower_settles L \<longleftrightarrow> (\<forall>s. lower_trim L (lower_trim L s) = lower_trim L s)"

lemma lower_char_char: "upper_alpha c \<Longrightarrow> lower_alpha (lower_char c)"
  by (simp add: upper_alpha_def lower_char_def lower_alpha_def char_between)

lemma lower_char_idem [simp]: "lower_char (lower_char c) = lower_char c"
proof (cases "upper_alpha c")
  case True
  then have "\<not> upper_alpha (lower_char c)" using lower_char_char lower_alpha_plain by blast
  then show ?thesis by (rule lower_char_id)
qed (simp add: lower_char_id)

lemma lower_char_ascii [simp]: "is_ascii (lower_char c) \<longleftrightarrow> is_ascii c"
proof (cases "upper_alpha c")
  case True
  then have "is_ascii (lower_char c)" using lower_char_char lower_alpha_plain by blast
  moreover have "is_ascii c" using True by (simp add: upper_alpha_def is_ascii_def char_between)
  ultimately show ?thesis by simp
qed (simp add: lower_char_id)

lemma lower_char_not_solid: "\<not> solid (lower_char c) \<Longrightarrow> lower_char c = c"
  using lower_char_char lower_alpha_solid lower_char_id by blast

lemma prefix_lower:
  assumes "prefix w (map lower_char s)" and "\<forall>c \<in> set w. \<not> solid c"
  shows "prefix w s"
  using assms
proof (induction w arbitrary: s)
  case (Cons c w)
  then obtain d s' where s: "s = d # s'" and c: "c = lower_char d" by (cases s) auto
  with Cons.prems(2) have "\<not> solid (lower_char d)" by simp
  then have "lower_char d = d" by (rule lower_char_not_solid)
  with Cons s c show ?case by auto
qed simp

lemma space_not_solid: "w \<in> set space_runes \<Longrightarrow> c \<in> set w \<Longrightarrow> \<not> solid c"
  by (auto simp: solid_def)

lemma TrimSpace_fixed_iff:
  "TrimSpace s = s \<longleftrightarrow>
     (\<forall>w \<in> set space_runes. \<not> (w \<noteq> [] \<and> prefix w s)) \<and> (\<forall>w \<in> set space_runes. \<not> (w \<noteq> [] \<and> suffix w s))"
  (is "_ \<longleftrightarrow> ?front \<and> ?back")
proof
  assume fixed: "TrimSpace s = s"
  let ?t = "strip_runes space_runes s"
  have len: "length (TrimSpace s) \<le> length ?t"
    using TrimSpace_prefix_strip [of s] by (rule prefix_length_le)
  obtain p where p: "s = p @ ?t" using strip_runes_suffix by blast
  then have "length p + length ?t = length s" by (metis length_append)
  moreover have "length s \<le> length ?t" using len fixed by simp
  ultimately have "length p = 0" by linarith
  with p have "?t = s" by simp
  then have ?front using strip_runes_clean by metis
  moreover have "\<not> (w \<noteq> [] \<and> suffix w s)" if "w \<in> set space_runes" for w
  proof
    assume w: "w \<noteq> [] \<and> suffix w s"
    have "rev s = strip_runes (map rev space_runes) (rev ?t)"
      using fixed unfolding TrimSpace_def by (metis rev_rev_ident)
    moreover have "\<not> prefix (rev w) (strip_runes (map rev space_runes) (rev ?t))"
      using that w by (intro strip_runes_clean) auto
    ultimately show False using w by (simp add: suffix_to_prefix)
  qed
  ultimately show "?front \<and> ?back" by blast
next
  assume fb: "?front \<and> ?back"
  then have "strip_runes space_runes s = s" by (intro strip_runes_id) auto
  moreover have "strip_runes (map rev space_runes) (rev s) = rev s"
    using fb by (intro strip_runes_id) (auto simp: suffix_to_prefix)
  ultimately show "TrimSpace s = s" by (simp add: TrimSpace_def)
qed

lemma TrimSpace_map_lower:
  assumes "TrimSpace s = s"
  shows "TrimSpace (map lower_char s) = map lower_char s"
proof -
  have front: "\<not> prefix w (map lower_char s)" if w: "w \<in> set space_runes" "w \<noteq> []" for w
  proof
    assume "prefix w (map lower_char s)"
    then have "prefix w s" by (rule prefix_lower) (use w space_not_solid in blast)
    then show False using w assms TrimSpace_fixed_iff by blast
  qed
  have rear: "\<not> suffix w (map lower_char s)" if w: "w \<in> set space_runes" "w \<noteq> []" for w
  proof
    assume "suffix w (map lower_char s)"
    then have "prefix (rev w) (map lower_char (rev s))"
      by (simp only: suffix_to_prefix rev_map)
    then have "prefix (rev w) (rev s)"
      by (rule prefix_lower) (use w space_not_solid in auto)
    then have "suffix w s" by (simp only: suffix_to_prefix)
    then show False using w assms TrimSpace_fixed_iff by blast
  qed
  show ?thesis unfolding TrimSpace_fixed_iff using front rear by blast
qed

lemma lower_trim_ascii_idem:
  assumes "list_all is_ascii (TrimSpace s)"
  shows "lower_trim L (lower_trim L s) = lower_trim L s"
proof -
  have "lower_trim L s = map lower_char (TrimSpace s)" using assms by (simp add: ToLower_def)
  moreover have "TrimSpace (map lower_char (TrimSpace s)) = map lower_char (TrimSpace s)"
    by (rule TrimSpace_map_lower) simp
  ultimately show ?thesis
    using assms by (simp add: ToLower_def list_all_iff)
qed

lemma sample_lib_settles: "lower_settles sample_lib"
  unfolding lower_settles_def
proof
  fix s
  show "lower_trim sample_lib (lower_trim sample_lib s) = lower_trim sample_lib s"
  proof (cases "list_all is_ascii (TrimSpace s)")
    case False
    then show ?thesis by (simp add: ToLower_def sample_lib_def)
  qed (rule lower_trim_ascii_idem)
qed

end
