(* ===== verification/Strconv.thy ===== *)
theory Strconv
  imports Prelude
begin

text \<open>
  The parsers of Go's \<^verbatim>\<open>strconv\<close> and \<^verbatim>\<open>strings\<close> that the configuration and the HTTP API use: decimal 64-bit
  integers, booleans and comma separated lists; and an error monad for code that returns at the
  first error.
\<close>

section \<open>Integers\<close>

text \<open>
  \<^verbatim>\<open>strconv.ParseInt(s, 10, 64)\<close>, and \<^verbatim>\<open>strconv.Atoi\<close> where an int has 64 bits: an optional sign and at
  least one decimal digit, nothing else, with a value that fits.
\<close>

definition ParseInt :: "string \<Rightarrow> int option" where
  "ParseInt s =
     (let negative = HasPrefix s ''-''; digits = (if negative \<or> HasPrefix s ''+'' then tl s else s);
          n = (if negative then - int (digits_value digits) else int (digits_value digits)) in
      if digits = [] \<or> \<not> list_all numeric digits \<or> n < min_int64 \<or> max_int64 < n then None else Some n)"

abbreviation Atoi :: "string \<Rightarrow> int option" where
  "Atoi \<equiv> ParseInt"

lemma ParseInt_bounds: "ParseInt s = Some n \<Longrightarrow> min_int64 \<le> n \<and> n \<le> max_int64"
  by (auto simp: ParseInt_def Let_def split: if_splits)

lemma numeric_sign: "numeric c \<Longrightarrow> c \<noteq> CHR ''-'' \<and> c \<noteq> CHR ''+''"
  by (auto simp: numeric_def char_between)

lemma nat_digits_unsigned: "\<not> HasPrefix (nat_digits n) ''-''" "\<not> HasPrefix (nat_digits n) ''+''"
  using nat_digits_numeric [of "hd (nat_digits n)" n] numeric_sign by (cases "nat_digits n"; fastforce)+

lemma ParseInt_Itoa: "min_int64 \<le> n \<Longrightarrow> n \<le> max_int64 \<Longrightarrow> ParseInt (Itoa n) = Some n"
  using nat_digits_numeric nat_digits_unsigned by (auto simp: ParseInt_def Itoa_def Let_def list_all_iff)

section \<open>Booleans and lists\<close>

definition ParseBool :: "string \<Rightarrow> bool option" where
  "ParseBool s =
     (if s \<in> set [''1'', ''t'', ''T'', ''TRUE'', ''true'', ''True''] then Some True
      else if s \<in> set [''0'', ''f'', ''F'', ''FALSE'', ''false'', ''False''] then Some False else None)"

text \<open>\<^verbatim>\<open>strings.Split\<close> with a separator of one byte.\<close>

fun split_on :: "char \<Rightarrow> string \<Rightarrow> string list" where
  "split_on sep [] = [[]]"
| "split_on sep (c # s) =
     (if c = sep then [] # split_on sep s
      else case split_on sep s of [] \<Rightarrow> [[c]] | part # parts \<Rightarrow> (c # part) # parts)"

section \<open>Returning at the first error\<close>

definition andthen :: "'e + 'a \<Rightarrow> ('a \<Rightarrow> 'e + 'b) \<Rightarrow> 'e + 'b" where
  "andthen r k = (case r of Inl e \<Rightarrow> Inl e | Inr x \<Rightarrow> k x)"

definition ensure :: "bool \<Rightarrow> 'e \<Rightarrow> 'e + 'a \<Rightarrow> 'e + 'a" where
  "ensure b e r = (if b then r else Inl e)"

lemma andthen_Inr_iff: "andthen r k = Inr y \<longleftrightarrow> (\<exists>x. r = Inr x \<and> k x = Inr y)"
  by (cases r) (simp_all add: andthen_def)

lemma ensure_Inr_iff: "ensure b e r = Inr y \<longleftrightarrow> b \<and> r = Inr y"
  by (simp add: ensure_def)

lemma andthen_simps [simp]: "andthen (Inl e) k = Inl e" "andthen (Inr x) k = k x"
  by (simp_all add: andthen_def)

lemma ensure_simps [simp]: "ensure True e r = r" "ensure False e r = Inl e"
  by (simp_all add: ensure_def)

lemmas first_error = andthen_Inr_iff ensure_Inr_iff

end
