(* ===== verification/Net_Policy.thy ===== *)
theory Net_Policy
  imports Prelude "HOL-Library.Word"
begin

text \<open>
  The destination policy of \<^verbatim>\<open>internal/runtime/http.go\<close>: which hosts and addresses the control plane
  connects to on behalf of remote Agents. Addresses are the 32-bit and 128-bit words of
  \<^verbatim>\<open>net/netip\<close>; parsing of addresses, name resolution and connecting are arguments.
\<close>

unbundle bit_operations_syntax

section \<open>Addresses\<close>

datatype Addr = Addr4 "32 word" | Addr6 "128 word" string

text \<open>\<^verbatim>\<open>Is4In6\<close> and \<^verbatim>\<open>Unmap\<close>: an IPv4 address written as \<^verbatim>\<open>::ffff:a.b.c.d\<close>.\<close>

fun Is4In6 :: "Addr \<Rightarrow> bool" where
  "Is4In6 (Addr4 w) = False"
| "Is4In6 (Addr6 w zone) = (drop_bit 32 w = 0xFFFF)"

fun Unmap :: "Addr \<Rightarrow> Addr" where
  "Unmap (Addr4 w) = Addr4 w"
| "Unmap (Addr6 w zone) = (if Is4In6 (Addr6 w zone) then Addr4 (ucast w) else Addr6 w zone)"

text \<open>The predicates of \<^verbatim>\<open>netip.Addr\<close>, by leading bytes.\<close>

definition v4_byte :: "nat \<Rightarrow> 32 word \<Rightarrow> 32 word" where
  "v4_byte i w = drop_bit (24 - 8 * i) w AND 0xFF"

definition v6_u16 :: "128 word \<Rightarrow> 128 word" where
  "v6_u16 w = drop_bit 112 w"

fun IsLoopback :: "Addr \<Rightarrow> bool" where
  "IsLoopback (Addr4 w) = (v4_byte 0 w = 127)"
| "IsLoopback (Addr6 w zone) = (w = 1)"

fun IsLinkLocalUnicast :: "Addr \<Rightarrow> bool" where
  "IsLinkLocalUnicast (Addr4 w) = (v4_byte 0 w = 169 \<and> v4_byte 1 w = 254)"
| "IsLinkLocalUnicast (Addr6 w zone) = (v6_u16 w AND 0xFFC0 = 0xFE80)"

fun IsLinkLocalMulticast :: "Addr \<Rightarrow> bool" where
  "IsLinkLocalMulticast (Addr4 w) = (v4_byte 0 w = 224 \<and> v4_byte 1 w = 0 \<and> v4_byte 2 w = 0)"
| "IsLinkLocalMulticast (Addr6 w zone) = (v6_u16 w AND 0xFF0F = 0xFF02)"

fun IsPrivate :: "Addr \<Rightarrow> bool" where
  "IsPrivate (Addr4 w) =
     (v4_byte 0 w = 10 \<or> (v4_byte 0 w = 172 \<and> v4_byte 1 w AND 0xF0 = 16) \<or> (v4_byte 0 w = 192 \<and> v4_byte 1 w = 168))"
| "IsPrivate (Addr6 w zone) = (drop_bit 120 w AND 0xFE = 0xFC)"

text \<open>A \<^verbatim>\<open>netip.Prefix\<close>; its address never has a zone.\<close>

record Prefix =
  px_Addr :: Addr
  px_Bits :: int

definition BitLen :: "Addr \<Rightarrow> int" where
  "BitLen a = (case a of Addr4 _ \<Rightarrow> 32 | Addr6 _ _ \<Rightarrow> 128)"

definition Prefix_IsValid :: "Prefix \<Rightarrow> bool" where
  "Prefix_IsValid p \<longleftrightarrow> 0 \<le> px_Bits p \<and> px_Bits p \<le> BitLen (px_Addr p)"

definition Prefix_Contains :: "Prefix \<Rightarrow> Addr \<Rightarrow> bool" where
  "Prefix_Contains p a \<longleftrightarrow> Prefix_IsValid p \<and>
     (case (px_Addr p, a) of
        (Addr4 n, Addr4 w) \<Rightarrow> drop_bit (nat (32 - px_Bits p)) (w XOR n) = 0
      | (Addr6 n _, Addr6 w zone) \<Rightarrow> zone = '''' \<and> drop_bit (nat (128 - px_Bits p)) (w XOR n) = 0
      | _ \<Rightarrow> False)"

definition Prefix_Masked :: "Prefix \<Rightarrow> Prefix" where
  "Prefix_Masked p = p\<lparr>px_Addr :=
     (case px_Addr p of
        Addr4 n \<Rightarrow> let k = nat (32 - px_Bits p) in Addr4 (push_bit k (drop_bit k n))
      | Addr6 n zone \<Rightarrow> let k = nat (128 - px_Bits p) in Addr6 (push_bit k (drop_bit k n)) zone)\<rparr>"

section \<open>Policy\<close>

record HTTPPolicy =
  po_RequireHTTPS :: bool
  po_AllowPrivate :: bool
  po_AllowLoopback :: bool
  po_AllowLinkLocal :: bool
  po_AllowedHosts :: "string list"
  po_BlockedCIDRs :: "Prefix list"

definition DefaultHTTPPolicy :: HTTPPolicy where
  "DefaultHTTPPolicy = \<lparr> po_RequireHTTPS = False, po_AllowPrivate = True, po_AllowLoopback = True,
     po_AllowLinkLocal = False, po_AllowedHosts = [], po_BlockedCIDRs = [] \<rparr>"

text \<open>The parsers of \<^verbatim>\<open>net\<close>, \<^verbatim>\<open>net/netip\<close>, \<^verbatim>\<open>net/url\<close> and \<^verbatim>\<open>mime\<close> the runtimes call.\<close>

record netlib =
  net_ParseAddr :: "string \<Rightarrow> Addr option"
  net_Hostname :: "URL \<Rightarrow> string"
  net_SplitHostPort :: "string \<Rightarrow> (string \<times> string) option"
  net_ParseMediaType :: "string \<Rightarrow> string option"
  net_URL_String :: "URL \<Rightarrow> string"
  net_StatusText :: "int \<Rightarrow> string"

datatype policy_error =
    WildcardNeedsSuffix
  | InvalidAllowedHost string
  | InvalidBlockedCIDR nat

datatype denial =
    EmptyHostname
  | HostNotAllowed
  | BlockedAddress
  | LinkLocalDisabled
  | LoopbackDisabled
  | PrivateDisabled
  | HTTPSRequired
  | InvalidDialAddress

definition normalize_host :: "golib \<Rightarrow> string \<Rightarrow> policy_error + string" where
  "normalize_host L raw =
     (let host = lower_trim L raw; wildcard = HasPrefix host ''*.'';
          bare = (if wildcard then TrimPrefix host ''*.'' else host) in
      if wildcard \<and> bare = '''' then Inl WildcardNeedsSuffix
      else if bare = '''' \<or> ContainsAny bare [CHR ''/'', CHR '':'', CHR ''@'', CHR ''?'', CHR ''#'', CHR '' '', CHR 0x5C]
        then Inl (InvalidAllowedHost bare)
      else Inr (if wildcard then ''*.'' @ bare else bare))"

fun normalize_hosts :: "golib \<Rightarrow> string list \<Rightarrow> policy_error + string list" where
  "normalize_hosts L [] = Inr []"
| "normalize_hosts L (raw # rest) =
     (case normalize_host L raw of
        Inl e \<Rightarrow> Inl e
      | Inr host \<Rightarrow> (case normalize_hosts L rest of Inl e \<Rightarrow> Inl e | Inr hosts \<Rightarrow> Inr (host # hosts)))"

fun normalize_cidrs :: "nat \<Rightarrow> Prefix list \<Rightarrow> policy_error + Prefix list" where
  "normalize_cidrs index [] = Inr []"
| "normalize_cidrs index (p # rest) =
     (if \<not> Prefix_IsValid p then Inl (InvalidBlockedCIDR index)
      else case normalize_cidrs (index + 1) rest of Inl e \<Rightarrow> Inl e | Inr ps \<Rightarrow> Inr (Prefix_Masked p # ps))"

definition normalizeHTTPPolicy :: "golib \<Rightarrow> HTTPPolicy \<Rightarrow> policy_error + HTTPPolicy" where
  "normalizeHTTPPolicy L policy =
     (case normalize_hosts L (po_AllowedHosts policy) of
        Inl e \<Rightarrow> Inl e
      | Inr hosts \<Rightarrow>
          (case normalize_cidrs 0 (po_BlockedCIDRs policy) of
             Inl e \<Rightarrow> Inl e
           | Inr cidrs \<Rightarrow> Inr (policy\<lparr>po_AllowedHosts := hosts, po_BlockedCIDRs := cidrs\<rparr>)))"

definition hostAllowed :: "string \<Rightarrow> string list \<Rightarrow> bool" where
  "hostAllowed host allowed = list_ex (\<lambda>candidate.
     if HasPrefix candidate ''*.'' then
       (let suf = TrimPrefix candidate ''*'' in HasSuffix host suf \<and> host \<noteq> TrimPrefix suf ''.'')
     else host = candidate) allowed"

definition validateAddress :: "HTTPPolicy \<Rightarrow> Addr \<Rightarrow> denial option" where
  "validateAddress policy address =
     (let address = Unmap address in
      if list_ex (\<lambda>p. Prefix_Contains p address) (po_BlockedCIDRs policy) then Some BlockedAddress
      else if (IsLinkLocalUnicast address \<or> IsLinkLocalMulticast address) \<and> \<not> po_AllowLinkLocal policy then Some LinkLocalDisabled
      else if IsLoopback address \<and> \<not> po_AllowLoopback policy then Some LoopbackDisabled
      else if IsPrivate address \<and> \<not> po_AllowPrivate policy then Some PrivateDisabled
      else None)"

definition validateHost :: "golib \<Rightarrow> netlib \<Rightarrow> HTTPPolicy \<Rightarrow> string \<Rightarrow> denial option" where
  "validateHost L N policy host =
     (let host = lower L (TrimSuffix (TrimSpace host) ''.'') in
      if host = '''' then Some EmptyHostname
      else if po_AllowedHosts policy \<noteq> [] \<and> \<not> hostAllowed host (po_AllowedHosts policy) then Some HostNotAllowed
      else case net_ParseAddr N host of
        Some address \<Rightarrow> validateAddress policy address
      | None \<Rightarrow> None)"

section \<open>Connecting\<close>

text \<open>
  The \<^verbatim>\<open>DialContext\<close> of \<^verbatim>\<open>secureTransport\<close>: the name is resolved and each address checked before it is
  tried. The first component lists the addresses tried, in order.
\<close>

datatype dial_error = DialDenied denial | DialFailed

datatype dial_result = DialInvalid | ResolveFailed | NoAddresses | DialErrors "dial_error list" | Connected nat

fun dial_loop :: "HTTPPolicy \<Rightarrow> (Addr \<Rightarrow> nat option) \<Rightarrow> dial_error list \<Rightarrow> Addr list \<Rightarrow> Addr list \<times> dial_result" where
  "dial_loop policy dial errs [] = ([], if errs = [] then NoAddresses else DialErrors errs)"
| "dial_loop policy dial errs (candidate # rest) =
     (case validateAddress policy candidate of
        Some e \<Rightarrow> dial_loop policy dial (errs @ [DialDenied e]) rest
      | None \<Rightarrow>
          (case dial candidate of
             Some connection \<Rightarrow> ([candidate], Connected connection)
           | None \<Rightarrow>
               (case dial_loop policy dial (errs @ [DialFailed]) rest of
                  (tried, result) \<Rightarrow> (candidate # tried, result))))"

definition DialContext ::
  "netlib \<Rightarrow> HTTPPolicy \<Rightarrow> (string \<Rightarrow> Addr list option) \<Rightarrow> (string \<Rightarrow> Addr \<Rightarrow> nat option) \<Rightarrow> string \<Rightarrow> Addr list \<times> dial_result" where
  "DialContext N policy lookup dial address =
     (case net_SplitHostPort N address of
        None \<Rightarrow> ([], DialInvalid)
      | Some (host, port) \<Rightarrow>
          (case lookup host of
             None \<Rightarrow> ([], ResolveFailed)
           | Some addresses \<Rightarrow> dial_loop policy (dial port) [] addresses))"

section \<open>What the policy keeps out\<close>

text \<open>The IPv4 address an address stands for, in either notation.\<close>

definition stands_for :: "Addr \<Rightarrow> 32 word \<Rightarrow> bool" where
  "stands_for a w \<longleftrightarrow> a = Addr4 w \<or> (\<exists>zone. a = Addr6 (push_bit 32 0xFFFF OR ucast w) zone)"

lemma high_and_low:
  fixes c :: "128 word" and w :: "32 word"
  shows "drop_bit 32 (push_bit 32 c OR ucast w) = take_bit 96 c" "ucast (push_bit 32 c OR ucast w) = w"
proof -
  show "drop_bit 32 (push_bit 32 c OR ucast w) = take_bit 96 c"
    by (rule bit_eqI) (auto simp: bit_simps dest: bit_imp_le_length)
  show "ucast (push_bit 32 c OR ucast w) = w"
    by (rule bit_eqI) (auto simp: bit_simps)
qed

lemma stands_for_Unmap:
  assumes "stands_for a w"
  shows "Unmap a = Addr4 w"
  using assms high_and_low [of "0xFFFF" w] by (auto simp: stands_for_def)

lemma masked_eq:
  fixes x c :: "'a::len word"
  assumes "take_bit (k + m) x = x" and "take_bit m c = c" and "k + m \<le> LENGTH('a)"
  shows "x AND push_bit k (mask m) = push_bit k c \<longleftrightarrow> drop_bit k x = c"
proof -
  have x: "n < k + m" if "bit x n" for n using that assms(1) by (metis bit_take_bit_iff)
  have c: "n < m" if "bit c n" for n using that assms(2) by (metis bit_take_bit_iff)
  show ?thesis
  proof
    assume eq: "x AND push_bit k (mask m) = push_bit k c"
    show "drop_bit k x = c"
    proof (rule bit_eqI)
      fix n
      have "bit (x AND push_bit k (mask m)) (k + n) \<longleftrightarrow> bit (push_bit k c) (k + n)" by (simp add: eq)
      then show "bit (drop_bit k x) n \<longleftrightarrow> bit c n"
        using x [of "k + n"] c [of n] assms(3) by (auto simp: bit_simps)
    qed
  next
    assume "drop_bit k x = c"
    then show "x AND push_bit k (mask m) = push_bit k c"
      by (intro bit_eqI) (auto simp: bit_simps less_diff_conv2 add.commute [of m k] dest: x)
  qed
qed

lemma unat_v4_byte: "i \<le> 3 \<Longrightarrow> unat (v4_byte i w) = unat w div 2 ^ (24 - 8 * i) mod 256"
proof -
  have "v4_byte i w = take_bit 8 (drop_bit (24 - 8 * i) w)"
    by (simp add: v4_byte_def take_bit_eq_mask mask_eq_exp_minus_1)
  then have "unat (v4_byte i w) = take_bit 8 (drop_bit (24 - 8 * i) (unat w))"
    by (simp only: unsigned_take_bit_eq unat_drop_bit_eq)
  then show ?thesis by (simp add: take_bit_eq_mod drop_bit_eq_div)
qed

lemma v4_byte_eq:
  assumes "i \<le> 3" and "n < 256"
  shows "v4_byte i w = of_nat n \<longleftrightarrow> unat w div 2 ^ (24 - 8 * i) mod 256 = n"
proof -
  have "unat (of_nat n :: 32 word) = n" using assms(2) by (simp add: unsigned_of_nat take_bit_eq_mod)
  then show ?thesis unfolding unat_v4_byte [OF assms(1), symmetric] by (metis word_unat_eq_iff)
qed

text \<open>The ranges of \<^verbatim>\<open>netip\<close>, as ranges of numbers: an address with given leading bits.\<close>

lemma div_range:
  fixes n d q :: nat
  assumes "0 < d"
  shows "n div d = q \<longleftrightarrow> q * d \<le> n \<and> n < (q + 1) * d"
proof
  assume "n div d = q"
  then show "q * d \<le> n \<and> n < (q + 1) * d"
    using assms dividend_less_times_div [OF assms, of n] by (auto simp: mult.commute div_times_less_eq_dividend)
next
  assume "q * d \<le> n \<and> n < (q + 1) * d"
  then show "n div d = q" by (intro div_nat_eqI) (auto simp: mult.commute)
qed

lemma two_bytes:
  fixes m a b :: nat
  assumes "m < 65536" and "b < 256"
  shows "m div 256 mod 256 = a \<and> m mod 256 = b \<longleftrightarrow> m = a * 256 + b"
proof -
  have "m div 256 < 256" using assms(1) by (simp add: div_less_iff_less_mult)
  then have "m div 256 mod 256 = m div 256" by simp
  then show ?thesis using assms(2) by (auto simp: div_mult_mod_eq)
qed

lemma v4_bytes:
  fixes w :: "32 word"
  defines "m \<equiv> unat w div 65536"
  shows "m < 65536" "a < 256 \<Longrightarrow> v4_byte 0 w = of_nat a \<longleftrightarrow> m div 256 mod 256 = a" "b < 256 \<Longrightarrow> v4_byte 1 w = of_nat b \<longleftrightarrow> m mod 256 = b"
    "unat w div 16777216 = m div 256"
proof -
  have "unat w < 2 ^ 32" using unsigned_less [where 'a = nat, of w] by simp
  then show "m < 65536" unfolding m_def by (simp add: div_less_iff_less_mult)
  show *: "unat w div 16777216 = m div 256" unfolding m_def by (simp add: div_mult2_eq [symmetric])
  show "v4_byte 0 w = of_nat a \<longleftrightarrow> m div 256 mod 256 = a" if "a < 256"
    using v4_byte_eq [of 0 a w] that * by simp
  show "v4_byte 1 w = of_nat b \<longleftrightarrow> m mod 256 = b" if "b < 256"
    using v4_byte_eq [of 1 b w] that unfolding m_def by simp
qed

lemma IsLoopback_range: "IsLoopback (Addr4 w) \<longleftrightarrow> 0x7F000000 \<le> w \<and> w \<le> 0x7FFFFFFF"
proof -
  have "unat w div 16777216 < 256" using v4_bytes(1,4) [of w] by (simp add: div_less_iff_less_mult)
  then have "IsLoopback (Addr4 w) \<longleftrightarrow> unat w div 16777216 = 127" using v4_bytes(2) [of 127 w] v4_bytes(4) [of w] by simp
  then show ?thesis by (simp add: div_range word_le_nat_alt less_eq_Suc_le)
qed

lemma link_local_range: "IsLinkLocalUnicast (Addr4 w) \<longleftrightarrow> 0xA9FE0000 \<le> w \<and> w \<le> 0xA9FEFFFF"
proof -
  have "IsLinkLocalUnicast (Addr4 w) \<longleftrightarrow> unat w div 65536 = 169 * 256 + 254"
    using v4_bytes(2) [of 169 w] v4_bytes(3) [of 254 w] two_bytes [OF v4_bytes(1), of 254 w 169] by simp
  then show ?thesis by (simp add: div_range word_le_nat_alt less_eq_Suc_le)
qed

lemma v4_nibble: "v4_byte 1 w AND 0xF0 = 16 \<longleftrightarrow> unat w div 65536 mod 256 div 16 = 1"
proof -
  have "v4_byte 1 w AND push_bit 4 (mask 4) = push_bit 4 1 \<longleftrightarrow> drop_bit 4 (v4_byte 1 w) = 1"
    by (rule masked_eq) (simp_all add: v4_byte_def take_bit_eq_mask mask_eq_exp_minus_1 and.assoc)
  moreover have "drop_bit 4 (v4_byte 1 w) = 1 \<longleftrightarrow> unat (drop_bit 4 (v4_byte 1 w)) = 1"
    by (simp only: word_unat_eq_iff unat_1)
  moreover have "unat (drop_bit 4 (v4_byte 1 w)) = unat w div 65536 mod 256 div 16"
    using unat_v4_byte [of 1 w] unfolding unat_drop_bit_eq by (simp add: drop_bit_eq_div)
  ultimately show ?thesis by (simp add: mask_eq_exp_minus_1)
qed

lemma twelve_bits:
  fixes m :: nat
  assumes "m < 65536"
  shows "m div 256 mod 256 = 172 \<and> m mod 256 div 16 = 1 \<longleftrightarrow> m div 16 = 0xAC1"
proof -
  have "m div 256 < 256" using assms by (simp add: div_less_iff_less_mult)
  then have "m div 256 mod 256 = m div 16 div 16" by (simp add: div_mult2_eq [symmetric])
  moreover have "m mod 256 div 16 = m div 16 mod 16" using mod_mult2_eq [of m 16 16] by simp
  moreover have "q div 16 = 172 \<and> q mod 16 = 1 \<longleftrightarrow> q = 0xAC1" for q :: nat
  proof
    assume "q div 16 = 172 \<and> q mod 16 = 1"
    then show "q = 0xAC1" using div_mult_mod_eq [of q 16] by linarith
  qed simp
  ultimately show ?thesis by simp
qed

lemma private_range:
  "IsPrivate (Addr4 w) \<longleftrightarrow> 0x0A000000 \<le> w \<and> w \<le> 0x0AFFFFFF \<or> 0xAC100000 \<le> w \<and> w \<le> 0xAC1FFFFF
     \<or> 0xC0A80000 \<le> w \<and> w \<le> 0xC0A8FFFF"
proof -
  let ?m = "unat w div 65536"
  note bytes = v4_bytes [where w = w]
  have "?m div 256 < 256" using bytes(1) by (simp add: div_less_iff_less_mult)
  then have "v4_byte 0 w = 10 \<longleftrightarrow> unat w div 16777216 = 10" using bytes(2) [of 10] bytes(4) by simp
  then have "v4_byte 0 w = 10 \<longleftrightarrow> 0x0A000000 \<le> w \<and> w \<le> 0x0AFFFFFF"
    by (simp add: div_range word_le_nat_alt less_eq_Suc_le)
  moreover have "v4_byte 0 w = 172 \<and> v4_byte 1 w AND 0xF0 = 16 \<longleftrightarrow> ?m div 16 = 0xAC1"
    using bytes(2) [of 172] v4_nibble [of w] twelve_bits [OF bytes(1)] by simp
  moreover have "?m div 16 = unat w div 1048576" by (simp add: div_mult2_eq [symmetric])
  moreover have "unat w div 1048576 = 0xAC1 \<longleftrightarrow> 0xAC100000 \<le> w \<and> w \<le> 0xAC1FFFFF"
    by (simp add: div_range word_le_nat_alt less_eq_Suc_le)
  moreover have "v4_byte 0 w = 192 \<and> v4_byte 1 w = 168 \<longleftrightarrow> ?m = 192 * 256 + 168"
    using bytes(2) [of 192] bytes(3) [of 168] two_bytes [OF bytes(1), of 168 192] by simp
  moreover have "?m = 192 * 256 + 168 \<longleftrightarrow> 0xC0A80000 \<le> w \<and> w \<le> 0xC0A8FFFF"
    by (simp add: div_range word_le_nat_alt less_eq_Suc_le)
  ultimately show ?thesis by simp
qed

text \<open>\<^verbatim>\<open>fe80::/10\<close> and \<^verbatim>\<open>fc00::/7\<close>.\<close>

lemma link_local_bits: "IsLinkLocalUnicast (Addr6 w zone) \<longleftrightarrow> drop_bit 118 w = 0x3FA"
proof -
  have "v6_u16 w AND push_bit 6 (mask 10) = push_bit 6 0x3FA \<longleftrightarrow> drop_bit 6 (v6_u16 w) = 0x3FA"
  proof (rule masked_eq)
    show "take_bit (6 + 10) (v6_u16 w) = v6_u16 w"
      by (rule bit_eqI) (auto simp: v6_u16_def bit_simps dest: bit_imp_le_length)
  qed (simp_all add: take_bit_eq_mod)
  then show ?thesis by (simp add: v6_u16_def mask_eq_exp_minus_1)
qed

lemma private_bits: "IsPrivate (Addr6 w zone) \<longleftrightarrow> drop_bit 121 w = 0x7E"
proof -
  have "drop_bit 120 w AND push_bit 1 (mask 7) = push_bit 1 0x7E \<longleftrightarrow> drop_bit 1 (drop_bit 120 w) = 0x7E"
  proof (rule masked_eq)
    show "take_bit (1 + 7) (drop_bit 120 w) = drop_bit 120 w"
      by (rule bit_eqI) (auto simp: bit_simps dest: bit_imp_le_length)
  qed (simp_all add: take_bit_eq_mod)
  then show ?thesis by (simp add: mask_eq_exp_minus_1)
qed

lemma Unmap_high: "drop_bit n w \<noteq> 0 \<Longrightarrow> 48 \<le> n \<Longrightarrow> Unmap (Addr6 w zone) = Addr6 w zone"
proof -
  assume high: "drop_bit n w \<noteq> 0" "48 \<le> n"
  have "drop_bit 32 w \<noteq> 0xFFFF"
  proof
    assume "drop_bit 32 w = 0xFFFF"
    then have "drop_bit (n - 48) (drop_bit 16 (drop_bit 32 w)) = 0" by simp
    then show False using high by simp
  qed
  then show ?thesis by simp
qed

lemma dial_loop_sound:
  assumes "dial_loop policy dial errs addresses = (tried, result)"
  shows "set tried \<subseteq> {a \<in> set addresses. validateAddress policy a = None}"
    and "result = Connected connection \<Longrightarrow> tried \<noteq> [] \<and> dial (last tried) = Some connection"
    and "\<exists>a \<in> set addresses. validateAddress policy a = None \<and> dial a \<noteq> None \<Longrightarrow> \<exists>c. result = Connected c"
proof -
  have "set tried \<subseteq> {a \<in> set addresses. validateAddress policy a = None}
    \<and> (\<forall>c. result = Connected c \<longrightarrow> tried \<noteq> [] \<and> dial (last tried) = Some c)
    \<and> ((\<exists>a \<in> set addresses. validateAddress policy a = None \<and> dial a \<noteq> None) \<longrightarrow> (\<exists>c. result = Connected c))"
    using assms
  proof (induction addresses arbitrary: errs tried)
    case (Cons a rest)
    consider (denied) e where "validateAddress policy a = Some e" | (connected) c where "validateAddress policy a = None" "dial a = Some c"
      | (failed) "validateAddress policy a = None" "dial a = None" by fastforce
    then show ?case
    proof cases
      case denied
      then show ?thesis using Cons.IH [of "errs @ [DialDenied e]" tried] Cons.prems by auto
    next
      case connected
      then show ?thesis using Cons.prems by auto
    next
      case failed
      then obtain tried' where "dial_loop policy dial (errs @ [DialFailed]) rest = (tried', result)" "tried = a # tried'"
        using Cons.prems by (auto split: prod.splits)
      then show ?thesis using Cons.IH [of "errs @ [DialFailed]" tried'] failed by auto
    qed
  qed (auto split: if_splits)
  then show "set tried \<subseteq> {a \<in> set addresses. validateAddress policy a = None}"
    "result = Connected connection \<Longrightarrow> tried \<noteq> [] \<and> dial (last tried) = Some connection"
    "\<exists>a \<in> set addresses. validateAddress policy a = None \<and> dial a \<noteq> None \<Longrightarrow> \<exists>c. result = Connected c"
    by blast+
qed

section \<open>Properties\<close>

text \<open>What an address that passes the policy is not.\<close>

lemma permitted_address:
  assumes "validateAddress policy a = None"
  shows "p \<in> set (po_BlockedCIDRs policy) \<Longrightarrow> \<not> Prefix_Contains p (Unmap a)"
    "\<not> po_AllowLinkLocal policy \<Longrightarrow> \<not> IsLinkLocalUnicast (Unmap a)"
    "\<not> po_AllowLoopback policy \<Longrightarrow> \<not> IsLoopback (Unmap a)"
    "\<not> po_AllowPrivate policy \<Longrightarrow> \<not> IsPrivate (Unmap a)"
  using assms by (auto simp: validateAddress_def Let_def list_ex_iff split: if_splits)

lemma Unmap_special:
  "drop_bit 118 w = 0x3FA \<Longrightarrow> Unmap (Addr6 w zone) = Addr6 w zone"
  "drop_bit 121 w = 0x7E \<Longrightarrow> Unmap (Addr6 w zone) = Addr6 w zone"
  "Unmap (Addr6 1 zone) = Addr6 1 zone"
  using Unmap_high [of 118 w zone] Unmap_high [of 121 w zone] by simp_all

lemma permitted_outside:
  assumes "validateAddress policy a = None"
  shows "\<not> po_AllowLinkLocal policy \<Longrightarrow> stands_for a w \<Longrightarrow> \<not> (0xA9FE0000 \<le> w \<and> w \<le> 0xA9FEFFFF)"
    "\<not> po_AllowLinkLocal policy \<Longrightarrow> a = Addr6 v zone \<Longrightarrow> drop_bit 118 v \<noteq> 0x3FA"
    "\<not> po_AllowLoopback policy \<Longrightarrow> stands_for a w \<Longrightarrow> \<not> (0x7F000000 \<le> w \<and> w \<le> 0x7FFFFFFF)"
    "\<not> po_AllowLoopback policy \<Longrightarrow> a \<noteq> Addr6 1 zone"
    "\<not> po_AllowPrivate policy \<Longrightarrow> stands_for a w \<Longrightarrow> \<not> (0x0A000000 \<le> w \<and> w \<le> 0x0AFFFFFF
       \<or> 0xAC100000 \<le> w \<and> w \<le> 0xAC1FFFFF \<or> 0xC0A80000 \<le> w \<and> w \<le> 0xC0A8FFFF)"
    "\<not> po_AllowPrivate policy \<Longrightarrow> a = Addr6 v zone \<Longrightarrow> drop_bit 121 v \<noteq> 0x7E"
proof -
  note permitted = permitted_address [OF assms]
  show "\<not> (0xA9FE0000 \<le> w \<and> w \<le> 0xA9FEFFFF)" if "\<not> po_AllowLinkLocal policy" "stands_for a w"
    using permitted(2) [OF that(1)] unfolding stands_for_Unmap [OF that(2)] link_local_range by blast
  show "drop_bit 118 v \<noteq> 0x3FA" if "\<not> po_AllowLinkLocal policy" "a = Addr6 v zone"
    proof
    assume bits: "drop_bit 118 v = 0x3FA"
    show False using permitted(2) [OF that(1)] bits unfolding that(2) Unmap_special(1) [OF bits] link_local_bits by blast
  qed
  show "\<not> (0x7F000000 \<le> w \<and> w \<le> 0x7FFFFFFF)" if "\<not> po_AllowLoopback policy" "stands_for a w"
    using permitted(3) [OF that(1)] unfolding stands_for_Unmap [OF that(2)] IsLoopback_range by blast
  show "a \<noteq> Addr6 1 zone" if "\<not> po_AllowLoopback policy"
    using permitted(3) [OF that(1)] by auto
  show "\<not> (0x0A000000 \<le> w \<and> w \<le> 0x0AFFFFFF
       \<or> 0xAC100000 \<le> w \<and> w \<le> 0xAC1FFFFF \<or> 0xC0A80000 \<le> w \<and> w \<le> 0xC0A8FFFF)" if "\<not> po_AllowPrivate policy" "stands_for a w"
    using permitted(4) [OF that(1)] unfolding stands_for_Unmap [OF that(2)] private_range by blast
  show "drop_bit 121 v \<noteq> 0x7E" if "\<not> po_AllowPrivate policy" "a = Addr6 v zone"
    proof
    assume bits: "drop_bit 121 v = 0x7E"
    show False using permitted(4) [OF that(1)] bits unfolding that(2) Unmap_special(2) [OF bits] private_bits by blast
  qed
qed

text \<open>
  A blocked prefix that is written with IPv4-mapped addresses (\<^verbatim>\<open>::ffff:a.b.c.d/96\<close> or longer) blocks nothing: the addresses
  it names are unmapped before they are compared.
\<close>

lemma mapped_prefix_blocks_nothing:
  assumes p: "px_Addr p = Addr6 n zone" "Is4In6 (Addr6 n zone)" "96 \<le> px_Bits p"
  shows "\<not> Prefix_Contains p (Unmap a)"
proof
  assume c: "Prefix_Contains p (Unmap a)"
  then obtain w z where w: "Unmap a = Addr6 w z" and 0: "drop_bit (nat (128 - px_Bits p)) (w XOR n) = 0"
    using p(1) by (auto simp: Prefix_Contains_def split: Addr.splits)
  let ?k = "nat (128 - px_Bits p)"
  have "drop_bit 32 (w XOR n) = drop_bit (32 - ?k) (drop_bit ?k (w XOR n))" using p(3) by (simp add: drop_bit_drop_bit)
  then have "drop_bit 32 w XOR drop_bit 32 n = 0" unfolding 0 by (simp del: drop_bit_drop_bit)
  then have "drop_bit 32 w = drop_bit 32 n" by (auto simp: bit_eq_iff bit_xor_iff bit_drop_bit_eq)
  then have "Is4In6 (Addr6 w z)" using p(2) by simp
  moreover have "\<not> Is4In6 (Addr6 w z)" using w by (cases a) (auto split: if_splits)
  ultimately show False by contradiction
qed

text \<open>
  C12: The network policy holds at the moment of connecting. Whatever a host name resolves to,
  and whatever it resolved to before, every address that is tried, and so the one a connection is made
  to, is a resolved address that is in no blocked network and, unless the policy allows it, not an
  address of the link-local, loopback or private ranges: for IPv4 also when written as an
  IPv4-mapped IPv6 address. And a connection is made whenever some permitted address answers.
\<close>

theorem network_policy_enforced:
  assumes "DialContext N policy lookup dial address = (tried, result)" and "net_SplitHostPort N address = Some (host, port)"
    and "lookup host = Some addresses"
  shows "(\<forall>a \<in> set tried. a \<in> set addresses
      \<and> (\<forall>p \<in> set (po_BlockedCIDRs policy). \<not> Prefix_Contains p (Unmap a))
      \<and> (\<not> po_AllowLinkLocal policy \<longrightarrow>
           \<not> (\<exists>w. stands_for a w \<and> 0xA9FE0000 \<le> w \<and> w \<le> 0xA9FEFFFF) \<and> \<not> (\<exists>w zone. a = Addr6 w zone \<and> drop_bit 118 w = 0x3FA))
      \<and> (\<not> po_AllowLoopback policy \<longrightarrow>
           \<not> (\<exists>w. stands_for a w \<and> 0x7F000000 \<le> w \<and> w \<le> 0x7FFFFFFF) \<and> \<not> (\<exists>zone. a = Addr6 1 zone))
      \<and> (\<not> po_AllowPrivate policy \<longrightarrow>
           \<not> (\<exists>w. stands_for a w \<and> (0x0A000000 \<le> w \<and> w \<le> 0x0AFFFFFF \<or> 0xAC100000 \<le> w \<and> w \<le> 0xAC1FFFFF
                \<or> 0xC0A80000 \<le> w \<and> w \<le> 0xC0A8FFFF)) \<and> \<not> (\<exists>w zone. a = Addr6 w zone \<and> drop_bit 121 w = 0x7E)))
    \<and> (\<forall>c. result = Connected c \<longrightarrow> tried \<noteq> [] \<and> dial port (last tried) = Some c)
    \<and> ((\<exists>a \<in> set addresses. validateAddress policy a = None \<and> dial port a \<noteq> None) \<longrightarrow> (\<exists>c. result = Connected c))"
proof -
  have loop: "dial_loop policy (dial port) [] addresses = (tried, result)"
    using assms by (simp add: DialContext_def)
  note sound = dial_loop_sound [OF loop]
  have ok: "a \<in> set addresses" "validateAddress policy a = None" if "a \<in> set tried" for a
    using that sound(1) by auto
  show ?thesis
    using ok(1) permitted_address(1) [OF ok(2)] permitted_outside [OF ok(2)] sound(2,3) by (intro conjI ballI) blast+
qed

text \<open>
  A name that resolves to the metadata service of a cloud, in both notations, and to a public address,
  under the default policy.
\<close>

definition sample_net :: netlib where
  "sample_net = \<lparr> net_ParseAddr = (\<lambda>_. None), net_Hostname = u_Host,
     net_SplitHostPort = (\<lambda>s. Some (s, ''80'')), net_ParseMediaType = (\<lambda>s. Some s),
     net_URL_String = (\<lambda>u. u_Scheme u @ ''://'' @ u_Host u @ u_Path u), net_StatusText = Itoa \<rparr>"

definition sample_addresses :: "Addr list" where
  "sample_addresses = [Addr4 0xA9FEA9FE, Addr6 0xFFFFA9FEA9FE '''', Addr4 0x08080808]"

theorem network_policy_enforced_witness:
  "DialContext sample_net DefaultHTTPPolicy (\<lambda>_. Some sample_addresses) (\<lambda>_ _. Some 7) ''host''
     = ([Addr4 0x08080808], Connected 7)
   \<and> \<not> (\<exists>w. stands_for (Addr4 0x08080808) w \<and> 0xA9FE0000 \<le> w \<and> w \<le> 0xA9FEFFFF)"
proof -
  have run: "DialContext sample_net DefaultHTTPPolicy (\<lambda>_. Some sample_addresses) (\<lambda>_ _. Some 7) ''host''
     = ([Addr4 0x08080808], Connected 7)" by code_simp
  have "net_SplitHostPort sample_net ''host'' = Some (''host'', ''80'')" by (simp add: sample_net_def)
  from network_policy_enforced [OF run this refl]
  have "\<not> po_AllowLinkLocal DefaultHTTPPolicy \<longrightarrow>
      \<not> (\<exists>w. stands_for (Addr4 0x08080808) w \<and> 0xA9FE0000 \<le> w \<and> w \<le> 0xA9FEFFFF)" by simp
  with run show ?thesis by (simp add: DefaultHTTPPolicy_def)
qed

end
