(* ===== verification/Domain_Agent.thy ===== *)
theory Domain_Agent
  imports Prelude
begin

text \<open>
  \<^verbatim>\<open>internal/domain/agent.go\<close>: the Agent definition, its normalisation and its validation.
  Normalised capabilities are canonical keys (lower-case words joined by single hyphens), and
  normalising an accepted Agent a second time changes nothing.
\<close>

section \<open>Data\<close>

record Agent =
  a_ID :: string
  a_Name :: string
  a_SystemPrompt :: string
  a_Runtime :: string
  a_Protocol :: string
  a_Endpoint :: string
  a_Model :: string
  a_Capabilities :: "string list"
  a_EffectIdempotency :: string
  a_MaxConcurrency :: int
  a_Priority :: int
  a_CreatedAt :: time
  a_UpdatedAt :: time
  a_Version :: int

definition EffectIdempotencyRequired :: string where
  "EffectIdempotencyRequired = ''required''"

datatype agent_error =
    AgentIDRequired
  | AgentNameRequired
  | BadIdentifier string
  | ProtocolRequiresRuntime
  | EndpointRequiresRuntime
  | EndpointNotAbsolute
  | ModelRequiresRuntime
  | BadEffectIdempotency
  | EffectIdempotencyRequiresRuntime
  | NegativeMaxConcurrency
  | PriorityOutOfRange
  | BadCapability string
  | BlankCapability
  | NewAgentVersion

section \<open>Capabilities and identifiers\<close>

definition cap_char :: "char \<Rightarrow> bool" where
  "cap_char c \<longleftrightarrow> lower_alpha c \<or> numeric c \<or> c = CHR ''.''"

definition cap_separator :: "char \<Rightarrow> bool" where
  "cap_separator c \<longleftrightarrow> c \<in> {CHR ''-'', CHR ''_'', CHR '' '', CHR 0x09, CHR 0x0A, CHR 0x0D}"

text \<open>
  The loop over the value, with the builder's contents and the flag \<^verbatim>\<open>separator\<close>. A rune outside
  ASCII is rejected by the source and so is each of its bytes here.
\<close>

fun capability_loop :: "string \<Rightarrow> bool \<Rightarrow> string \<Rightarrow> string option" where
  "capability_loop normalized separator [] = Some normalized"
| "capability_loop normalized separator (c # cs) =
     (if cap_char c then
        capability_loop
          (normalized @ (if separator \<and> normalized \<noteq> [] then ''-'' else []) @ [c]) False cs
      else if cap_separator c then capability_loop normalized (normalized \<noteq> []) cs
      else None)"

definition NormalizeCapability :: "golib \<Rightarrow> string \<Rightarrow> agent_error + string" where
  "NormalizeCapability L value =
     (let value = lower_trim L value in
      case capability_loop [] False value of
        None \<Rightarrow> Inl (BadCapability value)
      | Some result \<Rightarrow> if result = '''' then Inl BlankCapability else Inr result)"

definition identifier_char :: "char \<Rightarrow> bool" where
  "identifier_char c \<longleftrightarrow> lower_alpha c \<or> numeric c \<or> c \<in> {CHR ''-'', CHR ''_'', CHR ''.''}"

definition NormalizeAgentIdentifier :: "golib \<Rightarrow> string \<Rightarrow> string \<Rightarrow> agent_error + string" where
  "NormalizeAgentIdentifier L field value =
     (let value = lower_trim L value in
      if value = '''' then Inr ''''
      else if list_all identifier_char value then Inr value
      else Inl (BadIdentifier field))"

text \<open>Normalise a list of capabilities, dropping the repetitions of an earlier one.\<close>

fun capabilities_loop ::
  "golib \<Rightarrow> string list \<Rightarrow> string list \<Rightarrow> agent_error + string list" where
  "capabilities_loop L acc [] = Inr acc"
| "capabilities_loop L acc (capability # rest) =
     (case NormalizeCapability L capability of
        Inl e \<Rightarrow> Inl e
      | Inr normalized \<Rightarrow>
          capabilities_loop L (if normalized \<in> set acc then acc else acc @ [normalized]) rest)"

section \<open>Validation\<close>

definition normalize_fields :: "golib \<Rightarrow> Agent \<Rightarrow> Agent" where
  "normalize_fields L a = a\<lparr>
     a_ID := TrimSpace (a_ID a),
     a_Name := TrimSpace (a_Name a),
     a_SystemPrompt := TrimSpace (a_SystemPrompt a),
     a_Runtime := lower_trim L (a_Runtime a),
     a_Protocol := lower_trim L (a_Protocol a),
     a_Endpoint := TrimSpace (a_Endpoint a),
     a_Model := TrimSpace (a_Model a),
     a_EffectIdempotency := lower_trim L (a_EffectIdempotency a)\<rparr>"

text \<open>The checks on the normalised fields, in the order of the source.\<close>

definition endpoint_absolute :: "golib \<Rightarrow> string \<Rightarrow> bool" where
  "endpoint_absolute L endpoint =
     (case lib_url_Parse L endpoint of
        None \<Rightarrow> False
      | Some u \<Rightarrow> u_Scheme u \<noteq> '''' \<and> \<not> (u_Host u = '''' \<and> u_Opaque u = '''' \<and> u_Path u = ''''))"

definition field_error :: "golib \<Rightarrow> Agent \<Rightarrow> agent_error option" where
  "field_error L a =
     (if a_ID a = '''' then Some AgentIDRequired
      else if a_Name a = '''' then Some AgentNameRequired
      else case NormalizeAgentIdentifier L ''runtime'' (a_Runtime a) of
        Inl e \<Rightarrow> Some e
      | Inr _ \<Rightarrow>
     (case NormalizeAgentIdentifier L ''protocol'' (a_Protocol a) of
        Inl e \<Rightarrow> Some e
      | Inr _ \<Rightarrow>
      if a_Protocol a \<noteq> '''' \<and> a_Runtime a = '''' then Some ProtocolRequiresRuntime
      else if a_Endpoint a \<noteq> '''' \<and> (a_Runtime a = '''' \<or> a_Protocol a = '''') then
        Some EndpointRequiresRuntime
      else if a_Endpoint a \<noteq> '''' \<and> \<not> endpoint_absolute L (a_Endpoint a) then
        Some EndpointNotAbsolute
      else if a_Model a \<noteq> '''' \<and> (a_Runtime a = '''' \<or> a_Protocol a = '''') then
        Some ModelRequiresRuntime
      else if a_EffectIdempotency a \<noteq> '''' \<and> a_EffectIdempotency a \<noteq> EffectIdempotencyRequired then
        Some BadEffectIdempotency
      else if a_EffectIdempotency a \<noteq> '''' \<and> (a_Runtime a = '''' \<or> a_Protocol a = '''') then
        Some EffectIdempotencyRequiresRuntime
      else if a_MaxConcurrency a < 0 then Some NegativeMaxConcurrency
      else if a_Priority a < -1000 \<or> 1000 < a_Priority a then Some PriorityOutOfRange
      else None))"

definition NormalizeAndValidate :: "golib \<Rightarrow> Agent \<Rightarrow> agent_error + Agent" where
  "NormalizeAndValidate L a =
     (let a = normalize_fields L a in
      case field_error L a of
        Some e \<Rightarrow> Inl e
      | None \<Rightarrow>
          (case capabilities_loop L [] (a_Capabilities a) of
             Inl e \<Rightarrow> Inl e
           | Inr normalizedCapabilities \<Rightarrow> Inr (a\<lparr>a_Capabilities := normalizedCapabilities\<rparr>)))"

definition Agent_InitializeForCreate :: "golib \<Rightarrow> Agent \<Rightarrow> time \<Rightarrow> agent_error + Agent" where
  "Agent_InitializeForCreate L a now =
     (case NormalizeAndValidate L a of
        Inl e \<Rightarrow> Inl e
      | Inr a \<Rightarrow>
          let a = (if IsZero (a_CreatedAt a) then a\<lparr>a_CreatedAt := now\<rparr> else a);
              a = (if IsZero (a_UpdatedAt a) then a\<lparr>a_UpdatedAt := a_CreatedAt a\<rparr> else a);
              a = (if a_Version a = 0 then a\<lparr>a_Version := 1\<rparr> else a)
          in if a_Version a \<noteq> 1 then Inl NewAgentVersion else Inr a)"

section \<open>Canonical capabilities\<close>

text \<open>
  The canonical keys: words of capability characters joined by single hyphens, with none at
  either end.
\<close>

fun canonical_tail :: "string \<Rightarrow> bool" where
  "canonical_tail [] = True"
| "canonical_tail (c # cs) =
     (if c = CHR ''-'' then cs \<noteq> [] \<and> cap_char (hd cs) \<and> canonical_tail (tl cs)
      else cap_char c \<and> canonical_tail cs)"

definition canonical_capability :: "string \<Rightarrow> bool" where
  "canonical_capability s \<longleftrightarrow> s \<noteq> [] \<and> cap_char (hd s) \<and> canonical_tail (tl s)"

lemma cap_char_not_sep: "cap_char c \<Longrightarrow> \<not> cap_separator c"
  by (auto simp: cap_char_def cap_separator_def lower_alpha_def numeric_def char_between)

lemma cap_char_hyphen [simp]: "\<not> cap_char CHR ''-''" "cap_separator CHR ''-''"
  by (simp_all add: cap_char_def cap_separator_def lower_alpha_def numeric_def char_between)

lemma cap_char_plain: "cap_char c \<Longrightarrow> is_ascii c \<and> \<not> upper_alpha c \<and> solid c"
  unfolding cap_char_def using plain_chars solid_chars by blast

lemma canonical_tail_snoc:
  "canonical_tail s \<Longrightarrow> cap_char c \<Longrightarrow> canonical_tail (s @ [c])"
  by (induction s rule: canonical_tail.induct) (auto simp: neq_Nil_conv)

lemma canonical_tail_sep_snoc:
  "canonical_tail s \<Longrightarrow> cap_char c \<Longrightarrow> canonical_tail (s @ [CHR ''-'', c])"
  by (induction s rule: canonical_tail.induct) (auto simp: neq_Nil_conv)

lemma canonical_snoc:
  assumes "canonical_capability s" and "cap_char c"
  shows "canonical_capability (s @ [c])" and "canonical_capability (s @ [CHR ''-'', c])"
  using assms canonical_tail_snoc canonical_tail_sep_snoc
  by (auto simp: canonical_capability_def)

lemma capability_loop_canonical:
  "capability_loop out sep s = Some r \<Longrightarrow> out = [] \<or> canonical_capability out \<Longrightarrow>
     r = [] \<or> canonical_capability r"
proof (induction out sep s rule: capability_loop.induct)
  case (2 out sep c cs)
  show ?case
  proof (cases "cap_char c")
    case True
    let ?out = "out @ (if sep \<and> out \<noteq> [] then ''-'' else []) @ [c]"
    have "canonical_capability ?out"
      using 2(4) True canonical_snoc by (cases "out = []") (auto simp: canonical_capability_def)
    then show ?thesis using 2(1) [OF True] 2(3) True by simp
  next
    case False
    with 2 show ?thesis by (auto split: if_splits)
  qed
qed auto

text \<open>On a canonical key the loop rebuilds the key.\<close>

lemma capability_loop_tail:
  "canonical_tail s \<Longrightarrow> out \<noteq> [] \<Longrightarrow> capability_loop out False s = Some (out @ s)"
proof (induction s arbitrary: out rule: canonical_tail.induct)
  case (2 c cs)
  show ?case
  proof (cases "c = CHR ''-''")
    case True
    with 2 obtain d ds where cs: "cs = d # ds" "cap_char d" "canonical_tail ds"
      by (auto simp: neq_Nil_conv)
    then have "capability_loop (out @ ''-'' @ [d]) False ds = Some ((out @ ''-'' @ [d]) @ ds)"
      using 2(1) [OF True, of "out @ ''-'' @ [d]"] by simp
    with True cs 2(4) show ?thesis by simp
  next
    case False
    with 2 show ?thesis by simp
  qed
qed simp

lemma canonical_loop_id:
  assumes "canonical_capability s"
  shows "capability_loop [] False s = Some s"
proof -
  obtain c cs where s: "s = c # cs" "cap_char c" "canonical_tail cs"
    using assms by (auto simp: canonical_capability_def neq_Nil_conv)
  then show ?thesis using capability_loop_tail [of cs "[c]"] by simp
qed

lemma canonical_tail_chars:
  "canonical_tail s \<Longrightarrow> c \<in> set s \<Longrightarrow> cap_char c \<or> c = CHR ''-''"
  by (induction s rule: canonical_tail.induct) (auto simp: neq_Nil_conv split: if_splits)

lemma canonical_tail_last: "canonical_tail s \<Longrightarrow> s \<noteq> [] \<Longrightarrow> cap_char (last s)"
proof (induction s rule: canonical_tail.induct)
  case (2 c cs)
  then show ?case by (cases cs) (auto simp: neq_Nil_conv split: if_splits)
qed simp

lemma canonical_last: "canonical_capability s \<Longrightarrow> cap_char (last s)"
  using canonical_tail_last [of "tl s"] by (cases s) (auto simp: canonical_capability_def)

lemma canonical_plain: "canonical_capability s \<Longrightarrow> list_all (\<lambda>c. is_ascii c \<and> \<not> upper_alpha c) s"
proof -
  assume "canonical_capability s"
  then have "cap_char c \<or> c = CHR ''-''" if "c \<in> set s" for c
    using that canonical_tail_chars by (cases s) (auto simp: canonical_capability_def)
  then show ?thesis
    using cap_char_plain plain_chars by (auto simp: list_all_iff)
qed

lemma canonical_lower_trim: "canonical_capability s \<Longrightarrow> lower_trim L s = s"
  using cap_char_plain canonical_last canonical_plain
  by (simp add: TrimSpace_id ToLower_id canonical_capability_def)

lemma NormalizeCapability_canonical:
  "NormalizeCapability L s = Inr r \<Longrightarrow> canonical_capability r"
  using capability_loop_canonical [of "[]" False "lower_trim L s" r]
  by (auto simp: NormalizeCapability_def Let_def split: option.splits if_splits)

lemma NormalizeCapability_fixed:
  "canonical_capability r \<Longrightarrow> NormalizeCapability L r = Inr r"
  by (simp add: NormalizeCapability_def canonical_lower_trim canonical_loop_id Let_def)
    (simp add: canonical_capability_def)

section \<open>Normalised Agents\<close>

lemma capabilities_loop_result:
  assumes "capabilities_loop L acc caps = Inr r"
    and "distinct acc" and "list_all canonical_capability acc"
  shows "distinct r \<and> list_all canonical_capability r"
  using assms
proof (induction caps arbitrary: acc)
  case (Cons c rest)
  then obtain n where n: "NormalizeCapability L c = Inr n"
    and rest: "capabilities_loop L (if n \<in> set acc then acc else acc @ [n]) rest = Inr r"
    by (auto split: sum.splits)
  from n have "canonical_capability n" by (rule NormalizeCapability_canonical)
  then show ?case using Cons.IH [OF rest] Cons.prems by simp
qed simp

text \<open>The result lists exactly the normal forms of the declared capabilities.\<close>

lemma capabilities_loop_set:
  assumes "capabilities_loop L acc caps = Inr r"
  shows "set r = set acc \<union> {n. \<exists>c \<in> set caps. NormalizeCapability L c = Inr n}"
  using assms
proof (induction caps arbitrary: acc)
  case (Cons c rest)
  then obtain n where n: "NormalizeCapability L c = Inr n"
    and rest: "capabilities_loop L (if n \<in> set acc then acc else acc @ [n]) rest = Inr r"
    by (auto split: sum.splits)
  from Cons.IH [OF rest] n show ?case by (auto split: if_splits)
qed simp

lemma capabilities_loop_fixed:
  "distinct (acc @ caps) \<Longrightarrow> (\<forall>c \<in> set caps. canonical_capability c) \<Longrightarrow>
     capabilities_loop L acc caps = Inr (acc @ caps)"
  by (induction caps arbitrary: acc) (auto simp: NormalizeCapability_fixed)

lemma identifier_char_plain: "identifier_char c \<Longrightarrow> is_ascii c \<and> \<not> upper_alpha c \<and> solid c"
  unfolding identifier_char_def using plain_chars solid_chars by blast

lemma identifier_lower_trim:
  assumes "list_all identifier_char s"
  shows "lower_trim L s = s"
proof (cases "s = []")
  case False
  then have "identifier_char (hd s)" "identifier_char (last s)"
    using assms by (auto simp: list_all_iff)
  then have "TrimSpace s = s" by (simp add: TrimSpace_id identifier_char_plain)
  moreover have "list_all (\<lambda>c. is_ascii c \<and> \<not> upper_alpha c) s"
    using assms identifier_char_plain by (auto simp: list_all_iff)
  ultimately show ?thesis by (simp add: ToLower_id)
qed simp

lemma NormalizeAgentIdentifier_Inr:
  "NormalizeAgentIdentifier L field s = Inr r \<longleftrightarrow> r = lower_trim L s \<and> list_all identifier_char r"
  by (auto simp: NormalizeAgentIdentifier_def Let_def)

text \<open>Accepted identifiers are those whose lower-case form is an identifier, and that form is fixed.\<close>

lemma NormalizeAgentIdentifier_fixed:
  "list_all identifier_char s \<Longrightarrow> NormalizeAgentIdentifier L field s = Inr s"
  by (simp add: NormalizeAgentIdentifier_Inr identifier_lower_trim)

definition agent_valid :: "golib \<Rightarrow> Agent \<Rightarrow> bool" where
  "agent_valid L a \<longleftrightarrow>
     normalize_fields L a = a \<and> field_error L a = None
   \<and> distinct (a_Capabilities a) \<and> list_all canonical_capability (a_Capabilities a)"

lemma required_lower_trim: "lower_trim L EffectIdempotencyRequired = EffectIdempotencyRequired"
proof -
  have "list_all identifier_char EffectIdempotencyRequired"
    by (simp add: EffectIdempotencyRequired_def identifier_char_def lower_alpha_def char_between)
  then show ?thesis by (rule identifier_lower_trim)
qed

lemma field_error_NoneD:
  assumes "field_error L a = None"
  shows "a_EffectIdempotency a \<in> {'''', EffectIdempotencyRequired}"
    and "a_ID a \<noteq> ''''" and "a_Name a \<noteq> ''''"
    and "list_all identifier_char (lower_trim L (a_Runtime a))"
    and "list_all identifier_char (lower_trim L (a_Protocol a))"
    and "0 \<le> a_MaxConcurrency a" and "-1000 \<le> a_Priority a" and "a_Priority a \<le> 1000"
    and "a_Endpoint a \<noteq> '''' \<Longrightarrow> endpoint_absolute L (a_Endpoint a) \<and> a_Runtime a \<noteq> '''' \<and> a_Protocol a \<noteq> ''''"
proof -
  obtain rt where rt: "NormalizeAgentIdentifier L ''runtime'' (a_Runtime a) = Inr rt"
    using assms by (cases "NormalizeAgentIdentifier L ''runtime'' (a_Runtime a)")
      (simp_all add: field_error_def split: if_splits)
  obtain pr where pr: "NormalizeAgentIdentifier L ''protocol'' (a_Protocol a) = Inr pr"
    using assms rt by (cases "NormalizeAgentIdentifier L ''protocol'' (a_Protocol a)")
      (simp_all add: field_error_def split: if_splits)
  note checks = assms [unfolded field_error_def rt pr sum.case]
  show "list_all identifier_char (lower_trim L (a_Runtime a))"
    "list_all identifier_char (lower_trim L (a_Protocol a))"
    using rt pr by (auto simp: NormalizeAgentIdentifier_Inr)
  show "a_EffectIdempotency a \<in> {'''', EffectIdempotencyRequired}"
    "a_ID a \<noteq> ''''" "a_Name a \<noteq> ''''"
    "0 \<le> a_MaxConcurrency a" "-1000 \<le> a_Priority a" "a_Priority a \<le> 1000"
    "a_Endpoint a \<noteq> '''' \<Longrightarrow> endpoint_absolute L (a_Endpoint a) \<and> a_Runtime a \<noteq> '''' \<and> a_Protocol a \<noteq> ''''"
    using checks by (simp_all split: if_splits)
qed

lemma normalize_fields_fixed:
  "lower_settles L \<Longrightarrow> normalize_fields L (normalize_fields L a) = normalize_fields L a"
  by (simp add: normalize_fields_def lower_settles_def)

lemma agent_valid_fixed:
  assumes "agent_valid L a"
  shows "NormalizeAndValidate L a = Inr a"
proof -
  have "capabilities_loop L [] (a_Capabilities a) = Inr (a_Capabilities a)"
    using assms capabilities_loop_fixed [of "[]" "a_Capabilities a"]
    by (simp add: agent_valid_def list_all_iff)
  then show ?thesis
    using assms by (simp add: NormalizeAndValidate_def agent_valid_def Let_def)
qed

lemma NormalizeAndValidate_Inr:
  "NormalizeAndValidate L a = Inr a' \<longleftrightarrow>
     field_error L (normalize_fields L a) = None
   \<and> (\<exists>caps. capabilities_loop L [] (a_Capabilities a) = Inr caps
         \<and> a' = (normalize_fields L a)\<lparr>a_Capabilities := caps\<rparr>)"
proof -
  have "a_Capabilities (normalize_fields L a) = a_Capabilities a"
    by (simp add: normalize_fields_def)
  then show ?thesis
    by (auto simp: NormalizeAndValidate_def Let_def split: option.splits sum.splits)
qed

lemma field_error_caps [simp]: "field_error L (a\<lparr>a_Capabilities := cs\<rparr>) = field_error L a"
  by (simp add: field_error_def cong: if_cong sum.case_cong)

lemma normalize_fields_caps:
  "normalize_fields L (a\<lparr>a_Capabilities := cs\<rparr>) = (normalize_fields L a)\<lparr>a_Capabilities := cs\<rparr>"
  by (simp add: normalize_fields_def)

lemma NormalizeAndValidate_valid:
  assumes "lower_settles L" and "NormalizeAndValidate L a = Inr a'"
  shows "agent_valid L a'"
proof -
  obtain caps where ok: "field_error L (normalize_fields L a) = None"
    and caps: "capabilities_loop L [] (a_Capabilities a) = Inr caps"
    and a': "a' = (normalize_fields L a)\<lparr>a_Capabilities := caps\<rparr>"
    using assms(2) by (auto simp: NormalizeAndValidate_Inr)
  have "distinct caps \<and> list_all canonical_capability caps"
    using capabilities_loop_result [OF caps] by simp
  with ok a' show ?thesis
    by (simp add: agent_valid_def normalize_fields_caps normalize_fields_fixed [OF assms(1)])
qed

section \<open>Properties\<close>

text \<open>
  Validation is a normalisation. Whatever Agent the API accepts, validating the stored Agent
  again accepts it and changes nothing, so that the full-replacement update and the idempotent
  create compare normal forms.
\<close>

theorem agent_normalisation_idempotent:
  assumes "lower_settles L" and "NormalizeAndValidate L a = Inr a'"
  shows "NormalizeAndValidate L a' = Inr a'"
  using assms by (intro agent_valid_fixed NormalizeAndValidate_valid)

definition sample_agent :: Agent where
  "sample_agent = \<lparr> a_ID = ''a'', a_Name = '' N'', a_SystemPrompt = '''', a_Runtime = ''HTTP'',
     a_Protocol = ''v1'', a_Endpoint = ''http://h'', a_Model = '''',
     a_Capabilities = [''Go Review'', ''go_review'', ''sql''], a_EffectIdempotency = '''',
     a_MaxConcurrency = 2, a_Priority = 5, a_CreatedAt = 0, a_UpdatedAt = 0, a_Version = 0 \<rparr>"

definition sample_agent_normal :: Agent where
  "sample_agent_normal = sample_agent\<lparr> a_Name := ''N'', a_Runtime := ''http'',
     a_Capabilities := [''go-review'', ''sql''] \<rparr>"

lemma sample_agent_accepted: "NormalizeAndValidate sample_lib sample_agent = Inr sample_agent_normal"
  by code_simp

theorem agent_normalisation_idempotent_witness:
  "NormalizeAndValidate sample_lib sample_agent_normal = Inr sample_agent_normal"
  by (rule agent_normalisation_idempotent [OF sample_lib_settles sample_agent_accepted])

text \<open>
  Accepted Agents are well formed: non-blank identity, canonical and pairwise distinct
  capability keys which are exactly the normal forms of the declared ones, an absolute endpoint
  with a runtime and a protocol when there is one, and bounded scheduling numbers.
\<close>

theorem agent_accepted_wellformed:
  assumes "NormalizeAndValidate L a = Inr a'"
  shows "a_ID a' \<noteq> '''' \<and> a_Name a' \<noteq> ''''
    \<and> distinct (a_Capabilities a') \<and> list_all canonical_capability (a_Capabilities a')
    \<and> set (a_Capabilities a') = {n. \<exists>c \<in> set (a_Capabilities a). NormalizeCapability L c = Inr n}
    \<and> (a_Endpoint a' \<noteq> '''' \<longrightarrow> endpoint_absolute L (a_Endpoint a') \<and> a_Runtime a' \<noteq> '''' \<and> a_Protocol a' \<noteq> '''')
    \<and> 0 \<le> a_MaxConcurrency a' \<and> -1000 \<le> a_Priority a' \<and> a_Priority a' \<le> 1000"
proof -
  obtain caps where ok: "field_error L (normalize_fields L a) = None"
    and caps: "capabilities_loop L [] (a_Capabilities a) = Inr caps"
    and a': "a' = (normalize_fields L a)\<lparr>a_Capabilities := caps\<rparr>"
    using assms by (auto simp: NormalizeAndValidate_Inr)
  have "distinct caps \<and> list_all canonical_capability caps"
    using capabilities_loop_result [OF caps] by simp
  with field_error_NoneD [OF ok] capabilities_loop_set [OF caps] show ?thesis
    unfolding a' by simp
qed

theorem agent_accepted_wellformed_witness:
  "a_Capabilities sample_agent_normal = [''go-review'', ''sql'']
   \<and> distinct (a_Capabilities sample_agent_normal)
   \<and> endpoint_absolute sample_lib (a_Endpoint sample_agent_normal)"
  using agent_accepted_wellformed [OF sample_agent_accepted]
  by (simp add: sample_agent_normal_def sample_agent_def)

end
