(* ===== verification/Agent_Health.thy ===== *)
theory Agent_Health
  imports Domain_Agent
begin

text \<open>
  \<^verbatim>\<open>internal/agenthealth/service.go\<close>: derived health of remote Agents. The network is a parameter:
  what the probe of a URL yields. The methods lock the state for each of their sections, so a
  section is one function on the state.
\<close>

section \<open>Data\<close>

definition StatusUnknown :: string where "StatusUnknown = ''unknown''"
definition StatusHealthy :: string where "StatusHealthy = ''healthy''"
definition StatusUnhealthy :: string where "StatusUnhealthy = ''unhealthy''"

lemmas health_status = StatusUnknown_def StatusHealthy_def StatusUnhealthy_def

record HealthState =
  hs_AgentID :: string
  hs_Status :: string
  hs_LastCheckedAt :: "time option"
  hs_Reason :: string

record HealthConfig =
  hc_Path :: string
  hc_Interval :: duration
  hc_Timeout :: duration
  hc_Workers :: int

record HealthService =
  h_config :: HealthConfig
  h_queue :: "Agent list"
  h_queue_cap :: nat
  h_states :: "(string, HealthState) gomap"
  h_pending :: "string list"

datatype health_error =
    HealthPathStart
  | HealthPathNotRelative
  | HealthTimesNotPositive
  | HealthWorkersNotPositive

definition unknown_state :: "string \<Rightarrow> HealthState" where
  "unknown_state agentID = \<lparr> hs_AgentID = agentID, hs_Status = StatusUnknown, hs_LastCheckedAt = None, hs_Reason = '''' \<rparr>"

section \<open>Operations\<close>

definition NewHealth :: "golib \<Rightarrow> HealthConfig \<Rightarrow> health_error + HealthService" where
  "NewHealth L config =
     (let config = (if hc_Path config = '''' then config\<lparr>hc_Path := ''/healthz''\<rparr> else config) in
      if \<not> HasPrefix (hc_Path config) ''/'' \<or> HasPrefix (hc_Path config) ''//'' then Inl HealthPathStart
      else if (case lib_url_Parse L (hc_Path config) of
                 None \<Rightarrow> True
               | Some u \<Rightarrow> u_Scheme u \<noteq> '''' \<or> u_Host u \<noteq> '''' \<or> u_RawQuery u \<noteq> '''' \<or> u_Fragment u \<noteq> '''')
        then Inl HealthPathNotRelative
      else if hc_Interval config \<le> 0 \<or> hc_Timeout config \<le> 0 then Inl HealthTimesNotPositive
      else if hc_Workers config < 1 then Inl HealthWorkersNotPositive
      else Inr \<lparr> h_config = config, h_queue = [], h_queue_cap = nat (hc_Workers config * 64),
                 h_states = [], h_pending = [] \<rparr>)"

definition Health_State :: "string \<Rightarrow> HealthService \<Rightarrow> HealthState" where
  "Health_State agentID s = get_or (unknown_state agentID) (h_states s) agentID"

text \<open>\<^verbatim>\<open>strings.EqualFold\<close> against a word of ASCII letters none of which folds to a non-ASCII rune.\<close>

definition EqualFold :: "string \<Rightarrow> string \<Rightarrow> bool" where
  "EqualFold s word \<longleftrightarrow> map lower_char s = word"

definition probeable :: "Agent \<Rightarrow> bool" where
  "probeable agent \<longleftrightarrow>
     EqualFold (TrimSpace (a_Runtime agent)) ''remote'' \<and> EqualFold (TrimSpace (a_Protocol agent)) ''http''
   \<and> TrimSpace (a_Endpoint agent) \<noteq> ''''"

definition sameTarget :: "Agent \<Rightarrow> Agent \<Rightarrow> bool" where
  "sameTarget current checked \<longleftrightarrow>
     a_Runtime current = a_Runtime checked \<and> a_Protocol current = a_Protocol checked
   \<and> a_Endpoint current = a_Endpoint checked"

definition Health_Forget :: "string \<Rightarrow> HealthService \<Rightarrow> HealthService" where
  "Health_Forget agentID s =
     s\<lparr> h_states := del agentID (h_states s), h_pending := filter (\<lambda>k. k \<noteq> agentID) (h_pending s) \<rparr>"

text \<open>
  \<^verbatim>\<open>Refresh\<close> in its two sections: mark the Agent as pending, then send it to the workers or, when
  their queue is full, withdraw the mark.
\<close>

definition refresh_mark :: "Agent \<Rightarrow> HealthService \<Rightarrow> bool \<times> HealthService" where
  "refresh_mark agent s =
     (if a_ID agent \<in> set (h_pending s) then (False, s)
      else (True, s\<lparr>h_pending := a_ID agent # h_pending s\<rparr>))"

definition refresh_send :: "Agent \<Rightarrow> HealthService \<Rightarrow> HealthService" where
  "refresh_send agent s =
     (if length (h_queue s) < h_queue_cap s then s\<lparr>h_queue := h_queue s @ [agent]\<rparr>
      else s\<lparr>h_pending := filter (\<lambda>k. k \<noteq> a_ID agent) (h_pending s)\<rparr>)"

definition Health_Refresh :: "Agent \<Rightarrow> HealthService \<Rightarrow> HealthService" where
  "Health_Refresh agent s =
     (if \<not> probeable agent then Health_Forget (a_ID agent) s
      else case refresh_mark agent s of
        (marked, s) \<Rightarrow> if marked then refresh_send agent s else s)"

definition refreshAll :: "Agent list \<Rightarrow> HealthService \<Rightarrow> HealthService" where
  "refreshAll agents s = fold Health_Refresh agents s"

definition buildHealthURL :: "golib \<Rightarrow> string \<Rightarrow> string \<Rightarrow> string option" where
  "buildHealthURL L endpoint path =
     (case lib_url_Parse L (TrimSpace endpoint) of
        None \<Rightarrow> None
      | Some parsed \<Rightarrow>
          if u_Host parsed = '''' then None
          else let parsed = parsed\<lparr>u_Scheme := lower L (u_Scheme parsed)\<rparr> in
            if u_Scheme parsed \<noteq> ''http'' \<and> u_Scheme parsed \<noteq> ''https'' then None
            else if u_User parsed \<noteq> None \<or> u_RawQuery parsed \<noteq> '''' \<or> u_Fragment parsed \<noteq> '''' then None
            else lib_url_JoinPath L parsed path)"

text \<open>What the request to a health URL comes to.\<close>

datatype probe = ProbeBadRequest | ProbeTimeout | ProbeCanceled | ProbeUnreachable | ProbeStatus int

definition health_check :: "golib \<Rightarrow> (string \<Rightarrow> probe) \<Rightarrow> string \<Rightarrow> time \<Rightarrow> Agent \<Rightarrow> HealthState" where
  "health_check L net path checkedAt agent =
     (let state = \<lparr> hs_AgentID = a_ID agent, hs_Status = StatusUnhealthy, hs_LastCheckedAt = Some checkedAt,
                    hs_Reason = '''' \<rparr> in
      case buildHealthURL L (a_Endpoint agent) path of
        None \<Rightarrow> state\<lparr>hs_Reason := ''invalid_endpoint''\<rparr>
      | Some healthURL \<Rightarrow>
          (case net healthURL of
             ProbeBadRequest \<Rightarrow> state\<lparr>hs_Reason := ''invalid_endpoint''\<rparr>
           | ProbeTimeout \<Rightarrow> state\<lparr>hs_Reason := ''timeout''\<rparr>
           | ProbeCanceled \<Rightarrow> state\<lparr>hs_Reason := ''canceled''\<rparr>
           | ProbeUnreachable \<Rightarrow> state\<lparr>hs_Reason := ''unreachable''\<rparr>
           | ProbeStatus code \<Rightarrow>
               if code < 200 \<or> 300 \<le> code then state\<lparr>hs_Reason := ''http_status_'' @ Itoa code\<rparr>
               else state\<lparr>hs_Status := StatusHealthy, hs_Reason := ''''\<rparr>))"

text \<open>
  A worker: it takes an Agent from the queue, probes it, reads the Agent again (\<^verbatim>\<open>current\<close>, absent
  when that fails) and then records the result under the lock.
\<close>

definition worker_take :: "HealthService \<Rightarrow> (Agent \<times> HealthService) option" where
  "worker_take s = (case h_queue s of [] \<Rightarrow> None | agent # rest \<Rightarrow> Some (agent, s\<lparr>h_queue := rest\<rparr>))"

definition worker_record :: "Agent \<Rightarrow> HealthState \<Rightarrow> Agent option \<Rightarrow> HealthService \<Rightarrow> HealthService" where
  "worker_record agent state current s =
     (let s = s\<lparr>h_pending := filter (\<lambda>k. k \<noteq> a_ID agent) (h_pending s)\<rparr> in
      case current of
        Some a \<Rightarrow> if sameTarget a agent then s\<lparr>h_states := put (a_ID agent) state (h_states s)\<rparr> else s
      | None \<Rightarrow> s)"

section \<open>Properties\<close>

lemma health_check_status:
  "hs_Status (health_check L net path at agent) = StatusHealthy \<longleftrightarrow>
     (\<exists>u code. buildHealthURL L (a_Endpoint agent) path = Some u \<and> net u = ProbeStatus code \<and> 200 \<le> code \<and> code < 300)"
  by (auto simp: health_check_def Let_def health_status split: option.splits probe.splits)

lemma buildHealthURL_safe:
  assumes "buildHealthURL L endpoint path = Some url"
  shows "\<exists>u. lib_url_Parse L (TrimSpace endpoint) = Some u \<and> u_Host u \<noteq> ''''
    \<and> lower L (u_Scheme u) \<in> {''http'', ''https''} \<and> u_User u = None \<and> u_RawQuery u = '''' \<and> u_Fragment u = ''''"
  using assms by (auto simp: buildHealthURL_def Let_def split: option.splits if_splits)


definition sample_health :: HealthService where
  "sample_health = \<lparr> h_config = \<lparr> hc_Path = ''/healthz'', hc_Interval = 10, hc_Timeout = 1, hc_Workers = 1 \<rparr>,
     h_queue = [], h_queue_cap = 64, h_states = [], h_pending = [''a''] \<rparr>"


end
