(* ===== verification/Domain_Run.thy ===== *)
theory Domain_Run
  imports Prelude
begin

text \<open>
  \<^verbatim>\<open>internal/domain/run.go\<close>: the Run, its lineage and its life cycle. Every method of the
  source is a function from the Run to an error or the updated Run; the step relation
  \<open>run_step\<close> collects them, and \<open>run_wf\<close> is what every sequence of them keeps. 
\<close>

section \<open>Data\<close>

datatype RunStatus = RunQueued | RunRunning | RunSucceeded | RunFailed | RunCanceled

record Run =
  r_ID :: string
  r_AgentID :: string
  r_ParentRunID :: string
  r_RootRunID :: string
  r_RequiredCapabilities :: "string list"
  r_Input :: string
  r_Output :: string
  r_Status :: RunStatus
  r_Error :: string
  r_Attempt :: int
  r_MaxAttempts :: int
  r_RequestID :: string
  r_DurationMS :: int
  r_CreatedAt :: time
  r_StartedAt :: "time option"
  r_CompletedAt :: "time option"

datatype run_error =
    RunIDRequired
  | ParentRunIDRequired
  | RunOwnParent
  | RootParentDeclaresRoot
  | ParentLineageIncomplete
  | RunOwnRoot
  | RunBadTransition RunStatus RunStatus
  | RunCannotRetry RunStatus
  | RunAttemptsExhausted int
  | RunFailWithoutError
  | ErrRunNotCancelable RunStatus

record RunEvent =
  e_ID :: string
  e_RunID :: string
  e_ChildRunID :: string
  e_ParentRunID :: string
  e_RootRunID :: string
  e_Type :: string
  e_Message :: string
  e_Attempt :: int
  e_Timestamp :: time

section \<open>Operations\<close>

definition Run_AttachTo :: "Run \<Rightarrow> Run \<Rightarrow> run_error + Run" where
  "Run_AttachTo r parent =
     (if r_ID r = '''' then Inl RunIDRequired
      else if r_ID parent = '''' then Inl ParentRunIDRequired
      else if r_ID parent = r_ID r then Inl RunOwnParent
      else if r_ParentRunID parent = '''' \<and> r_RootRunID parent \<noteq> '''' then Inl RootParentDeclaresRoot
      else if r_ParentRunID parent \<noteq> '''' \<and> r_RootRunID parent = '''' then Inl ParentLineageIncomplete
      else let rootID = (if r_ParentRunID parent = '''' then r_ID parent else r_RootRunID parent) in
        if rootID = r_ID r then Inl RunOwnRoot
        else Inr (r\<lparr>r_ParentRunID := r_ID parent, r_RootRunID := rootID\<rparr>))"

definition Run_Start :: "Run \<Rightarrow> time \<Rightarrow> run_error + Run" where
  "Run_Start r at =
     (if r_Status r \<noteq> RunQueued then Inl (RunBadTransition (r_Status r) RunRunning)
      else if r_MaxAttempts r > 0 \<and> r_Attempt r \<ge> r_MaxAttempts r
        then Inl (RunAttemptsExhausted (r_MaxAttempts r))
      else Inr (r\<lparr>r_Status := RunRunning, r_StartedAt := Some at, r_Attempt := r_Attempt r + 1\<rparr>))"

definition Run_Retry :: "Run \<Rightarrow> run_error + Run" where
  "Run_Retry r =
     (if r_Status r \<noteq> RunRunning then Inl (RunCannotRetry (r_Status r))
      else if r_MaxAttempts r > 0 \<and> r_Attempt r \<ge> r_MaxAttempts r
        then Inl (RunAttemptsExhausted (r_MaxAttempts r))
      else Inr (r\<lparr>r_Attempt := r_Attempt r + 1\<rparr>))"

definition durationMilliseconds :: "Run \<Rightarrow> time \<Rightarrow> int" where
  "durationMilliseconds r completedAt =
     (let startedAt = (case r_StartedAt r of None \<Rightarrow> r_CreatedAt r | Some t \<Rightarrow> t) in
      if IsZero startedAt \<or> completedAt < startedAt then 0
      else Milliseconds (time_Sub completedAt startedAt))"

definition Run_Succeed :: "Run \<Rightarrow> string \<Rightarrow> time \<Rightarrow> run_error + Run" where
  "Run_Succeed r output at =
     (if r_Status r \<noteq> RunRunning then Inl (RunBadTransition (r_Status r) RunSucceeded)
      else Inr (r\<lparr>r_Status := RunSucceeded, r_Output := output, r_Error := '''',
                  r_CompletedAt := Some at, r_DurationMS := durationMilliseconds r at\<rparr>))"

text \<open>The error argument is \<^const>\<open>None\<close> for \<^verbatim>\<open>nil\<close> and otherwise the text \<^verbatim>\<open>err.Error()\<close>.\<close>

definition Run_Fail :: "Run \<Rightarrow> string option \<Rightarrow> time \<Rightarrow> run_error + Run" where
  "Run_Fail r err at =
     (if r_Status r \<noteq> RunQueued \<and> r_Status r \<noteq> RunRunning
        then Inl (RunBadTransition (r_Status r) RunFailed)
      else case err of
        None \<Rightarrow> Inl RunFailWithoutError
      | Some text \<Rightarrow>
          Inr (r\<lparr>r_Status := RunFailed, r_Output := '''', r_Error := text,
                 r_CompletedAt := Some at, r_DurationMS := durationMilliseconds r at\<rparr>))"

definition Run_Cancel :: "Run \<Rightarrow> time \<Rightarrow> run_error + Run" where
  "Run_Cancel r at =
     (if r_Status r \<noteq> RunQueued \<and> r_Status r \<noteq> RunRunning
        then Inl (ErrRunNotCancelable (r_Status r))
      else Inr (r\<lparr>r_Status := RunCanceled, r_Output := '''', r_Error := '''',
                  r_CompletedAt := Some at, r_DurationMS := durationMilliseconds r at\<rparr>))"

text \<open>When each operation succeeds, and with which result.\<close>

lemma Run_Start_Inr:
  "Run_Start r at = Inr r' \<longleftrightarrow>
     r_Status r = RunQueued \<and> (0 < r_MaxAttempts r \<longrightarrow> r_Attempt r < r_MaxAttempts r)
   \<and> r' = r\<lparr>r_Status := RunRunning, r_StartedAt := Some at, r_Attempt := r_Attempt r + 1\<rparr>"
  by (auto simp: Run_Start_def)

lemma Run_Retry_Inr:
  "Run_Retry r = Inr r' \<longleftrightarrow>
     r_Status r = RunRunning \<and> (0 < r_MaxAttempts r \<longrightarrow> r_Attempt r < r_MaxAttempts r)
   \<and> r' = r\<lparr>r_Attempt := r_Attempt r + 1\<rparr>"
  by (auto simp: Run_Retry_def)

lemma Run_Succeed_Inr:
  "Run_Succeed r output at = Inr r' \<longleftrightarrow>
     r_Status r = RunRunning
   \<and> r' = r\<lparr>r_Status := RunSucceeded, r_Output := output, r_Error := '''',
             r_CompletedAt := Some at, r_DurationMS := durationMilliseconds r at\<rparr>"
  by (auto simp: Run_Succeed_def)

lemma Run_Fail_Inr:
  "Run_Fail r err at = Inr r' \<longleftrightarrow>
     (r_Status r = RunQueued \<or> r_Status r = RunRunning)
   \<and> (\<exists>text. err = Some text
       \<and> r' = r\<lparr>r_Status := RunFailed, r_Output := '''', r_Error := text,
                r_CompletedAt := Some at, r_DurationMS := durationMilliseconds r at\<rparr>)"
  by (auto simp: Run_Fail_def split: option.splits)

lemma Run_Cancel_Inr:
  "Run_Cancel r at = Inr r' \<longleftrightarrow>
     (r_Status r = RunQueued \<or> r_Status r = RunRunning)
   \<and> r' = r\<lparr>r_Status := RunCanceled, r_Output := '''', r_Error := '''',
             r_CompletedAt := Some at, r_DurationMS := durationMilliseconds r at\<rparr>"
  by (auto simp: Run_Cancel_def)

lemmas run_ops = Run_Start_Inr Run_Retry_Inr Run_Succeed_Inr Run_Fail_Inr Run_Cancel_Inr

section \<open>Life cycle\<close>

definition run_active :: "Run \<Rightarrow> bool" where
  "run_active r \<longleftrightarrow> r_Status r = RunQueued \<or> r_Status r = RunRunning"

abbreviation run_terminal :: "Run \<Rightarrow> bool" where
  "run_terminal r \<equiv> \<not> run_active r"

inductive run_step :: "Run \<Rightarrow> Run \<Rightarrow> bool" where
  start: "Run_Start r at = Inr r' \<Longrightarrow> run_step r r'"
| retry: "Run_Retry r = Inr r' \<Longrightarrow> run_step r r'"
| succeed: "Run_Succeed r output at = Inr r' \<Longrightarrow> run_step r r'"
| fail: "Run_Fail r err at = Inr r' \<Longrightarrow> run_step r r'"
| cancel: "Run_Cancel r at = Inr r' \<Longrightarrow> run_step r r'"

text \<open>
  Well-formed Runs: the attempt counter is within its bound, a completion time is recorded
  exactly in terminal states, an output survives only success and an error text only failure.
\<close>

definition run_wf :: "Run \<Rightarrow> bool" where
  "run_wf r \<longleftrightarrow>
     0 \<le> r_Attempt r
   \<and> (0 < r_MaxAttempts r \<longrightarrow> r_Attempt r \<le> r_MaxAttempts r)
   \<and> (r_Status r = RunRunning \<longrightarrow> r_StartedAt r \<noteq> None \<and> 1 \<le> r_Attempt r)
   \<and> (r_CompletedAt r \<noteq> None \<longleftrightarrow> run_terminal r)
   \<and> 0 \<le> r_DurationMS r
   \<and> (r_Status r \<noteq> RunSucceeded \<longrightarrow> r_Output r = '''')
   \<and> (r_Status r \<noteq> RunFailed \<longrightarrow> r_Error r = '''')"

lemma durationMilliseconds_nonneg [simp]: "0 \<le> durationMilliseconds r at"
  by (auto simp: durationMilliseconds_def Milliseconds_def time_Sub_def go_div_def max_int64_def
      min_int64_def Let_def sgn_if)

lemma run_step_wf: "run_step r r' \<Longrightarrow> run_wf r \<Longrightarrow> run_wf r'"
  by (induction rule: run_step.induct)
    (auto simp: run_ops run_wf_def run_active_def)

lemma run_step_active: "run_step r r' \<Longrightarrow> run_active r"
  by (induction rule: run_step.induct)
    (auto simp: run_ops run_active_def)

lemma run_step_frame:
  "run_step r r' \<Longrightarrow> r_ID r' = r_ID r \<and> r_AgentID r' = r_AgentID r \<and> r_Input r' = r_Input r
     \<and> r_ParentRunID r' = r_ParentRunID r \<and> r_RootRunID r' = r_RootRunID r
     \<and> r_MaxAttempts r' = r_MaxAttempts r \<and> r_CreatedAt r' = r_CreatedAt r"
  by (induction rule: run_step.induct) (auto simp: run_ops)

text \<open>A measure that every step decreases: steps before the Run must reach a terminal state.\<close>

definition run_fuel :: "Run \<Rightarrow> nat" where
  "run_fuel r = (if run_terminal r then 0 else Suc (nat (r_MaxAttempts r - r_Attempt r)))"

lemma run_step_fuel:
  "run_step r r' \<Longrightarrow> 0 < r_MaxAttempts r \<Longrightarrow> run_fuel r' < run_fuel r"
  by (induction rule: run_step.induct)
    (auto simp: run_ops run_fuel_def run_active_def)

fun run_steps :: "Run list \<Rightarrow> bool" where
  "run_steps (r # r' # rs) \<longleftrightarrow> run_step r r' \<and> run_steps (r' # rs)"
| "run_steps _ \<longleftrightarrow> True"

lemma run_steps_wf: "run_steps (r # rs) \<Longrightarrow> run_wf r \<Longrightarrow> r' \<in> set (r # rs) \<Longrightarrow> run_wf r'"
proof (induction rs arbitrary: r)
  case (Cons s rs)
  then show ?case using run_step_wf by auto
qed simp

lemma run_steps_length:
  assumes "run_steps (r # rs)" and "0 < r_MaxAttempts r"
  shows "length rs \<le> run_fuel r"
  using assms
proof (induction rs arbitrary: r)
  case (Cons s rs)
  then have step: "run_step r s" and more: "run_steps (s # rs)" by auto
  from step Cons.prems have "0 < r_MaxAttempts s" using run_step_frame by metis
  then have "length rs \<le> run_fuel s" using more by (rule Cons.IH [rotated])
  moreover have "run_fuel s < run_fuel r" using step Cons.prems by (simp add: run_step_fuel)
  ultimately show ?case by simp
qed simp

section \<open>Lineage\<close>

text \<open>
  What \<^const>\<open>Run_AttachTo\<close> establishes: the child names its parent, and its root is the parent's
  root, or the parent itself when the parent is a root.
\<close>

definition root_of :: "Run \<Rightarrow> string" where
  "root_of r = (if r_ParentRunID r = '''' then r_ID r else r_RootRunID r)"

definition lineage_link :: "Run \<Rightarrow> Run \<Rightarrow> bool" where
  "lineage_link parent child \<longleftrightarrow>
     r_ParentRunID child = r_ID parent \<and> r_RootRunID child = root_of parent
   \<and> r_ID child \<noteq> r_ID parent \<and> r_ID child \<noteq> root_of parent"

lemma AttachTo_link:
  "Run_AttachTo r parent = Inr r' \<Longrightarrow>
     lineage_link parent r' \<and> r_ParentRunID r' \<noteq> '''' \<and> r_RootRunID r' \<noteq> ''''
   \<and> r' = r\<lparr>r_ParentRunID := r_ID parent, r_RootRunID := root_of parent\<rparr>"
  by (auto simp: Run_AttachTo_def lineage_link_def root_of_def Let_def split: if_splits)

lemma AttachTo_same_root:
  "Run_AttachTo r parent = Inr r' \<Longrightarrow> root_of r' = root_of parent"
  using AttachTo_link [of r parent r'] by (auto simp: lineage_link_def root_of_def)

section \<open>Properties\<close>

lemma run_steps_active: "run_steps (r # rs) \<Longrightarrow> i < length rs \<Longrightarrow> run_active ((r # rs) ! i)"
proof (induction rs arbitrary: r i)
  case (Cons s rs)
  then show ?case using run_step_active by (cases i) auto
qed simp

lemma run_step_possible: "run_active r \<Longrightarrow> \<exists>r'. run_step r r' \<and> run_terminal r'"
  by (rule exI [of _ "r\<lparr>r_Status := RunCanceled, r_Output := '''', r_Error := '''',
        r_CompletedAt := Some 0, r_DurationMS := durationMilliseconds r 0\<rparr>"])
    (auto intro!: run_step.cancel [of _ 0] simp: Run_Cancel_Inr run_active_def)

text \<open>
  C6: The life cycle of a Run with a bounded number of attempts. Along every sequence of
  operations each state is well formed (attempt counter within its bound, completion time exactly
  in terminal states, output only on success, error only on failure), no operation leaves a
  terminal state, and the sequence ends after at most one operation per remaining attempt and one
  completion.
\<close>

theorem run_lifecycle:
  assumes "run_wf r" and "0 < r_MaxAttempts r" and "run_steps (r # rs)"
  shows "list_all run_wf (r # rs)
    \<and> (\<forall>i < length rs. run_active ((r # rs) ! i))
    \<and> int (length rs) \<le> 1 + (r_MaxAttempts r - r_Attempt r)"
proof -
  have "list_all run_wf (r # rs)"
    using run_steps_wf [OF assms(3,1)] by (simp add: list_all_iff)
  moreover have "length rs \<le> run_fuel r" using assms by (intro run_steps_length)
  moreover have "int (run_fuel r) \<le> 1 + (r_MaxAttempts r - r_Attempt r)"
    using assms(1,2) by (auto simp: run_fuel_def run_wf_def)
  ultimately show ?thesis using run_steps_active [OF assms(3)] by auto
qed

definition sample_run :: Run where
  "sample_run = \<lparr> r_ID = ''r1'', r_AgentID = ''a'', r_ParentRunID = '''', r_RootRunID = '''',
     r_RequiredCapabilities = [], r_Input = ''in'', r_Output = '''', r_Status = RunQueued,
     r_Error = '''', r_Attempt = 0, r_MaxAttempts = 2, r_RequestID = '''', r_DurationMS = 0,
     r_CreatedAt = 10, r_StartedAt = None, r_CompletedAt = None \<rparr>"

definition sample_started :: Run where
  "sample_started = sample_run\<lparr>r_Status := RunRunning, r_StartedAt := Some 20, r_Attempt := 1\<rparr>"

definition sample_done :: Run where
  "sample_done = sample_started\<lparr>r_Status := RunSucceeded, r_Output := ''out'', r_Error := '''',
     r_CompletedAt := Some 3000020, r_DurationMS := 3\<rparr>"

lemma sample_run_steps: "run_steps [sample_run, sample_started, sample_done]"
proof -
  have "Run_Start sample_run 20 = Inr sample_started"
    and "Run_Succeed sample_started ''out'' 3000020 = Inr sample_done" by code_simp+
  then show ?thesis by (auto intro: run_step.intros)
qed

lemma sample_run_wf: "run_wf sample_run" by code_simp

theorem run_lifecycle_witness:
  "list_all run_wf [sample_run, sample_started, sample_done] \<and> run_terminal sample_done"
  using run_lifecycle [OF sample_run_wf _ sample_run_steps]
  by (simp add: sample_run_def sample_done_def run_active_def)

text \<open>
  Delegation keeps the lineage consistent: an accepted attachment changes the two lineage
  fields only, the child belongs to the tree of its parent and is neither its own parent nor its
  own root, and neither the child itself nor the root of its tree can then be attached under the
  child, so no delegation closes a cycle through the root.
\<close>

theorem run_attach_lineage:
  assumes "Run_AttachTo r parent = Inr r'"
  shows "r' = r\<lparr>r_ParentRunID := r_ID parent, r_RootRunID := root_of parent\<rparr>
    \<and> lineage_link parent r' \<and> root_of r' = root_of parent
    \<and> (\<forall>g. r_ID g = r_ID r' \<or> r_ID g = root_of r' \<longrightarrow> (\<exists>e. Run_AttachTo g r' = Inl e))"
proof -
  have "\<exists>e. Run_AttachTo g r' = Inl e" if "r_ID g = r_ID r' \<or> r_ID g = root_of r'" for g
    using that by (auto simp: Run_AttachTo_def root_of_def Let_def)
  then show ?thesis using AttachTo_link [OF assms] AttachTo_same_root [OF assms] by blast
qed

lemma sample_attach:
  "Run_AttachTo (sample_run\<lparr>r_ID := ''r2''\<rparr>) sample_run
     = Inr (sample_run\<lparr>r_ID := ''r2'', r_ParentRunID := ''r1'', r_RootRunID := ''r1''\<rparr>)"
  by code_simp

theorem run_attach_lineage_witness:
  "\<exists>e. Run_AttachTo sample_run
     (sample_run\<lparr>r_ID := ''r2'', r_ParentRunID := ''r1'', r_RootRunID := ''r1''\<rparr>) = Inl e"
  using run_attach_lineage [OF sample_attach]
  by (simp add: sample_run_def root_of_def)

end
