(* ===== verification/Domain_Approval.thy ===== *)
theory Domain_Approval
  imports Prelude
begin

text \<open>
  \<^verbatim>\<open>internal/domain/approval.go\<close> and \<^verbatim>\<open>internal/domain/audit.go\<close>: the approval of one tool call,
  bound to its arguments by a digest, and the record of the audit trail.
\<close>

section \<open>Data\<close>

datatype ApprovalStatus = ApprovalPending | ApprovalApproved | ApprovalRejected | ApprovalConsumed

record Approval =
  ap_ID :: string
  ap_ServerID :: string
  ap_ToolName :: string
  ap_Arguments :: string
  ap_ArgumentsHash :: string
  ap_Reason :: string
  ap_Status :: ApprovalStatus
  ap_RequestedBy :: string
  ap_DecidedBy :: string
  ap_CreatedAt :: time
  ap_ExpiresAt :: time
  ap_DecidedAt :: "time option"
  ap_ConsumedAt :: "time option"
  ap_Version :: int

datatype approval_error =
    ApprovalFieldsRequired
  | ApprovalTTLNotPositive
  | ApprovalArgumentsNotObject

record AuditEvent =
  au_ID :: string
  au_Timestamp :: time
  au_RequestID :: string
  au_InstanceID :: string
  au_Subject :: string
  au_Roles :: "string list"
  au_AgentID :: string
  au_Method :: string
  au_Path :: string
  au_Status :: int

section \<open>Operations\<close>

definition approval_digest_input :: "string \<Rightarrow> string \<Rightarrow> string \<Rightarrow> string" where
  "approval_digest_input serverID toolName arguments =
     TrimSpace serverID @ [CHR 0x00] @ TrimSpace toolName @ [CHR 0x00] @ arguments"

definition ApprovalArgumentsHash :: "golib \<Rightarrow> string \<Rightarrow> string \<Rightarrow> string \<Rightarrow> string" where
  "ApprovalArgumentsHash L serverID toolName arguments =
     lib_sha256_hex L (approval_digest_input serverID toolName arguments)"

text \<open>
  Decoding the arguments into a map and encoding the map again is one function of the standard
  library here: it has no result for a text that is not a JSON object, \<^verbatim>\<open>null\<close> included.
\<close>

definition Approval_Initialize ::
  "golib \<Rightarrow> Approval \<Rightarrow> time \<Rightarrow> duration \<Rightarrow> approval_error + Approval" where
  "Approval_Initialize L a now ttl =
     (let a = a\<lparr> ap_ID := TrimSpace (ap_ID a),
                 ap_ServerID := TrimSpace (ap_ServerID a),
                 ap_ToolName := TrimSpace (ap_ToolName a),
                 ap_Reason := TrimSpace (ap_Reason a),
                 ap_RequestedBy := TrimSpace (ap_RequestedBy a) \<rparr> in
      if ap_ID a = '''' \<or> ap_ServerID a = '''' \<or> ap_ToolName a = '''' \<or> ap_RequestedBy a = '''' then
        Inl ApprovalFieldsRequired
      else if ttl \<le> 0 then Inl ApprovalTTLNotPositive
      else
        let arguments = (if ap_Arguments a = '''' then ''{}'' else ap_Arguments a) in
        case lib_json_object L arguments of
          None \<Rightarrow> Inl ApprovalArgumentsNotObject
        | Some canonical \<Rightarrow>
            Inr (a\<lparr> ap_Arguments := canonical,
                    ap_ArgumentsHash := ApprovalArgumentsHash L (ap_ServerID a) (ap_ToolName a) canonical,
                    ap_Status := ApprovalPending,
                    ap_CreatedAt := now,
                    ap_ExpiresAt := now + ttl,
                    ap_Version := 1 \<rparr>))"

definition Approval_Expired :: "Approval \<Rightarrow> time \<Rightarrow> bool" where
  "Approval_Expired a now \<longleftrightarrow> \<not> now < ap_ExpiresAt a"

section \<open>Lemmas\<close>

lemma Approval_Initialize_Inr:
  assumes "Approval_Initialize L a now ttl = Inr b"
  shows "0 < ttl" and "ap_Status b = ApprovalPending" and "ap_Version b = 1"
    and "ap_ExpiresAt b = now + ttl" and "ap_CreatedAt b = now"
    and "ap_ID b = TrimSpace (ap_ID a)" and "ap_ID b \<noteq> ''''"
    and "ap_ServerID b = TrimSpace (ap_ServerID a)" and "ap_ToolName b = TrimSpace (ap_ToolName a)"
    and "ap_ArgumentsHash b = ApprovalArgumentsHash L (ap_ServerID b) (ap_ToolName b) (ap_Arguments b)"
    and "lib_json_object L (if ap_Arguments a = '''' then ''{}'' else ap_Arguments a) = Some (ap_Arguments b)"
  using assms by (auto simp: Approval_Initialize_def Let_def split: if_splits option.splits)

text \<open>
  The digest input separates its three parts: for names without a zero byte it determines the
  server, the tool and the arguments.
\<close>

lemma append_sep_inj:
  assumes "a @ z # b = a' @ z # b'" and "z \<notin> set a" and "z \<notin> set a'"
  shows "a = a' \<and> b = b'"
  using assms
proof (induction a arbitrary: a')
  case Nil
  then show ?case by (cases a') auto
next
  case (Cons x a)
  then show ?case by (cases a') auto
qed

lemma approval_digest_input_inj:
  assumes "approval_digest_input s t args = approval_digest_input s' t' args'"
    and "CHR 0x00 \<notin> set s" "CHR 0x00 \<notin> set t" "CHR 0x00 \<notin> set s'" "CHR 0x00 \<notin> set t'"
  shows "TrimSpace s = TrimSpace s' \<and> TrimSpace t = TrimSpace t' \<and> args = args'"
proof -
  have nul: "CHR 0x00 \<notin> set (TrimSpace x)" if "CHR 0x00 \<notin> set x" for x
    using that set_TrimSpace by blast
  have "TrimSpace s = TrimSpace s'
      \<and> TrimSpace t @ CHR 0x00 # args = TrimSpace t' @ CHR 0x00 # args'"
    using assms nul by (intro append_sep_inj [of _ "CHR 0x00"]) (auto simp: approval_digest_input_def)
  then show ?thesis using assms nul append_sep_inj [of "TrimSpace t" "CHR 0x00"] by auto
qed

section \<open>Properties\<close>


definition sample_approval :: Approval where
  "sample_approval = \<lparr> ap_ID = ''ap1'', ap_ServerID = ''files'', ap_ToolName = '' write '',
     ap_Arguments = '''', ap_ArgumentsHash = '''', ap_Reason = '''', ap_Status = ApprovalPending,
     ap_RequestedBy = ''ops'', ap_DecidedBy = '''', ap_CreatedAt = 0, ap_ExpiresAt = 0,
     ap_DecidedAt = None, ap_ConsumedAt = None, ap_Version = 0 \<rparr>"

definition sample_approval_init :: Approval where
  "sample_approval_init = sample_approval\<lparr> ap_ToolName := ''write'', ap_Arguments := ''{}'',
     ap_ArgumentsHash := ''files'' @ [CHR 0x00] @ ''write'' @ [CHR 0x00] @ ''{}'',
     ap_CreatedAt := 5, ap_ExpiresAt := 15, ap_Version := 1 \<rparr>"

lemma sample_approval_initialized:
  "Approval_Initialize sample_lib sample_approval 5 10 = Inr sample_approval_init"
  by code_simp

definition sample_approval_read :: Approval where
  "sample_approval_read = sample_approval_init\<lparr> ap_ToolName := ''read'',
     ap_ArgumentsHash := ''files'' @ [CHR 0x00] @ ''read'' @ [CHR 0x00] @ ''{}'' \<rparr>"

lemma sample_approval_read_initialized:
  "Approval_Initialize sample_lib (sample_approval\<lparr>ap_ToolName := ''read''\<rparr>) 5 10 = Inr sample_approval_read"
  by code_simp


end
