(* ===== verification/Domain_Workflow.thy ===== *)
theory Domain_Workflow
  imports Prelude
begin

text \<open>
  \<^verbatim>\<open>internal/domain/workflow.go\<close>: workflow definitions, their normalisation and validation. The
  cycle check of the source is Kahn's algorithm on slices of indices; it is translated as such
  and shown to accept exactly the definitions whose dependency relation is acyclic.
\<close>

section \<open>Data\<close>

datatype WorkflowStatus =
  WorkflowPending | WorkflowRunning | WorkflowSucceeded | WorkflowFailed | WorkflowCanceled

datatype WorkflowStepStatus =
    WorkflowStepPending | WorkflowStepQueued | WorkflowStepRunning | WorkflowStepSucceeded
  | WorkflowStepSkipped | WorkflowStepFailed | WorkflowStepCanceled

definition WorkflowInputSource :: string where "WorkflowInputSource = ''workflow''"
definition WorkflowInputSingle :: string where "WorkflowInputSingle = ''single''"
definition WorkflowInputJSONArray :: string where "WorkflowInputJSONArray = ''json-array''"
definition MaxWorkflowSteps :: nat where "MaxWorkflowSteps = 100"
definition WorkflowConditionEquals :: string where "WorkflowConditionEquals = ''equals''"
definition WorkflowConditionNotEquals :: string where "WorkflowConditionNotEquals = ''not-equals''"
definition WorkflowConditionContains :: string where "WorkflowConditionContains = ''contains''"
definition WorkflowConditionNotContains :: string where
  "WorkflowConditionNotContains = ''not-contains''"

lemmas workflow_consts = WorkflowInputSource_def WorkflowInputSingle_def WorkflowInputJSONArray_def
  MaxWorkflowSteps_def WorkflowConditionEquals_def WorkflowConditionNotEquals_def
  WorkflowConditionContains_def WorkflowConditionNotContains_def

record WorkflowCondition =
  c_Source :: string
  c_Operator :: string
  c_Value :: string

record WorkflowStep =
  s_ID :: string
  s_WorkflowID :: string
  s_AgentID :: string
  s_Input :: string
  s_InputFrom :: "string list"
  s_InputAggregation :: string
  s_DependsOn :: "string list"
  s_Condition :: "WorkflowCondition option"
  s_Status :: WorkflowStepStatus
  s_RunID :: string
  s_Output :: string
  s_Error :: string
  s_CreatedAt :: time
  s_StartedAt :: "time option"
  s_CompletedAt :: "time option"

record Workflow =
  w_ID :: string
  w_Input :: string
  w_Status :: WorkflowStatus
  w_Steps :: "WorkflowStep list"
  w_Error :: string
  w_Version :: int
  w_CreatedAt :: time
  w_StartedAt :: "time option"
  w_CompletedAt :: "time option"

record WorkflowEvent =
  we_ID :: string
  we_WorkflowID :: string
  we_StepID :: string
  we_RunID :: string
  we_Type :: string
  we_Message :: string
  we_Timestamp :: time

datatype workflow_error =
    WorkflowIDRequired
  | WorkflowHasNoSteps
  | WorkflowTooManySteps
  | StepInvalidID nat string
  | StepDuplicateID string
  | StepAgentRequired string
  | StepSelfDependency string
  | StepUnknownDependency string string
  | ConditionSourceRequired string
  | ConditionUnknownSource string string
  | ConditionSourceNotDependency string string
  | ConditionBadOperator string string
  | StepInputRequired string
  | StepLiteralAggregation string
  | StepInputAndInputFrom string
  | StepEmptyWorkflowInput string
  | StepUnknownInput string string
  | StepInputNotDependency string string
  | StepRequiresSingle string
  | StepRequiresJSONArray string
  | WorkflowCycle
  | SequentialFanInDependencies string
  | SequentialFanInInputs string
  | SequentialFanOut string
  | SequentialRoots

section \<open>Operations\<close>

definition Workflow_IsTerminal :: "Workflow \<Rightarrow> bool" where
  "Workflow_IsTerminal w \<longleftrightarrow>
     w_Status w = WorkflowSucceeded \<or> w_Status w = WorkflowFailed \<or> w_Status w = WorkflowCanceled"

fun sequential_loop ::
  "(string, int) gomap \<Rightarrow> int \<Rightarrow> WorkflowStep list \<Rightarrow> workflow_error option" where
  "sequential_loop dependents roots [] = (if roots \<noteq> 1 then Some SequentialRoots else None)"
| "sequential_loop dependents roots (step # steps) =
     (if length (s_DependsOn step) > 1 then Some (SequentialFanInDependencies (s_ID step))
      else if length (s_InputFrom step) > 1 then Some (SequentialFanInInputs (s_ID step))
      else case s_DependsOn step of
        [] \<Rightarrow> sequential_loop dependents (roots + 1) steps
      | dependency # _ \<Rightarrow>
          let count = get_or 0 dependents dependency + 1 in
          if count > 1 then Some (SequentialFanOut dependency)
          else sequential_loop (put dependency count dependents) roots steps)"

definition ValidateSequential :: "Workflow \<Rightarrow> workflow_error option" where
  "ValidateSequential w =
     (if w_Steps w = [] then Some WorkflowHasNoSteps else sequential_loop [] 0 (w_Steps w))"

definition step_id_first :: "char \<Rightarrow> bool" where
  "step_id_first c \<longleftrightarrow> lower_alpha c \<or> numeric c"

definition step_id_rest :: "char \<Rightarrow> bool" where
  "step_id_rest c \<longleftrightarrow> lower_alpha c \<or> numeric c \<or> c \<in> {CHR ''.'', CHR ''_'', CHR ''-''}"

text \<open>The pattern \<^verbatim>\<open>^[a-z0-9][a-z0-9._-]{0,63}$\<close>.\<close>

fun workflowStepIDPattern :: "string \<Rightarrow> bool" where
  "workflowStepIDPattern [] = False"
| "workflowStepIDPattern (c # cs) \<longleftrightarrow> step_id_first c \<and> length cs \<le> 63 \<and> list_all step_id_rest cs"

fun refs_loop :: "golib \<Rightarrow> string list \<Rightarrow> string list \<Rightarrow> string list" where
  "refs_loop L result [] = result"
| "refs_loop L result (value # values) =
     (let value = lower_trim L value in
      if value = '''' \<or> value \<in> set result then refs_loop L result values
      else refs_loop L (result @ [value]) values)"

definition normalizeWorkflowRefs :: "golib \<Rightarrow> string list \<Rightarrow> string list" where
  "normalizeWorkflowRefs L values = refs_loop L [] values"

text \<open>
  The first loop of \<^verbatim>\<open>InitializeForCreate\<close>: normalise and reset each step, and record its index
  under its identifier.
\<close>

definition init_step :: "golib \<Rightarrow> string \<Rightarrow> time \<Rightarrow> WorkflowStep \<Rightarrow> WorkflowStep" where
  "init_step L workflowID at step = step\<lparr>
     s_ID := lower_trim L (s_ID step),
     s_AgentID := TrimSpace (s_AgentID step),
     s_WorkflowID := workflowID,
     s_Status := WorkflowStepPending,
     s_RunID := '''', s_Output := '''', s_Error := '''',
     s_CreatedAt := at,
     s_StartedAt := None, s_CompletedAt := None,
     s_DependsOn := normalizeWorkflowRefs L (s_DependsOn step),
     s_InputFrom := normalizeWorkflowRefs L (s_InputFrom step),
     s_InputAggregation := lower_trim L (s_InputAggregation step),
     s_Condition := map_option
       (\<lambda>c. c\<lparr>c_Source := lower_trim L (c_Source c), c_Operator := lower_trim L (c_Operator c)\<rparr>)
       (s_Condition step)\<rparr>"

fun init_steps ::
  "golib \<Rightarrow> string \<Rightarrow> time \<Rightarrow> nat \<Rightarrow> (string, nat) gomap \<Rightarrow> WorkflowStep list
     \<Rightarrow> workflow_error + (WorkflowStep list \<times> (string, nat) gomap)" where
  "init_steps L workflowID at index ids [] = Inr ([], ids)"
| "init_steps L workflowID at index ids (step # steps) =
     (let step = init_step L workflowID at step in
      if \<not> workflowStepIDPattern (s_ID step) then Inl (StepInvalidID index (s_ID step))
      else if get ids (s_ID step) \<noteq> None then Inl (StepDuplicateID (s_ID step))
      else if s_AgentID step = '''' then Inl (StepAgentRequired (s_ID step))
      else case init_steps L workflowID at (Suc index) (put (s_ID step) index ids) steps of
        Inl e \<Rightarrow> Inl e
      | Inr (steps, ids) \<Rightarrow> Inr (step # steps, ids))"

text \<open>
  \<^verbatim>\<open>validateStep\<close> reads the step at its index and, through the shared slice, stores the default
  aggregation in it: here it returns the step it leaves behind.
\<close>

fun dependencies_error ::
  "string \<Rightarrow> (string, nat) gomap \<Rightarrow> string list \<Rightarrow> workflow_error option" where
  "dependencies_error stepID ids [] = None"
| "dependencies_error stepID ids (dependency # rest) =
     (if dependency = stepID then Some (StepSelfDependency stepID)
      else if get ids dependency = None then Some (StepUnknownDependency stepID dependency)
      else dependencies_error stepID ids rest)"

definition condition_error ::
  "WorkflowStep \<Rightarrow> (string, nat) gomap \<Rightarrow> workflow_error option" where
  "condition_error step ids =
     (case s_Condition step of
        None \<Rightarrow> None
      | Some c \<Rightarrow>
          if c_Source c = '''' then Some (ConditionSourceRequired (s_ID step))
          else if c_Source c \<noteq> WorkflowInputSource \<and> get ids (c_Source c) = None then
            Some (ConditionUnknownSource (s_ID step) (c_Source c))
          else if c_Source c \<noteq> WorkflowInputSource \<and> c_Source c \<notin> set (s_DependsOn step) then
            Some (ConditionSourceNotDependency (s_ID step) (c_Source c))
          else if c_Operator c \<notin> {WorkflowConditionEquals, WorkflowConditionNotEquals,
                                  WorkflowConditionContains, WorkflowConditionNotContains} then
            Some (ConditionBadOperator (s_ID step) (c_Operator c))
          else None)"

fun inputs_error ::
  "string \<Rightarrow> WorkflowStep \<Rightarrow> (string, nat) gomap \<Rightarrow> string list \<Rightarrow> workflow_error option" where
  "inputs_error input step ids [] = None"
| "inputs_error input step ids (source # rest) =
     (if source = WorkflowInputSource then
        (if TrimSpace input = '''' then Some (StepEmptyWorkflowInput (s_ID step))
         else inputs_error input step ids rest)
      else if get ids source = None then Some (StepUnknownInput (s_ID step) source)
      else if source \<notin> set (s_DependsOn step) then Some (StepInputNotDependency (s_ID step) source)
      else inputs_error input step ids rest)"

definition validateStep ::
  "string \<Rightarrow> (string, nat) gomap \<Rightarrow> WorkflowStep \<Rightarrow> workflow_error + WorkflowStep" where
  "validateStep input ids step =
     (case dependencies_error (s_ID step) ids (s_DependsOn step) of
        Some e \<Rightarrow> Inl e
      | None \<Rightarrow>
     (case condition_error step ids of
        Some e \<Rightarrow> Inl e
      | None \<Rightarrow>
      if s_InputFrom step = [] then
        (if TrimSpace (s_Input step) = '''' then Inl (StepInputRequired (s_ID step))
         else if s_InputAggregation step \<noteq> '''' then Inl (StepLiteralAggregation (s_ID step))
         else Inr step)
      else if TrimSpace (s_Input step) \<noteq> '''' then Inl (StepInputAndInputFrom (s_ID step))
      else case inputs_error input step ids (s_InputFrom step) of
        Some e \<Rightarrow> Inl e
      | None \<Rightarrow>
          if length (s_InputFrom step) = 1 then
            (if s_InputAggregation step = '''' then
               Inr (step\<lparr>s_InputAggregation := WorkflowInputSingle\<rparr>)
             else if s_InputAggregation step \<noteq> WorkflowInputSingle then
               Inl (StepRequiresSingle (s_ID step))
             else Inr step)
          else if s_InputAggregation step \<noteq> WorkflowInputJSONArray then
            Inl (StepRequiresJSONArray (s_ID step))
          else Inr step))"

fun validate_steps ::
  "string \<Rightarrow> (string, nat) gomap \<Rightarrow> WorkflowStep list \<Rightarrow> workflow_error + WorkflowStep list" where
  "validate_steps input ids [] = Inr []"
| "validate_steps input ids (step # steps) =
     (case validateStep input ids step of
        Inl e \<Rightarrow> Inl e
      | Inr step \<Rightarrow>
          (case validate_steps input ids steps of
             Inl e \<Rightarrow> Inl e
           | Inr steps \<Rightarrow> Inr (step # steps)))"

subsection \<open>The cycle check\<close>

text \<open>
  \<^verbatim>\<open>dependents[parent] = append(dependents[parent], index)\<close> for each dependency of each step; a
  key missing from \<^verbatim>\<open>ids\<close> reads as index 0, as in the source.
\<close>

fun link_dependencies :: "(string, nat) gomap \<Rightarrow> nat \<Rightarrow> string list \<Rightarrow> nat list list \<Rightarrow> nat list list" where
  "link_dependencies ids index [] dependents = dependents"
| "link_dependencies ids index (dependency # rest) dependents =
     (let parent = get_or 0 ids dependency in
      link_dependencies ids index rest (dependents[parent := dependents ! parent @ [index]]))"

fun build_dependents :: "(string, nat) gomap \<Rightarrow> nat \<Rightarrow> WorkflowStep list \<Rightarrow> nat list list \<Rightarrow> nat list list" where
  "build_dependents ids index [] dependents = dependents"
| "build_dependents ids index (step # steps) dependents =
     build_dependents ids (Suc index) steps (link_dependencies ids index (s_DependsOn step) dependents)"

text \<open>
  The inner loop. An index outside the slice would stop the program; the indices come from
  \<^verbatim>\<open>range steps\<close> (\<open>build_dependents_nth\<close> below), so the last branch is never taken.
\<close>

fun relax :: "int list \<Rightarrow> nat list \<Rightarrow> nat list \<Rightarrow> int list \<times> nat list" where
  "relax indegree queue [] = (indegree, queue)"
| "relax indegree queue (dependent # rest) =
     (if dependent < length indegree then
        let indegree = indegree[dependent := indegree ! dependent - 1] in
        relax indegree (if indegree ! dependent = 0 then queue @ [dependent] else queue) rest
      else relax indegree queue rest)"

lemma relax_length [simp]: "length (fst (relax D Q ds)) = length D"
  by (induction D Q ds rule: relax.induct) (auto simp: Let_def)

definition positives :: "int list \<Rightarrow> nat" where
  "positives D = length (filter (\<lambda>d. 0 < d) D)"

lemma positives_upd:
  assumes "i < length D"
  shows "positives (D[i := x]) + (if 0 < D ! i then 1 else 0) = positives D + (if 0 < x then 1 else 0)"
proof -
  have "D = take i D @ D ! i # drop (Suc i) D" using assms by (rule id_take_nth_drop)
  moreover have "D[i := x] = take i D @ x # drop (Suc i) D" using assms by (rule upd_conv_take_nth_drop)
  ultimately have "positives D = positives (take i D @ D ! i # drop (Suc i) D)"
    and "positives (D[i := x]) = positives (take i D @ x # drop (Suc i) D)" by metis+
  then show ?thesis by (simp add: positives_def)
qed

lemma relax_measure:
  "length (snd (relax D Q ds)) + positives (fst (relax D Q ds)) \<le> length Q + positives D"
proof (induction D Q ds rule: relax.induct)
  case (2 D Q d rest)
  show ?case
  proof (cases "d < length D")
    case True
    then show ?thesis
      using 2(1) [OF True refl] positives_upd [OF True, of "D ! d - 1"]
      by (auto simp: Let_def split: if_splits)
  next
    case False
    with 2 show ?thesis by simp
  qed
qed simp

function kahn_loop :: "nat list list \<Rightarrow> nat list \<Rightarrow> int list \<Rightarrow> nat \<Rightarrow> nat" where
  "kahn_loop dependents [] indegree visited = visited"
| "kahn_loop dependents (current # queue) indegree visited =
     (let (indegree', queue') = relax indegree queue (dependents ! current) in
      kahn_loop dependents queue' indegree' (visited + 1))"
  by pat_completeness auto
termination
proof (relation "measure (\<lambda>(_, Q, D, _). length Q + positives D)", goal_cases)
  case (2 dependents current queue indegree visited x D' Q')
  then have "relax indegree queue (dependents ! current) = (D', Q')" by simp
  then show ?case using relax_measure [of indegree queue "dependents ! current"] by simp
qed simp

definition validateWorkflowDAG ::
  "WorkflowStep list \<Rightarrow> (string, nat) gomap \<Rightarrow> workflow_error option" where
  "validateWorkflowDAG steps ids =
     (let indegree = map (\<lambda>step. int (length (s_DependsOn step))) steps;
          dependents = build_dependents ids 0 steps (replicate (length steps) []);
          queue = filter (\<lambda>index. indegree ! index = 0) [0..<length steps];
          visited = kahn_loop dependents queue indegree 0
      in if visited \<noteq> length steps then Some WorkflowCycle else None)"

definition Workflow_InitializeForCreate ::
  "golib \<Rightarrow> Workflow \<Rightarrow> time \<Rightarrow> workflow_error + Workflow" where
  "Workflow_InitializeForCreate L w at =
     (let w = w\<lparr>w_ID := TrimSpace (w_ID w)\<rparr> in
      if w_ID w = '''' then Inl WorkflowIDRequired
      else if w_Steps w = [] then Inl WorkflowHasNoSteps
      else if length (w_Steps w) > MaxWorkflowSteps then Inl WorkflowTooManySteps
      else let w = w\<lparr>w_Status := WorkflowPending, w_Error := '''', w_Version := 1,
                     w_CreatedAt := at, w_StartedAt := None, w_CompletedAt := None\<rparr> in
      case init_steps L (w_ID w) at 0 [] (w_Steps w) of
        Inl e \<Rightarrow> Inl e
      | Inr (steps, ids) \<Rightarrow>
          (case validate_steps (w_Input w) ids steps of
             Inl e \<Rightarrow> Inl e
           | Inr steps \<Rightarrow>
               (case validateWorkflowDAG steps ids of
                  Some e \<Rightarrow> Inl e
                | None \<Rightarrow> Inr (w\<lparr>w_Steps := steps\<rparr>))))"

section \<open>Correctness of the cycle check\<close>

text \<open>
  The loop on a graph with nodes \<open>0..<n\<close>, where \<open>par i\<close> is the set of nodes that must come before
  \<open>i\<close>. \<open>V\<close> is the list of visited nodes, which the source only counts: a node is visited after
  its predecessors, the remaining indegrees count the unvisited predecessors, and the queue holds
  the unvisited nodes without one.
\<close>

definition kahn_inv ::
  "nat \<Rightarrow> (nat \<Rightarrow> nat set) \<Rightarrow> nat list \<Rightarrow> nat list \<Rightarrow> int list \<Rightarrow> bool" where
  "kahn_inv n par V Q D \<longleftrightarrow>
     length D = n \<and> distinct (V @ Q)
   \<and> set (V @ Q) = {i. i < n \<and> par i \<subseteq> set V}
   \<and> (\<forall>i < n. D ! i = int (card (par i - set V)))
   \<and> (\<forall>xs v ys. V = xs @ v # ys \<longrightarrow> par v \<subseteq> set xs)"

lemma relax_eq:
  assumes "distinct ds" and "set ds \<subseteq> {..<length D}"
  shows "relax D Q ds =
    (map (\<lambda>i. D ! i - (if i \<in> set ds then 1 else 0)) [0..<length D],
     Q @ filter (\<lambda>i. D ! i = 1) ds)"
  using assms
proof (induction ds arbitrary: D Q)
  case Nil
  then show ?case by (simp add: map_nth)
next
  case (Cons d ds)
  let ?D = "D[d := D ! d - 1]"
  have d: "d < length D" "d \<notin> set ds" "distinct ds" "set ds \<subseteq> {..<length ?D}"
    using Cons.prems by auto
  have "?D ! i = D ! i" if "i \<in> set ds" for i using d(2) that by (metis nth_list_update_neq)
  then have "filter (\<lambda>i. ?D ! i = 1) ds = filter (\<lambda>i. D ! i = 1) ds"
    by (intro filter_cong) simp_all
  moreover have "map (\<lambda>i. ?D ! i - (if i \<in> set ds then 1 else 0)) [0..<length ?D]
      = map (\<lambda>i. D ! i - (if i \<in> set (d # ds) then 1 else 0)) [0..<length D]"
    using d by (intro map_cong) (auto simp: nth_list_update)
  ultimately show ?case
    using Cons.IH [of ?D] d by (simp add: Let_def)
qed

lemma kahn_inv_step:
  assumes inv: "kahn_inv n par V (c # Q) D"
    and fin: "\<And>i. i < n \<Longrightarrow> finite (par i)"
    and ds: "distinct ds" "set ds = {i. i < n \<and> c \<in> par i}"
    and step: "relax D Q ds = (D', Q')"
  shows "kahn_inv n par (V @ [c]) Q' D'"
proof -
  note I = inv [unfolded kahn_inv_def]
  note len = I [THEN conjunct1] and dist = I [THEN conjunct2, THEN conjunct1]
    and set = I [THEN conjunct2, THEN conjunct2, THEN conjunct1]
    and D = I [THEN conjunct2, THEN conjunct2, THEN conjunct2, THEN conjunct1, rule_format]
    and order = I [THEN conjunct2, THEN conjunct2, THEN conjunct2, THEN conjunct2, rule_format]
  have dsn: "set ds \<subseteq> {..<length D}" using ds(2) len by auto
  note eq = step [unfolded relax_eq [OF ds(1) dsn] len prod.inject]
  have D': "D' = map (\<lambda>i. D ! i - (if i \<in> set ds then 1 else 0)) [0..<n]"
    and Q': "Q' = Q @ filter (\<lambda>i. D ! i = 1) ds"
    using eq by (simp_all only:)
  have c: "c \<notin> set V" using dist by simp
  have card: "int (card (par i - set (V @ [c]))) = D ! i - (if c \<in> par i then 1 else 0)" if "i < n" for i
  proof -
    define X where "X = par i - set (V @ [c])"
    have X: "finite X" "c \<notin> X" using fin [OF that] by (simp_all add: X_def)
    have "par i - set V = (if c \<in> par i then insert c X else X)" using c by (auto simp: X_def)
    then have "D ! i = int (card (if c \<in> par i then insert c X else X))" using D [OF that] by metis
    then show ?thesis unfolding X_def [symmetric] using X by simp
  qed
  have one: "D ! i = 1 \<longleftrightarrow> par i \<subseteq> set (V @ [c])" if "i < n" "c \<in> par i" for i
  proof -
    have "int (card (par i - set (V @ [c]))) = D ! i - 1" unfolding card [OF that(1)] using that(2) by simp
    then have "D ! i = 1 \<longleftrightarrow> card (par i - set (V @ [c])) = 0" by linarith
    also have "\<dots> \<longleftrightarrow> par i - set (V @ [c]) = {}" using fin [OF that(1)] by simp
    finally show ?thesis by blast
  qed
  have mem: "i \<in> set (V @ c # Q) \<longleftrightarrow> i < n \<and> par i \<subseteq> set V" for i
    by (simp only: set mem_Collect_eq)
  have new: "set (filter (\<lambda>i. D ! i = 1) ds) = {i. i < n \<and> c \<in> par i \<and> par i \<subseteq> set (V @ [c])}"
    unfolding set_filter ds(2) using one by blast
  have old: "{i. i < n \<and> par i \<subseteq> set (V @ [c])}
      = {i. i < n \<and> par i \<subseteq> set V} \<union> {i. i < n \<and> c \<in> par i \<and> par i \<subseteq> set (V @ [c])}"
    by auto
  have "set (V @ c # Q) \<inter> set (filter (\<lambda>i. D ! i = 1) ds) = {}"
    unfolding new set using c by blast
  moreover have "distinct (filter (\<lambda>i. D ! i = 1) ds)" using ds(1) by simp
  ultimately have "distinct ((V @ c # Q) @ filter (\<lambda>i. D ! i = 1) ds)"
    using dist unfolding distinct_append by blast
  then have "distinct ((V @ [c]) @ Q')" unfolding Q' by simp
  moreover have "set ((V @ [c]) @ Q') = {i. i < n \<and> par i \<subseteq> set (V @ [c])}"
  proof -
    have "set ((V @ [c]) @ Q') = set (V @ c # Q) \<union> set (filter (\<lambda>i. D ! i = 1) ds)"
      unfolding Q' by auto
    then show ?thesis unfolding old new set .
  qed
  moreover have "D' ! i = int (card (par i - set (V @ [c])))" if "i < n" for i
    using card [OF that] that ds(2) unfolding D' by auto
  moreover have "par v \<subseteq> set xs" if "V @ [c] = xs @ v # ys" for xs v ys
  proof (cases ys rule: rev_cases)
    case Nil
    then show ?thesis using that mem [of c] by simp
  next
    case (snoc zs z)
    then have "V = xs @ v # zs" using that by simp
    then show ?thesis by (rule order)
  qed
  moreover have "length D' = n" unfolding D' by simp
  ultimately show ?thesis unfolding kahn_inv_def by blast
qed

lemma kahn_loop_inv:
  assumes "kahn_inv n par V Q D"
    and "\<And>i. i < n \<Longrightarrow> finite (par i)"
    and "\<And>c. c < n \<Longrightarrow> distinct (dependents ! c) \<and> set (dependents ! c) = {i. i < n \<and> c \<in> par i}"
  shows "\<exists>V' D'. kahn_inv n par V' [] D' \<and> kahn_loop dependents Q D (length V) = length V'"
  using assms(1)
proof (induction "length Q + positives D" arbitrary: V Q D rule: less_induct)
  case less
  show ?case
  proof (cases Q)
    case Nil
    then show ?thesis using less.prems by auto
  next
    case (Cons c Q0)
    obtain D' Q' where step: "relax D Q0 (dependents ! c) = (D', Q')" by fastforce
    have "c < n" using less.prems Cons unfolding kahn_inv_def by auto
    then have "kahn_inv n par (V @ [c]) Q' D'"
      using assms(3) less.prems Cons step by (intro kahn_inv_step [OF _ assms(2)]) auto
    moreover have "length Q' + positives D' < length Q + positives D"
      using relax_measure [of D Q0 "dependents ! c"] step Cons by simp
    ultimately obtain V' D'' where "kahn_inv n par V' [] D''"
      and "kahn_loop dependents Q' D' (length (V @ [c])) = length V'"
      using less.hyps by blast
    then show ?thesis using Cons step by auto
  qed
qed

text \<open>When the queue is empty the visited nodes are all nodes exactly if the graph has no cycle.\<close>

definition par_rel :: "nat \<Rightarrow> (nat \<Rightarrow> nat set) \<Rightarrow> (nat \<times> nat) set" where
  "par_rel n par = {(p, i). i < n \<and> p \<in> par i}"

lemma takeWhile_first: "i \<notin> set xs \<Longrightarrow> takeWhile (\<lambda>x. x \<noteq> i) (xs @ i # ys) = xs"
  by (induction xs) auto

lemma takeWhile_less: "p \<in> set xs \<Longrightarrow> length (takeWhile (\<lambda>x. x \<noteq> p) (xs @ ys)) < length xs"
  by (induction xs) auto

lemma kahn_inv_done:
  assumes inv: "kahn_inv n par V [] D" and sub: "\<And>i. i < n \<Longrightarrow> par i \<subseteq> {..<n}"
  shows "length V = n \<longleftrightarrow> acyclic (par_rel n par)"
proof
  from inv have dist: "distinct V" and set: "set V = {i. i < n \<and> par i \<subseteq> set V}"
    and order: "\<And>xs v ys. V = xs @ v # ys \<Longrightarrow> par v \<subseteq> set xs"
    unfolding kahn_inv_def by auto
  show "acyclic (par_rel n par)" if "length V = n"
  proof -
    define pos where "pos v = length (takeWhile (\<lambda>x. x \<noteq> v) V)" for v
    have "set V = {..<n}"
    proof (rule card_subset_eq)
      show "set V \<subseteq> {..<n}" using set by auto
      show "card (set V) = card {..<n}" using that distinct_card [OF dist] by simp
    qed simp
    then have "pos p < pos i" if "(p, i) \<in> par_rel n par" for p i
    proof -
      from that have i: "i \<in> set V" and p: "p \<in> par i" using \<open>set V = {..<n}\<close> by (auto simp: par_rel_def)
      from split_list_first [OF i] obtain xs ys where V: "V = xs @ i # ys" "i \<notin> set xs" by blast
      have "pos i = length xs" unfolding pos_def V(1) takeWhile_first [OF V(2)] ..
      moreover have "p \<in> set xs" using order [OF V(1)] p by blast
      then have "pos p < length xs" unfolding pos_def V(1) by (rule takeWhile_less)
      ultimately show ?thesis by simp
    qed
    then have "par_rel n par \<subseteq> measure pos" by auto
    then show ?thesis using wf_subset wf_measure wf_acyclic by blast
  qed
  show "length V = n" if "acyclic (par_rel n par)"
  proof -
    have "par_rel n par \<subseteq> {..<n} \<times> {..<n}" using sub by (auto simp: par_rel_def)
    then have "finite (par_rel n par)" by (rule finite_subset) simp
    then have wf: "wf (par_rel n par)" using that by (rule finite_acyclic_wf)
    have "i < n \<Longrightarrow> i \<in> set V" for i
    proof (induction i rule: wf_induct_rule [OF wf])
      case (1 i)
      then have "par i \<subseteq> set V" using sub by (auto simp: par_rel_def)
      then show ?case using set 1(2) by blast
    qed
    then have "set V = {..<n}" using set by auto
    then show ?thesis using distinct_card [OF dist] by simp
  qed
qed

section \<open>The check on workflow steps\<close>

text \<open>
  The dependency relation of a list of steps, on step identifiers, and the index map built by
  the first loop of \<^const>\<open>Workflow_InitializeForCreate\<close>.
\<close>

definition dep_rel :: "WorkflowStep list \<Rightarrow> (string \<times> string) set" where
  "dep_rel steps = {(d, s_ID s) | d s. s \<in> set steps \<and> d \<in> set (s_DependsOn s)}"

definition index_map :: "WorkflowStep list \<Rightarrow> (string, nat) gomap \<Rightarrow> bool" where
  "index_map steps ids \<longleftrightarrow>
     (\<forall>k i. get ids k = Some i \<longleftrightarrow> i < length steps \<and> s_ID (steps ! i) = k)"

definition deps_closed :: "WorkflowStep list \<Rightarrow> bool" where
  "deps_closed steps \<longleftrightarrow>
     (\<forall>s \<in> set steps. distinct (s_DependsOn s) \<and> set (s_DependsOn s) \<subseteq> s_ID ` set steps)"

definition parents :: "WorkflowStep list \<Rightarrow> (string, nat) gomap \<Rightarrow> nat \<Rightarrow> nat set" where
  "parents steps ids i = get_or 0 ids ` set (s_DependsOn (steps ! i))"

lemma link_dependencies_length [simp]: "length (link_dependencies ids i ds xs) = length xs"
  by (induction ids i ds xs rule: link_dependencies.induct) (auto simp: Let_def)

lemma link_dependencies_nth:
  "distinct (map (get_or 0 ids) ds) \<Longrightarrow> p < length xs \<Longrightarrow>
     link_dependencies ids i ds xs ! p = xs ! p @ (if p \<in> get_or 0 ids ` set ds then [i] else [])"
proof (induction ds arbitrary: xs)
  case (Cons d ds)
  then show ?case by (cases "p = get_or 0 ids d") (auto simp: Let_def)
qed simp

lemma build_dependents_nth_gen:
  assumes "\<And>s. s \<in> set steps \<Longrightarrow> distinct (map (get_or 0 ids) (s_DependsOn s))" and "p < length xs"
  shows "build_dependents ids k steps xs ! p = xs ! p @
    filter (\<lambda>i. p \<in> get_or 0 ids ` set (s_DependsOn (steps ! (i - k)))) [k..<k + length steps]"
  using assms
proof (induction steps arbitrary: k xs)
  case (Cons s steps)
  let ?P = "\<lambda>i. p \<in> get_or 0 ids ` set (s_DependsOn ((s # steps) ! (i - k)))"
  let ?ys = "link_dependencies ids k (s_DependsOn s) xs"
  have "build_dependents ids (Suc k) steps ?ys ! p = ?ys ! p @
      filter (\<lambda>i. p \<in> get_or 0 ids ` set (s_DependsOn (steps ! (i - Suc k)))) [Suc k..<Suc k + length steps]"
    using Cons.prems by (intro Cons.IH) auto
  also have "?ys ! p = xs ! p @ (if ?P k then [k] else [])"
    using Cons.prems by (simp add: link_dependencies_nth)
  also have "filter (\<lambda>i. p \<in> get_or 0 ids ` set (s_DependsOn (steps ! (i - Suc k)))) [Suc k..<Suc k + length steps]
      = filter ?P [Suc k..<Suc k + length steps]"
    by (intro filter_cong) (auto simp: nth_Cons')
  finally have step: "build_dependents ids (Suc k) steps ?ys ! p =
      (xs ! p @ (if ?P k then [k] else [])) @ filter ?P [Suc k..<Suc k + length steps]" .
  have "[k..<k + length (s # steps)] = k # [Suc k..<k + length (s # steps)]"
    by (rule upt_conv_Cons) simp
  then have upt: "[k..<k + length (s # steps)] = k # [Suc k..<Suc k + length steps]" by (simp del: upt_Suc)
  show ?case unfolding upt build_dependents.simps step by (simp del: upt_Suc)
qed simp

lemma index_map_get_or:
  assumes "index_map steps ids" and "k \<in> s_ID ` set steps"
  shows "get_or 0 ids k < length steps \<and> s_ID (steps ! get_or 0 ids k) = k"
proof -
  obtain s where "s \<in> set steps" "k = s_ID s" using assms(2) by blast
  then obtain i where i: "i < length steps" "s_ID (steps ! i) = k" unfolding in_set_conv_nth by blast
  then have "get ids k = Some i" using assms(1) unfolding index_map_def by simp
  then show ?thesis using i by (simp add: get_or_def)
qed

lemma index_map_nth:
  assumes "index_map steps ids" and "i < length steps"
  shows "get_or 0 ids (s_ID (steps ! i)) = i"
proof -
  have "get ids (s_ID (steps ! i)) = Some i" using assms unfolding index_map_def by simp
  then show ?thesis by (simp add: get_or_def)
qed

lemma index_map_inj: "index_map steps ids \<Longrightarrow> inj_on (get_or 0 ids) (s_ID ` set steps)"
  by (rule inj_onI) (metis index_map_get_or)

lemma parents_facts:
  assumes "index_map steps ids" and "deps_closed steps" and "i < length steps"
  shows "parents steps ids i \<subseteq> {..<length steps}"
    and "distinct (map (get_or 0 ids) (s_DependsOn (steps ! i)))"
proof -
  have s: "steps ! i \<in> set steps" using assms(3) by simp
  have d: "distinct (s_DependsOn (steps ! i))" "set (s_DependsOn (steps ! i)) \<subseteq> s_ID ` set steps"
    using assms(2) s by (auto simp: deps_closed_def)
  show "distinct (map (get_or 0 ids) (s_DependsOn (steps ! i)))"
    using d index_map_inj [OF assms(1)] by (auto simp: distinct_map intro: inj_on_subset)
  show "parents steps ids i \<subseteq> {..<length steps}"
  proof
    fix p
    assume "p \<in> parents steps ids i"
    then obtain k where "k \<in> s_ID ` set steps" "p = get_or 0 ids k"
      unfolding parents_def using d(2) by blast
    then show "p \<in> {..<length steps}" using index_map_get_or [OF assms(1)] by blast
  qed
qed

lemma build_dependents_nth:
  assumes "index_map steps ids" and "deps_closed steps" and "p < length steps"
  shows "build_dependents ids 0 steps (replicate (length steps) []) ! p
    = filter (\<lambda>i. p \<in> parents steps ids i) [0..<length steps]"
proof -
  have "distinct (map (get_or 0 ids) (s_DependsOn s))" if "s \<in> set steps" for s
    using parents_facts(2) [OF assms(1,2)] that by (metis in_set_conv_nth)
  then show ?thesis
    using build_dependents_nth_gen [of steps ids p "replicate (length steps) []" 0] assms(3)
    by (simp add: parents_def)
qed

lemma trancl_map:
  assumes "\<And>x y. (x, y) \<in> r \<Longrightarrow> (f x, f y) \<in> s" and "(x, y) \<in> r\<^sup>+"
  shows "(f x, f y) \<in> s\<^sup>+"
  using assms(2) by (induction rule: trancl_induct) (auto intro: assms(1) trancl_into_trancl)

lemma acyclic_map:
  "(\<And>x y. (x, y) \<in> r \<Longrightarrow> (f x, f y) \<in> s) \<Longrightarrow> acyclic s \<Longrightarrow> acyclic r"
  unfolding acyclic_def using trancl_map by metis

lemma dep_rel_par_rel:
  assumes "index_map steps ids" and "deps_closed steps"
  shows "acyclic (par_rel (length steps) (parents steps ids)) \<longleftrightarrow> acyclic (dep_rel steps)"
proof
  show "acyclic (dep_rel steps)" if "acyclic (par_rel (length steps) (parents steps ids))"
  proof (rule acyclic_map [OF _ that, of _ "get_or 0 ids"])
    fix x y
    assume "(x, y) \<in> dep_rel steps"
    then obtain s where "s \<in> set steps" "x \<in> set (s_DependsOn s)" "y = s_ID s" by (auto simp: dep_rel_def)
    then obtain i where "i < length steps" "steps ! i = s" by (auto simp: in_set_conv_nth)
    moreover have "get_or 0 ids y = i"
      using index_map_nth [OF assms(1)] \<open>y = s_ID s\<close> calculation by metis
    ultimately show "(get_or 0 ids x, get_or 0 ids y) \<in> par_rel (length steps) (parents steps ids)"
      using \<open>x \<in> set (s_DependsOn s)\<close> by (auto simp: par_rel_def parents_def)
  qed
  show "acyclic (par_rel (length steps) (parents steps ids))" if "acyclic (dep_rel steps)"
  proof (rule acyclic_map [OF _ that, of _ "\<lambda>i. s_ID (steps ! i)"])
    fix p i
    assume "(p, i) \<in> par_rel (length steps) (parents steps ids)"
    then obtain d where i: "i < length steps" and d: "d \<in> set (s_DependsOn (steps ! i))" "p = get_or 0 ids d"
      by (auto simp: par_rel_def parents_def)
    then have "d \<in> s_ID ` set steps" using assms(2) nth_mem unfolding deps_closed_def by blast
    then have "s_ID (steps ! p) = d" using index_map_get_or [OF assms(1)] d(2) by blast
    then show "(s_ID (steps ! p), s_ID (steps ! i)) \<in> dep_rel steps" using i d by (auto simp: dep_rel_def)
  qed
qed

lemma kahn_inv_init:
  assumes "index_map steps ids" and "deps_closed steps"
  defines "D \<equiv> map (\<lambda>step. int (length (s_DependsOn step))) steps"
  shows "kahn_inv (length steps) (parents steps ids) []
    (filter (\<lambda>index. D ! index = 0) [0..<length steps]) D"
proof -
  have D: "D ! i = int (card (parents steps ids i))" if "i < length steps" for i
    using distinct_card [OF parents_facts(2) [OF assms(1,2) that]] that
    by (simp add: D_def parents_def)
  have "D ! i = 0 \<longleftrightarrow> parents steps ids i = {}" if "i < length steps" for i
    unfolding D [OF that] by (simp add: parents_def)
  then have "set (filter (\<lambda>index. D ! index = 0) [0..<length steps])
      = {i. i < length steps \<and> parents steps ids i \<subseteq> set []}" by auto
  then show ?thesis unfolding kahn_inv_def using D by (simp add: D_def)
qed

lemma validateWorkflowDAG_iff:
  assumes "index_map steps ids" and "deps_closed steps"
  shows "validateWorkflowDAG steps ids = None \<longleftrightarrow> acyclic (dep_rel steps)"
proof -
  let ?n = "length steps" and ?par = "parents steps ids"
  let ?D = "map (\<lambda>step. int (length (s_DependsOn step))) steps"
  let ?Q = "filter (\<lambda>index. ?D ! index = 0) [0..<?n]"
  let ?E = "build_dependents ids 0 steps (replicate ?n [])"
  obtain V' D' where V': "kahn_inv ?n ?par V' [] D'" "kahn_loop ?E ?Q ?D (length []) = length V'"
    using kahn_loop_inv [OF kahn_inv_init [OF assms], of ?E] build_dependents_nth [OF assms]
    by (auto simp: parents_def)
  then have "validateWorkflowDAG steps ids = None \<longleftrightarrow> length V' = ?n"
    by (simp add: validateWorkflowDAG_def Let_def)
  also have "\<dots> \<longleftrightarrow> acyclic (par_rel ?n ?par)"
    using V'(1) parents_facts(1) [OF assms] by (rule kahn_inv_done)
  finally show ?thesis using dep_rel_par_rel [OF assms] by simp
qed

section \<open>Accepted definitions\<close>

definition step_valid :: "string \<Rightarrow> string set \<Rightarrow> WorkflowStep \<Rightarrow> bool" where
  "step_valid input ids s \<longleftrightarrow>
     workflowStepIDPattern (s_ID s) \<and> s_AgentID s \<noteq> ''''
   \<and> distinct (s_DependsOn s) \<and> set (s_DependsOn s) \<subseteq> ids \<and> s_ID s \<notin> set (s_DependsOn s)
   \<and> (\<forall>c. s_Condition s = Some c \<longrightarrow>
        (c_Source c = WorkflowInputSource \<or> c_Source c \<in> set (s_DependsOn s))
      \<and> c_Operator c \<in> {WorkflowConditionEquals, WorkflowConditionNotEquals,
                         WorkflowConditionContains, WorkflowConditionNotContains})
   \<and> (\<forall>src \<in> set (s_InputFrom s).
        if src = WorkflowInputSource then TrimSpace input \<noteq> '''' else src \<in> set (s_DependsOn s))
   \<and> (s_InputFrom s = [] \<longrightarrow> TrimSpace (s_Input s) \<noteq> '''' \<and> s_InputAggregation s = '''')
   \<and> (s_InputFrom s \<noteq> [] \<longrightarrow> TrimSpace (s_Input s) = ''''
        \<and> s_InputAggregation s =
            (if length (s_InputFrom s) = 1 then WorkflowInputSingle else WorkflowInputJSONArray))"

definition workflow_valid :: "Workflow \<Rightarrow> bool" where
  "workflow_valid w \<longleftrightarrow>
     w_ID w \<noteq> '''' \<and> w_Steps w \<noteq> [] \<and> length (w_Steps w) \<le> MaxWorkflowSteps
   \<and> distinct (map s_ID (w_Steps w))
   \<and> list_all (step_valid (w_Input w) (s_ID ` set (w_Steps w))) (w_Steps w)
   \<and> acyclic (dep_rel (w_Steps w))"

definition step_fresh :: "string \<Rightarrow> time \<Rightarrow> WorkflowStep \<Rightarrow> bool" where
  "step_fresh workflowID at s \<longleftrightarrow>
     s_WorkflowID s = workflowID \<and> s_Status s = WorkflowStepPending \<and> s_RunID s = ''''
   \<and> s_Output s = '''' \<and> s_Error s = '''' \<and> s_CreatedAt s = at
   \<and> s_StartedAt s = None \<and> s_CompletedAt s = None"

lemma refs_loop_distinct: "distinct result \<Longrightarrow> distinct (refs_loop L result values)"
  by (induction L result "values" rule: refs_loop.induct) (auto simp: Let_def)

lemma init_step_facts [simp]:
  "step_fresh workflowID at (init_step L workflowID at s)"
  "distinct (s_DependsOn (init_step L workflowID at s))"
  by (simp_all add: init_step_def step_fresh_def normalizeWorkflowRefs_def refs_loop_distinct)

lemma init_steps_Inr:
  assumes "init_steps L workflowID at index ids steps = Inr (steps', ids')"
  shows "steps' = map (init_step L workflowID at) steps
    \<and> distinct (map s_ID steps')
    \<and> (\<forall>s \<in> set steps'. workflowStepIDPattern (s_ID s) \<and> s_AgentID s \<noteq> '''' \<and> get ids (s_ID s) = None)
    \<and> (\<forall>i < length steps'. get ids' (s_ID (steps' ! i)) = Some (index + i))
    \<and> (\<forall>k. k \<notin> s_ID ` set steps' \<longrightarrow> get ids' k = get ids k)"
  using assms
proof (induction steps arbitrary: index ids steps')
  case (Cons step steps)
  let ?s = "init_step L workflowID at step"
  obtain rest where rest: "init_steps L workflowID at (Suc index) (put (s_ID ?s) index ids) steps = Inr (rest, ids')"
    and steps': "steps' = ?s # rest"
    and ok: "workflowStepIDPattern (s_ID ?s)" "get ids (s_ID ?s) = None" "s_AgentID ?s \<noteq> ''''"
    using Cons.prems by (auto simp: Let_def split: if_splits sum.splits)
  note IH = Cons.IH [OF rest]
  then have eq: "rest = map (init_step L workflowID at) steps" and dist: "distinct (map s_ID rest)"
    and ok_rest: "\<And>s. s \<in> set rest \<Longrightarrow> workflowStepIDPattern (s_ID s) \<and> s_AgentID s \<noteq> ''''
      \<and> get (put (s_ID ?s) index ids) (s_ID s) = None"
    and nth: "\<And>j. j < length rest \<Longrightarrow> get ids' (s_ID (rest ! j)) = Some (Suc index + j)"
    and other: "\<And>k. k \<notin> s_ID ` set rest \<Longrightarrow> get ids' k = get (put (s_ID ?s) index ids) k"
    by blast+
  have new: "s_ID s \<noteq> s_ID ?s \<and> get ids (s_ID s) = None" if "s \<in> set rest" for s
    using ok_rest [OF that] by (auto split: if_splits)
  then have notin: "s_ID ?s \<notin> s_ID ` set rest" by (metis imageE)
  have "get ids' (s_ID (steps' ! i)) = Some (index + i)" if "i < length steps'" for i
    using that nth other [OF notin] unfolding steps' by (cases i) simp_all
  moreover have "get ids' k = get ids k" if "k \<notin> s_ID ` set steps'" for k
    using that other [of k] unfolding steps' by simp
  moreover have "steps' = map (init_step L workflowID at) (step # steps)" unfolding steps' eq by simp
  moreover have "distinct (map s_ID steps')" unfolding steps' using dist notin by simp
  moreover have "\<forall>s \<in> set steps'. workflowStepIDPattern (s_ID s) \<and> s_AgentID s \<noteq> '''' \<and> get ids (s_ID s) = None"
    unfolding steps' using ok ok_rest new by simp
  ultimately show ?case by blast
qed simp

lemma init_steps_index_map:
  assumes "init_steps L workflowID at 0 [] steps = Inr (steps', ids)"
  shows "index_map steps' ids"
  unfolding index_map_def
proof (intro allI iffI)
  note facts = init_steps_Inr [OF assms]
  fix k i
  show "get ids k = Some i" if "i < length steps' \<and> s_ID (steps' ! i) = k" using facts that by auto
  show "i < length steps' \<and> s_ID (steps' ! i) = k" if "get ids k = Some i"
  proof (cases "k \<in> s_ID ` set steps'")
    case True
    then obtain j where "j < length steps'" "s_ID (steps' ! j) = k" by (auto simp: in_set_conv_nth)
    then show ?thesis using facts that by auto
  next
    case False
    then show ?thesis using facts that by simp
  qed
qed

lemma dependencies_error_None:
  "dependencies_error sid ids ds = None \<longleftrightarrow> sid \<notin> set ds \<and> (\<forall>d \<in> set ds. get ids d \<noteq> None)"
  by (induction ds) auto

lemma inputs_error_None:
  "inputs_error input step ids srcs = None \<longleftrightarrow>
     (\<forall>src \<in> set srcs. if src = WorkflowInputSource then TrimSpace input \<noteq> ''''
        else get ids src \<noteq> None \<and> src \<in> set (s_DependsOn step))"
  by (induction srcs) auto

lemma condition_error_None:
  "condition_error step ids = None \<Longrightarrow> s_Condition step = Some c \<Longrightarrow>
     (c_Source c = WorkflowInputSource \<or> c_Source c \<in> set (s_DependsOn step))
   \<and> c_Operator c \<in> {WorkflowConditionEquals, WorkflowConditionNotEquals,
                      WorkflowConditionContains, WorkflowConditionNotContains}"
  by (auto simp: condition_error_def split: if_splits)

lemma validateStep_frame:
  assumes "validateStep input ids s = Inr s'"
  shows "s' = s\<lparr>s_InputAggregation := s_InputAggregation s'\<rparr>"
proof -
  have "s' = s \<or> s' = s\<lparr>s_InputAggregation := WorkflowInputSingle\<rparr>"
    using assms unfolding validateStep_def by (simp split: option.splits if_splits)
  then show ?thesis by auto
qed

lemma validateStep_Inr:
  assumes "validateStep input ids s = Inr s'"
  shows "dependencies_error (s_ID s) ids (s_DependsOn s) = None" and "condition_error s ids = None"
    and "s_InputFrom s \<noteq> [] \<Longrightarrow> inputs_error input s ids (s_InputFrom s) = None"
    and "s_InputFrom s = [] \<Longrightarrow> TrimSpace (s_Input s) \<noteq> '''' \<and> s_InputAggregation s' = ''''"
    and "s_InputFrom s \<noteq> [] \<Longrightarrow> TrimSpace (s_Input s) = '''' \<and> s_InputAggregation s' =
            (if length (s_InputFrom s) = 1 then WorkflowInputSingle else WorkflowInputJSONArray)"
  using assms unfolding validateStep_def by (auto split: option.splits if_splits)

lemma validateStep_valid:
  assumes "validateStep input ids s = Inr s'" and "{k. get ids k \<noteq> None} = known"
    and "workflowStepIDPattern (s_ID s)" "s_AgentID s \<noteq> ''''" "distinct (s_DependsOn s)"
  shows "step_valid input known s'"
proof -
  note facts = validateStep_Inr [OF assms(1)]
  obtain agg where s': "s' = s\<lparr>s_InputAggregation := agg\<rparr>" using validateStep_frame [OF assms(1)] ..
  have deps: "set (s_DependsOn s) \<subseteq> known \<and> s_ID s \<notin> set (s_DependsOn s)"
    using facts(1) assms(2) unfolding dependencies_error_None by blast
  have inputs: "if src = WorkflowInputSource then TrimSpace input \<noteq> '''' else src \<in> set (s_DependsOn s)"
    if "src \<in> set (s_InputFrom s)" for src
    using facts(3) that unfolding inputs_error_None by (cases "s_InputFrom s = []") (auto split: if_splits)
  show ?thesis
    unfolding step_valid_def
    using deps inputs condition_error_None [OF facts(2)] facts(4,5) assms(3-5) by (simp add: s')
qed

lemma validate_steps_Inr:
  "validate_steps input ids steps = Inr steps' \<Longrightarrow>
     list_all2 (\<lambda>s s'. validateStep input ids s = Inr s') steps steps'"
  by (induction steps arbitrary: steps') (auto split: sum.splits)

lemma validate_steps_frame:
  assumes "validate_steps input ids steps = Inr steps'"
  shows "map s_ID steps' = map s_ID steps" and "map s_DependsOn steps' = map s_DependsOn steps"
    and "list_all (step_fresh workflowID at) steps \<Longrightarrow> list_all (step_fresh workflowID at) steps'"
proof -
  have step: "s_ID s' = s_ID s \<and> s_DependsOn s' = s_DependsOn s \<and> (step_fresh workflowID at s \<longrightarrow> step_fresh workflowID at s')"
    if v: "validateStep input ids s = Inr s'" for s s'
  proof -
    obtain agg where "s' = s\<lparr>s_InputAggregation := agg\<rparr>" using validateStep_frame [OF v] ..
    then show ?thesis by (simp add: step_fresh_def)
  qed
  have rel: "list_all2 (\<lambda>s s'. validateStep input ids s = Inr s') steps steps'"
    using assms by (rule validate_steps_Inr)
  show "map s_ID steps' = map s_ID steps" "map s_DependsOn steps' = map s_DependsOn steps"
    "list_all (step_fresh workflowID at) steps \<Longrightarrow> list_all (step_fresh workflowID at) steps'"
    using rel step by (induction rule: list_all2_induct) auto
qed

lemma Workflow_InitializeForCreate_Inr:
  assumes "Workflow_InitializeForCreate L w at = Inr w'"
  obtains steps ids steps' where
    "TrimSpace (w_ID w) \<noteq> ''''" and "w_Steps w \<noteq> []" and "length (w_Steps w) \<le> MaxWorkflowSteps"
    and "init_steps L (TrimSpace (w_ID w)) at 0 [] (w_Steps w) = Inr (steps, ids)"
    and "validate_steps (w_Input w) ids steps = Inr steps'" and "validateWorkflowDAG steps' ids = None"
    and "w' = w\<lparr>w_ID := TrimSpace (w_ID w), w_Status := WorkflowPending, w_Error := '''', w_Version := 1,
                w_CreatedAt := at, w_StartedAt := None, w_CompletedAt := None, w_Steps := steps'\<rparr>"
  using assms unfolding Workflow_InitializeForCreate_def Let_def
  by (auto split: if_splits sum.splits prod.splits option.splits)

lemma index_map_domain:
  assumes "index_map steps ids"
  shows "{k. get ids k \<noteq> None} = s_ID ` set steps"
proof (intro set_eqI iffI)
  fix k
  show "k \<in> s_ID ` set steps" if "k \<in> {k. get ids k \<noteq> None}"
    using that assms unfolding index_map_def by (metis (mono_tags) image_eqI mem_Collect_eq not_None_eq nth_mem)
  show "k \<in> {k. get ids k \<noteq> None}" if k: "k \<in> s_ID ` set steps"
  proof -
    have "get_or 0 ids k < length steps \<and> s_ID (steps ! get_or 0 ids k) = k"
      by (rule index_map_get_or [OF assms k])
    then show ?thesis using assms unfolding index_map_def by blast
  qed
qed

lemma list_all2_in2: "list_all2 P xs ys \<Longrightarrow> y \<in> set ys \<Longrightarrow> \<exists>x \<in> set xs. P x y"
  by (induction rule: list_all2_induct) auto

lemma index_map_ids:
  assumes "index_map steps ids" and eq: "map s_ID steps' = map s_ID steps"
  shows "index_map steps' ids"
proof -
  have "length steps' = length steps" using eq by (metis length_map)
  moreover have "s_ID (steps' ! i) = s_ID (steps ! i)" if "i < length steps" for i
    using eq that calculation by (metis nth_map)
  ultimately show ?thesis using assms(1) unfolding index_map_def by auto
qed

lemma accepted_valid:
  assumes "Workflow_InitializeForCreate L w at = Inr w'"
  shows "workflow_valid w' \<and> w_Status w' = WorkflowPending \<and> w_Version w' = 1
    \<and> list_all (step_fresh (w_ID w') at) (w_Steps w')"
proof -
  obtain steps ids steps' where ok: "TrimSpace (w_ID w) \<noteq> ''''" "w_Steps w \<noteq> []"
      "length (w_Steps w) \<le> MaxWorkflowSteps"
    and init: "init_steps L (TrimSpace (w_ID w)) at 0 [] (w_Steps w) = Inr (steps, ids)"
    and val: "validate_steps (w_Input w) ids steps = Inr steps'"
    and dag: "validateWorkflowDAG steps' ids = None"
    and w': "w' = w\<lparr>w_ID := TrimSpace (w_ID w), w_Status := WorkflowPending, w_Error := '''', w_Version := 1,
                w_CreatedAt := at, w_StartedAt := None, w_CompletedAt := None, w_Steps := steps'\<rparr>"
    using assms by (rule Workflow_InitializeForCreate_Inr)
  note facts = init_steps_Inr [OF init] and frame = validate_steps_frame [OF val]
  note steps = facts [THEN conjunct1] and dist = facts [THEN conjunct2, THEN conjunct1]
  have ok_steps: "\<And>s. s \<in> set steps \<Longrightarrow> workflowStepIDPattern (s_ID s) \<and> s_AgentID s \<noteq> ''''"
    using facts [THEN conjunct2, THEN conjunct2, THEN conjunct1] by blast
  have "length steps' = length steps" using frame(1) by (rule map_eq_imp_length_eq)
  then have len: "length steps' = length (w_Steps w)" unfolding steps length_map .
  have ids: "index_map steps ids" using init by (rule init_steps_index_map)
  then have ids': "index_map steps' ids"
    using frame(1) by (rule index_map_ids)
  have valid: "step_valid (w_Input w) (s_ID ` set steps) s'" if s': "s' \<in> set steps'" for s'
  proof -
    obtain s where "s \<in> set steps" "validateStep (w_Input w) ids s = Inr s'"
      using list_all2_in2 [OF validate_steps_Inr [OF val] s'] by blast
    moreover have "distinct (s_DependsOn s)" using calculation(1) unfolding steps by auto
    ultimately show ?thesis
      using ok_steps by (intro validateStep_valid [OF _ index_map_domain [OF ids]]) simp_all
  qed
  have img: "s_ID ` set steps' = s_ID ` set steps" using arg_cong [OF frame(1), of set] by simp
  have "deps_closed steps'" using valid unfolding deps_closed_def step_valid_def img by blast
  then have "acyclic (dep_rel steps')" using dag validateWorkflowDAG_iff [OF ids'] by blast
  moreover have "list_all (step_fresh (TrimSpace (w_ID w)) at) steps'"
    by (intro frame(3)) (simp add: steps list_all_iff)
  moreover have "distinct (map s_ID steps')" using frame(1) dist by simp
  moreover have "steps' \<noteq> []" using len ok(2) by auto
  ultimately show ?thesis
    using valid ok len unfolding workflow_valid_def w' by (simp add: list_all_iff img)
qed

section \<open>Properties\<close>

text \<open>
  C5: The cycle check decides acyclicity. For steps whose identifiers are indexed by \<^verbatim>\<open>ids\<close> and
  whose dependencies are known and not repeated (what the preceding checks ensure), the
  algorithm, which always ends, accepts exactly when no step depends on itself through any
  chain of dependencies.
\<close>

theorem workflow_dag_decides:
  assumes "index_map steps ids" and "deps_closed steps"
  shows "validateWorkflowDAG steps ids =
    (if acyclic (dep_rel steps) then None else Some WorkflowCycle)"
  using validateWorkflowDAG_iff [OF assms] by (auto simp: validateWorkflowDAG_def Let_def)

text \<open>
  C26: Whatever definition is accepted for creation is a valid workflow in its initial state:
  distinct well-formed step identifiers, dependencies, inputs and condition sources that name
  steps of the workflow which precede the step, an aggregation that fits the number of inputs, an
  acyclic dependency relation, and every step pending without Run, output or error.
\<close>

theorem workflow_accepted_valid:
  assumes "Workflow_InitializeForCreate L w at = Inr w'"
  shows "workflow_valid w' \<and> w_Status w' = WorkflowPending \<and> w_Version w' = 1
    \<and> list_all (step_fresh (w_ID w') at) (w_Steps w')"
  using assms by (rule accepted_valid)

definition sample_step :: "string \<Rightarrow> string list \<Rightarrow> string list \<Rightarrow> WorkflowStep" where
  "sample_step k deps inputs = \<lparr> s_ID = k, s_WorkflowID = ''w1'', s_AgentID = ''a'',
     s_Input = (if inputs = [] then ''go'' else ''''), s_InputFrom = inputs,
     s_InputAggregation = (if inputs = [] then '''' else if length inputs = 1 then ''single'' else ''json-array''),
     s_DependsOn = deps, s_Condition = None, s_Status = WorkflowStepPending, s_RunID = '''',
     s_Output = '''', s_Error = '''', s_CreatedAt = 7, s_StartedAt = None, s_CompletedAt = None \<rparr>"

text \<open>A diamond, and two steps that wait for each other.\<close>

definition sample_diamond :: "WorkflowStep list" where
  "sample_diamond =
     [sample_step ''top'' [] [], sample_step ''l'' [''top''] [''top''], sample_step ''r'' [''top''] [],
      sample_step ''join'' [''l'', ''r''] [''l'', ''r'']]"

definition sample_knot :: "WorkflowStep list" where
  "sample_knot = [sample_step ''x'' [''y''] [], sample_step ''y'' [''x''] []]"

definition sample_workflow :: Workflow where
  "sample_workflow = \<lparr> w_ID = ''w1'', w_Input = '''', w_Status = WorkflowPending,
     w_Steps = sample_diamond, w_Error = '''', w_Version = 1, w_CreatedAt = 7, w_StartedAt = None,
     w_CompletedAt = None \<rparr>"

lemma sample_workflow_accepted:
  "Workflow_InitializeForCreate sample_lib (sample_workflow\<lparr>w_ID := '' w1 '', w_Version := 0\<rparr>) 7 = Inr sample_workflow"
  by code_simp

theorem workflow_accepted_valid_witness:
  "workflow_valid sample_workflow \<and> acyclic (dep_rel sample_diamond)"
  using workflow_accepted_valid [OF sample_workflow_accepted]
  by (simp add: workflow_valid_def sample_workflow_def)

lemma sample_knot_indexed: "index_map sample_knot [(''x'', 0), (''y'', 1)]"
proof -
  have "init_steps sample_lib ''w1'' 7 0 [] sample_knot = Inr (sample_knot, [(''x'', 0), (''y'', 1)])"
    by code_simp
  then show ?thesis by (rule init_steps_index_map)
qed

theorem workflow_dag_decides_witness: "\<not> acyclic (dep_rel sample_knot)"
proof -
  have "deps_closed sample_knot" by code_simp
  moreover have "validateWorkflowDAG sample_knot [(''x'', 0), (''y'', 1)] = Some WorkflowCycle" by code_simp
  ultimately show ?thesis
    using workflow_dag_decides [OF sample_knot_indexed] by (simp split: if_splits)
qed

end
