(* ===== verification/Store_State.thy ===== *)
theory Store_State
  imports Domain_Run Domain_Agent Domain_Approval Domain_Workflow
begin

text \<open>
  \<^verbatim>\<open>internal/store\<close>: the state of the in-memory repository, its errors, and what its operations
  share. Every method of \<^verbatim>\<open>Memory\<close> holds the mutex for its whole body, so a method is one function
  on the state; an error leaves the state as it was, and so carries none. Values are immutable
  here, which is what the \<^verbatim>\<open>clone\<close> functions of the source achieve for its slices.
\<close>

section \<open>Data\<close>

record Memory =
  m_agents :: "(string, Agent) gomap"
  m_runs :: "(string, Run) gomap"
  m_runFences :: "(string, int) gomap"
  m_runEvents :: "(string, RunEvent list) gomap"
  m_idempotencyKeys :: "(string, string) gomap"
  m_workflows :: "(string, Workflow) gomap"
  m_workflowEvents :: "(string, WorkflowEvent list) gomap"
  m_auditEvents :: "AuditEvent list"
  m_approvals :: "(string, Approval) gomap"

definition NewMemory :: Memory where
  "NewMemory = \<lparr> m_agents = [], m_runs = [], m_runFences = [], m_runEvents = [],
     m_idempotencyKeys = [], m_workflows = [], m_workflowEvents = [], m_auditEvents = [],
     m_approvals = [] \<rparr>"

datatype store_error =
    ErrNotFound
  | ErrConflict
  | ErrRunCanceled
  | ErrStaleExecution
  | ErrRunNotExecutable RunStatus
  | ErrAgentInUse
  | ErrChildRunLimit
  | ErrApprovalNotPending
  | ErrApprovalNotApproved
  | ErrApprovalExpired
  | ErrApprovalMismatch
  | ErrAgent agent_error
  | ErrWorkflow workflow_error
  | ErrRun run_error
  | ErrAgentNotFound string
  | ErrParentRequired
  | ErrRootDeclaresRoot
  | ErrRootMismatch
  | ErrDefinitionChanged

record PendingRun =
  p_ID :: string
  p_Status :: RunStatus

record AgentFilter =
  f_Capability :: string
  f_Runtime :: string
  f_Protocol :: string

section \<open>Histories\<close>

text \<open>
  The tail of a history that a retention period and a maximum length leave, as the event
  methods compute it after appending: entries older than the cutoff are dropped from the front,
  then all but the last \<^verbatim>\<open>max\<close>. A bound that is not positive is no bound.
\<close>

definition retain :: "('e \<Rightarrow> time) \<Rightarrow> duration \<Rightarrow> int \<Rightarrow> time \<Rightarrow> 'e list \<Rightarrow> 'e list" where
  "retain timestamp retention maxEvents now events =
     (let events = (if 0 < retention
                    then dropWhile (\<lambda>e. timestamp e < now - retention) events else events)
      in if 0 < maxEvents \<and> maxEvents < int (length events)
         then drop (length events - nat maxEvents) events else events)"

text \<open>The last \<^verbatim>\<open>limit\<close> entries, or all of them when the limit is not positive.\<close>

definition last_events :: "int \<Rightarrow> 'e list \<Rightarrow> 'e list" where
  "last_events limit events =
     (if 0 < limit \<and> limit < int (length events)
      then drop (length events - nat limit) events else events)"

lemma retain_length: "0 < maxEvents \<Longrightarrow> int (length (retain ts retention maxEvents now es)) \<le> maxEvents"
  by (auto simp: retain_def Let_def)

lemma suffix_dropWhile': "suffix (dropWhile P xs) xs"
  by (metis suffix_dropWhile)

lemma retain_suffix: "suffix (retain ts retention maxEvents now es) es"
  unfolding retain_def Let_def by (auto intro: suffix_dropWhile' suffix_order.trans suffix_drop)

lemma retain_snoc:
  assumes "now - retention \<le> ts e"
  shows "\<exists>es'. retain ts retention maxEvents now (es @ [e]) = es' @ [e] \<and> suffix es' es"
proof -
  let ?xs = "retain ts retention maxEvents now (es @ [e])"
  have "?xs \<noteq> []"
  proof -
    have "dropWhile (\<lambda>x. ts x < now - retention) (es @ [e]) \<noteq> []"
      using assms by (simp add: dropWhile_eq_Nil_conv)
    then show ?thesis by (auto simp: retain_def Let_def)
  qed
  moreover have "suffix ?xs (es @ [e])" by (rule retain_suffix)
  ultimately show ?thesis by (auto simp: suffix_snoc)
qed

lemma last_events_suffix: "suffix (last_events limit es) es"
  by (simp add: last_events_def suffix_drop)

section \<open>Optimistic concurrency\<close>

text \<open>
  The contract of an entity that is replaced under an expected version: a successful
  replacement was based on the current version and advances it by one. A reader whose version
  has been replaced once can therefore never overwrite what others wrote, however many
  replacements follow, as long as the entity is only replaced.
\<close>

fun apply_updates ::
  "('m \<Rightarrow> 'k \<Rightarrow> int \<Rightarrow> 'a \<Rightarrow> (store_error + 'm)) \<Rightarrow> 'm \<Rightarrow> ('k \<times> int \<times> 'a) list \<Rightarrow> 'm" where
  "apply_updates upd m [] = m"
| "apply_updates upd m ((k, v, x) # rest) =
     apply_updates upd (case upd m k v x of Inl _ \<Rightarrow> m | Inr m' \<Rightarrow> m') rest"

locale versioned =
  fixes ver :: "'m \<Rightarrow> 'k \<Rightarrow> int option"
    and upd :: "'m \<Rightarrow> 'k \<Rightarrow> int \<Rightarrow> 'a \<Rightarrow> (store_error + 'm)"
  assumes upd_current: "upd m k v x = Inr m' \<Longrightarrow> ver m k = Some v"
    and upd_advances: "upd m k v x = Inr m' \<Longrightarrow> ver m' k' = (if k' = k then Some (v + 1) else ver m k')"
begin

lemma updates_monotone: "ver m k = Some v \<Longrightarrow> \<exists>v' \<ge> v. ver (apply_updates upd m us) k = Some v'"
proof (induction us arbitrary: m v)
  case (Cons u us)
  obtain k' w x where u: "u = (k', w, x)" by (cases u) auto
  show ?case
  proof (cases "upd m k' w x")
    case (Inr m')
    have "\<exists>v' \<ge> v. ver m' k = Some v'"
      using Cons.prems upd_current [OF Inr] upd_advances [OF Inr, of k] by (cases "k = k'") auto
    then obtain v' where v': "v \<le> v'" "ver m' k = Some v'" by blast
    with Cons.IH [OF v'(2)] Inr u show ?thesis using order_trans by fastforce
  qed (use Cons u in auto)
qed simp

lemma no_lost_update:
  assumes "upd m k v x = Inr m'"
  shows "\<exists>e. upd (apply_updates upd m' us) k v y = Inl e"
proof -
  have "ver m' k = Some (v + 1)" using upd_advances [OF assms, of k] by simp
  then obtain v' where "v + 1 \<le> v'" "ver (apply_updates upd m' us) k = Some v'"
    using updates_monotone by blast
  then show ?thesis using upd_current [of "apply_updates upd m' us" k v y]
    by (cases "upd (apply_updates upd m' us) k v y") auto
qed

end

end
