(* ===== verification/Store_Agents.thy ===== *)
theory Store_Agents
  imports Store_State
begin

text \<open>
  The Agent methods of \<^verbatim>\<open>internal/store/memory.go\<close>. Replacement follows the optimistic
  concurrency contract, and a listing contains exactly the matching Agents, in an order that does
  not depend on the iteration order of the map.
\<close>

section \<open>Operations\<close>

definition CreateAgent :: "golib \<Rightarrow> time \<Rightarrow> Agent \<Rightarrow> Memory \<Rightarrow> store_error + (Agent \<times> Memory)" where
  "CreateAgent L now agent m =
     (case Agent_InitializeForCreate L agent now of
        Inl e \<Rightarrow> Inl (ErrAgent e)
      | Inr agent \<Rightarrow>
          if get (m_agents m) (a_ID agent) \<noteq> None then Inl ErrConflict
          else Inr (agent, m\<lparr>m_agents := put (a_ID agent) agent (m_agents m)\<rparr>))"

definition UpdateAgent ::
  "golib \<Rightarrow> time \<Rightarrow> Agent \<Rightarrow> int \<Rightarrow> Memory \<Rightarrow> store_error + (Agent \<times> Memory)" where
  "UpdateAgent L now agent expectedVersion m =
     (case NormalizeAndValidate L agent of
        Inl e \<Rightarrow> Inl (ErrAgent e)
      | Inr agent \<Rightarrow>
          (case get (m_agents m) (a_ID agent) of
             None \<Rightarrow> Inl ErrNotFound
           | Some existing \<Rightarrow>
               if expectedVersion < 1 \<or> a_Version existing \<noteq> expectedVersion then Inl ErrConflict
               else let agent = agent\<lparr> a_CreatedAt := a_CreatedAt existing,
                                       a_UpdatedAt := now,
                                       a_Version := a_Version existing + 1 \<rparr>
                    in Inr (agent, m\<lparr>m_agents := put (a_ID agent) agent (m_agents m)\<rparr>)))"

definition DeleteAgent :: "string \<Rightarrow> int \<Rightarrow> Memory \<Rightarrow> store_error + Memory" where
  "DeleteAgent ident expectedVersion m =
     (case get (m_agents m) ident of
        None \<Rightarrow> Inl ErrNotFound
      | Some agent \<Rightarrow>
          if expectedVersion < 1 \<or> a_Version agent \<noteq> expectedVersion then Inl ErrConflict
          else if list_ex (\<lambda>(_, run). r_AgentID run = ident) (m_runs m) then Inl ErrAgentInUse
          else if list_ex (\<lambda>(_, workflow). list_ex (\<lambda>step. s_AgentID step = ident) (w_Steps workflow))
                 (m_workflows m) then Inl ErrAgentInUse
          else Inr (m\<lparr>m_agents := del ident (m_agents m)\<rparr>))"

definition GetAgent :: "string \<Rightarrow> Memory \<Rightarrow> store_error + Agent" where
  "GetAgent ident m = (case get (m_agents m) ident of None \<Rightarrow> Inl ErrNotFound | Some agent \<Rightarrow> Inr agent)"

definition agentHasCapability :: "Agent \<Rightarrow> string \<Rightarrow> bool" where
  "agentHasCapability agent capability \<longleftrightarrow>
     list_ex (\<lambda>candidate. candidate = capability) (a_Capabilities agent)"

definition sortAgents :: "Agent list \<Rightarrow> Agent list" where
  "sortAgents = sort_by (created_then_id a_CreatedAt a_ID)"

text \<open>The filter with its fields normalised; a blank capability is no condition.\<close>

definition normalize_filter :: "golib \<Rightarrow> AgentFilter \<Rightarrow> agent_error + AgentFilter" where
  "normalize_filter L flt =
     (case (if f_Capability flt \<noteq> '''' then NormalizeCapability L (f_Capability flt)
            else Inr (f_Capability flt)) of
        Inl e \<Rightarrow> Inl e
      | Inr capability \<Rightarrow>
     (case NormalizeAgentIdentifier L ''runtime'' (f_Runtime flt) of
        Inl e \<Rightarrow> Inl e
      | Inr runtime \<Rightarrow>
     (case NormalizeAgentIdentifier L ''protocol'' (f_Protocol flt) of
        Inl e \<Rightarrow> Inl e
      | Inr protocol \<Rightarrow>
          Inr \<lparr> f_Capability = capability, f_Runtime = runtime, f_Protocol = protocol \<rparr>)))"

definition agent_matches :: "AgentFilter \<Rightarrow> Agent \<Rightarrow> bool" where
  "agent_matches flt agent \<longleftrightarrow>
     \<not> ((f_Runtime flt \<noteq> '''' \<and> a_Runtime agent \<noteq> f_Runtime flt)
        \<or> (f_Protocol flt \<noteq> '''' \<and> a_Protocol agent \<noteq> f_Protocol flt))
   \<and> \<not> (f_Capability flt \<noteq> '''' \<and> \<not> agentHasCapability agent (f_Capability flt))"

definition FindAgents :: "golib \<Rightarrow> AgentFilter \<Rightarrow> Memory \<Rightarrow> store_error + Agent list" where
  "FindAgents L flt m =
     (case normalize_filter L flt of
        Inl e \<Rightarrow> Inl (ErrAgent e)
      | Inr flt \<Rightarrow>
          Inr (sortAgents (filter (agent_matches flt) (map snd (m_agents m)))))"

definition ListAgents :: "golib \<Rightarrow> Memory \<Rightarrow> store_error + Agent list" where
  "ListAgents L m = FindAgents L \<lparr> f_Capability = '''', f_Runtime = '''', f_Protocol = '''' \<rparr> m"

definition ListAgentsByCapability :: "golib \<Rightarrow> string \<Rightarrow> Memory \<Rightarrow> store_error + Agent list" where
  "ListAgentsByCapability L capability m =
     FindAgents L \<lparr> f_Capability = capability, f_Runtime = '''', f_Protocol = '''' \<rparr> m"

section \<open>Invariant\<close>

definition agents_keyed :: "Memory \<Rightarrow> bool" where
  "agents_keyed m \<longleftrightarrow> keyed a_ID (m_agents m)
     \<and> (\<forall>ident a. get (m_agents m) ident = Some a \<longrightarrow> 1 \<le> a_Version a)"

lemma UpdateAgent_Inr:
  assumes "UpdateAgent L now agent v m = Inr (a', m')"
  obtains a existing where "NormalizeAndValidate L agent = Inr a"
    and "get (m_agents m) (a_ID a) = Some existing" and "1 \<le> v" and "a_Version existing = v"
    and "a' = a\<lparr>a_CreatedAt := a_CreatedAt existing, a_UpdatedAt := now, a_Version := v + 1\<rparr>"
    and "m' = m\<lparr>m_agents := put (a_ID a) a' (m_agents m)\<rparr>"
  using assms by (auto simp: UpdateAgent_def Let_def split: sum.splits option.splits if_splits)

lemma CreateAgent_Inr:
  assumes "CreateAgent L now agent m = Inr (a', m')"
  shows "Agent_InitializeForCreate L agent now = Inr a'" and "get (m_agents m) (a_ID a') = None"
    and "m' = m\<lparr>m_agents := put (a_ID a') a' (m_agents m)\<rparr>"
  using assms by (auto simp: CreateAgent_def split: sum.splits if_splits)

lemma InitializeForCreate_version: "Agent_InitializeForCreate L agent now = Inr a \<Longrightarrow> a_Version a = 1"
  by (auto simp: Agent_InitializeForCreate_def Let_def split: sum.splits if_splits)

lemma DeleteAgent_Inr:
  assumes "DeleteAgent ident v m = Inr m'"
  shows "m' = m\<lparr>m_agents := del ident (m_agents m)\<rparr>"
    and "\<And>k run. get (m_runs m) k = Some run \<Longrightarrow> r_AgentID run \<noteq> ident"
    and "\<And>k w s. get (m_workflows m) k = Some w \<Longrightarrow> s \<in> set (w_Steps w) \<Longrightarrow> s_AgentID s \<noteq> ident"
    and "\<exists>a. get (m_agents m) ident = Some a \<and> a_Version a = v"
  using assms
  by (auto simp: DeleteAgent_def list_ex_iff split: option.splits if_splits dest!: get_Some_set)

lemma agents_keyed_ops:
  assumes "agents_keyed m"
  shows "CreateAgent L now agent m = Inr (a', m') \<Longrightarrow> agents_keyed m'"
    and "UpdateAgent L now agent v m = Inr (a', m') \<Longrightarrow> agents_keyed m'"
    and "DeleteAgent ident v m = Inr m' \<Longrightarrow> agents_keyed m'"
proof -
  show "agents_keyed m'" if c: "CreateAgent L now agent m = Inr (a', m')"
    using assms InitializeForCreate_version [OF CreateAgent_Inr(1) [OF c]] unfolding CreateAgent_Inr(3) [OF c]
    by (auto simp: agents_keyed_def)
  show "agents_keyed m'" if u: "UpdateAgent L now agent v m = Inr (a', m')"
    using u by (rule UpdateAgent_Inr) (use assms in \<open>auto simp: agents_keyed_def\<close>)
  show "agents_keyed m'" if d: "DeleteAgent ident v m = Inr m'"
    using assms unfolding DeleteAgent_Inr(1) [OF d] by (auto simp: agents_keyed_def)
qed

section \<open>Replacement under an expected version\<close>

definition agent_version :: "Memory \<Rightarrow> string \<Rightarrow> int option" where
  "agent_version m k = map_option a_Version (get (m_agents m) k)"

text \<open>Replacing the Agent named \<open>k\<close>, as seen through the version contract.\<close>

definition replace_agent ::
  "golib \<Rightarrow> Memory \<Rightarrow> string \<Rightarrow> int \<Rightarrow> time \<times> Agent \<Rightarrow> store_error + Memory" where
  "replace_agent L m k v x =
     (case UpdateAgent L (fst x) ((snd x)\<lparr>a_ID := k\<rparr>) v m of
        Inl e \<Rightarrow> Inl e
      | Inr (a, m') \<Rightarrow> if a_ID a = k then Inr m' else Inl ErrNotFound)"

lemma replace_agent_Inr:
  "replace_agent L m k v x = Inr m' \<Longrightarrow>
     agent_version m k = Some v \<and> agent_version m' k' = (if k' = k then Some (v + 1) else agent_version m k')"
  by (auto simp: replace_agent_def agent_version_def split: sum.splits if_splits elim!: UpdateAgent_Inr)

interpretation agent_versions: versioned agent_version "replace_agent L" for L
  by unfold_locales (use replace_agent_Inr in blast)+

lemma UpdateAgent_replace:
  "UpdateAgent L now agent v m = Inr (a, m') \<Longrightarrow> replace_agent L m (a_ID a) v (now, agent\<lparr>a_ID := a_ID a\<rparr>) = Inr m'"
proof -
  assume u: "UpdateAgent L now agent v m = Inr (a, m')"
  have "NormalizeAndValidate L (agent\<lparr>a_ID := a_ID a\<rparr>) = NormalizeAndValidate L agent"
    using u
  proof (rule UpdateAgent_Inr)
    fix b existing
    assume "NormalizeAndValidate L agent = Inr b"
      and "a = b\<lparr>a_CreatedAt := a_CreatedAt existing, a_UpdatedAt := now, a_Version := v + 1\<rparr>"
    then have "a_ID a = TrimSpace (a_ID agent)" by (auto simp: NormalizeAndValidate_Inr normalize_fields_def)
    then have "normalize_fields L (agent\<lparr>a_ID := a_ID a\<rparr>) = normalize_fields L agent"
      by (simp add: normalize_fields_def)
    then show ?thesis by (simp add: NormalizeAndValidate_def)
  qed
  then show ?thesis using u by (simp add: replace_agent_def UpdateAgent_def)
qed

section \<open>Listings\<close>

lemma FindAgents_Inr:
  "FindAgents L flt m = Inr agents \<longleftrightarrow>
     (\<exists>f. normalize_filter L flt = Inr f
        \<and> agents = sortAgents (filter (agent_matches f) (map snd (m_agents m))))"
  by (auto simp: FindAgents_def split: sum.splits)

section \<open>Properties\<close>

text \<open>
  No lost update on Agents. Once a full replacement based on version \<open>v\<close> has succeeded, a second
  replacement of that Agent based on the same version is refused, whatever other replacements of
  any Agents happened in between.
\<close>

theorem agent_no_lost_update:
  assumes "UpdateAgent L now agent v m = Inr (a, m')"
  shows "case UpdateAgent L now2 agent2 v (apply_updates (replace_agent L) m' us) of
      Inl e \<Rightarrow> True
    | Inr (a2, m2) \<Rightarrow> a_ID a2 \<noteq> a_ID a"
proof (cases "UpdateAgent L now2 agent2 v (apply_updates (replace_agent L) m' us)")
  case (Inr r)
  obtain a2 m2 where "r = (a2, m2)" by (cases r)
  with Inr have "replace_agent L (apply_updates (replace_agent L) m' us) (a_ID a2) v (now2, agent2\<lparr>a_ID := a_ID a2\<rparr>) = Inr m2"
    by (intro UpdateAgent_replace) simp
  then have "a_ID a2 \<noteq> a_ID a"
    using agent_versions.no_lost_update [OF UpdateAgent_replace [OF assms], of us
        "(now2, agent2\<lparr>a_ID := a_ID a2\<rparr>)"] by auto
  with Inr \<open>r = (a2, m2)\<close> show ?thesis by simp
qed simp

definition sample_store :: Memory where
  "sample_store = NewMemory\<lparr>m_agents := [(''a'', sample_agent_normal\<lparr>a_Version := 1\<rparr>)]\<rparr>"

lemma sample_update:
  "UpdateAgent sample_lib 50 sample_agent 1 sample_store =
     Inr (sample_agent_normal\<lparr>a_UpdatedAt := 50, a_Version := 2\<rparr>,
          NewMemory\<lparr>m_agents := [(''a'', sample_agent_normal\<lparr>a_UpdatedAt := 50, a_Version := 2\<rparr>)]\<rparr>)"
  by code_simp

theorem agent_no_lost_update_witness:
  "case UpdateAgent sample_lib 60 sample_agent 1
      (apply_updates (replace_agent sample_lib)
        (NewMemory\<lparr>m_agents := [(''a'', sample_agent_normal\<lparr>a_UpdatedAt := 50, a_Version := 2\<rparr>)]\<rparr>)
        [(''a'', 2, 55, sample_agent)]) of
     Inl e \<Rightarrow> True
   | Inr (a2, m2) \<Rightarrow> a_ID a2 \<noteq> a_ID (sample_agent_normal\<lparr>a_UpdatedAt := 50, a_Version := 2\<rparr>)"
  by (rule agent_no_lost_update [OF sample_update])

text \<open>
  Discovery is exact and deterministic. A search returns each stored Agent that matches the
  normalised filter exactly once and nothing else, ordered by creation time and then identifier,
  and two stores with the same contents give the same list whatever the iteration order of
  their maps.
\<close>

theorem find_agents_exact:
  assumes "agents_keyed m" and "FindAgents L flt m = Inr agents"
  shows "\<exists>f. normalize_filter L flt = Inr f
    \<and> distinct agents
    \<and> (\<forall>a. a \<in> set agents \<longleftrightarrow> get (m_agents m) (a_ID a) = Some a \<and> agent_matches f a)
    \<and> sorted_wrt (\<lambda>a b. a_CreatedAt a < a_CreatedAt b \<or> a_CreatedAt a = a_CreatedAt b \<and> a_ID a \<le> a_ID b) agents
    \<and> (\<forall>m2. agents_keyed m2 \<and> get (m_agents m2) = get (m_agents m) \<longrightarrow> FindAgents L flt m2 = Inr agents)"
proof -
  obtain f where f: "normalize_filter L flt = Inr f"
    and agents: "agents = sortAgents (filter (agent_matches f) (map snd (m_agents m)))"
    using assms(2) by (auto simp: FindAgents_Inr)
  have k: "keyed a_ID (m_agents m)" using assms(1) by (simp add: agents_keyed_def)
  have "distinct agents" using keyed_values(1) [OF k] by (simp add: agents sortAgents_def)
  moreover have "a \<in> set agents \<longleftrightarrow> get (m_agents m) (a_ID a) = Some a \<and> agent_matches f a" for a
    using keyed_values(3) [OF k, of a] by (auto simp: agents sortAgents_def)
  moreover have "sorted_wrt (\<lambda>a b. \<not> created_then_id a_CreatedAt a_ID b a) agents"
    unfolding agents sortAgents_def by (rule created_id.sorted_sort_by)
  then have "sorted_wrt (\<lambda>a b. a_CreatedAt a < a_CreatedAt b \<or> a_CreatedAt a = a_CreatedAt b \<and> a_ID a \<le> a_ID b) agents"
    by (rule sorted_wrt_mono_rel [rotated]) (auto simp: created_then_id_def split: if_splits)
  moreover have "FindAgents L flt m2 = Inr agents"
    if "agents_keyed m2 \<and> get (m_agents m2) = get (m_agents m)" for m2
    using keyed_listing [of a_ID "m_agents m2" "m_agents m"] that k f
    by (simp add: FindAgents_def agents sortAgents_def agents_keyed_def)
  ultimately show ?thesis using f by blast
qed

theorem find_agents_exact_witness:
  "FindAgents sample_lib \<lparr> f_Capability = ''SQL'', f_Runtime = '''', f_Protocol = '''' \<rparr> sample_store
     = Inr [sample_agent_normal\<lparr>a_Version := 1\<rparr>]
   \<and> agents_keyed sample_store
   \<and> (\<exists>f. normalize_filter sample_lib \<lparr> f_Capability = ''SQL'', f_Runtime = '''', f_Protocol = '''' \<rparr> = Inr f
        \<and> agent_matches f (sample_agent_normal\<lparr>a_Version := 1\<rparr>))"
proof -
  have found: "FindAgents sample_lib \<lparr> f_Capability = ''SQL'', f_Runtime = '''', f_Protocol = '''' \<rparr> sample_store
      = Inr [sample_agent_normal\<lparr>a_Version := 1\<rparr>]"
    by code_simp
  have keyed: "agents_keyed sample_store"
    by (simp add: agents_keyed_def keyed_def keys_distinct_def sample_store_def NewMemory_def
        sample_agent_normal_def sample_agent_def)
  show ?thesis using find_agents_exact [OF keyed found] found keyed by auto
qed

end
