(* ===== verification/Store_Runs.thy ===== *)
theory Store_Runs
  imports Store_State
begin

text \<open>
  The Run and Run-event methods of \<^verbatim>\<open>internal/store/memory.go\<close>: idempotent creation, lineage,
  fenced updates, cancellation and recovery.
\<close>

section \<open>Creation\<close>

definition zero_run :: Run where
  "zero_run = \<lparr> r_ID = '''', r_AgentID = '''', r_ParentRunID = '''', r_RootRunID = '''',
     r_RequiredCapabilities = [], r_Input = '''', r_Output = '''', r_Status = RunQueued,
     r_Error = '''', r_Attempt = 0, r_MaxAttempts = 0, r_RequestID = '''', r_DurationMS = 0,
     r_CreatedAt = 0, r_StartedAt = None, r_CompletedAt = None \<rparr>"

definition store_run :: "Run \<Rightarrow> string \<Rightarrow> Memory \<Rightarrow> (Run \<times> bool) \<times> Memory" where
  "store_run run idempotencyKey m =
     ((run, True),
      m\<lparr> m_idempotencyKeys := (if idempotencyKey \<noteq> '''' then put idempotencyKey (r_ID run) (m_idempotencyKeys m)
                              else m_idempotencyKeys m),
         m_runs := put (r_ID run) run (m_runs m) \<rparr>)"

definition createRunLocked :: "Run \<Rightarrow> string \<Rightarrow> Memory \<Rightarrow> store_error + ((Run \<times> bool) \<times> Memory)" where
  "createRunLocked run idempotencyKey m =
     (case (if idempotencyKey \<noteq> '''' then get (m_idempotencyKeys m) idempotencyKey else None) of
        Some runID \<Rightarrow> Inr ((get_or zero_run (m_runs m) runID, False), m)
      | None \<Rightarrow>
          if r_ParentRunID run = '''' then
            (if r_RootRunID run \<noteq> '''' then Inl ErrRootDeclaresRoot
             else Inr (store_run run idempotencyKey m))
          else (case get (m_runs m) (r_ParentRunID run) of
             None \<Rightarrow> Inl ErrNotFound
           | Some parent \<Rightarrow>
               let providedRoot = r_RootRunID run in
               (case Run_AttachTo run parent of
                  Inl e \<Rightarrow> Inl (ErrRun e)
                | Inr run \<Rightarrow>
                    if providedRoot \<noteq> '''' \<and> providedRoot \<noteq> r_RootRunID run then Inl ErrRootMismatch
                    else Inr (store_run run idempotencyKey m))))"

definition CreateRun :: "Run \<Rightarrow> string \<Rightarrow> Memory \<Rightarrow> store_error + ((Run \<times> bool) \<times> Memory)" where
  "CreateRun run idempotencyKey m = createRunLocked run idempotencyKey m"

definition count_children :: "string \<Rightarrow> Memory \<Rightarrow> nat" where
  "count_children parentID m =
     length (filter (\<lambda>(_, existing). r_ParentRunID existing = parentID) (m_runs m))"

definition CreateChildRun ::
  "Run \<Rightarrow> string \<Rightarrow> int \<Rightarrow> Memory \<Rightarrow> store_error + ((Run \<times> bool) \<times> Memory)" where
  "CreateChildRun run idempotencyKey maxChildren m =
     (if r_ParentRunID run = '''' then Inl ErrParentRequired
      else case (if idempotencyKey \<noteq> '''' then get (m_idempotencyKeys m) idempotencyKey else None) of
        Some runID \<Rightarrow> Inr ((get_or zero_run (m_runs m) runID, False), m)
      | None \<Rightarrow>
          if get (m_runs m) (r_ParentRunID run) = None then Inl ErrNotFound
          else if 0 < maxChildren \<and> maxChildren \<le> int (count_children (r_ParentRunID run) m) then
            Inl ErrChildRunLimit
          else createRunLocked run idempotencyKey m)"

section \<open>Reading\<close>

definition GetRun :: "string \<Rightarrow> Memory \<Rightarrow> store_error + Run" where
  "GetRun runID m = (case get (m_runs m) runID of None \<Rightarrow> Inl ErrNotFound | Some run \<Rightarrow> Inr run)"

definition GetRunByIdempotencyKey :: "string \<Rightarrow> Memory \<Rightarrow> store_error + Run" where
  "GetRunByIdempotencyKey key m =
     (case get (m_idempotencyKeys m) key of
        None \<Rightarrow> Inl ErrNotFound
      | Some runID \<Rightarrow> Inr (get_or zero_run (m_runs m) runID))"

definition ListRuns :: "Memory \<Rightarrow> Run list" where
  "ListRuns m = sort_by (\<lambda>a b. r_CreatedAt a < r_CreatedAt b) (map snd (m_runs m))"

definition ListChildRuns :: "string \<Rightarrow> Memory \<Rightarrow> store_error + Run list" where
  "ListChildRuns parentRunID m =
     (if get (m_runs m) parentRunID = None then Inl ErrNotFound
      else Inr (sort_by (created_then_id r_CreatedAt r_ID)
                  (filter (\<lambda>run. r_ParentRunID run = parentRunID) (map snd (m_runs m)))))"

fun count_active :: "(string, int) gomap \<Rightarrow> Run list \<Rightarrow> (string, int) gomap" where
  "count_active result [] = result"
| "count_active result (run # runs) =
     (if r_Status run \<noteq> RunQueued \<and> r_Status run \<noteq> RunRunning then count_active result runs
      else case get result (r_AgentID run) of
        None \<Rightarrow> count_active result runs
      | Some n \<Rightarrow> count_active (put (r_AgentID run) (n + 1) result) runs)"

definition CountActiveRunsByAgent :: "string list \<Rightarrow> Memory \<Rightarrow> (string, int) gomap" where
  "CountActiveRunsByAgent agentIDs m =
     count_active (foldl (\<lambda>result agentID. put agentID 0 result) [] agentIDs) (map snd (m_runs m))"

definition ListPendingRuns :: "Memory \<Rightarrow> PendingRun list" where
  "ListPendingRuns m =
     sort_by (\<lambda>a b. p_ID a < p_ID b)
       (map (\<lambda>(runID, run). \<lparr> p_ID = runID, p_Status = r_Status run \<rparr>)
         (filter (\<lambda>(_, run). r_Status run = RunQueued \<or> r_Status run = RunRunning) (m_runs m)))"

section \<open>Writing\<close>

text \<open>Both updates keep the stored lineage.\<close>

definition keep_lineage :: "Run \<Rightarrow> Run \<Rightarrow> Run" where
  "keep_lineage existing run =
     run\<lparr>r_ParentRunID := r_ParentRunID existing, r_RootRunID := r_RootRunID existing\<rparr>"

definition UpdateRun :: "Run \<Rightarrow> Memory \<Rightarrow> store_error + Memory" where
  "UpdateRun run m =
     (case get (m_runs m) (r_ID run) of
        None \<Rightarrow> Inl ErrNotFound
      | Some existing \<Rightarrow>
          if r_Status existing = RunCanceled then Inl ErrRunCanceled
          else if get_or 0 (m_runFences m) (r_ID run) \<noteq> 0 then Inl ErrStaleExecution
          else Inr (m\<lparr>m_runs := put (r_ID run) (keep_lineage existing run) (m_runs m)\<rparr>))"

definition ClaimRunExecution :: "string \<Rightarrow> int \<Rightarrow> Memory \<Rightarrow> store_error + (int \<times> Memory)" where
  "ClaimRunExecution runID minimumFence m =
     (case get (m_runs m) runID of
        None \<Rightarrow> Inl ErrNotFound
      | Some run \<Rightarrow>
          if r_Status run = RunCanceled then Inl ErrRunCanceled
          else if r_Status run \<noteq> RunQueued \<and> r_Status run \<noteq> RunRunning then
            Inl (ErrRunNotExecutable (r_Status run))
          else let next = get_or 0 (m_runFences m) runID + 1;
                   next = (if minimumFence > next then minimumFence else next)
               in Inr (next, m\<lparr>m_runFences := put runID next (m_runFences m)\<rparr>))"

definition UpdateRunFenced :: "Run \<Rightarrow> int \<Rightarrow> Memory \<Rightarrow> store_error + Memory" where
  "UpdateRunFenced run fence m =
     (case get (m_runs m) (r_ID run) of
        None \<Rightarrow> Inl ErrNotFound
      | Some existing \<Rightarrow>
          if r_Status existing = RunCanceled then Inl ErrRunCanceled
          else if fence \<le> 0 \<or> get_or 0 (m_runFences m) (r_ID run) \<noteq> fence then Inl ErrStaleExecution
          else Inr (m\<lparr>m_runs := put (r_ID run) (keep_lineage existing run) (m_runs m)\<rparr>))"

text \<open>
  A refused cancellation also returns the stored Run, which its callers drop; it is left out of
  the error.
\<close>

definition CancelRun :: "string \<Rightarrow> time \<Rightarrow> Memory \<Rightarrow> store_error + (Run \<times> Memory)" where
  "CancelRun runID at m =
     (case get (m_runs m) runID of
        None \<Rightarrow> Inl ErrNotFound
      | Some run \<Rightarrow>
          (case Run_Cancel run at of
             Inl e \<Rightarrow> Inl (ErrRun e)
           | Inr run \<Rightarrow> Inr (run, m\<lparr>m_runs := put runID run (m_runs m)\<rparr>)))"

definition RecoverRun :: "string \<Rightarrow> int \<Rightarrow> Memory \<Rightarrow> store_error + (bool \<times> Memory)" where
  "RecoverRun runID minimumFence m =
     (case get (m_runs m) runID of
        None \<Rightarrow> Inl ErrNotFound
      | Some run \<Rightarrow>
          if r_Status run \<noteq> RunRunning then Inr (False, m)
          else let nextFence = get_or 0 (m_runFences m) runID + 1;
                   nextFence = (if minimumFence > nextFence then minimumFence else nextFence);
                   run = run\<lparr> r_Status := RunQueued, r_StartedAt := None, r_DurationMS := 0,
                              r_Attempt := (if r_Attempt run > 0 then r_Attempt run - 1 else r_Attempt run) \<rparr>
               in Inr (True, m\<lparr> m_runFences := put runID nextFence (m_runFences m),
                                m_runs := put runID run (m_runs m) \<rparr>))"

section \<open>Events\<close>

definition AppendRunEvent ::
  "time \<Rightarrow> RunEvent \<Rightarrow> duration \<Rightarrow> int \<Rightarrow> Memory \<Rightarrow> store_error + Memory" where
  "AppendRunEvent now event retention maxPerRun m =
     (if get (m_runs m) (e_RunID event) = None then Inl ErrNotFound
      else let events = get_or [] (m_runEvents m) (e_RunID event) @ [event];
               events = retain e_Timestamp retention maxPerRun now events
           in Inr (m\<lparr>m_runEvents := put (e_RunID event) events (m_runEvents m)\<rparr>))"

definition ListRunEvents :: "string \<Rightarrow> int \<Rightarrow> Memory \<Rightarrow> store_error + RunEvent list" where
  "ListRunEvents runID limit m =
     (if get (m_runs m) runID = None then Inl ErrNotFound
      else Inr (last_events limit (get_or [] (m_runEvents m) runID)))"

section \<open>When the operations succeed\<close>

abbreviation fence_of :: "Memory \<Rightarrow> string \<Rightarrow> int" where
  "fence_of m runID \<equiv> get_or 0 (m_runFences m) runID"

lemma UpdateRun_Inr:
  "UpdateRun run m = Inr m' \<longleftrightarrow>
     (\<exists>existing. get (m_runs m) (r_ID run) = Some existing \<and> r_Status existing \<noteq> RunCanceled
        \<and> fence_of m (r_ID run) = 0
        \<and> m' = m\<lparr>m_runs := put (r_ID run) (keep_lineage existing run) (m_runs m)\<rparr>)"
  by (auto simp: UpdateRun_def split: option.splits)

lemma UpdateRunFenced_Inr:
  "UpdateRunFenced run fence m = Inr m' \<longleftrightarrow>
     (\<exists>existing. get (m_runs m) (r_ID run) = Some existing \<and> r_Status existing \<noteq> RunCanceled
        \<and> 0 < fence \<and> fence_of m (r_ID run) = fence
        \<and> m' = m\<lparr>m_runs := put (r_ID run) (keep_lineage existing run) (m_runs m)\<rparr>)"
  by (auto simp: UpdateRunFenced_def split: option.splits)

lemma ClaimRunExecution_Inr:
  "ClaimRunExecution runID minimumFence m = Inr (fence, m') \<longleftrightarrow>
     (\<exists>run. get (m_runs m) runID = Some run \<and> run_active run
        \<and> fence = max (fence_of m runID + 1) minimumFence
        \<and> m' = m\<lparr>m_runFences := put runID fence (m_runFences m)\<rparr>)"
  by (auto simp: ClaimRunExecution_def run_active_def Let_def max_def split: option.splits)

lemma CancelRun_Inr:
  "CancelRun runID at m = Inr (run', m') \<longleftrightarrow>
     (\<exists>run. get (m_runs m) runID = Some run \<and> Run_Cancel run at = Inr run'
        \<and> m' = m\<lparr>m_runs := put runID run' (m_runs m)\<rparr>)"
  by (auto simp: CancelRun_def split: option.splits sum.splits)

definition recovered :: "Run \<Rightarrow> Run" where
  "recovered run = run\<lparr> r_Status := RunQueued, r_StartedAt := None, r_DurationMS := 0,
     r_Attempt := (if r_Attempt run > 0 then r_Attempt run - 1 else r_Attempt run) \<rparr>"

lemma RecoverRun_Inr:
  "RecoverRun runID minimumFence m = Inr (b, m') \<longleftrightarrow>
     (\<exists>run. get (m_runs m) runID = Some run \<and> b = (r_Status run = RunRunning)
        \<and> m' = (if b then m\<lparr> m_runFences := put runID (max (fence_of m runID + 1) minimumFence) (m_runFences m),
                             m_runs := put runID (recovered run) (m_runs m) \<rparr> else m))"
  by (auto simp: RecoverRun_def recovered_def Let_def max_def split: option.splits)

lemma AppendRunEvent_Inr:
  "AppendRunEvent now event retention maxPerRun m = Inr m' \<longleftrightarrow>
     get (m_runs m) (e_RunID event) \<noteq> None
   \<and> m' = m\<lparr>m_runEvents := put (e_RunID event)
       (retain e_Timestamp retention maxPerRun now (get_or [] (m_runEvents m) (e_RunID event) @ [event]))
       (m_runEvents m)\<rparr>"
  by (auto simp: AppendRunEvent_def Let_def)

lemma keep_lineage_simps [simp]:
  "r_ID (keep_lineage existing run) = r_ID run" "r_Status (keep_lineage existing run) = r_Status run"
  "r_AgentID (keep_lineage existing run) = r_AgentID run"
  "r_ParentRunID (keep_lineage existing run) = r_ParentRunID existing"
  "r_RootRunID (keep_lineage existing run) = r_RootRunID existing"
  by (simp_all add: keep_lineage_def)

lemma recovered_simps [simp]:
  "r_ID (recovered run) = r_ID run" "r_AgentID (recovered run) = r_AgentID run"
  "r_Status (recovered run) = RunQueued"
  "r_ParentRunID (recovered run) = r_ParentRunID run" "r_RootRunID (recovered run) = r_RootRunID run"
  by (simp_all add: recovered_def)

text \<open>Creation either returns the Run of a known idempotency key or stores a new one.\<close>

definition key_known :: "string \<Rightarrow> Memory \<Rightarrow> string option" where
  "key_known idempotencyKey m =
     (if idempotencyKey \<noteq> '''' then get (m_idempotencyKeys m) idempotencyKey else None)"

definition lineage_ok :: "Memory \<Rightarrow> Run \<Rightarrow> bool" where
  "lineage_ok m run \<longleftrightarrow>
     (if r_ParentRunID run = '''' then r_RootRunID run = ''''
      else \<exists>parent. get (m_runs m) (r_ParentRunID run) = Some parent \<and> r_RootRunID run = root_of parent)"

lemma createRunLocked_known:
  "key_known key m = Some runID \<Longrightarrow>
     createRunLocked run key m = Inr ((get_or zero_run (m_runs m) runID, False), m)"
  by (simp add: createRunLocked_def key_known_def)

lemma createRunLocked_new:
  assumes "createRunLocked run key m = Inr (r, m')" and "key_known key m = None"
    and keyed: "keyed r_ID (m_runs m)"
  obtains run' where "r = (run', True)" and "(r, m') = store_run run' key m"
    and "run' = run\<lparr>r_ParentRunID := r_ParentRunID run', r_RootRunID := r_RootRunID run'\<rparr>"
    and "lineage_ok m run'"
    and "r_ParentRunID run' = r_ParentRunID run"
    and "r_ParentRunID run' \<noteq> '''' \<Longrightarrow> r_ID run' \<noteq> ''''"
proof (cases "r_ParentRunID run = ''''")
  case True
  then show ?thesis
    using assms(1,2) that [of run]
    by (auto simp: createRunLocked_def key_known_def lineage_ok_def store_run_def split: if_splits)
next
  case False
  with assms(1,2) obtain parent run' where parent: "get (m_runs m) (r_ParentRunID run) = Some parent"
    and attach: "Run_AttachTo run parent = Inr run'" and res: "(r, m') = store_run run' key m"
    by (auto simp: createRunLocked_def key_known_def Let_def split: option.splits sum.splits if_splits)
  note link = AttachTo_link [OF attach]
  have "r_ID parent = r_ParentRunID run" using keyed parent by (rule keyedD)
  moreover have "r_ID run' \<noteq> ''''" using attach link by (auto simp: Run_AttachTo_def split: if_splits)
  moreover have "run' = run\<lparr>r_ParentRunID := r_ParentRunID run', r_RootRunID := r_RootRunID run'\<rparr>"
  proof -
    have "run' = run\<lparr>r_ParentRunID := r_ID parent, r_RootRunID := root_of parent\<rparr>" using link by blast
    then show ?thesis by simp
  qed
  ultimately show ?thesis
    using that [of run'] link res parent False by (simp add: lineage_ok_def lineage_link_def store_run_def)
qed

lemma CreateChildRun_cases:
  assumes "CreateChildRun run key maxChildren m = Inr (r, m')"
  shows "createRunLocked run key m = Inr (r, m')"
    and "r_ParentRunID run \<noteq> ''''"
    and "key_known key m = None \<Longrightarrow> 0 < maxChildren \<Longrightarrow> int (count_children (r_ParentRunID run) m) < maxChildren"
  using assms
  by (auto simp: CreateChildRun_def key_known_def createRunLocked_def split: if_splits option.splits)

section \<open>Counting and limits\<close>

lemma put_fresh: "get m k = None \<Longrightarrow> put k v m = m @ [(k, v)]"
  by (induction m) (auto split: if_splits)

definition active_of :: "string \<Rightarrow> Run list \<Rightarrow> int" where
  "active_of agentID runs = int (length (filter (\<lambda>run. run_active run \<and> r_AgentID run = agentID) runs))"

lemma count_active_get:
  "get (count_active result runs) k = map_option (\<lambda>n. n + active_of k runs) (get result k)"
proof (induction result runs rule: count_active.induct)
  case (1 result)
  then show ?case by (simp add: active_of_def option.map_ident)
next
  case (2 result run runs)
  show ?case
  proof (cases "run_active run")
    case False
    then show ?thesis using 2(1) by (auto simp: run_active_def active_of_def)
  next
    case True
    then have st: "\<not> (r_Status run \<noteq> RunQueued \<and> r_Status run \<noteq> RunRunning)" by (auto simp: run_active_def)
    show ?thesis
    proof (cases "get result (r_AgentID run)")
      case None
      then show ?thesis using 2(2) [OF st None] st True by (auto simp: active_of_def)
    next
      case (Some n)
      then have "count_active result (run # runs) = count_active (put (r_AgentID run) (n + 1) result) runs"
        using st by auto
      then show ?thesis using 2(3) [OF st Some] True Some by (auto simp: active_of_def)
    qed
  qed
qed

lemma foldl_put_zero:
  "get (foldl (\<lambda>result x. put x (0::int) result) acc xs) k = (if k \<in> set xs then Some 0 else get acc k)"
  by (induction xs arbitrary: acc) auto

lemma CountActive_get:
  "get (CountActiveRunsByAgent agentIDs m) k =
     (if k \<in> set agentIDs then Some (active_of k (map snd (m_runs m))) else None)"
  by (simp add: CountActiveRunsByAgent_def count_active_get foldl_put_zero)

section \<open>Properties\<close>

text \<open>
  The load report of the router is exact. For every requested Agent, and for no other, it
  gives the number of its queued and running Runs.
\<close>

theorem active_runs_exact:
  "get (CountActiveRunsByAgent agentIDs m) k =
     (if k \<in> set agentIDs
      then Some (int (length (filter (\<lambda>run. run_active run \<and> r_AgentID run = k) (map snd (m_runs m)))))
      else None)"
  unfolding CountActive_get active_of_def ..

text \<open>
  Delegation respects its fan-out limit. Creating a child under a fresh identifier adds one
  child to the parent, keeps the lineage of the parent, and never takes the number of children
  above the limit.
\<close>

theorem child_limit:
  assumes "keyed r_ID (m_runs m)" and "get (m_runs m) (r_ID run) = None" and "0 < maxChildren"
    and "CreateChildRun run key maxChildren m = Inr ((r, True), m')"
  shows "int (count_children (r_ParentRunID run) m') \<le> maxChildren
    \<and> count_children (r_ParentRunID run) m' = count_children (r_ParentRunID run) m + 1
    \<and> lineage_ok m r"
proof -
  note locked = CreateChildRun_cases [OF assms(4)]
  have "key_known key m = None"
    using locked(1) createRunLocked_known [of key m] by (cases "key_known key m") auto
  with locked(1) obtain run' where run': "(r, True) = (run', True)" "((r, True), m') = store_run run' key m"
    "run' = run\<lparr>r_ParentRunID := r_ParentRunID run', r_RootRunID := r_RootRunID run'\<rparr>" "lineage_ok m run'"
    "r_ParentRunID run' = r_ParentRunID run"
    using assms(1) by (rule createRunLocked_new)
  then have id: "r_ID run' = r_ID run" by (metis Run.select_convs(1) Run.surjective Run.update_convs(3,4))
  have "m_runs m' = put (r_ID run) run' (m_runs m)" using run'(2) id by (simp add: store_run_def)
  also have "\<dots> = m_runs m @ [(r_ID run, run')]"
    using assms(2) by (rule put_fresh)
  finally have "count_children (r_ParentRunID run) m' = count_children (r_ParentRunID run) m + 1"
    using run'(5) by (simp add: count_children_def)
  moreover have "int (count_children (r_ParentRunID run) m) < maxChildren"
    using locked(3) [OF \<open>key_known key m = None\<close> assms(3)] .
  ultimately show ?thesis using run'(1,4) by simp
qed

text \<open>
  Run histories are bounded and keep the newest event. After an event has been appended, the
  stored history is a tail of the old history followed by the event, it respects the configured
  maximum, and listing it with a limit returns its last entries.
\<close>

theorem run_history_bounded:
  assumes "AppendRunEvent now event retention maxPerRun m = Inr m'" and "0 < maxPerRun"
    and "now - retention \<le> e_Timestamp event"
  shows "\<exists>old. ListRunEvents (e_RunID event) 0 m' = Inr (old @ [event])
    \<and> suffix old (get_or [] (m_runEvents m) (e_RunID event))
    \<and> int (length (old @ [event])) \<le> maxPerRun
    \<and> (\<forall>limit. \<exists>es. ListRunEvents (e_RunID event) limit m' = Inr es \<and> suffix es (old @ [event])
          \<and> (0 < limit \<longrightarrow> int (length es) \<le> limit))"
proof -
  let ?es = "get_or [] (m_runEvents m) (e_RunID event)"
  let ?new = "retain e_Timestamp retention maxPerRun now (?es @ [event])"
  have run: "get (m_runs m) (e_RunID event) \<noteq> None"
    and m': "m' = m\<lparr>m_runEvents := put (e_RunID event) ?new (m_runEvents m)\<rparr>"
    using assms(1) by (simp_all add: AppendRunEvent_Inr)
  obtain old where old: "?new = old @ [event]" "suffix old ?es"
    using retain_snoc [where ts = e_Timestamp and e = event, OF assms(3)] by blast
  have list: "ListRunEvents (e_RunID event) limit m' = Inr (last_events limit (old @ [event]))" for limit
    using run m' old by (simp add: ListRunEvents_def)
  have "int (length (old @ [event])) \<le> maxPerRun" using retain_length [OF assms(2)] old(1) by metis
  moreover have "0 < limit \<longrightarrow> int (length (last_events limit (old @ [event]))) \<le> limit" for limit
    by (auto simp: last_events_def)
  moreover have "last_events 0 (old @ [event]) = old @ [event]" by (simp add: last_events_def)
  ultimately show ?thesis using list old(2) last_events_suffix by metis
qed

definition sample_runs_store :: Memory where
  "sample_runs_store = NewMemory\<lparr>m_runs := [(''r1'', sample_run)]\<rparr>"

definition sample_child :: Run where
  "sample_child = sample_run\<lparr>r_ID := ''r2'', r_ParentRunID := ''r1'', r_RootRunID := ''r1''\<rparr>"

lemma sample_child_created:
  "CreateChildRun (sample_run\<lparr>r_ID := ''r2'', r_ParentRunID := ''r1''\<rparr>) '''' 1 sample_runs_store
     = Inr ((sample_child, True), NewMemory\<lparr>m_runs := [(''r1'', sample_run), (''r2'', sample_child)]\<rparr>)"
  by code_simp

theorem child_limit_witness:
  "int (count_children ''r1'' (NewMemory\<lparr>m_runs := [(''r1'', sample_run), (''r2'', sample_child)]\<rparr>)) \<le> 1"
proof -
  have "keyed r_ID (m_runs sample_runs_store)"
    by (simp add: sample_runs_store_def NewMemory_def keyed_def keys_distinct_def sample_run_def)
  moreover have "get (m_runs sample_runs_store) (r_ID (sample_run\<lparr>r_ID := ''r2'', r_ParentRunID := ''r1''\<rparr>)) = None"
    by code_simp
  ultimately show ?thesis using child_limit [OF _ _ _ sample_child_created] by simp
qed

definition sample_event :: RunEvent where
  "sample_event = \<lparr> e_ID = ''e1'', e_RunID = ''r1'', e_ChildRunID = '''', e_ParentRunID = '''', e_RootRunID = '''',
     e_Type = ''run.started'', e_Message = '''', e_Attempt = 1, e_Timestamp = 100 \<rparr>"

lemma sample_append:
  "AppendRunEvent 100 sample_event 50 2 (sample_runs_store\<lparr>m_runEvents := [(''r1'', [sample_event, sample_event])]\<rparr>)
     = Inr (sample_runs_store\<lparr>m_runEvents := [(''r1'', [sample_event, sample_event])]\<rparr>)"
  by code_simp

theorem run_history_bounded_witness:
  "\<exists>old. ListRunEvents (e_RunID sample_event) 0
       (sample_runs_store\<lparr>m_runEvents := [(''r1'', [sample_event, sample_event])]\<rparr>) = Inr (old @ [sample_event])
     \<and> int (length (old @ [sample_event])) \<le> 2"
proof -
  have "(100::int) - 50 \<le> e_Timestamp sample_event" by code_simp
  then show ?thesis using run_history_bounded [OF sample_append] by auto
qed

end
