(* ===== verification/Store_Workflows.thy ===== *)
theory Store_Workflows
  imports Store_State
begin

text \<open>
  The workflow methods of \<^verbatim>\<open>internal/store/memory.go\<close>. An update changes the execution state
  only: the stored definition stays what creation validated.
\<close>

section \<open>Operations\<close>

definition first_unknown_agent :: "WorkflowStep list \<Rightarrow> Memory \<Rightarrow> string option" where
  "first_unknown_agent steps m =
     map_option s_AgentID (find (\<lambda>step. get (m_agents m) (s_AgentID step) = None) steps)"

definition CreateWorkflow ::
  "golib \<Rightarrow> time \<Rightarrow> Workflow \<Rightarrow> Memory \<Rightarrow> store_error + (Workflow \<times> Memory)" where
  "CreateWorkflow L now workflow m =
     (case Workflow_InitializeForCreate L workflow now of
        Inl e \<Rightarrow> Inl (ErrWorkflow e)
      | Inr workflow \<Rightarrow>
          if get (m_workflows m) (w_ID workflow) \<noteq> None then Inl ErrConflict
          else case first_unknown_agent (w_Steps workflow) m of
            Some agentID \<Rightarrow> Inl (ErrAgentNotFound agentID)
          | None \<Rightarrow> Inr (workflow, m\<lparr>m_workflows := put (w_ID workflow) workflow (m_workflows m)\<rparr>))"

definition GetWorkflow :: "string \<Rightarrow> Memory \<Rightarrow> store_error + Workflow" where
  "GetWorkflow workflowID m =
     (case get (m_workflows m) workflowID of None \<Rightarrow> Inl ErrNotFound | Some workflow \<Rightarrow> Inr workflow)"

definition ListWorkflows :: "Memory \<Rightarrow> Workflow list" where
  "ListWorkflows m = sort_by (created_then_id w_CreatedAt w_ID) (map snd (m_workflows m))"

definition update_step :: "WorkflowStep \<Rightarrow> WorkflowStep \<Rightarrow> WorkflowStep" where
  "update_step stored step = stored\<lparr>
     s_Status := s_Status step, s_RunID := s_RunID step, s_Output := s_Output step,
     s_Error := s_Error step, s_StartedAt := s_StartedAt step, s_CompletedAt := s_CompletedAt step\<rparr>"

definition UpdateWorkflow :: "Workflow \<Rightarrow> int \<Rightarrow> Memory \<Rightarrow> store_error + (Workflow \<times> Memory)" where
  "UpdateWorkflow workflow expectedVersion m =
     (case get (m_workflows m) (w_ID workflow) of
        None \<Rightarrow> Inl ErrNotFound
      | Some existing \<Rightarrow>
          if expectedVersion < 1 \<or> w_Version existing \<noteq> expectedVersion then Inl ErrConflict
          else if length (w_Steps existing) \<noteq> length (w_Steps workflow) then Inl ErrDefinitionChanged
          else if \<not> list_all2 (\<lambda>stored step. s_ID stored = s_ID step) (w_Steps existing) (w_Steps workflow)
            then Inl ErrDefinitionChanged
          else let updated = existing\<lparr>
                     w_Status := w_Status workflow, w_Error := w_Error workflow,
                     w_StartedAt := w_StartedAt workflow, w_CompletedAt := w_CompletedAt workflow,
                     w_Version := w_Version existing + 1,
                     w_Steps := map2 update_step (w_Steps existing) (w_Steps workflow)\<rparr>
               in Inr (updated, m\<lparr>m_workflows := put (w_ID workflow) updated (m_workflows m)\<rparr>))"

definition ListRunningWorkflows :: "Memory \<Rightarrow> Workflow list" where
  "ListRunningWorkflows m = filter (\<lambda>workflow. w_Status workflow = WorkflowRunning) (ListWorkflows m)"

definition AppendWorkflowEvent ::
  "time \<Rightarrow> WorkflowEvent \<Rightarrow> duration \<Rightarrow> int \<Rightarrow> Memory \<Rightarrow> store_error + Memory" where
  "AppendWorkflowEvent now event retention maxPerWorkflow m =
     (if get (m_workflows m) (we_WorkflowID event) = None then Inl ErrNotFound
      else let events = get_or [] (m_workflowEvents m) (we_WorkflowID event) @ [event];
               events = retain we_Timestamp retention maxPerWorkflow now events
           in Inr (m\<lparr>m_workflowEvents := put (we_WorkflowID event) events (m_workflowEvents m)\<rparr>))"

definition ListWorkflowEvents :: "string \<Rightarrow> int \<Rightarrow> Memory \<Rightarrow> store_error + WorkflowEvent list" where
  "ListWorkflowEvents workflowID limit m =
     (if get (m_workflows m) workflowID = None then Inl ErrNotFound
      else Inr (last_events limit (get_or [] (m_workflowEvents m) workflowID)))"

section \<open>Lemmas\<close>

lemma first_unknown_agent_None:
  "first_unknown_agent steps m = None \<longleftrightarrow> (\<forall>s \<in> set steps. get (m_agents m) (s_AgentID s) \<noteq> None)"
  by (auto simp: first_unknown_agent_def find_None_iff)

lemma CreateWorkflow_Inr:
  "CreateWorkflow L now workflow m = Inr (w, m') \<longleftrightarrow>
     Workflow_InitializeForCreate L workflow now = Inr w
   \<and> get (m_workflows m) (w_ID w) = None
   \<and> (\<forall>s \<in> set (w_Steps w). get (m_agents m) (s_AgentID s) \<noteq> None)
   \<and> m' = m\<lparr>m_workflows := put (w_ID w) w (m_workflows m)\<rparr>"
  unfolding first_unknown_agent_None [symmetric]
  by (auto simp: CreateWorkflow_def split: sum.splits option.splits)

text \<open>What an update may change: everything else of the workflow and of its steps is kept.\<close>

definition same_step :: "WorkflowStep \<Rightarrow> WorkflowStep \<Rightarrow> bool" where
  "same_step s s' \<longleftrightarrow> s_ID s' = s_ID s \<and> s_AgentID s' = s_AgentID s \<and> s_Input s' = s_Input s
     \<and> s_InputFrom s' = s_InputFrom s \<and> s_InputAggregation s' = s_InputAggregation s
     \<and> s_DependsOn s' = s_DependsOn s \<and> s_Condition s' = s_Condition s"

definition same_definition :: "Workflow \<Rightarrow> Workflow \<Rightarrow> bool" where
  "same_definition w w' \<longleftrightarrow> w_ID w' = w_ID w \<and> w_Input w' = w_Input w
     \<and> w_CreatedAt w' = w_CreatedAt w \<and> list_all2 same_step (w_Steps w) (w_Steps w')"

lemma same_step_update [simp]: "same_step s (update_step s t)"
  by (simp add: same_step_def update_step_def)

lemma same_step_refl [simp]: "same_step s s"
  by (simp add: same_step_def)

lemma same_definition_refl [simp]: "same_definition w w"
  by (simp add: same_definition_def list_all2_refl)

lemma same_step_trans: "same_step a b \<Longrightarrow> same_step b c \<Longrightarrow> same_step a c"
  by (simp add: same_step_def)

lemma same_definition_trans: "same_definition a b \<Longrightarrow> same_definition b c \<Longrightarrow> same_definition a c"
  unfolding same_definition_def
  by (auto intro: list_all2_trans [of same_step same_step same_step, OF same_step_trans])

lemma list_all2_map2_left: "length xs = length ys \<Longrightarrow> (\<And>x y. P x (f x y)) \<Longrightarrow> list_all2 P xs (map2 f xs ys)"
  by (induction xs ys rule: list_induct2) auto

lemma UpdateWorkflow_Inr:
  assumes "UpdateWorkflow workflow v m = Inr (w, m')"
  obtains existing where "get (m_workflows m) (w_ID workflow) = Some existing"
    and "1 \<le> v" and "w_Version existing = v" and "w_Version w = v + 1"
    and "same_definition existing w"
    and "w_Status w = w_Status workflow" and "w_Steps w = map2 update_step (w_Steps existing) (w_Steps workflow)"
    and "map s_ID (w_Steps existing) = map s_ID (w_Steps workflow)"
    and "m' = m\<lparr>m_workflows := put (w_ID workflow) w (m_workflows m)\<rparr>"
proof -
  from assms obtain existing where ex: "get (m_workflows m) (w_ID workflow) = Some existing"
    and v: "1 \<le> v" "w_Version existing = v"
    and ids: "list_all2 (\<lambda>stored step. s_ID stored = s_ID step) (w_Steps existing) (w_Steps workflow)"
    and w: "w = existing\<lparr>
                     w_Status := w_Status workflow, w_Error := w_Error workflow,
                     w_StartedAt := w_StartedAt workflow, w_CompletedAt := w_CompletedAt workflow,
                     w_Version := w_Version existing + 1,
                     w_Steps := map2 update_step (w_Steps existing) (w_Steps workflow)\<rparr>"
    and m': "m' = m\<lparr>m_workflows := put (w_ID workflow) w (m_workflows m)\<rparr>"
    by (auto simp: UpdateWorkflow_def Let_def split: option.splits if_splits)
  have len: "length (w_Steps existing) = length (w_Steps workflow)" using ids by (rule list_all2_lengthD)
  have "same_definition existing w"
    unfolding w same_definition_def using list_all2_map2_left [OF len, of same_step update_step] by simp
  moreover have "map s_ID (w_Steps existing) = map s_ID (w_Steps workflow)"
    using ids by (induction rule: list_all2_induct) auto
  ultimately show ?thesis using that ex v w m' by simp
qed

text \<open>Validity speaks of the definition only.\<close>

lemma same_steps_fields:
  assumes "list_all2 same_step ss ss'"
  shows "map s_ID ss' = map s_ID ss" and "dep_rel ss' = dep_rel ss"
    and "list_all (step_valid input ids) ss' = list_all (step_valid input ids) ss"
    and "map s_AgentID ss' = map s_AgentID ss"
proof -
  have valid: "step_valid input ids y = step_valid input ids x" if "same_step x y" for x y
    using that by (simp add: same_step_def step_valid_def)
  have dep: "dep_rel (s # ss) = (\<lambda>d. (d, s_ID s)) ` set (s_DependsOn s) \<union> dep_rel ss" for s ss
    by (auto simp: dep_rel_def)
  have nil: "dep_rel [] = {}" by (simp add: dep_rel_def)
  show "map s_ID ss' = map s_ID ss" "map s_AgentID ss' = map s_AgentID ss"
    using assms by (induction rule: list_all2_induct) (simp_all add: same_step_def)
  show "dep_rel ss' = dep_rel ss"
    using assms by (induction rule: list_all2_induct) (simp_all only: same_step_def dep nil)
  show "list_all (step_valid input ids) ss' = list_all (step_valid input ids) ss"
    using assms by (induction rule: list_all2_induct) (simp_all add: valid)
qed

lemma same_definition_valid: "same_definition w w' \<Longrightarrow> workflow_valid w' \<longleftrightarrow> workflow_valid w"
proof -
  assume same: "same_definition w w'"
  then have steps: "list_all2 same_step (w_Steps w) (w_Steps w')"
    and "w_ID w' = w_ID w" "w_Input w' = w_Input w" by (auto simp: same_definition_def)
  moreover have "s_ID ` set (w_Steps w') = s_ID ` set (w_Steps w)"
    using arg_cong [OF same_steps_fields(1) [OF steps], of set] by simp
  moreover have "w_Steps w' = [] \<longleftrightarrow> w_Steps w = []" "length (w_Steps w') = length (w_Steps w)"
    using list_all2_lengthD [OF steps] by auto
  ultimately show ?thesis
    unfolding workflow_valid_def using same_steps_fields [OF steps] by simp
qed

section \<open>Replacement under an expected version\<close>

definition workflow_version :: "Memory \<Rightarrow> string \<Rightarrow> int option" where
  "workflow_version m k = map_option w_Version (get (m_workflows m) k)"

definition replace_workflow :: "Memory \<Rightarrow> string \<Rightarrow> int \<Rightarrow> Workflow \<Rightarrow> store_error + Memory" where
  "replace_workflow m k v workflow =
     (case UpdateWorkflow (workflow\<lparr>w_ID := k\<rparr>) v m of Inl e \<Rightarrow> Inl e | Inr (_, m') \<Rightarrow> Inr m')"

lemma replace_workflow_Inr:
  "replace_workflow m k v x = Inr m' \<Longrightarrow>
     workflow_version m k = Some v
   \<and> workflow_version m' k' = (if k' = k then Some (v + 1) else workflow_version m k')"
  by (auto simp: replace_workflow_def workflow_version_def split: sum.splits elim!: UpdateWorkflow_Inr)

interpretation workflow_versions: versioned workflow_version replace_workflow
  by unfold_locales (use replace_workflow_Inr in blast)+

lemma UpdateWorkflow_replace:
  "UpdateWorkflow workflow v m = Inr (w, m') \<Longrightarrow> replace_workflow m (w_ID workflow) v workflow = Inr m'"
  by (simp add: replace_workflow_def)

definition workflows_inv :: "Memory \<Rightarrow> bool" where
  "workflows_inv m \<longleftrightarrow> keyed w_ID (m_workflows m)
     \<and> (\<forall>k w. get (m_workflows m) k = Some w \<longrightarrow> workflow_valid w \<and> 1 \<le> w_Version w)"

lemma workflows_inv_ops:
  assumes "workflows_inv m"
  shows "CreateWorkflow L now workflow m = Inr (w, m') \<Longrightarrow> workflows_inv m'"
    and "UpdateWorkflow workflow v m = Inr (w, m') \<Longrightarrow> workflows_inv m'"
proof -
  show "workflows_inv m'" if c: "CreateWorkflow L now workflow m = Inr (w, m')"
    using assms c accepted_valid [of L workflow now w]
    by (auto simp: workflows_inv_def CreateWorkflow_Inr)
  show "workflows_inv m'" if u: "UpdateWorkflow workflow v m = Inr (w, m')"
    using u
  proof (rule UpdateWorkflow_Inr)
    fix existing
    assume ex: "get (m_workflows m) (w_ID workflow) = Some existing" and v: "1 \<le> v" "w_Version w = v + 1"
      and same: "same_definition existing w"
      and m': "m' = m\<lparr>m_workflows := put (w_ID workflow) w (m_workflows m)\<rparr>"
    have "w_ID w = w_ID workflow"
      using same ex assms by (auto simp: same_definition_def workflows_inv_def dest: keyedD)
    moreover have "workflow_valid w" using same same_definition_valid ex assms by (auto simp: workflows_inv_def)
    ultimately show ?thesis using assms v unfolding m' by (auto simp: workflows_inv_def)
  qed
qed

section \<open>Properties\<close>

text \<open>
  Two writers of a workflow never overwrite each other. After a successful update based on
  version \<open>v\<close> every later update of the same workflow based on \<open>v\<close> is refused, whatever updates
  happened in between; and the successful update changed the execution state only, leaving the
  validated definition as it was.
\<close>

theorem workflow_update_serialised:
  assumes "workflows_inv m" and "UpdateWorkflow workflow v m = Inr (w, m')"
  shows "(\<exists>existing. get (m_workflows m) (w_ID workflow) = Some existing \<and> w_Version existing = v
            \<and> same_definition existing w \<and> workflow_valid w)
       \<and> (\<exists>e. UpdateWorkflow (workflow2\<lparr>w_ID := w_ID workflow\<rparr>) v
                (apply_updates replace_workflow m' us) = Inl e)"
proof
  show "\<exists>existing. get (m_workflows m) (w_ID workflow) = Some existing \<and> w_Version existing = v
            \<and> same_definition existing w \<and> workflow_valid w"
    using assms(2) by (rule UpdateWorkflow_Inr)
      (use assms(1) same_definition_valid in \<open>auto simp: workflows_inv_def\<close>)
  have "\<exists>e. replace_workflow (apply_updates replace_workflow m' us) (w_ID workflow) v workflow2 = Inl e"
    using UpdateWorkflow_replace [OF assms(2)] by (rule workflow_versions.no_lost_update)
  then show "\<exists>e. UpdateWorkflow (workflow2\<lparr>w_ID := w_ID workflow\<rparr>) v
                (apply_updates replace_workflow m' us) = Inl e"
    by (auto simp: replace_workflow_def split: sum.splits)
qed

definition sample_workflow_store :: Memory where
  "sample_workflow_store = NewMemory\<lparr>m_workflows := [(''w1'', sample_workflow)]\<rparr>"

definition sample_workflow_started :: Workflow where
  "sample_workflow_started = sample_workflow\<lparr>w_Status := WorkflowRunning, w_StartedAt := Some 9\<rparr>"

lemma sample_workflow_update:
  "UpdateWorkflow sample_workflow_started 1 sample_workflow_store =
     Inr (sample_workflow_started\<lparr>w_Version := 2\<rparr>,
          NewMemory\<lparr>m_workflows := [(''w1'', sample_workflow_started\<lparr>w_Version := 2\<rparr>)]\<rparr>)"
  by code_simp

lemma sample_workflow_store_inv: "workflows_inv sample_workflow_store"
  using accepted_valid [OF sample_workflow_accepted]
  by (simp add: workflows_inv_def sample_workflow_store_def keyed_def keys_distinct_def NewMemory_def)
    (simp add: sample_workflow_def)

theorem workflow_update_serialised_witness:
  "\<exists>e. UpdateWorkflow (sample_workflow\<lparr>w_ID := w_ID sample_workflow_started\<rparr>) 1
     (apply_updates replace_workflow
       (NewMemory\<lparr>m_workflows := [(''w1'', sample_workflow_started\<lparr>w_Version := 2\<rparr>)]\<rparr>)
       [(''w1'', 2, sample_workflow)]) = Inl e"
  using workflow_update_serialised [OF sample_workflow_store_inv sample_workflow_update] by blast

end
