(* ===== verification/Store_Approvals.thy ===== *)
theory Store_Approvals
  imports Store_State
begin

text \<open>
  The approval and audit methods of \<^verbatim>\<open>internal/store/memory.go\<close>. An approval is decided at most
  once and consumed at most once, and only for the call it names, after it was approved and
  before it expired.
\<close>

section \<open>Approvals\<close>

definition CreateApproval ::
  "time \<Rightarrow> Approval \<Rightarrow> duration \<Rightarrow> Memory \<Rightarrow> store_error + (Approval \<times> Memory)" where
  "CreateApproval now approval retention m =
     (if get (m_approvals m) (ap_ID approval) \<noteq> None then Inl ErrConflict
      else let approvals =
             (if 0 < retention
              then filter (\<lambda>(_, existing). \<not> ap_ExpiresAt existing < now - retention) (m_approvals m)
              else m_approvals m)
           in Inr (approval, m\<lparr>m_approvals := put (ap_ID approval) approval approvals\<rparr>))"

definition GetApproval :: "string \<Rightarrow> Memory \<Rightarrow> store_error + Approval" where
  "GetApproval approvalID m =
     (case get (m_approvals m) approvalID of None \<Rightarrow> Inl ErrNotFound | Some approval \<Rightarrow> Inr approval)"

text \<open>No status stands for the empty filter; newest first, then by identifier.\<close>

definition ListApprovals :: "ApprovalStatus option \<Rightarrow> int \<Rightarrow> Memory \<Rightarrow> Approval list" where
  "ListApprovals status limit m =
     (let result = sort_by (created_then_id (\<lambda>a. - ap_CreatedAt a) ap_ID)
            (filter (\<lambda>approval. status = None \<or> status = Some (ap_Status approval)) (map snd (m_approvals m)))
      in if 0 < limit \<and> limit < int (length result) then take (nat limit) result else result)"

definition DecideApproval ::
  "string \<Rightarrow> bool \<Rightarrow> string \<Rightarrow> time \<Rightarrow> Memory \<Rightarrow> store_error + (Approval \<times> Memory)" where
  "DecideApproval approvalID approve actor now m =
     (case get (m_approvals m) approvalID of
        None \<Rightarrow> Inl ErrNotFound
      | Some approval \<Rightarrow>
          if Approval_Expired approval now then Inl ErrApprovalExpired
          else if ap_Status approval \<noteq> ApprovalPending then Inl ErrApprovalNotPending
          else let approval = approval\<lparr>
                     ap_Status := (if approve then ApprovalApproved else ApprovalRejected),
                     ap_DecidedBy := actor, ap_DecidedAt := Some now,
                     ap_Version := ap_Version approval + 1\<rparr>
               in Inr (approval, m\<lparr>m_approvals := put approvalID approval (m_approvals m)\<rparr>))"

definition ConsumeApproval ::
  "string \<Rightarrow> string \<Rightarrow> string \<Rightarrow> string \<Rightarrow> time \<Rightarrow> Memory \<Rightarrow> store_error + (Approval \<times> Memory)" where
  "ConsumeApproval approvalID serverID toolName argumentsHash now m =
     (case get (m_approvals m) approvalID of
        None \<Rightarrow> Inl ErrNotFound
      | Some approval \<Rightarrow>
          if ap_ServerID approval \<noteq> serverID \<or> ap_ToolName approval \<noteq> toolName
             \<or> ap_ArgumentsHash approval \<noteq> argumentsHash then Inl ErrApprovalMismatch
          else if Approval_Expired approval now then Inl ErrApprovalExpired
          else if ap_Status approval \<noteq> ApprovalApproved then Inl ErrApprovalNotApproved
          else let approval = approval\<lparr> ap_Status := ApprovalConsumed, ap_ConsumedAt := Some now,
                                         ap_Version := ap_Version approval + 1\<rparr>
               in Inr (approval, m\<lparr>m_approvals := put approvalID approval (m_approvals m)\<rparr>))"

section \<open>Audit trail\<close>

text \<open>
  The loop that finds the first entry to keep. A zero cutoff stands for no retention period, as
  in the source.
\<close>

fun audit_first :: "time \<Rightarrow> AuditEvent list \<Rightarrow> nat" where
  "audit_first cutoff [] = 0"
| "audit_first cutoff (e # es) =
     (if \<not> IsZero cutoff \<and> au_Timestamp e < cutoff then Suc (audit_first cutoff es) else 0)"

definition AppendAuditEvent ::
  "time \<Rightarrow> AuditEvent \<Rightarrow> duration \<Rightarrow> int \<Rightarrow> Memory \<Rightarrow> Memory" where
  "AppendAuditEvent now event retention maxEvents m =
     (let auditEvents = m_auditEvents m @ [event];
          cutoff = (if 0 < retention then now - retention else 0);
          first = audit_first cutoff auditEvents;
          first = (if 0 < maxEvents \<and> maxEvents < int (length auditEvents) - int first
                   then length auditEvents - nat maxEvents else first)
      in m\<lparr>m_auditEvents := drop first auditEvents\<rparr>)"

definition ListAuditEvents :: "int \<Rightarrow> Memory \<Rightarrow> AuditEvent list" where
  "ListAuditEvents limit m =
     (let limit = (if limit \<le> 0 \<or> int (length (m_auditEvents m)) < limit
                   then int (length (m_auditEvents m)) else limit)
      in drop (length (m_auditEvents m) - nat limit) (m_auditEvents m))"

section \<open>Lemmas\<close>

lemma CreateApproval_Inr:
  assumes "CreateApproval now approval retention m = Inr (a, m')" and "keyed ap_ID (m_approvals m)"
  shows "get (m_approvals m) (ap_ID approval) = None" and "a = approval"
    and "keyed ap_ID (m_approvals m')"
    and "get (m_approvals m') k =
      (if k = ap_ID approval then Some approval
       else case get (m_approvals m) k of
         None \<Rightarrow> None
       | Some e \<Rightarrow> if 0 < retention \<and> ap_ExpiresAt e < now - retention then None else Some e)"
  using assms
  by (auto simp: CreateApproval_def keyed_def get_filter keys_distinct_filter split: if_splits option.splits)

lemma DecideApproval_Inr:
  "DecideApproval k approve actor now m = Inr (a, m') \<longleftrightarrow>
     (\<exists>approval. get (m_approvals m) k = Some approval \<and> now < ap_ExpiresAt approval
        \<and> ap_Status approval = ApprovalPending
        \<and> a = approval\<lparr> ap_Status := (if approve then ApprovalApproved else ApprovalRejected),
                       ap_DecidedBy := actor, ap_DecidedAt := Some now,
                       ap_Version := ap_Version approval + 1\<rparr>
        \<and> m' = m\<lparr>m_approvals := put k a (m_approvals m)\<rparr>)"
  by (auto simp: DecideApproval_def Approval_Expired_def Let_def split: option.splits)

lemma ConsumeApproval_Inr:
  "ConsumeApproval k serverID toolName hash now m = Inr (a, m') \<longleftrightarrow>
     (\<exists>approval. get (m_approvals m) k = Some approval
        \<and> ap_ServerID approval = serverID \<and> ap_ToolName approval = toolName
        \<and> ap_ArgumentsHash approval = hash \<and> now < ap_ExpiresAt approval
        \<and> ap_Status approval = ApprovalApproved
        \<and> a = approval\<lparr> ap_Status := ApprovalConsumed, ap_ConsumedAt := Some now,
                       ap_Version := ap_Version approval + 1\<rparr>
        \<and> m' = m\<lparr>m_approvals := put k a (m_approvals m)\<rparr>)"
  by (auto simp: ConsumeApproval_def Approval_Expired_def Let_def split: option.splits)

text \<open>The index arithmetic of the audit trail computes the common retention rule.\<close>

lemma audit_first_dropWhile:
  "cutoff \<noteq> 0 \<Longrightarrow> drop (audit_first cutoff es) es = dropWhile (\<lambda>e. au_Timestamp e < cutoff) es"
  by (induction es) auto

lemma audit_first_le: "audit_first cutoff es \<le> length es"
  by (induction es) auto

lemma audit_first_zero: "audit_first 0 es = 0"
  by (cases es) auto

lemma AppendAuditEvent_retain:
  assumes "retention \<le> 0 \<or> retention \<noteq> now"
  shows "m_auditEvents (AppendAuditEvent now event retention maxEvents m)
    = retain au_Timestamp retention maxEvents now (m_auditEvents m @ [event])"
proof -
  define es where "es = m_auditEvents m @ [event]"
  let ?k = "audit_first (if 0 < retention then now - retention else 0) es"
  have k: "?k \<le> length es" by (rule audit_first_le)
  have kept: "drop ?k es = (if 0 < retention then dropWhile (\<lambda>e. au_Timestamp e < now - retention) es else es)"
    using assms by (auto simp: audit_first_dropWhile audit_first_zero)
  have len: "int (length (drop ?k es)) = int (length es) - int ?k" using k by (simp add: of_nat_diff)
  have retain: "retain au_Timestamp retention maxEvents now es =
      (if 0 < maxEvents \<and> maxEvents < int (length es) - int ?k
       then drop (length (drop ?k es) - nat maxEvents) (drop ?k es) else drop ?k es)"
    unfolding retain_def Let_def kept [symmetric] len ..
  have "drop (length (drop ?k es) - nat maxEvents) (drop ?k es) = drop (length es - nat maxEvents) es"
    if "maxEvents < int (length es) - int ?k"
  proof -
    have "length es - ?k - nat maxEvents + ?k = length es - nat maxEvents" using that k by linarith
    then show ?thesis by (simp only: length_drop drop_drop)
  qed
  then show ?thesis
    unfolding AppendAuditEvent_def Let_def es_def [symmetric] retain by simp
qed

end
