(* ===== verification/Store_System.thy ===== *)
theory Store_System
  imports Store_Agents Store_Runs Store_Workflows Store_Approvals
begin

text \<open>
  The in-memory repository under arbitrary sequences of calls. Concurrent callers are serialised
  by the mutex, so an interleaving of their calls is a list of operations; a call that fails leaves
  the state unchanged. The theorems hold for every such list.
\<close>

section \<open>Sequences of calls\<close>

datatype store_op =
    OpCreateAgent time Agent
  | OpUpdateAgent time Agent int
  | OpDeleteAgent string int
  | OpCreateRun Run string
  | OpCreateChildRun Run string int
  | OpUpdateRun Run
  | OpClaimRunExecution string int
  | OpUpdateRunFenced Run int
  | OpCancelRun string time
  | OpRecoverRun string int
  | OpAppendRunEvent time RunEvent duration int
  | OpCreateWorkflow time Workflow
  | OpUpdateWorkflow Workflow int
  | OpAppendWorkflowEvent time WorkflowEvent duration int
  | OpAppendAuditEvent time AuditEvent duration int
  | OpCreateApproval time Approval duration
  | OpDecideApproval string bool string time
  | OpConsumeApproval string string string string time

definition state_of :: "Memory \<Rightarrow> store_error + ('a \<times> Memory) \<Rightarrow> Memory" where
  "state_of m r = (case r of Inl _ \<Rightarrow> m | Inr (_, m') \<Rightarrow> m')"

definition state_of' :: "Memory \<Rightarrow> store_error + Memory \<Rightarrow> Memory" where
  "state_of' m r = (case r of Inl _ \<Rightarrow> m | Inr m' \<Rightarrow> m')"

fun store_exec :: "golib \<Rightarrow> store_op \<Rightarrow> Memory \<Rightarrow> Memory" where
  "store_exec L (OpCreateAgent now agent) m = state_of m (CreateAgent L now agent m)"
| "store_exec L (OpUpdateAgent now agent v) m = state_of m (UpdateAgent L now agent v m)"
| "store_exec L (OpDeleteAgent k v) m = state_of' m (DeleteAgent k v m)"
| "store_exec L (OpCreateRun run key) m = state_of m (CreateRun run key m)"
| "store_exec L (OpCreateChildRun run key n) m = state_of m (CreateChildRun run key n m)"
| "store_exec L (OpUpdateRun run) m = state_of' m (UpdateRun run m)"
| "store_exec L (OpClaimRunExecution k f) m = state_of m (ClaimRunExecution k f m)"
| "store_exec L (OpUpdateRunFenced run f) m = state_of' m (UpdateRunFenced run f m)"
| "store_exec L (OpCancelRun k at) m = state_of m (CancelRun k at m)"
| "store_exec L (OpRecoverRun k f) m = state_of m (RecoverRun k f m)"
| "store_exec L (OpAppendRunEvent now e retention n) m = state_of' m (AppendRunEvent now e retention n m)"
| "store_exec L (OpCreateWorkflow now w) m = state_of m (CreateWorkflow L now w m)"
| "store_exec L (OpUpdateWorkflow w v) m = state_of m (UpdateWorkflow w v m)"
| "store_exec L (OpAppendWorkflowEvent now e retention n) m = state_of' m (AppendWorkflowEvent now e retention n m)"
| "store_exec L (OpAppendAuditEvent now e retention n) m = AppendAuditEvent now e retention n m"
| "store_exec L (OpCreateApproval now a retention) m = state_of m (CreateApproval now a retention m)"
| "store_exec L (OpDecideApproval k approve actor now) m = state_of m (DecideApproval k approve actor now m)"
| "store_exec L (OpConsumeApproval k s t h now) m = state_of m (ConsumeApproval k s t h now m)"

fun store_execs :: "golib \<Rightarrow> store_op list \<Rightarrow> Memory \<Rightarrow> Memory" where
  "store_execs L [] m = m"
| "store_execs L (op # ops) m = store_execs L ops (store_exec L op m)"

text \<open>
  The callers create Runs under identifiers they have just generated: a Run is never created
  under an identifier in use, or a blank one.
\<close>

fun op_fresh :: "Memory \<Rightarrow> store_op \<Rightarrow> bool" where
  "op_fresh m (OpCreateRun run key) \<longleftrightarrow> get (m_runs m) (r_ID run) = None \<and> r_ID run \<noteq> ''''"
| "op_fresh m (OpCreateChildRun run key n) \<longleftrightarrow> get (m_runs m) (r_ID run) = None \<and> r_ID run \<noteq> ''''"
| "op_fresh m _ \<longleftrightarrow> True"

fun ids_fresh :: "golib \<Rightarrow> store_op list \<Rightarrow> Memory \<Rightarrow> bool" where
  "ids_fresh L [] m \<longleftrightarrow> True"
| "ids_fresh L (op # ops) m \<longleftrightarrow> op_fresh m op \<and> ids_fresh L ops (store_exec L op m)"

lemma execs_append: "store_execs L (ops @ ops') m = store_execs L ops' (store_execs L ops m)"
  by (induction ops arbitrary: m) auto

lemma fresh_append: "ids_fresh L (ops @ ops') m \<longleftrightarrow> ids_fresh L ops m \<and> ids_fresh L ops' (store_execs L ops m)"
  by (induction ops arbitrary: m) auto

lemma execs_invariant:
  assumes "\<And>op m. I m \<Longrightarrow> op_fresh m op \<Longrightarrow> I (store_exec L op m)"
  shows "I m \<Longrightarrow> ids_fresh L ops m \<Longrightarrow> I (store_execs L ops m)"
  using assms by (induction ops arbitrary: m) auto

section \<open>What each operation touches\<close>

text \<open>The operations grouped by the part of the state they may change.\<close>

fun touches_runs :: "store_op \<Rightarrow> bool" where
  "touches_runs (OpCreateRun _ _) = True"
| "touches_runs (OpCreateChildRun _ _ _) = True"
| "touches_runs (OpUpdateRun _) = True"
| "touches_runs (OpClaimRunExecution _ _) = True"
| "touches_runs (OpUpdateRunFenced _ _) = True"
| "touches_runs (OpCancelRun _ _) = True"
| "touches_runs (OpRecoverRun _ _) = True"
| "touches_runs _ = False"

lemma exec_runs_frame:
  "\<not> touches_runs op \<Longrightarrow>
     m_runs (store_exec L op m) = m_runs m \<and> m_runFences (store_exec L op m) = m_runFences m
   \<and> m_idempotencyKeys (store_exec L op m) = m_idempotencyKeys m"
  by (cases op)
    (auto simp: state_of_def state_of'_def CreateAgent_def UpdateAgent_def DeleteAgent_def AppendRunEvent_def
      CreateWorkflow_def UpdateWorkflow_def AppendWorkflowEvent_def AppendAuditEvent_def CreateApproval_def
      DecideApproval_def ConsumeApproval_def Let_def split: sum.splits option.splits if_splits)

lemma createRunLocked_frame:
  "createRunLocked run key m = Inr (r, m') \<Longrightarrow>
     m_agents m' = m_agents m \<and> m_workflows m' = m_workflows m \<and> m_approvals m' = m_approvals m
   \<and> m_runFences m' = m_runFences m"
  by (auto simp: createRunLocked_def store_run_def Let_def split: option.splits sum.splits if_splits)

lemma CreateChildRun_frame:
  "CreateChildRun run key n m = Inr (r, m') \<Longrightarrow>
     m_agents m' = m_agents m \<and> m_workflows m' = m_workflows m \<and> m_approvals m' = m_approvals m
   \<and> m_runFences m' = m_runFences m"
  using CreateChildRun_cases(1) createRunLocked_frame by blast

lemma exec_approvals_frame:
  "(\<forall>now a r. op \<noteq> OpCreateApproval now a r) \<Longrightarrow> (\<forall>k b a t. op \<noteq> OpDecideApproval k b a t) \<Longrightarrow>
   (\<forall>k s t h n. op \<noteq> OpConsumeApproval k s t h n) \<Longrightarrow> m_approvals (store_exec L op m) = m_approvals m"
  by (cases op)
    (auto simp: state_of_def state_of'_def CreateAgent_def UpdateAgent_def DeleteAgent_def AppendRunEvent_def
      CreateWorkflow_def UpdateWorkflow_def AppendWorkflowEvent_def AppendAuditEvent_def
      UpdateRun_def ClaimRunExecution_def UpdateRunFenced_def CancelRun_def RecoverRun_def CreateRun_def Let_def
      split: sum.splits option.splits if_splits dest: createRunLocked_frame CreateChildRun_frame)

section \<open>The invariant of the Runs\<close>

definition parent_of :: "Memory \<Rightarrow> string \<Rightarrow> string option" where
  "parent_of m k = (case get (m_runs m) k of
     None \<Rightarrow> None | Some r \<Rightarrow> if r_ParentRunID r = '''' then None else Some (r_ParentRunID r))"

definition parent_rel :: "Memory \<Rightarrow> (string \<times> string) set" where
  "parent_rel m = {(p, k). parent_of m k = Some p}"

definition runs_inv :: "Memory \<Rightarrow> bool" where
  "runs_inv m \<longleftrightarrow> keyed r_ID (m_runs m) \<and> get (m_runs m) '''' = None
     \<and> (\<forall>key k. get (m_idempotencyKeys m) key = Some k \<longrightarrow> get (m_runs m) k \<noteq> None)
     \<and> (\<forall>k r. get (m_runs m) k = Some r \<longrightarrow> lineage_ok m r)
     \<and> acyclic (parent_rel m)"

lemma runs_inv_same:
  "runs_inv m \<Longrightarrow> m_runs m' = m_runs m \<Longrightarrow> m_idempotencyKeys m' = m_idempotencyKeys m \<Longrightarrow> runs_inv m'"
  by (simp add: runs_inv_def lineage_ok_def parent_rel_def parent_of_def)

lemma runs_inv_replace:
  assumes inv: "runs_inv m" and r: "get (m_runs m) k = Some r"
    and same: "r_ID r' = r_ID r" "r_ParentRunID r' = r_ParentRunID r" "r_RootRunID r' = r_RootRunID r"
    and m': "m_runs m' = put k r' (m_runs m)" "m_idempotencyKeys m' = m_idempotencyKeys m"
  shows "runs_inv m'"
proof -
  have root: "root_of r' = root_of r" using same by (simp add: root_of_def)
  have "lineage_ok m' x \<longleftrightarrow> lineage_ok m x" for x
    using r root unfolding lineage_ok_def m' by auto
  moreover have "lineage_ok m r' \<longleftrightarrow> lineage_ok m r" using same by (simp add: lineage_ok_def)
  ultimately have "\<forall>j x. get (m_runs m') j = Some x \<longrightarrow> lineage_ok m' x"
    using inv r unfolding runs_inv_def m' by auto
  moreover have "parent_of m' j = parent_of m j" for j
    using r same(2) unfolding parent_of_def m' by simp
  then have "parent_rel m' = parent_rel m" by (simp add: parent_rel_def)
  moreover have "keyed r_ID (m_runs m')"
  proof -
    have "keyed r_ID (m_runs m)" using inv by (simp add: runs_inv_def)
    moreover have "r_ID r = k" using calculation r by (rule keyedD)
    ultimately show ?thesis unfolding m' using same(1) by simp
  qed
  moreover have "k \<noteq> ''''" using inv r by (auto simp: runs_inv_def)
  ultimately show ?thesis using inv unfolding runs_inv_def m' by auto
qed

lemma runs_inv_store:
  assumes inv: "runs_inv m" and fresh: "get (m_runs m) (r_ID run) = None" "r_ID run \<noteq> ''''"
    and ok: "lineage_ok m run" and res: "store_run run key m = (r, m')"
  shows "runs_inv m'"
proof -
  let ?k = "r_ID run"
  have runs: "m_runs m' = put ?k run (m_runs m)"
    and keys: "get (m_idempotencyKeys m') x = Some j \<Longrightarrow> j = ?k \<or> get (m_idempotencyKeys m) x = Some j" for x j
    using res by (auto simp: store_run_def split: if_splits)
  have parent_known: "get (m_runs m) (r_ParentRunID x) \<noteq> None" if "lineage_ok m x" "r_ParentRunID x \<noteq> ''''" for x
    using that by (auto simp: lineage_ok_def)
  have ok': "lineage_ok m' x" if "lineage_ok m x" for x
    using that fresh parent_known [OF that] unfolding lineage_ok_def runs by auto
  have rel: "parent_rel m' = parent_rel m \<union> (if r_ParentRunID run = '''' then {} else {(r_ParentRunID run, ?k)})"
  proof -
    have "parent_of m' j = (if j = ?k then (if r_ParentRunID run = '''' then None else Some (r_ParentRunID run))
        else parent_of m j)" for j
      unfolding parent_of_def runs by simp
    moreover have "parent_of m ?k = None" using fresh(1) by (simp add: parent_of_def)
    ultimately show ?thesis unfolding parent_rel_def by (auto split: if_splits)
  qed
  have "?k \<notin> Domain (parent_rel m)"
  proof
    assume "?k \<in> Domain (parent_rel m)"
    then obtain j x where "get (m_runs m) j = Some x" "r_ParentRunID x = ?k" "r_ParentRunID x \<noteq> ''''"
      by (auto simp: parent_rel_def parent_of_def split: option.splits if_splits)
    then show False using inv fresh(1) parent_known [of x] unfolding runs_inv_def by auto
  qed
  moreover have "r_ParentRunID run \<noteq> '''' \<Longrightarrow> r_ParentRunID run \<noteq> ?k" using parent_known [OF ok] fresh(1) by auto
  ultimately have "(?k, r_ParentRunID run) \<notin> (parent_rel m)\<^sup>*" if "r_ParentRunID run \<noteq> ''''"
    using that by (metis Domain.DomainI converse_rtranclE)
  then have "acyclic (parent_rel m')"
    unfolding rel using inv by (auto simp: runs_inv_def acyclic_insert)
  moreover have "keyed r_ID (m_runs m')" using inv unfolding runs runs_inv_def by simp
  moreover have "\<forall>j x. get (m_runs m') j = Some x \<longrightarrow> lineage_ok m' x"
    using inv ok ok' unfolding runs runs_inv_def by auto
  moreover have "\<forall>x j. get (m_idempotencyKeys m') x = Some j \<longrightarrow> get (m_runs m') j \<noteq> None"
    using inv keys unfolding runs runs_inv_def by fastforce
  ultimately show ?thesis using inv fresh(2) unfolding runs_inv_def runs by auto
qed

lemma createRunLocked_inv:
  assumes "runs_inv m" and "createRunLocked run key m = Inr (r, m')"
    and "get (m_runs m) (r_ID run) = None" "r_ID run \<noteq> ''''"
  shows "runs_inv m'"
proof (cases "key_known key m")
  case None
  have "keyed r_ID (m_runs m)" using assms(1) by (simp add: runs_inv_def)
  with assms(2) None obtain run' where run': "(r, m') = store_run run' key m" "lineage_ok m run'"
      "run' = run\<lparr>r_ParentRunID := r_ParentRunID run', r_RootRunID := r_RootRunID run'\<rparr>"
    by (rule createRunLocked_new)
  then have "r_ID run' = r_ID run" by (metis Run.select_convs(1) Run.surjective Run.update_convs(3,4))
  then show ?thesis
    using assms(3,4) by (intro runs_inv_store [OF assms(1) _ _ run'(2) run'(1) [symmetric]]) simp_all
next
  case (Some k)
  then show ?thesis using assms(1,2) createRunLocked_known by fastforce
qed

lemma run_key: "runs_inv m \<Longrightarrow> get (m_runs m) k = Some r \<Longrightarrow> r_ID r = k"
  by (auto simp: runs_inv_def dest: keyedD)

lemma run_ops_inv:
  assumes "runs_inv m"
  shows "UpdateRun run m = Inr m' \<Longrightarrow> runs_inv m'"
    and "UpdateRunFenced run f m = Inr m' \<Longrightarrow> runs_inv m'"
    and "ClaimRunExecution k f m = Inr (n, m') \<Longrightarrow> runs_inv m'"
    and "CancelRun k at m = Inr (r, m') \<Longrightarrow> runs_inv m'"
    and "RecoverRun k f m = Inr (b, m') \<Longrightarrow> runs_inv m'"
proof -
  have replace: "runs_inv m2"
    if "get (m_runs m) (r_ID run) = Some ex" "m_runs m2 = put (r_ID run) (keep_lineage ex run) (m_runs m)"
      "m_idempotencyKeys m2 = m_idempotencyKeys m" for ex m2
    using that run_key [OF assms that(1)] by (intro runs_inv_replace [OF assms that(1)]) simp_all
  show "runs_inv m'" if u: "UpdateRun run m = Inr m'"
    using u unfolding UpdateRun_Inr by (elim exE conjE) (rule replace; simp)
  show "runs_inv m'" if u: "UpdateRunFenced run f m = Inr m'"
    using u unfolding UpdateRunFenced_Inr by (elim exE conjE) (rule replace; simp)
  show "runs_inv m'" if c: "ClaimRunExecution k f m = Inr (n, m')"
    using c unfolding ClaimRunExecution_Inr by (elim exE conjE) (rule runs_inv_same [OF assms]; simp)
  show "runs_inv m'" if c: "CancelRun k at m = Inr (r, m')"
    using c unfolding CancelRun_Inr Run_Cancel_Inr
    by (elim exE conjE) (rule runs_inv_replace [OF assms]; simp)
  show "runs_inv m'" if c: "RecoverRun k f m = Inr (b, m')"
  proof -
    obtain run where run: "get (m_runs m) k = Some run"
      and m': "m' = (if b then m\<lparr> m_runFences := put k (max (fence_of m k + 1) f) (m_runFences m),
                             m_runs := put k (recovered run) (m_runs m) \<rparr> else m)"
      using c unfolding RecoverRun_Inr by blast
    show ?thesis
    proof (cases b)
      case True
      then show ?thesis using m' by (intro runs_inv_replace [OF assms run, of "recovered run"]) simp_all
    qed (use assms m' in simp)
  qed
qed

lemma exec_runs_inv:
  assumes "runs_inv m" and "op_fresh m op"
  shows "runs_inv (store_exec L op m)"
proof (cases "touches_runs op")
  case False
  then show ?thesis using exec_runs_frame [OF False, of L m] runs_inv_same [OF assms(1)] by simp
next
  case True
  then show ?thesis
    using assms createRunLocked_inv [OF assms(1)] run_ops_inv [OF assms(1)]
      createRunLocked_inv [OF assms(1) CreateChildRun_cases(1)]
    by (cases op) (auto simp: state_of_def state_of'_def CreateRun_def split: sum.splits)
qed

section \<open>The invariant of the store\<close>

text \<open>Every step of a stored workflow names a stored Agent, and every stored value its own key.\<close>

definition agents_known :: "Memory \<Rightarrow> bool" where
  "agents_known m \<longleftrightarrow>
     (\<forall>k w. get (m_workflows m) k = Some w \<longrightarrow> (\<forall>s \<in> set (w_Steps w). get (m_agents m) (s_AgentID s) \<noteq> None))"

definition store_inv :: "Memory \<Rightarrow> bool" where
  "store_inv m \<longleftrightarrow> agents_keyed m \<and> runs_inv m \<and> workflows_inv m \<and> agents_known m
     \<and> keyed ap_ID (m_approvals m)"

lemma store_inv_new: "store_inv NewMemory"
  by (simp add: store_inv_def NewMemory_def agents_keyed_def runs_inv_def workflows_inv_def agents_known_def
      parent_rel_def parent_of_def acyclic_def)

lemma exec_agents_frame:
  "(\<forall>now a. op \<noteq> OpCreateAgent now a) \<Longrightarrow> (\<forall>now a v. op \<noteq> OpUpdateAgent now a v) \<Longrightarrow>
   (\<forall>k v. op \<noteq> OpDeleteAgent k v) \<Longrightarrow> m_agents (store_exec L op m) = m_agents m"
  by (cases op)
    (auto simp: state_of_def state_of'_def AppendRunEvent_def CreateWorkflow_def UpdateWorkflow_def
      AppendWorkflowEvent_def AppendAuditEvent_def CreateApproval_def DecideApproval_def ConsumeApproval_def
      UpdateRun_def ClaimRunExecution_def UpdateRunFenced_def CancelRun_def RecoverRun_def CreateRun_def Let_def
      split: sum.splits option.splits if_splits dest: createRunLocked_frame CreateChildRun_frame)

lemma exec_workflows_frame:
  "(\<forall>now w. op \<noteq> OpCreateWorkflow now w) \<Longrightarrow> (\<forall>w v. op \<noteq> OpUpdateWorkflow w v) \<Longrightarrow>
   m_workflows (store_exec L op m) = m_workflows m"
  by (cases op)
    (auto simp: state_of_def state_of'_def CreateAgent_def UpdateAgent_def DeleteAgent_def AppendRunEvent_def
      AppendWorkflowEvent_def AppendAuditEvent_def CreateApproval_def DecideApproval_def ConsumeApproval_def
      UpdateRun_def ClaimRunExecution_def UpdateRunFenced_def CancelRun_def RecoverRun_def CreateRun_def Let_def
      split: sum.splits option.splits if_splits dest: createRunLocked_frame CreateChildRun_frame)

lemma agents_known_same:
  "agents_known m \<Longrightarrow> m_workflows m' = m_workflows m \<Longrightarrow> m_agents m' = m_agents m \<Longrightarrow> agents_known m'"
  by (simp add: agents_known_def)

lemma agent_ops_known:
  assumes "agents_known m"
  shows "CreateAgent L now agent m = Inr (a, m') \<Longrightarrow> agents_known m'"
    and "UpdateAgent L now agent v m = Inr (a, m') \<Longrightarrow> agents_known m'"
    and "DeleteAgent k v m = Inr m' \<Longrightarrow> agents_known m'"
    and "CreateWorkflow L now w m = Inr (w', m') \<Longrightarrow> agents_known m'"
proof -
  show "agents_known m'" if c: "CreateAgent L now agent m = Inr (a, m')"
    using assms unfolding CreateAgent_Inr(3) [OF c] agents_known_def by auto
  show "agents_known m'" if u: "UpdateAgent L now agent v m = Inr (a, m')"
    using u by (rule UpdateAgent_Inr) (use assms in \<open>auto simp: agents_known_def\<close>)
  show "agents_known m'" if d: "DeleteAgent k v m = Inr m'"
    using assms DeleteAgent_Inr(3) [OF d] unfolding DeleteAgent_Inr(1) [OF d] agents_known_def by auto
  show "agents_known m'" if c: "CreateWorkflow L now w m = Inr (w', m')"
    using assms c unfolding CreateWorkflow_Inr agents_known_def by auto
qed

lemma UpdateWorkflow_known:
  assumes "agents_known m" and "UpdateWorkflow w v m = Inr (w', m')"
  shows "agents_known m'"
  using assms(2)
proof (rule UpdateWorkflow_Inr)
  fix existing
  assume ex: "get (m_workflows m) (w_ID w) = Some existing" and same: "same_definition existing w'"
    and m': "m' = m\<lparr>m_workflows := put (w_ID w) w' (m_workflows m)\<rparr>"
  have "map s_AgentID (w_Steps w') = map s_AgentID (w_Steps existing)"
    using same by (intro same_steps_fields(4)) (simp add: same_definition_def)
  then have img: "s_AgentID ` set (w_Steps w') = s_AgentID ` set (w_Steps existing)" by (metis set_map)
  have "get (m_agents m) (s_AgentID s) \<noteq> None" if "s \<in> set (w_Steps w')" for s
  proof -
    have "s_AgentID s \<in> s_AgentID ` set (w_Steps existing)" using that img by blast
    then show ?thesis using assms(1) ex unfolding agents_known_def by auto
  qed
  then show ?thesis using assms(1) unfolding agents_known_def m' by auto
qed

lemma exec_agents_known:
  assumes "agents_known m"
  shows "agents_known (store_exec L op m)"
proof (cases "m_workflows (store_exec L op m) = m_workflows m \<and> m_agents (store_exec L op m) = m_agents m")
  case True
  then show ?thesis using agents_known_same [OF assms] by blast
next
  case False
  then have "\<not> touches_runs op" using exec_agents_frame [of op L m] exec_workflows_frame [of op L m] by (cases op) auto
  with False show ?thesis
    using agent_ops_known [OF assms] UpdateWorkflow_known [OF assms]
      exec_agents_frame [of op L m] exec_workflows_frame [of op L m]
    by (cases op) (auto simp: state_of_def state_of'_def split: sum.splits)
qed

lemma exec_keyed:
  shows "agents_keyed m \<Longrightarrow> agents_keyed (store_exec L op m)"
    and "workflows_inv m \<Longrightarrow> workflows_inv (store_exec L op m)"
    and "keyed ap_ID (m_approvals m) \<Longrightarrow> keyed ap_ID (m_approvals (store_exec L op m))"
proof -
  show "agents_keyed (store_exec L op m)" if a: "agents_keyed m"
    using a agents_keyed_ops [OF a] exec_agents_frame [of op L m]
    by (cases op) (auto simp: state_of_def state_of'_def agents_keyed_def split: sum.splits)
  show "workflows_inv (store_exec L op m)" if w: "workflows_inv m"
    using w workflows_inv_ops [OF w] exec_workflows_frame [of op L m]
    by (cases op) (auto simp: state_of_def state_of'_def workflows_inv_def split: sum.splits)
  show "keyed ap_ID (m_approvals (store_exec L op m))" if k: "keyed ap_ID (m_approvals m)"
    using k exec_approvals_frame [of op L m] CreateApproval_Inr(3) [OF _ k] keyedD [OF k]
    by (cases op)
      (auto simp: state_of_def state_of'_def DecideApproval_Inr ConsumeApproval_Inr split: sum.splits
        intro!: keyed_put)
qed

lemma exec_store_inv: "store_inv m \<Longrightarrow> op_fresh m op \<Longrightarrow> store_inv (store_exec L op m)"
  by (simp add: store_inv_def exec_keyed exec_runs_inv exec_agents_known)

lemma execs_store_inv: "store_inv m \<Longrightarrow> ids_fresh L ops m \<Longrightarrow> store_inv (store_execs L ops m)"
  by (rule execs_invariant [where I = store_inv]) (rule exec_store_inv)

section \<open>Fencing\<close>

text \<open>
  The contract between a store and the workers that take turns on an entity: every claim hands out
  a fence above all earlier ones and at least the caller's minimum, a write succeeds under the
  current fence only, and no operation lowers a fence. Whoever relies on it gets that a worker
  whose claim was followed by another one can never write again.
\<close>

locale fenced_store =
  fixes fence :: "'s \<Rightarrow> 'k \<Rightarrow> int"
    and claim :: "'k \<Rightarrow> int \<Rightarrow> 's \<Rightarrow> store_error + (int \<times> 's)"
    and recover :: "'k \<Rightarrow> int \<Rightarrow> 's \<Rightarrow> store_error + (bool \<times> 's)"
    and store :: "'k \<Rightarrow> 'v \<Rightarrow> int \<Rightarrow> 's \<Rightarrow> store_error + 's"
    and exec :: "'op \<Rightarrow> 's \<Rightarrow> 's"
  assumes claim_above: "claim k low s = Inr (f, s') \<Longrightarrow> fence s k < f \<and> low \<le> f \<and> fence s' k = f"
    and recover_above: "recover k low s = Inr (True, s') \<Longrightarrow> fence s k < fence s' k"
    and store_current: "store k v f s = Inr s' \<Longrightarrow> fence s k = f \<and> 0 < f"
    and exec_mono: "fence s k \<le> fence (exec op s) k"
begin

lemma execs_mono: "fence s k \<le> fence (fold exec ops s) k"
proof (induction ops arbitrary: s)
  case (Cons op ops)
  have "fence s k \<le> fence (exec op s) k" by (rule exec_mono)
  also have "\<dots> \<le> fence (fold exec ops (exec op s)) k" by (rule Cons.IH)
  finally show ?case by simp
qed simp

lemma stale_above: "f < fence s k \<Longrightarrow> \<exists>e. store k v f (fold exec ops s) = Inl e"
  using execs_mono [of s k ops] store_current [of k v f "fold exec ops s"]
  by (cases "store k v f (fold exec ops s)") auto

lemma claims_increase:
  assumes "claim k low s = Inr (f, s')" and "claim k low2 (fold exec ops s') = Inr (f2, s2)"
  shows "f < f2"
  using claim_above [OF assms(1)] claim_above [OF assms(2)] execs_mono [of s' k ops] by linarith

lemma superseded_cannot_write:
  assumes "claim k low s = Inr (f, s')" and "claim k low2 (fold exec ops s') = Inr (f2, s2)"
  shows "\<exists>e. store k v f (fold exec ops2 s2) = Inl e"
  using claims_increase [OF assms] claim_above [OF assms(2)] by (intro stale_above) simp

lemma recovered_cannot_write:
  assumes "claim k low s = Inr (f, s')" and "recover k low2 (fold exec ops s') = Inr (True, s2)"
  shows "\<exists>e. store k v f (fold exec ops2 s2) = Inl e"
proof -
  have "f < fence s2 k"
    using claim_above [OF assms(1)] recover_above [OF assms(2)] execs_mono [of s' k ops] by linarith
  then show ?thesis by (rule stale_above)
qed

end

text \<open>The repository keeps the contract, with the Run named by its identifier.\<close>

definition write_run :: "string \<Rightarrow> Run \<Rightarrow> int \<Rightarrow> Memory \<Rightarrow> store_error + Memory" where
  "write_run k run f m = UpdateRunFenced (run\<lparr>r_ID := k\<rparr>) f m"

lemma exec_fence_mono: "fence_of m k \<le> fence_of (store_exec L op m) k"
proof (cases "touches_runs op")
  case False
  then show ?thesis using exec_runs_frame [OF False, of L m] by simp
next
  case True
  then show ?thesis
    by (cases op)
      (auto simp: state_of_def state_of'_def CreateRun_def UpdateRun_Inr UpdateRunFenced_Inr
        ClaimRunExecution_Inr CancelRun_Inr RecoverRun_Inr split: sum.splits if_splits
        dest: createRunLocked_frame CreateChildRun_frame)
qed

interpretation run_fences: fenced_store fence_of ClaimRunExecution RecoverRun write_run "store_exec L" for L
proof
  show "fence_of m k < f \<and> low \<le> f \<and> fence_of m' k = f" if "ClaimRunExecution k low m = Inr (f, m')" for k low m f m'
    using that by (auto simp: ClaimRunExecution_Inr)
  show "fence_of m k < fence_of m' k" if "RecoverRun k low m = Inr (True, m')" for k low m m'
    using that by (auto simp: RecoverRun_Inr)
  show "fence_of m k = f \<and> 0 < f" if "write_run k run f m = Inr m'" for k run f m m'
    using that by (auto simp: write_run_def UpdateRunFenced_Inr)
  show "fence_of m k \<le> fence_of (store_exec L op m) k" for m k op by (rule exec_fence_mono)
qed

lemma execs_fold: "store_execs L ops m = fold (store_exec L) ops m"
  by (induction ops arbitrary: m) auto

section \<open>Cancellation and idempotency keys\<close>

lemma createRunLocked_other:
  assumes "createRunLocked run key m = Inr (r, m')" and "get (m_runs m) k = Some x"
    and "get (m_runs m) (r_ID run) = None" and "keyed r_ID (m_runs m)"
  shows "get (m_runs m') k = Some x"
proof (cases "key_known key m")
  case None
  with assms(1,4) obtain run' where run': "(r, m') = store_run run' key m"
      "run' = run\<lparr>r_ParentRunID := r_ParentRunID run', r_RootRunID := r_RootRunID run'\<rparr>"
    using createRunLocked_new by metis
  then have "r_ID run' = r_ID run" by (metis Run.select_convs(1) Run.surjective Run.update_convs(3,4))
  with run'(1) assms(2,3) show ?thesis by (auto simp: store_run_def)
next
  case (Some j)
  then show ?thesis using assms(1,2) createRunLocked_known by fastforce
qed

lemma exec_canceled:
  assumes "runs_inv m" and "op_fresh m op" and "get (m_runs m) k = Some r" and "r_Status r = RunCanceled"
  shows "get (m_runs (store_exec L op m)) k = Some r"
proof (cases "touches_runs op")
  case False
  then show ?thesis using exec_runs_frame [OF False, of L m] assms(3) by simp
next
  case True
  have "keyed r_ID (m_runs m)" using assms(1) by (simp add: runs_inv_def)
  note create = createRunLocked_other [OF _ assms(3) _ this] and child = createRunLocked_other [OF CreateChildRun_cases(1) assms(3) _ this]
  show ?thesis
    using True assms create child
    by (cases op)
      (auto simp: state_of_def state_of'_def CreateRun_def UpdateRun_Inr UpdateRunFenced_Inr ClaimRunExecution_Inr
        CancelRun_Inr Run_Cancel_Inr RecoverRun_Inr split: sum.splits if_splits)
qed

lemma execs_canceled:
  assumes "runs_inv m" and "ids_fresh L ops m" and "get (m_runs m) k = Some r" and "r_Status r = RunCanceled"
  shows "get (m_runs (store_execs L ops m)) k = Some r"
proof -
  have "runs_inv (store_execs L ops m) \<and> get (m_runs (store_execs L ops m)) k = Some r"
    by (rule execs_invariant [where I = "\<lambda>m. runs_inv m \<and> get (m_runs m) k = Some r"])
      (use assms exec_runs_inv exec_canceled in auto)
  then show ?thesis by simp
qed

lemma createRunLocked_key:
  assumes "createRunLocked run key' m = Inr (r, m')" and "get (m_idempotencyKeys m) key = Some k"
  shows "get (m_idempotencyKeys m') key = Some k"
  using assms
  by (auto simp: createRunLocked_def store_run_def Let_def split: option.splits sum.splits if_splits)

lemma exec_key:
  assumes "get (m_idempotencyKeys m) key = Some k"
  shows "get (m_idempotencyKeys (store_exec L op m)) key = Some k"
proof (cases "touches_runs op")
  case False
  then show ?thesis using exec_runs_frame [OF False, of L m] assms by simp
next
  case True
  then show ?thesis
    using assms createRunLocked_key [OF _ assms] createRunLocked_key [OF CreateChildRun_cases(1) assms]
    by (cases op)
      (auto simp: state_of_def state_of'_def CreateRun_def UpdateRun_Inr UpdateRunFenced_Inr ClaimRunExecution_Inr
        CancelRun_Inr RecoverRun_Inr split: sum.splits if_splits)
qed

lemma execs_key:
  "get (m_idempotencyKeys m) key = Some k \<Longrightarrow> get (m_idempotencyKeys (store_execs L ops m)) key = Some k"
  by (induction ops arbitrary: m) (auto simp: exec_key)

lemma create_known_after:
  assumes "runs_inv m" and "CreateRun run key m = Inr ((r, b), m')" and "key \<noteq> ''''"
  shows "get (m_idempotencyKeys m') key = Some (r_ID r)"
proof (cases "key_known key m")
  case None
  have "keyed r_ID (m_runs m)" using assms(1) by (simp add: runs_inv_def)
  with assms(2) None show ?thesis
    unfolding CreateRun_def by (rule createRunLocked_new) (use assms(3) in \<open>auto simp: store_run_def\<close>)
next
  case (Some j)
  then have j: "get (m_idempotencyKeys m) key = Some j" using assms(3) by (simp add: key_known_def)
  then have "get (m_runs m) j \<noteq> None" using assms(1) unfolding runs_inv_def by blast
  then obtain x where x: "get (m_runs m) j = Some x" by blast
  then show ?thesis
    using assms(2) createRunLocked_known [OF Some, of run] j run_key [OF assms(1) x]
    by (simp add: CreateRun_def get_or_def)
qed

section \<open>Approvals\<close>

fun creates_approval :: "string \<Rightarrow> store_op \<Rightarrow> bool" where
  "creates_approval k (OpCreateApproval now a retention) \<longleftrightarrow> ap_ID a = k"
| "creates_approval k _ \<longleftrightarrow> False"

text \<open>The in-time approving decisions on \<open>k\<close> in a list of calls, with their actors.\<close>

fun decision_of :: "string \<Rightarrow> time \<Rightarrow> store_op \<Rightarrow> string option" where
  "decision_of k expires (OpDecideApproval k' approve actor now) =
     (if k' = k \<and> approve \<and> now < expires then Some actor else None)"
| "decision_of k expires _ = None"

definition approval_from :: "string \<Rightarrow> Approval \<Rightarrow> string set \<Rightarrow> Memory \<Rightarrow> bool" where
  "approval_from k a0 actors m \<longleftrightarrow> keyed ap_ID (m_approvals m) \<and>
     (case get (m_approvals m) k of
        None \<Rightarrow> True
      | Some a \<Rightarrow> ap_ServerID a = ap_ServerID a0 \<and> ap_ToolName a = ap_ToolName a0
          \<and> ap_ArgumentsHash a = ap_ArgumentsHash a0 \<and> ap_ExpiresAt a = ap_ExpiresAt a0
          \<and> (ap_Status a = ApprovalApproved \<longrightarrow> ap_DecidedBy a \<in> actors))"

definition approval_spent :: "string \<Rightarrow> Memory \<Rightarrow> bool" where
  "approval_spent k m \<longleftrightarrow> keyed ap_ID (m_approvals m) \<and>
     (case get (m_approvals m) k of
        None \<Rightarrow> True
      | Some a \<Rightarrow> ap_Status a = ApprovalConsumed \<or> ap_Status a = ApprovalRejected)"

text \<open>The three ways a call changes the approvals.\<close>

lemma exec_approvals_cases:
  assumes "keyed ap_ID (m_approvals m)"
  obtains (same) "m_approvals (store_exec L op m) = m_approvals m"
  | (create) now a retention m' where "op = OpCreateApproval now a retention"
      "CreateApproval now a retention m = Inr (a, m')" "store_exec L op m = m'"
  | (decide) k approve actor now a m' where "op = OpDecideApproval k approve actor now"
      "DecideApproval k approve actor now m = Inr (a, m')" "store_exec L op m = m'"
  | (consume) k s t h now a m' where "op = OpConsumeApproval k s t h now"
      "ConsumeApproval k s t h now m = Inr (a, m')" "store_exec L op m = m'"
proof (cases op)
  case (OpCreateApproval now a retention)
  then show ?thesis using same create [of now a retention] CreateApproval_Inr(2) [OF _ assms]
    by (cases "CreateApproval now a retention m") (auto simp: state_of_def)
next
  case (OpDecideApproval k approve actor now)
  then show ?thesis using same decide [of k approve actor now]
    by (cases "DecideApproval k approve actor now m") (auto simp: state_of_def)
next
  case (OpConsumeApproval k s t h now)
  then show ?thesis using same consume [of k s t h now]
    by (cases "ConsumeApproval k s t h now m") (auto simp: state_of_def)
qed (rule same, rule exec_approvals_frame; simp)+

lemma exec_approval_from:
  assumes "approval_from k a0 actors m" and "\<not> creates_approval k op"
    and "\<And>actor. decision_of k (ap_ExpiresAt a0) op = Some actor \<Longrightarrow> actor \<in> actors"
  shows "approval_from k a0 actors (store_exec L op m)"
proof -
  have key: "keyed ap_ID (m_approvals m)" using assms(1) by (simp add: approval_from_def)
  then show ?thesis
  proof (cases rule: exec_approvals_cases [where op = op and L = L])
    case same
    then show ?thesis using assms(1) by (simp add: approval_from_def)
  next
    case (create now a retention m')
    then show ?thesis
      using assms CreateApproval_Inr(3,4) [OF create(2) key]
      by (auto simp: approval_from_def split: option.splits)
  next
    case (decide j approve actor now a m')
    then show ?thesis
      using assms keyedD [OF key] key
      by (auto simp: approval_from_def DecideApproval_Inr split: option.splits if_splits)
  next
    case (consume j s t h now a m')
    then show ?thesis
      using assms keyedD [OF key] key
      by (auto simp: approval_from_def ConsumeApproval_Inr split: option.splits if_splits)
  qed
qed

lemma exec_approval_spent:
  assumes "approval_spent k m" and "\<not> creates_approval k op"
  shows "approval_spent k (store_exec L op m)"
proof -
  have key: "keyed ap_ID (m_approvals m)" using assms(1) by (simp add: approval_spent_def)
  then show ?thesis
  proof (cases rule: exec_approvals_cases [where op = op and L = L])
    case same
    then show ?thesis using assms(1) by (simp add: approval_spent_def)
  next
    case (create now a retention m')
    then show ?thesis
      using assms CreateApproval_Inr(3,4) [OF create(2) key]
      by (auto simp: approval_spent_def split: option.splits)
  next
    case (decide j approve actor now a m')
    then show ?thesis
      using assms keyedD [OF key] key
      by (auto simp: approval_spent_def DecideApproval_Inr split: option.splits if_splits)
  next
    case (consume j s t h now a m')
    then show ?thesis
      using assms keyedD [OF key] key
      by (auto simp: approval_spent_def ConsumeApproval_Inr split: option.splits if_splits)
  qed
qed

lemma execs_approval_spent:
  "approval_spent k m \<Longrightarrow> \<not> list_ex (creates_approval k) ops \<Longrightarrow> approval_spent k (store_execs L ops m)"
  by (induction ops arbitrary: m) (auto simp: exec_approval_spent)

lemma execs_approval_from:
  assumes "approval_from k a0 actors m" and "\<not> list_ex (creates_approval k) ops"
    and "\<And>op actor. op \<in> set ops \<Longrightarrow> decision_of k (ap_ExpiresAt a0) op = Some actor \<Longrightarrow> actor \<in> actors"
  shows "approval_from k a0 actors (store_execs L ops m)"
  using assms
proof (induction ops arbitrary: m)
  case (Cons op ops)
  have "approval_from k a0 actors (store_exec L op m)" using Cons.prems by (intro exec_approval_from) auto
  then have "approval_from k a0 actors (store_execs L ops (store_exec L op m))"
    using Cons.prems(2,3) by (intro Cons.IH) auto
  then show ?case by simp
qed simp

section \<open>Properties\<close>

text \<open>
  C1: The store is always consistent. From the empty store every sequence of calls, successful or
  refused, in which Runs are created under fresh identifiers, leads to a state where every value
  is stored under its own identifier, idempotency keys name existing Runs, every delegated Run has
  a stored parent and the root of its parent, delegation has no cycle, every stored workflow is
  valid and every step of it names a stored Agent.
\<close>

theorem store_always_consistent:
  assumes "ids_fresh L ops NewMemory"
  shows "store_inv (store_execs L ops NewMemory)"
  using store_inv_new assms by (rule execs_store_inv)


text \<open>
  C27: Cancellation is final. A canceled Run keeps every field it had when it was canceled,
  whatever workers, recoveries or further cancellations do afterwards.
\<close>

theorem cancellation_final:
  assumes "store_inv m" and "CancelRun k at m = Inr (r, m')" and "ids_fresh L ops m'"
  shows "GetRun k (store_execs L ops m') = Inr r \<and> r_Status r = RunCanceled"
proof -
  have "runs_inv m" using assms(1) by (simp add: store_inv_def)
  then have "runs_inv m'" using assms(2) by (rule run_ops_inv(4))
  moreover have "get (m_runs m') k = Some r" "r_Status r = RunCanceled"
    using assms(2) by (auto simp: CancelRun_Inr Run_Cancel_Inr)
  ultimately show ?thesis using execs_canceled [OF _ assms(3)] by (simp add: GetRun_def)
qed

text \<open>
  C28: Creation under an idempotency key is idempotent for good. After a creation under a key has
  returned a Run, every later creation under that key returns that same Run, creates nothing and
  leaves the store as it is.
\<close>

theorem creation_idempotent:
  assumes "store_inv m" and "CreateRun run key m = Inr ((r, b), m')" and "key \<noteq> ''''"
    and "op_fresh m (OpCreateRun run key)" and "ids_fresh L ops m'"
  shows "\<exists>r'. CreateRun run2 key (store_execs L ops m') = Inr ((r', False), store_execs L ops m')
    \<and> r_ID r' = r_ID r \<and> GetRun (r_ID r) (store_execs L ops m') = Inr r'"
proof -
  let ?m = "store_execs L ops m'"
  have inv: "runs_inv m" using assms(1) by (simp add: store_inv_def)
  have "runs_inv m'"
    using createRunLocked_inv [OF inv assms(2) [unfolded CreateRun_def]] assms(4) by simp
  then have inv': "runs_inv ?m"
    using assms(5) execs_invariant [where I = runs_inv, OF exec_runs_inv] by blast
  have key: "get (m_idempotencyKeys ?m) key = Some (r_ID r)"
    using create_known_after [OF inv assms(2,3)] by (rule execs_key)
  then have "get (m_runs ?m) (r_ID r) \<noteq> None" using inv' unfolding runs_inv_def by blast
  then obtain r' where r': "get (m_runs ?m) (r_ID r) = Some r'" by blast
  moreover have "key_known key ?m = Some (r_ID r)" using key assms(3) by (simp add: key_known_def)
  ultimately show ?thesis
    using createRunLocked_known run_key [OF inv' r'] by (simp add: CreateRun_def GetRun_def get_or_def)
qed

text \<open>
  C7: An approval is good for one tool call. Once it has been consumed, no later consumption of it
  succeeds, for whatever call and at whatever time, unless an approval with that identifier is
  created anew.
\<close>

theorem approval_single_use:
  assumes "store_inv m" and "ConsumeApproval k s t h now m = Inr (a, m')"
    and "\<not> list_ex (creates_approval k) ops"
  shows "\<exists>e. ConsumeApproval k s2 t2 h2 now2 (store_execs L ops m') = Inl e"
proof -
  have "keyed ap_ID (m_approvals m)" using assms(1) by (simp add: store_inv_def)
  then have "approval_spent k m'"
    using assms(2) keyedD [of ap_ID "m_approvals m" k] by (auto simp: ConsumeApproval_Inr approval_spent_def)
  then have "approval_spent k (store_execs L ops m')" using assms(3) by (rule execs_approval_spent)
  then show ?thesis
    by (cases "ConsumeApproval k s2 t2 h2 now2 (store_execs L ops m')")
      (auto simp: approval_spent_def ConsumeApproval_Inr)
qed

text \<open>
  C29: No tool call goes through without a decision. A consumption of an approval that was pending
  succeeds only for the server, tool and arguments it was requested for, before it expires, and
  only if somebody approved it in time; that person is the one it records.
\<close>

theorem approval_requires_decision:
  assumes "store_inv m" and "get (m_approvals m) k = Some a0" and "ap_Status a0 = ApprovalPending"
    and "\<not> list_ex (creates_approval k) ops"
    and "ConsumeApproval k s t h now (store_execs L ops m) = Inr (a, m')"
  shows "s = ap_ServerID a0 \<and> t = ap_ToolName a0 \<and> h = ap_ArgumentsHash a0 \<and> now < ap_ExpiresAt a0
    \<and> (\<exists>at < ap_ExpiresAt a0. OpDecideApproval k True (ap_DecidedBy a) at \<in> set ops)"
proof -
  define actors where "actors = {actor. \<exists>op \<in> set ops. decision_of k (ap_ExpiresAt a0) op = Some actor}"
  have "approval_from k a0 actors m" using assms(1-3) by (simp add: approval_from_def store_inv_def)
  then have "approval_from k a0 actors (store_execs L ops m)"
    using assms(4) by (rule execs_approval_from) (auto simp: actors_def)
  then have facts: "s = ap_ServerID a0 \<and> t = ap_ToolName a0 \<and> h = ap_ArgumentsHash a0 \<and> now < ap_ExpiresAt a0
      \<and> ap_DecidedBy a \<in> actors"
    using assms(5) by (auto simp: approval_from_def ConsumeApproval_Inr)
  then obtain op where op: "op \<in> set ops" "decision_of k (ap_ExpiresAt a0) op = Some (ap_DecidedBy a)"
    by (auto simp: actors_def)
  from op(2) have "\<exists>at < ap_ExpiresAt a0. op = OpDecideApproval k True (ap_DecidedBy a) at"
    by (cases op) (auto split: if_splits)
  with op(1) facts show ?thesis by auto
qed

section \<open>Concrete runs\<close>

definition sample_ops :: "store_op list" where
  "sample_ops = [OpCreateAgent 5 sample_agent, OpCreateRun sample_run ''key'',
     OpCreateChildRun (sample_run\<lparr>r_ID := ''r2'', r_ParentRunID := ''r1''\<rparr>) '''' 3,
     OpClaimRunExecution ''r1'' 0, OpCreateApproval 5 sample_approval_init 0]"

lemma sample_ops_fresh: "ids_fresh sample_lib sample_ops NewMemory"
  by code_simp

definition sample_state :: Memory where
  "sample_state = store_execs sample_lib sample_ops NewMemory"

lemma sample_state_inv: "store_inv sample_state"
  unfolding sample_state_def using store_inv_new sample_ops_fresh by (rule execs_store_inv)

theorem store_always_consistent_witness:
  "store_inv (store_execs sample_lib sample_ops NewMemory)
   \<and> (\<exists>r. GetRun ''r2'' (store_execs sample_lib sample_ops NewMemory) = Inr r \<and> r_RootRunID r = ''r1'')"
proof
  show "store_inv (store_execs sample_lib sample_ops NewMemory)"
    using sample_ops_fresh by (rule store_always_consistent)
  have "GetRun ''r2'' (store_execs sample_lib sample_ops NewMemory)
      = Inr (sample_run\<lparr>r_ID := ''r2'', r_ParentRunID := ''r1'', r_RootRunID := ''r1''\<rparr>)"
    by code_simp
  then show "\<exists>r. GetRun ''r2'' (store_execs sample_lib sample_ops NewMemory) = Inr r \<and> r_RootRunID r = ''r1''"
    by simp
qed

definition sample_claimed :: Memory where
  "sample_claimed = sample_state\<lparr>m_runFences := put ''r1'' 9 (m_runFences sample_state)\<rparr>"

lemma sample_claim: "ClaimRunExecution ''r1'' 9 sample_state = Inr (9, sample_claimed)"
  by code_simp

lemma sample_claim_again:
  "ClaimRunExecution ''r1'' 0 (store_execs sample_lib [OpUpdateRunFenced sample_started 9] sample_claimed)
     = Inr (10, sample_state\<lparr>m_runFences := [(''r1'', 10)], m_runs := put ''r1'' sample_started (m_runs sample_state)\<rparr>)"
  by code_simp


definition sample_canceled :: Run where
  "sample_canceled = sample_run\<lparr>r_Status := RunCanceled, r_CompletedAt := Some 40, r_DurationMS := 0\<rparr>"

lemma sample_cancel:
  "CancelRun ''r1'' 40 sample_state
     = Inr (sample_canceled, sample_state\<lparr>m_runs := put ''r1'' sample_canceled (m_runs sample_state)\<rparr>)"
  by code_simp

theorem cancellation_final_witness:
  "GetRun ''r1'' (store_execs sample_lib [OpUpdateRunFenced sample_done 1, OpRecoverRun ''r1'' 0]
     (sample_state\<lparr>m_runs := put ''r1'' sample_canceled (m_runs sample_state)\<rparr>)) = Inr sample_canceled"
  using cancellation_final [OF sample_state_inv sample_cancel,
      of sample_lib "[OpUpdateRunFenced sample_done 1, OpRecoverRun ''r1'' 0]"]
  by simp

lemma sample_create:
  "CreateRun (sample_run\<lparr>r_ID := ''r3''\<rparr>) ''key'' sample_state = Inr ((sample_run, False), sample_state)"
  by code_simp

theorem creation_idempotent_witness:
  "\<exists>r'. CreateRun (sample_run\<lparr>r_ID := ''r4''\<rparr>) ''key'' (store_execs sample_lib [OpCancelRun ''r1'' 40] sample_state)
      = Inr ((r', False), store_execs sample_lib [OpCancelRun ''r1'' 40] sample_state) \<and> r_ID r' = ''r1''"
proof -
  have "op_fresh sample_state (OpCreateRun (sample_run\<lparr>r_ID := ''r3''\<rparr>) ''key'')" by code_simp
  moreover have "r_ID sample_run = ''r1''" by code_simp
  ultimately show ?thesis
    using creation_idempotent [OF sample_state_inv sample_create, of sample_lib "[OpCancelRun ''r1'' 40]"] by auto
qed

definition sample_decide :: store_op where
  "sample_decide = OpDecideApproval ''ap1'' True ''lead'' 7"

definition sample_consumed :: Approval where
  "sample_consumed = sample_approval_init\<lparr>ap_Status := ApprovalConsumed, ap_DecidedBy := ''lead'',
     ap_DecidedAt := Some 7, ap_ConsumedAt := Some 9, ap_Version := 3\<rparr>"

lemma sample_consume:
  "ConsumeApproval ''ap1'' ''files'' ''write'' (ap_ArgumentsHash sample_approval_init) 9
     (store_execs sample_lib [sample_decide] sample_state)
   = Inr (sample_consumed, sample_state\<lparr>m_approvals := [(''ap1'', sample_consumed)]\<rparr>)"
  by code_simp

theorem approval_requires_decision_witness:
  "(9::int) < ap_ExpiresAt sample_approval_init
   \<and> (\<exists>at < ap_ExpiresAt sample_approval_init. OpDecideApproval ''ap1'' True (ap_DecidedBy sample_consumed) at \<in> set [sample_decide])"
proof -
  have "get (m_approvals sample_state) ''ap1'' = Some sample_approval_init"
    and "ap_Status sample_approval_init = ApprovalPending" by code_simp+
  then show ?thesis
    using approval_requires_decision [OF sample_state_inv _ _ _ sample_consume] by (simp add: sample_decide_def)
qed

theorem approval_single_use_witness:
  "\<exists>e. ConsumeApproval ''ap1'' ''files'' ''write'' (ap_ArgumentsHash sample_approval_init) 10
     (store_execs sample_lib [sample_decide] (sample_state\<lparr>m_approvals := [(''ap1'', sample_consumed)]\<rparr>)) = Inl e"
proof (rule approval_single_use [OF _ sample_consume])
  have "ids_fresh sample_lib [sample_decide] sample_state" by code_simp
  then show "store_inv (store_execs sample_lib [sample_decide] sample_state)"
    using sample_state_inv execs_store_inv by blast
  show "\<not> list_ex (creates_approval ''ap1'') [sample_decide]" by code_simp
qed

end
