(* ===== verification/Coordination.thy ===== *)
theory Coordination
  imports Prelude
begin

text \<open>
  \<^verbatim>\<open>internal/coordination\<close>: leases with fencing tokens. The interface \<^verbatim>\<open>Coordinator\<close>/\<^verbatim>\<open>Lease\<close> is
  the locale \<open>lease_service\<close>, in which mutual exclusion and the harmlessness of lost leases are
  proved; the in-memory coordinator is shown to implement it.
\<close>

section \<open>The in-memory coordinator\<close>

datatype coord_error = ErrContextDone | ErrLeaseLost | ErrInvalidLeaseTTL

record memoryLock =
  l_token :: int
  l_expiresAt :: time

record Coordinator =
  co_locks :: "(string, memoryLock) gomap"
  co_next :: int

record memoryLease =
  ls_key :: string
  ls_token :: int
  ls_once :: bool

definition NewCoordinator :: Coordinator where
  "NewCoordinator = \<lparr> co_locks = [], co_next = 0 \<rparr>"

text \<open>
  \<^verbatim>\<open>done\<close> tells whether the context of the call is done, \<^verbatim>\<open>now\<close> is what the clock shows under
  the mutex.
\<close>

definition Acquire ::
  "bool \<Rightarrow> string \<Rightarrow> duration \<Rightarrow> time \<Rightarrow> Coordinator \<Rightarrow> coord_error + (memoryLease option \<times> Coordinator)" where
  "Acquire ctx_done key ttl now m =
     (if ctx_done then Inl ErrContextDone
      else if ttl \<le> 0 then Inl ErrInvalidLeaseTTL
      else case get (co_locks m) key of
        Some current \<Rightarrow>
          if now < l_expiresAt current then Inr (None, m)
          else let token = co_next m + 1 in
            Inr (Some \<lparr> ls_key = key, ls_token = token, ls_once = False \<rparr>,
                 m\<lparr> co_next := token,
                    co_locks := put key \<lparr> l_token = token, l_expiresAt = now + ttl \<rparr> (co_locks m) \<rparr>)
      | None \<Rightarrow>
          let token = co_next m + 1 in
            Inr (Some \<lparr> ls_key = key, ls_token = token, ls_once = False \<rparr>,
                 m\<lparr> co_next := token,
                    co_locks := put key \<lparr> l_token = token, l_expiresAt = now + ttl \<rparr> (co_locks m) \<rparr>))"

definition FencingToken :: "memoryLease \<Rightarrow> int" where
  "FencingToken l = ls_token l"

definition Renew ::
  "bool \<Rightarrow> memoryLease \<Rightarrow> duration \<Rightarrow> time \<Rightarrow> Coordinator \<Rightarrow> coord_error option \<times> Coordinator" where
  "Renew ctx_done l ttl now m =
     (if ctx_done then (Some ErrContextDone, m)
      else if ttl \<le> 0 then (Some ErrInvalidLeaseTTL, m)
      else case get (co_locks m) (ls_key l) of
        None \<Rightarrow> (Some ErrLeaseLost, m)
      | Some current \<Rightarrow>
          if l_token current \<noteq> ls_token l \<or> \<not> now < l_expiresAt current then
            (Some ErrLeaseLost,
             if l_token current = ls_token l then m\<lparr>co_locks := del (ls_key l) (co_locks m)\<rparr> else m)
          else (None, m\<lparr>co_locks := put (ls_key l) (current\<lparr>l_expiresAt := now + ttl\<rparr>) (co_locks m)\<rparr>))"

definition Release :: "memoryLease \<Rightarrow> Coordinator \<Rightarrow> memoryLease \<times> Coordinator" where
  "Release l m =
     (if ls_once l then (l, m)
      else (l\<lparr>ls_once := True\<rparr>,
            case get (co_locks m) (ls_key l) of
              Some current \<Rightarrow>
                if l_token current = ls_token l then m\<lparr>co_locks := del (ls_key l) (co_locks m)\<rparr> else m
            | None \<Rightarrow> m))"

section \<open>The contract\<close>

text \<open>
  What a coordinator promises. \<open>owner s k\<close> is the token and the expiry of the lock on \<open>k\<close>,
  \<open>issued s\<close> the last token handed out.
\<close>

locale lease_service =
  fixes acquire :: "string \<Rightarrow> duration \<Rightarrow> time \<Rightarrow> 's \<Rightarrow> (int \<times> 's) option"
    and renew :: "string \<Rightarrow> int \<Rightarrow> duration \<Rightarrow> time \<Rightarrow> 's \<Rightarrow> bool \<times> 's"
    and release :: "string \<Rightarrow> int \<Rightarrow> 's \<Rightarrow> 's"
    and owner :: "'s \<Rightarrow> string \<Rightarrow> (int \<times> time) option"
    and issued :: "'s \<Rightarrow> int"
  assumes acquire_Some: "acquire k ttl now s = Some (t, s') \<Longrightarrow>
      t = issued s + 1 \<and> issued s' = t \<and> owner s' = (owner s)(k \<mapsto> (t, now + ttl))
      \<and> (\<forall>t' e. owner s k = Some (t', e) \<longrightarrow> e \<le> now)"
    and renew_True: "renew k t ttl now s = (True, s') \<Longrightarrow>
      (\<exists>e. owner s k = Some (t, e) \<and> now < e) \<and> owner s' = (owner s)(k \<mapsto> (t, now + ttl)) \<and> issued s' = issued s"
    and renew_False: "renew k t ttl now s = (False, s') \<Longrightarrow>
      issued s' = issued s
      \<and> (owner s' = owner s \<or> owner s' = (owner s)(k := None) \<and> (\<exists>e \<le> now. owner s k = Some (t, e)))"
    and release: "owner (release k t s) =
        (if \<exists>e. owner s k = Some (t, e) then (owner s)(k := None) else owner s)
      \<and> issued (release k t s) = issued s"
begin

text \<open>Everything any client may do, with the time at which it does it.\<close>

inductive lease_step :: "time \<Rightarrow> 's \<Rightarrow> 's \<Rightarrow> bool" where
  acquired: "acquire k ttl now s = Some (t, s') \<Longrightarrow> lease_step now s s'"
| renewed: "renew k t ttl now s = (b, s') \<Longrightarrow> lease_step now s s'"
| released: "lease_step now s (release k t s)"

text \<open>
  The steps that leave the holder of token \<open>t\<close> on \<open>k\<close> alone until \<open>until\<close>: it does not
  release, and renews only to at least that time.
\<close>

inductive peaceful :: "string \<Rightarrow> int \<Rightarrow> time \<Rightarrow> 's \<Rightarrow> 's \<Rightarrow> bool" for k t until where
  acquired: "now < until \<Longrightarrow> acquire k' ttl now s = Some (t', s') \<Longrightarrow> peaceful k t until s s'"
| renewed: "now < until \<Longrightarrow> renew k' t' ttl now s = (b, s') \<Longrightarrow>
    (k' = k \<and> t' = t \<longrightarrow> until \<le> now + ttl) \<Longrightarrow> peaceful k t until s s'"
| released: "k' \<noteq> k \<or> t' \<noteq> t \<Longrightarrow> peaceful k t until s (release k' t' s)"

definition held :: "string \<Rightarrow> int \<Rightarrow> time \<Rightarrow> 's \<Rightarrow> bool" where
  "held k t until s \<longleftrightarrow> (\<exists>e \<ge> until. owner s k = Some (t, e))"

lemma peaceful_held: "peaceful k t until s s' \<Longrightarrow> held k t until s \<Longrightarrow> held k t until s'"
proof (induction rule: peaceful.induct)
  case (acquired now k' ttl s t' s')
  then show ?case using acquire_Some [OF acquired(2)] by (fastforce simp: held_def)
next
  case (renewed now k' t' ttl s b s')
  obtain e where e: "owner s k = Some (t, e)" "until \<le> e" using renewed by (auto simp: held_def)
  show ?case
  proof (cases b)
    case True
    then show ?thesis using renew_True [of k' t' ttl now s s'] renewed e by (cases "k' = k") (auto simp: held_def)
  next
    case False
    then show ?thesis using renew_False [of k' t' ttl now s s'] renewed e by (cases "k' = k") (auto simp: held_def)
  qed
next
  case (released k' t' s)
  then show ?case using release [of k' t' s] by (auto simp: held_def)
qed

lemma exclusion:
  assumes "acquire k ttl now s = Some (t, s1)" and "(peaceful k t (now + ttl))\<^sup>*\<^sup>* s1 s2" and "now' < now + ttl"
  shows "acquire k ttl' now' s2 = None"
proof (rule ccontr)
  assume "acquire k ttl' now' s2 \<noteq> None"
  then obtain t' s3 where again: "acquire k ttl' now' s2 = Some (t', s3)" by auto
  have "held k t (now + ttl) s1" using acquire_Some [OF assms(1)] by (auto simp: held_def)
  with assms(2) have "held k t (now + ttl) s2" by (induction rule: rtranclp_induct) (auto intro: peaceful_held)
  then show False using acquire_Some [OF again] assms(3) by (auto simp: held_def)
qed

text \<open>A token that no longer owns its key never owns it again.\<close>

definition lost :: "string \<Rightarrow> int \<Rightarrow> 's \<Rightarrow> bool" where
  "lost k t s \<longleftrightarrow> t \<le> issued s \<and> (\<forall>e. owner s k \<noteq> Some (t, e))"

lemma lost_step: "lease_step now s s' \<Longrightarrow> lost k t s \<Longrightarrow> lost k t s'"
proof (induction rule: lease_step.induct)
  case (acquired k' ttl now s t' s')
  then show ?case using acquire_Some [OF acquired(1)] by (auto simp: lost_def split: if_splits)
next
  case (renewed k' t' ttl now s b s')
  then show ?case using renew_True [of k' t' ttl now s s'] renew_False [of k' t' ttl now s s']
    by (cases b) (auto simp: lost_def split: if_splits)
next
  case (released now s k' t')
  then show ?case using release [of k' t' s] by (auto simp: lost_def split: if_splits)
qed

lemma lost_renew_fails:
  assumes "lost k t s" and "(\<lambda>s s'. \<exists>now. lease_step now s s')\<^sup>*\<^sup>* s s2"
  shows "\<not> fst (renew k t ttl now s2) \<and> owner (snd (renew k t ttl now s2)) = owner s2 \<and> owner (release k t s2) = owner s2"
proof -
  have "lost k t s2" using assms(2,1) by (induction rule: rtranclp_induct) (auto intro: lost_step)
  then show ?thesis
    using renew_True [of k t ttl now s2 "snd (renew k t ttl now s2)"]
      renew_False [of k t ttl now s2 "snd (renew k t ttl now s2)"] release [of k t s2]
    by (cases "renew k t ttl now s2"; cases "fst (renew k t ttl now s2)") (auto simp: lost_def)
qed

lemma issued_step: "lease_step now s s' \<Longrightarrow> issued s \<le> issued s'"
proof (induction rule: lease_step.induct)
  case (acquired k ttl now s t s')
  then show ?case using acquire_Some [OF acquired(1)] by simp
next
  case (renewed k t ttl now s b s')
  then show ?case using renew_True [of k t ttl now s s'] renew_False [of k t ttl now s s'] by (cases b) auto
next
  case (released now s k t)
  then show ?case using release [of k t s] by simp
qed

lemma tokens_increase:
  assumes "acquire k ttl now s = Some (t, s1)" and "(\<lambda>s s'. \<exists>now. lease_step now s s')\<^sup>*\<^sup>* s1 s2"
    and "acquire k' ttl' now' s2 = Some (t', s3)"
  shows "t < t'"
proof -
  have "issued s1 \<le> issued s2"
    using assms(2) by (induction rule: rtranclp_induct) (auto dest: issued_step)
  then show ?thesis using acquire_Some [OF assms(1)] acquire_Some [OF assms(3)] by simp
qed

end

section \<open>The in-memory coordinator keeps the contract\<close>

definition acquire_lock :: "string \<Rightarrow> duration \<Rightarrow> time \<Rightarrow> Coordinator \<Rightarrow> (int \<times> Coordinator) option" where
  "acquire_lock k ttl now m =
     (case Acquire False k ttl now m of
        Inr (Some l, m') \<Rightarrow> Some (FencingToken l, m')
      | _ \<Rightarrow> None)"

definition lease_for :: "string \<Rightarrow> int \<Rightarrow> memoryLease" where
  "lease_for k t = \<lparr> ls_key = k, ls_token = t, ls_once = False \<rparr>"

definition renew_lock :: "string \<Rightarrow> int \<Rightarrow> duration \<Rightarrow> time \<Rightarrow> Coordinator \<Rightarrow> bool \<times> Coordinator" where
  "renew_lock k t ttl now m = (case Renew False (lease_for k t) ttl now m of (e, m') \<Rightarrow> (e = None, m'))"

definition release_lock :: "string \<Rightarrow> int \<Rightarrow> Coordinator \<Rightarrow> Coordinator" where
  "release_lock k t m = snd (Release (lease_for k t) m)"

definition lock_owner :: "Coordinator \<Rightarrow> string \<Rightarrow> (int \<times> time) option" where
  "lock_owner m k = map_option (\<lambda>l. (l_token l, l_expiresAt l)) (get (co_locks m) k)"

lemma acquire_lock_Some:
  "acquire_lock k ttl now m = Some (t, m') \<longleftrightarrow>
     0 < ttl \<and> (\<forall>l. get (co_locks m) k = Some l \<longrightarrow> l_expiresAt l \<le> now) \<and> t = co_next m + 1
   \<and> m' = m\<lparr> co_next := t, co_locks := put k \<lparr> l_token = t, l_expiresAt = now + ttl \<rparr> (co_locks m) \<rparr>"
  by (auto simp: acquire_lock_def Acquire_def FencingToken_def Let_def split: option.splits if_splits)

interpretation memory_leases: lease_service acquire_lock renew_lock release_lock lock_owner co_next
proof
  show "t = co_next m + 1 \<and> co_next m' = t \<and> lock_owner m' = (lock_owner m)(k \<mapsto> (t, now + ttl))
      \<and> (\<forall>t' e. lock_owner m k = Some (t', e) \<longrightarrow> e \<le> now)"
    if "acquire_lock k ttl now m = Some (t, m')" for k ttl now m t m'
    using that by (auto simp: acquire_lock_Some lock_owner_def fun_eq_iff)
  show "(\<exists>e. lock_owner m k = Some (t, e) \<and> now < e) \<and> lock_owner m' = (lock_owner m)(k \<mapsto> (t, now + ttl))
      \<and> co_next m' = co_next m"
    if "renew_lock k t ttl now m = (True, m')" for k t ttl now m m'
    using that
    by (auto simp: renew_lock_def Renew_def lease_for_def lock_owner_def fun_eq_iff split: if_splits option.splits)
  show "co_next m' = co_next m \<and> (lock_owner m' = lock_owner m
      \<or> lock_owner m' = (lock_owner m)(k := None) \<and> (\<exists>e \<le> now. lock_owner m k = Some (t, e)))"
    if "renew_lock k t ttl now m = (False, m')" for k t ttl now m m'
    using that
    by (auto simp: renew_lock_def Renew_def lease_for_def lock_owner_def fun_eq_iff split: if_splits option.splits)
  show "lock_owner (release_lock k t m) =
        (if \<exists>e. lock_owner m k = Some (t, e) then (lock_owner m)(k := None) else lock_owner m)
      \<and> co_next (release_lock k t m) = co_next m" for k t m
    by (auto simp: release_lock_def Release_def lease_for_def lock_owner_def fun_eq_iff split: option.splits)
qed

lemma Acquire_lock:
  "Acquire False k ttl now m = Inr (Some l, m') \<longleftrightarrow>
     acquire_lock k ttl now m = Some (ls_token l, m') \<and> l = lease_for k (ls_token l)"
  by (auto simp: acquire_lock_def Acquire_def FencingToken_def lease_for_def Let_def split: option.splits if_splits)

section \<open>Properties\<close>

text \<open>
  C21: Mutual exclusion. From the moment a lease on a key is granted until its time to live has
  passed, no other acquisition of that key is granted, whatever any client does with any lease,
  provided the holder does not release it and renews it to no earlier time.
\<close>

theorem lease_exclusion:
  assumes "Acquire False k ttl now m = Inr (Some l, m1)"
    and "(memory_leases.peaceful k (ls_token l) (now + ttl))\<^sup>*\<^sup>* m1 m2" and "now' < now + ttl"
  shows "case Acquire d k ttl' now' m2 of Inr (Some _, _) \<Rightarrow> False | _ \<Rightarrow> True"
proof -
  have "acquire_lock k ttl now m = Some (ls_token l, m1)" using assms(1) by (simp add: Acquire_lock)
  then have "acquire_lock k ttl' now' m2 = None" using assms(2,3) by (rule memory_leases.exclusion)
  then show ?thesis by (auto simp: acquire_lock_def Acquire_def Let_def split: option.splits if_splits)
qed

text \<open>
  A lost lease is harmless. Once the lock on a key no longer carries the token of a lease, every
  later renewal of that lease fails, and neither renewing nor releasing it changes who owns any
  key, so a worker that overslept cannot disturb its successor.
\<close>

theorem lost_lease_harmless:
  assumes "ls_token l \<le> co_next m"
    and "\<forall>lock. get (co_locks m) (ls_key l) = Some lock \<longrightarrow> l_token lock \<noteq> ls_token l"
    and "(\<lambda>s s'. \<exists>now. memory_leases.lease_step now s s')\<^sup>*\<^sup>* m m2" and "\<not> ls_once l"
  shows "fst (Renew False l ttl now m2) \<noteq> None
    \<and> lock_owner (snd (Renew False l ttl now m2)) = lock_owner m2
    \<and> lock_owner (snd (Release l m2)) = lock_owner m2"
proof -
  have l: "l = lease_for (ls_key l) (ls_token l)" using assms(4) by (simp add: lease_for_def)
  have "memory_leases.lost (ls_key l) (ls_token l) m"
    using assms(1,2) by (auto simp: memory_leases.lost_def lock_owner_def)
  note lost = memory_leases.lost_renew_fails [OF this assms(3), of ttl now,
      unfolded renew_lock_def release_lock_def l [symmetric]]
  then show ?thesis by (cases "Renew False l ttl now m2") auto
qed

text \<open>
  Fencing tokens only grow. A lease granted after another one, on whatever key and after
  whatever happened in between, carries a larger token.
\<close>

theorem fencing_tokens_increase:
  assumes "Acquire False k ttl now m = Inr (Some l, m1)"
    and "(\<lambda>s s'. \<exists>now. memory_leases.lease_step now s s')\<^sup>*\<^sup>* m1 m2"
    and "Acquire False k' ttl' now' m2 = Inr (Some l', m3)"
  shows "FencingToken l < FencingToken l'"
proof -
  have "acquire_lock k ttl now m = Some (ls_token l, m1)" "acquire_lock k' ttl' now' m2 = Some (ls_token l', m3)"
    using assms(1,3) by (simp_all add: Acquire_lock)
  then show ?thesis using memory_leases.tokens_increase assms(2) unfolding FencingToken_def by blast
qed

definition sample_coord :: Coordinator where
  "sample_coord = \<lparr> co_locks = [(''run:r1'', \<lparr> l_token = 1, l_expiresAt = 30 \<rparr>)], co_next = 1 \<rparr>"

lemma sample_acquire: "Acquire False ''run:r1'' 20 10 NewCoordinator = Inr (Some (lease_for ''run:r1'' 1), sample_coord)"
  by code_simp

lemma sample_peaceful:
  "memory_leases.peaceful ''run:r1'' 1 (10 + 20) sample_coord (release_lock ''run:r1'' 0 sample_coord)"
  by (rule memory_leases.peaceful.released) simp

theorem lease_exclusion_witness:
  "case Acquire False ''run:r1'' 20 25 (release_lock ''run:r1'' 0 sample_coord) of Inr (Some _, _) \<Rightarrow> False | _ \<Rightarrow> True"
  using lease_exclusion [OF sample_acquire _ _, of "release_lock ''run:r1'' 0 sample_coord" 25 False 20] sample_peaceful
  by (simp add: lease_for_def r_into_rtranclp)

theorem fencing_tokens_increase_witness:
  "FencingToken (lease_for ''run:r1'' 1) < FencingToken (lease_for ''b'' 2)"
proof (rule fencing_tokens_increase [OF sample_acquire rtranclp.rtrancl_refl])
  show "Acquire False ''b'' 20 15 sample_coord = Inr (Some (lease_for ''b'' 2),
      sample_coord\<lparr>co_next := 2, co_locks := co_locks sample_coord @ [(''b'', \<lparr> l_token = 2, l_expiresAt = 35 \<rparr>)]\<rparr>)"
    by code_simp
qed

theorem lost_lease_harmless_witness:
  "fst (Renew False (lease_for ''run:r1'' 0) 20 12 sample_coord) \<noteq> None"
  using lost_lease_harmless [of "lease_for ''run:r1'' 0" sample_coord sample_coord 20 12]
  by (simp add: sample_coord_def lease_for_def)

end
