(* ===== verification/Queue_Memory.thy ===== *)
theory Queue_Memory
  imports Prelude
begin

text \<open>
  \<^verbatim>\<open>internal/queue/memory.go\<close>: the in-process Run queue, a buffered channel with a list of dead
  letters. The channel is shown to be a bounded first-in-first-out queue in which every accepted
  job is delivered once, in order.
\<close>

section \<open>Operations\<close>

record DeadLetter =
  dl_RunID :: string
  dl_Cause :: string
  dl_At :: time

record RunQueue =
  q_jobs :: "string list"
  q_size :: nat
  q_deadLetters :: "DeadLetter list"

datatype queue_error = QueueContextDone | ErrFull | DeadLetterCauseRequired

definition NewQueue :: "nat \<Rightarrow> RunQueue" where
  "NewQueue n = \<lparr> q_jobs = [], q_size = n, q_deadLetters = [] \<rparr>"

text \<open>
  The \<^verbatim>\<open>select\<close> of \<^verbatim>\<open>Enqueue\<close>: when the context is done and the channel has room as well, either
  case may run; \<^verbatim>\<open>pick\<close> is that choice. The hand-over to a waiting receiver of an unbuffered
  channel (size 0) is not modelled.
\<close>

definition Enqueue :: "bool \<Rightarrow> bool \<Rightarrow> string \<Rightarrow> RunQueue \<Rightarrow> queue_error + RunQueue" where
  "Enqueue ctx_done pick runID q =
     (if ctx_done \<and> (pick \<or> \<not> length (q_jobs q) < q_size q) then Inl QueueContextDone
      else if length (q_jobs q) < q_size q then Inr (q\<lparr>q_jobs := q_jobs q @ [runID]\<rparr>)
      else Inl ErrFull)"

text \<open>Receiving from the channel; \<^const>\<open>None\<close> when it is empty and the receiver waits.\<close>

definition receive :: "RunQueue \<Rightarrow> (string \<times> RunQueue) option" where
  "receive q = (case q_jobs q of [] \<Rightarrow> None | runID # rest \<Rightarrow> Some (runID, q\<lparr>q_jobs := rest\<rparr>))"

text \<open>
  One turn of a worker of \<^verbatim>\<open>Consume\<close> after it received \<^verbatim>\<open>runID\<close>: when the handler failed and the
  worker's context is not done before or during the pause, the Run is put back; a full queue drops
  it (the source logs this). \<^verbatim>\<open>q\<close> is the queue at the end of the pause.
\<close>

definition requeue :: "bool \<Rightarrow> bool \<Rightarrow> string \<Rightarrow> RunQueue \<Rightarrow> RunQueue" where
  "requeue handler_failed ctx_done runID q =
     (if handler_failed \<and> \<not> ctx_done
      then (case Enqueue False False runID q of Inl _ \<Rightarrow> q | Inr q' \<Rightarrow> q')
      else q)"

definition QueueDeadLetter :: "time \<Rightarrow> string \<Rightarrow> string option \<Rightarrow> RunQueue \<Rightarrow> queue_error + RunQueue" where
  "QueueDeadLetter now runID cause q =
     (case cause of
        None \<Rightarrow> Inl DeadLetterCauseRequired
      | Some text \<Rightarrow>
          Inr (q\<lparr>q_deadLetters := q_deadLetters q @ [\<lparr> dl_RunID = runID, dl_Cause = text, dl_At = now \<rparr>]\<rparr>))"

definition DeadLetters :: "RunQueue \<Rightarrow> DeadLetter list" where
  "DeadLetters q = q_deadLetters q"

section \<open>A bounded queue\<close>

text \<open>The contract of the queue as its producers and workers see it.\<close>

locale bounded_fifo =
  fixes contents :: "'q \<Rightarrow> 'a list" and capacity :: "'q \<Rightarrow> nat"
    and enq :: "'a \<Rightarrow> 'q \<Rightarrow> 'q option" and deq :: "'q \<Rightarrow> ('a \<times> 'q) option"
  assumes enq_Some: "enq x q = Some q' \<Longrightarrow>
      contents q' = contents q @ [x] \<and> capacity q' = capacity q \<and> length (contents q) < capacity q"
    and enq_None: "enq x q = None \<Longrightarrow> capacity q \<le> length (contents q)"
    and deq_Some: "deq q = Some (x, q') \<Longrightarrow> contents q = x # contents q' \<and> capacity q' = capacity q"
    and deq_None: "deq q = None \<Longrightarrow> contents q = []"
begin

text \<open>
  A schedule of producers (\<^const>\<open>Some\<close>) and workers (\<^const>\<open>None\<close>): the jobs accepted, the jobs
  delivered, and the final queue.
\<close>

fun schedule :: "'a option list \<Rightarrow> 'q \<Rightarrow> 'a list \<times> 'a list \<times> 'q" where
  "schedule [] q = ([], [], q)"
| "schedule (Some x # sched) q =
     (case enq x q of
        None \<Rightarrow> schedule sched q
      | Some q' \<Rightarrow> (case schedule sched q' of (acc, out, r) \<Rightarrow> (x # acc, out, r)))"
| "schedule (None # sched) q =
     (case deq q of
        None \<Rightarrow> schedule sched q
      | Some (x, q') \<Rightarrow> (case schedule sched q' of (acc, out, r) \<Rightarrow> (acc, x # out, r)))"

lemma schedule_fifo:
  "schedule sched q = (acc, out, r) \<Longrightarrow> contents q @ acc = out @ contents r"
proof (induction sched q arbitrary: acc out r rule: schedule.induct)
  case (2 x sched q)
  show ?case
  proof (cases "enq x q")
    case None
    then show ?thesis using 2 by simp
  next
    case (Some q')
    obtain acc' where "schedule sched q' = (acc', out, r)" "acc = x # acc'"
      using 2(3) Some by (auto split: prod.splits)
    then show ?thesis using 2(2) [OF Some] enq_Some [OF Some] by simp
  qed
next
  case (3 sched q)
  show ?case
  proof (cases "deq q")
    case None
    then show ?thesis using 3 by simp
  next
    case (Some p)
    obtain x q' where p: "p = (x, q')" by (cases p)
    then obtain out' where "schedule sched q' = (acc, out', r)" "out = x # out'"
      using 3(3) Some by (auto split: prod.splits)
    then show ?thesis using 3(2) [OF Some p [symmetric]] deq_Some [of q x q'] Some p by simp
  qed
qed simp

lemma schedule_bounded:
  "length (contents q) \<le> capacity q \<Longrightarrow> schedule sched q = (acc, out, r) \<Longrightarrow>
     length (contents r) \<le> capacity q \<and> capacity r = capacity q"
proof (induction sched q arbitrary: acc out r rule: schedule.induct)
  case (2 x sched q)
  then show ?case using enq_Some [of x q] by (auto split: option.splits prod.splits)
next
  case (3 sched q)
  show ?case
  proof (cases "deq q")
    case None
    then show ?thesis using 3 by simp
  next
    case (Some p)
    obtain x q' where p: "p = (x, q')" by (cases p)
    then obtain out' where "schedule sched q' = (acc, out', r)"
      using 3(4) Some by (auto split: prod.splits)
    moreover have q': "contents q = x # contents q'" "capacity q' = capacity q"
      using deq_Some [of q x q'] Some p by auto
    moreover have "length (contents q') \<le> capacity q'" using 3(3) q' by simp
    ultimately show ?thesis using 3(2) [OF Some p [symmetric]] by simp
  qed
qed simp

end

definition enqueue_job :: "string \<Rightarrow> RunQueue \<Rightarrow> RunQueue option" where
  "enqueue_job runID q = (case Enqueue False False runID q of Inl _ \<Rightarrow> None | Inr q' \<Rightarrow> Some q')"

interpretation run_queue: bounded_fifo q_jobs q_size enqueue_job receive
  by unfold_locales
    (auto simp: enqueue_job_def Enqueue_def receive_def split: sum.splits if_splits list.splits)

section \<open>Properties\<close>

text \<open>
  The queue delivers exactly what it accepted, in order. For every interleaving of producers
  and workers, the Runs accepted since the queue was empty are the ones delivered followed by the
  ones still waiting, and never more than the configured number wait.
\<close>

theorem queue_fifo:
  assumes "run_queue.schedule sched (NewQueue n) = (accepted, delivered, q)"
  shows "accepted = delivered @ q_jobs q \<and> length (q_jobs q) \<le> n"
  using run_queue.schedule_fifo [OF assms] run_queue.schedule_bounded [OF _ assms]
  by (simp add: NewQueue_def)

theorem queue_fifo_witness:
  "[''a'', ''b''] = [''a''] @ q_jobs \<lparr> q_jobs = [''b''], q_size = 2, q_deadLetters = [] \<rparr>"
proof -
  have "run_queue.schedule [Some ''a'', Some ''b'', Some ''c'', None] (NewQueue 2)
      = ([''a'', ''b''], [''a''], \<lparr> q_jobs = [''b''], q_size = 2, q_deadLetters = [] \<rparr>)"
    by (simp add: NewQueue_def enqueue_job_def Enqueue_def receive_def)
  then show ?thesis using queue_fifo by blast
qed

end
