(* ===== verification/Events_Bus.thy ===== *)
theory Events_Bus
  imports Domain_Run
begin

text \<open>
  \<^verbatim>\<open>internal/events/bus.go\<close>: the in-process broker of Run events. Histories stay bounded and free
  of duplicates, a subscriber first receives the history and then every later event, and an event
  is lost to a subscriber only when its channel is full.
\<close>

section \<open>Data\<close>

text \<open>A subscriber's channel: the events buffered in it and its capacity.\<close>

record event_chan =
  ch_buffer :: "RunEvent list"
  ch_cap :: nat

text \<open>
  Channels are identified by numbers, handed out in order, in place of their addresses. \<^verbatim>\<open>seen\<close> is
  kept as the list of the keys of each inner map.
\<close>

record Bus =
  b_subscribers :: "(string, (nat, event_chan) gomap) gomap"
  b_history :: "(string, RunEvent list) gomap"
  b_seen :: "(string, string list) gomap"
  b_maxHistory :: int
  b_nextChan :: nat

definition NewBusWithHistoryLimit :: "int \<Rightarrow> Bus" where
  "NewBusWithHistoryLimit maxHistory =
     \<lparr> b_subscribers = [], b_history = [], b_seen = [], b_maxHistory = maxHistory, b_nextChan = 0 \<rparr>"

definition NewBus :: Bus where
  "NewBus = NewBusWithHistoryLimit 128"

section \<open>Operations\<close>

text \<open>
  \<^verbatim>\<open>%020d\<close> of the nanoseconds since 1970, and the identifier an event gets when it has none;
  \<^verbatim>\<open>random\<close> is the hexadecimal text of the random bytes, absent when reading them failed.
\<close>

definition zero_pad :: "nat \<Rightarrow> string \<Rightarrow> string" where
  "zero_pad width s = replicate (width - length s) (CHR ''0'') @ s"

definition pad20 :: "int \<Rightarrow> string" where
  "pad20 n = (if n < 0 then ''-'' @ zero_pad 19 (Itoa (- n)) else zero_pad 20 (Itoa n))"

definition UnixNano :: "time \<Rightarrow> int" where
  "UnixNano t = t - 62135596800 * 1000000000"

definition prepare :: "time \<Rightarrow> string option \<Rightarrow> RunEvent \<Rightarrow> RunEvent" where
  "prepare now random event =
     (let event = (if IsZero (e_Timestamp event) then event\<lparr>e_Timestamp := now\<rparr> else event) in
      if e_ID event = '''' then
        event\<lparr>e_ID := (case random of
            Some hex \<Rightarrow> ''evt_'' @ pad20 (UnixNano (e_Timestamp event)) @ ''_'' @ hex
          | None \<Rightarrow> ''evt_'' @ pad20 (UnixNano (e_Timestamp event)))\<rparr>
      else event)"

definition hasSeen :: "RunEvent \<Rightarrow> Bus \<Rightarrow> bool" where
  "hasSeen event b \<longleftrightarrow> e_ID event \<in> set (get_or [] (b_seen b) (e_RunID event))"

definition remember :: "RunEvent \<Rightarrow> Bus \<Rightarrow> Bus" where
  "remember event b =
     b\<lparr>b_seen := put (e_RunID event) (e_ID event # get_or [] (b_seen b) (e_RunID event)) (b_seen b)\<rparr>"

definition replaceHistory :: "string \<Rightarrow> RunEvent list \<Rightarrow> Bus \<Rightarrow> Bus" where
  "replaceHistory runID history b =
     b\<lparr> b_history := put runID history (b_history b), b_seen := put runID (map e_ID history) (b_seen b) \<rparr>"

text \<open>A send in a \<^verbatim>\<open>select\<close> with a \<^verbatim>\<open>default\<close>: a full channel drops the event.\<close>

definition try_send :: "RunEvent \<Rightarrow> event_chan \<Rightarrow> event_chan" where
  "try_send event ch =
     (if length (ch_buffer ch) < ch_cap ch then ch\<lparr>ch_buffer := ch_buffer ch @ [event]\<rparr> else ch)"

definition trim_history :: "int \<Rightarrow> RunEvent list \<Rightarrow> RunEvent list" where
  "trim_history maxHistory history =
     (if 0 \<le> maxHistory \<and> maxHistory < int (length history)
      then drop (length history - nat maxHistory) history else history)"

definition Publish :: "time \<Rightarrow> string option \<Rightarrow> RunEvent \<Rightarrow> Bus \<Rightarrow> Bus" where
  "Publish now random event b =
     (let event = prepare now random event in
      if hasSeen event b then b
      else
        let b = remember event b;
            history = get_or [] (b_history b) (e_RunID event) @ [event];
            b = b\<lparr>b_history := put (e_RunID event) history (b_history b)\<rparr>;
            b = (if 0 \<le> b_maxHistory b \<and> b_maxHistory b < int (length history)
                 then replaceHistory (e_RunID event) (trim_history (b_maxHistory b) history) b else b)
        in case get (b_subscribers b) (e_RunID event) of
             None \<Rightarrow> b
           | Some subscribers \<Rightarrow>
               b\<lparr>b_subscribers := put (e_RunID event) (map (\<lambda>(ch, c). (ch, try_send event c)) subscribers)
                   (b_subscribers b)\<rparr>)"

fun merge_events :: "RunEvent list \<Rightarrow> RunEvent list \<Rightarrow> RunEvent list" where
  "merge_events merged [] = merged"
| "merge_events merged (event # events) =
     merge_events (if e_ID event \<in> e_ID ` set merged then merged else merged @ [event]) events"

text \<open>
  Persisted events carry identifiers and timestamps, so that \<^verbatim>\<open>prepare\<close> reads the clock and the
  random source for none of them; the same two values are passed for all.
\<close>

definition subscribe_merged :: "time \<Rightarrow> string option \<Rightarrow> string \<Rightarrow> RunEvent list \<Rightarrow> Bus \<Rightarrow> RunEvent list" where
  "subscribe_merged now random runID persisted b =
     merge_events (merge_events [] (map (prepare now random) persisted)) (get_or [] (b_history b) runID)"

definition subscribe ::
  "time \<Rightarrow> string option \<Rightarrow> string \<Rightarrow> RunEvent list \<Rightarrow> Bus \<Rightarrow> nat \<times> Bus" where
  "subscribe now random runID persisted b =
     (let history = trim_history (b_maxHistory b) (subscribe_merged now random runID persisted b);
          b = replaceHistory runID history b;
          ch = b_nextChan b;
          c = \<lparr> ch_buffer = history, ch_cap = length history + 16 \<rparr>
      in (ch, b\<lparr> b_subscribers := put runID (put ch c (get_or [] (b_subscribers b) runID)) (b_subscribers b),
                 b_nextChan := ch + 1 \<rparr>))"

definition Subscribe :: "string \<Rightarrow> Bus \<Rightarrow> nat \<times> Bus" where
  "Subscribe runID b = subscribe 0 None runID [] b"

definition SubscribeWithHistory :: "time \<Rightarrow> string option \<Rightarrow> string \<Rightarrow> RunEvent list \<Rightarrow> Bus \<Rightarrow> nat \<times> Bus" where
  "SubscribeWithHistory now random runID persisted b = subscribe now random runID persisted b"

definition unsubscribe :: "string \<Rightarrow> nat \<Rightarrow> Bus \<Rightarrow> Bus" where
  "unsubscribe runID ch b =
     (case get (b_subscribers b) runID of
        None \<Rightarrow> b
      | Some subscribers \<Rightarrow>
          let subscribers = del ch subscribers in
          b\<lparr>b_subscribers := (if subscribers = [] then del runID (b_subscribers b)
                             else put runID subscribers (b_subscribers b))\<rparr>)"

section \<open>The invariant\<close>

definition bus_inv :: "Bus \<Rightarrow> bool" where
  "bus_inv b \<longleftrightarrow>
     (\<forall>k. distinct (map e_ID (get_or [] (b_history b) k))
        \<and> set (get_or [] (b_seen b) k) = e_ID ` set (get_or [] (b_history b) k)
        \<and> (0 \<le> b_maxHistory b \<longrightarrow> int (length (get_or [] (b_history b) k)) \<le> b_maxHistory b))"

lemma bus_inv_new: "bus_inv (NewBusWithHistoryLimit n)"
  by (simp add: bus_inv_def NewBusWithHistoryLimit_def get_or_def)

lemma trim_history_facts:
  "suffix (trim_history n es) es" "0 \<le> n \<Longrightarrow> int (length (trim_history n es)) \<le> n"
  "distinct (map e_ID es) \<Longrightarrow> distinct (map e_ID (trim_history n es))"
  by (auto simp: trim_history_def suffix_drop drop_map [symmetric])

lemma merge_events_distinct:
  "distinct (map e_ID merged) \<Longrightarrow> distinct (map e_ID (merge_events merged es))"
  by (induction merged es rule: merge_events.induct) auto

lemma merge_events_fresh:
  "distinct (map e_ID es) \<Longrightarrow> e_ID ` set es \<inter> e_ID ` set merged = {} \<Longrightarrow> merge_events merged es = merged @ es"
  by (induction merged es rule: merge_events.induct) auto

lemma replaceHistory_inv:
  assumes "bus_inv b" and "distinct (map e_ID history)"
    and "0 \<le> b_maxHistory b \<Longrightarrow> int (length history) \<le> b_maxHistory b"
  shows "bus_inv (replaceHistory k history b)"
  using assms by (simp add: bus_inv_def replaceHistory_def)

lemma bus_inv_subscribers [simp]: "bus_inv (b\<lparr>b_subscribers := s\<rparr>) = bus_inv b"
  "bus_inv (b\<lparr>b_nextChan := n\<rparr>) = bus_inv b"
  by (simp_all add: bus_inv_def)

text \<open>The bus after an unseen event was recorded, before it is sent.\<close>

definition recorded :: "RunEvent \<Rightarrow> Bus \<Rightarrow> Bus" where
  "recorded event b =
     (let b = remember event b;
          history = get_or [] (b_history b) (e_RunID event) @ [event];
          b = b\<lparr>b_history := put (e_RunID event) history (b_history b)\<rparr>
      in if 0 \<le> b_maxHistory b \<and> b_maxHistory b < int (length history)
         then replaceHistory (e_RunID event) (trim_history (b_maxHistory b) history) b else b)"

lemma recorded_inv:
  assumes inv: "bus_inv b" and new: "\<not> hasSeen event b"
  shows "bus_inv (recorded event b)"
proof -
  let ?k = "e_RunID event"
  let ?h = "get_or [] (b_history b) ?k @ [event]"
  have dist: "distinct (map e_ID ?h)"
    using inv new by (auto simp: bus_inv_def hasSeen_def)
  show ?thesis
  proof (cases "0 \<le> b_maxHistory b \<and> b_maxHistory b < int (length ?h)")
    case True
    have eq: "recorded event b = b\<lparr> b_history := put ?k (trim_history (b_maxHistory b) ?h) (b_history b),
        b_seen := put ?k (map e_ID (trim_history (b_maxHistory b) ?h)) (b_seen b) \<rparr>"
      using True by (simp add: recorded_def remember_def replaceHistory_def Let_def)
    show ?thesis unfolding eq
      using inv dist trim_history_facts(2,3) True by (simp add: bus_inv_def)
  next
    case False
    then show ?thesis
      using inv dist by (auto simp: recorded_def remember_def bus_inv_def Let_def)
  qed
qed

lemma Publish_eq:
  "Publish now random event b =
     (let event = prepare now random event in
      if hasSeen event b then b
      else case get (b_subscribers b) (e_RunID event) of
        None \<Rightarrow> recorded event b
      | Some subscribers \<Rightarrow>
          (recorded event b)\<lparr>b_subscribers := put (e_RunID event)
             (map (\<lambda>(ch, c). (ch, try_send event c)) subscribers) (b_subscribers b)\<rparr>)"
  by (auto simp: Publish_def recorded_def remember_def replaceHistory_def Let_def split: option.splits)

lemma Publish_inv: "bus_inv b \<Longrightarrow> bus_inv (Publish now random event b)"
  by (auto simp: Publish_eq Let_def recorded_inv split: option.splits)

lemma subscribe_inv: "bus_inv b \<Longrightarrow> bus_inv (snd (subscribe now random k persisted b))"
  by (auto simp: subscribe_def Let_def subscribe_merged_def
      intro!: replaceHistory_inv trim_history_facts merge_events_distinct)

lemma unsubscribe_inv: "bus_inv b \<Longrightarrow> bus_inv (unsubscribe k ch b)"
  by (simp add: unsubscribe_def Let_def split: option.splits)

section \<open>Delivery\<close>

definition chan_of :: "string \<Rightarrow> nat \<Rightarrow> Bus \<Rightarrow> event_chan option" where
  "chan_of k ch b = (case get (b_subscribers b) k of None \<Rightarrow> None | Some subs \<Rightarrow> get subs ch)"

lemma get_map_snd: "get (map (\<lambda>(k, v). (k, f v)) m) x = map_option f (get m x)"
  by (induction m) auto

lemma recorded_subscribers [simp]: "b_subscribers (recorded event b) = b_subscribers b"
  "b_maxHistory (recorded event b) = b_maxHistory b"
  by (simp_all add: recorded_def remember_def replaceHistory_def Let_def)

lemma recorded_history:
  "set (get_or [] (b_history (recorded event b)) k) \<subseteq>
     set (get_or [] (b_history b) k) \<union> (if k = e_RunID event then {event} else {})"
proof -
  let ?h = "get_or [] (b_history b) (e_RunID event) @ [event]"
  have trim: "set (trim_history n ?h) \<subseteq> set ?h" for n
    by (rule set_mono_suffix [OF trim_history_facts(1)])
  have eq: "get_or [] (b_history (recorded event b)) k =
      (if k = e_RunID event
       then (if 0 \<le> b_maxHistory b \<and> b_maxHistory b < int (length ?h) then trim_history (b_maxHistory b) ?h else ?h)
       else get_or [] (b_history b) k)"
    by (simp add: recorded_def remember_def replaceHistory_def Let_def)
  show ?thesis unfolding eq using trim by auto
qed

definition ready_event :: "RunEvent \<Rightarrow> bool" where
  "ready_event event \<longleftrightarrow> e_ID event \<noteq> '''' \<and> \<not> IsZero (e_Timestamp event)"

lemma prepare_ready [simp]: "ready_event event \<Longrightarrow> prepare now random event = event"
  by (simp add: ready_event_def prepare_def)

lemma Publish_new:
  assumes "ready_event event" and "\<not> hasSeen event b"
  shows "chan_of k ch (Publish now random event b) =
      (if k = e_RunID event then map_option (try_send event) (chan_of k ch b) else chan_of k ch b)"
    and "b_history (Publish now random event b) = b_history (recorded event b)"
  using assms
  by (auto simp: Publish_eq chan_of_def get_map_snd Let_def split: option.splits)

fun publish_all :: "time \<Rightarrow> RunEvent list \<Rightarrow> Bus \<Rightarrow> Bus" where
  "publish_all now [] b = b"
| "publish_all now (event # events) b = publish_all now events (Publish now None event b)"

lemma publish_all_chan:
  assumes "bus_inv b" and "chan_of k ch b = Some c" and "length (ch_buffer c) + length events \<le> ch_cap c"
    and "\<forall>e \<in> set events. ready_event e \<and> e_RunID e = k"
    and "distinct (map e_ID events)"
    and "e_ID ` set events \<inter> e_ID ` set (get_or [] (b_history b) k) = {}"
  shows "chan_of k ch (publish_all now events b) = Some (c\<lparr>ch_buffer := ch_buffer c @ events\<rparr>)"
  using assms
proof (induction events arbitrary: b c)
  case (Cons e es)
  let ?b = "Publish now None e b"
  have new: "\<not> hasSeen e b" using Cons.prems(1,4,6) by (auto simp: hasSeen_def bus_inv_def)
  have e: "ready_event e" "e_RunID e = k" using Cons.prems(4) by auto
  have c: "chan_of k ch ?b = Some (c\<lparr>ch_buffer := ch_buffer c @ [e]\<rparr>)"
    using Publish_new(1) [OF e(1) new] e(2) Cons.prems(2,3) by (simp add: try_send_def)
  have "set (get_or [] (b_history ?b) k) \<subseteq> set (get_or [] (b_history b) k) \<union> {e}"
    using Publish_new(2) [OF e(1) new] recorded_history [of e b k] e(2) by simp
  then have "e_ID ` set (get_or [] (b_history ?b) k) \<subseteq> insert (e_ID e) (e_ID ` set (get_or [] (b_history b) k))"
    by blast
  then have "e_ID ` set es \<inter> e_ID ` set (get_or [] (b_history ?b) k)
      \<subseteq> e_ID ` set es \<inter> insert (e_ID e) (e_ID ` set (get_or [] (b_history b) k))"
    by (rule Int_mono [OF subset_refl])
  also have "\<dots> = {}" using Cons.prems(5,6) by simp
  finally have disj: "e_ID ` set es \<inter> e_ID ` set (get_or [] (b_history ?b) k) = {}" by simp
  have "length (ch_buffer (c\<lparr>ch_buffer := ch_buffer c @ [e]\<rparr>)) + length es \<le> ch_cap (c\<lparr>ch_buffer := ch_buffer c @ [e]\<rparr>)"
    using Cons.prems(3) by simp
  moreover have "\<forall>e \<in> set es. ready_event e \<and> e_RunID e = k" "distinct (map e_ID es)"
    using Cons.prems(4,5) by simp_all
  ultimately show ?case using Cons.IH [OF Publish_inv [OF Cons.prems(1)] c _ _ _ disj] by simp
qed simp

section \<open>Properties\<close>

datatype bus_op =
    BusPublish time "string option" RunEvent
  | BusSubscribe time "string option" string "RunEvent list"
  | BusUnsubscribe string nat

fun bus_exec :: "bus_op \<Rightarrow> Bus \<Rightarrow> Bus" where
  "bus_exec (BusPublish now random event) b = Publish now random event b"
| "bus_exec (BusSubscribe now random k persisted) b = snd (SubscribeWithHistory now random k persisted b)"
| "bus_exec (BusUnsubscribe k ch) b = unsubscribe k ch b"

lemma bus_execs_inv: "bus_inv b \<Longrightarrow> bus_inv (fold bus_exec ops b)"
proof (induction ops arbitrary: b)
  case (Cons op ops)
  then show ?case
    by (cases op) (simp_all add: Publish_inv subscribe_inv unsubscribe_inv SubscribeWithHistory_def)
qed simp

lemma bus_max_const: "b_maxHistory (fold bus_exec ops b) = b_maxHistory b"
proof (induction ops arbitrary: b)
  case (Cons op ops)
  have "b_maxHistory (bus_exec op b) = b_maxHistory b"
    by (cases op) (simp_all add: Publish_eq SubscribeWithHistory_def subscribe_def unsubscribe_def
        replaceHistory_def Let_def split: option.splits)
  then show ?case using Cons by simp
qed simp

text \<open>
  Whatever is published and however clients come and go, the history of every Run stays
  within the configured limit and holds no event twice, and publishing an event that is still in
  it changes nothing.
\<close>

theorem bus_history_bounded:
  assumes b_def: "b = fold bus_exec ops (NewBusWithHistoryLimit limit)"
  shows "distinct (map e_ID (get_or [] (b_history b) k))
    \<and> (0 \<le> limit \<longrightarrow> int (length (get_or [] (b_history b) k)) \<le> limit)
    \<and> (\<forall>event \<in> set (get_or [] (b_history b) (e_RunID event2)).
         ready_event event2 \<and> e_ID event2 = e_ID event \<longrightarrow> Publish now random event2 b = b)"
proof -
  have inv: "bus_inv b" unfolding b_def by (rule bus_execs_inv) (rule bus_inv_new)
  have "b_maxHistory b = limit" unfolding b_def bus_max_const by (simp add: NewBusWithHistoryLimit_def)
  moreover have "Publish now random event2 b = b"
    if "event \<in> set (get_or [] (b_history b) (e_RunID event2))" "ready_event event2" "e_ID event2 = e_ID event" for event
  proof -
    have "hasSeen event2 b" using inv that by (auto simp: hasSeen_def bus_inv_def)
    then show ?thesis using that(2) by (simp add: Publish_eq)
  qed
  ultimately show ?thesis using inv unfolding bus_inv_def by blast
qed

text \<open>
  A subscriber misses nothing it can hold. The channel of a new subscriber starts with the
  merged history, oldest first, and then receives, in order and exactly once, every later event of
  its Run, as long as no more than sixteen of them wait beyond that history.
\<close>

theorem subscriber_receives:
  assumes "bus_inv b" and "subscribe now random k persisted b = (ch, b')"
    and "history = trim_history (b_maxHistory b) (subscribe_merged now random k persisted b)"
    and "length events \<le> 16" and "\<forall>e \<in> set events. ready_event e \<and> e_RunID e = k"
    and "distinct (map e_ID (history @ events))"
  shows "\<exists>c. chan_of k ch (publish_all now' events b') = Some c \<and> ch_buffer c = history @ events"
proof -
  let ?c = "\<lparr> ch_buffer = history, ch_cap = length history + 16 \<rparr>"
  have c: "chan_of k ch b' = Some ?c" and h: "get_or [] (b_history b') k = history"
    using assms(2,3) by (auto simp: subscribe_def Let_def chan_of_def replaceHistory_def get_or_def)
  have "bus_inv b'" using subscribe_inv [OF assms(1), of now random k persisted] assms(2) by simp
  then have "chan_of k ch (publish_all now' events b') = Some (?c\<lparr>ch_buffer := ch_buffer ?c @ events\<rparr>)"
    using c assms(4,5,6) h by (intro publish_all_chan) auto
  then show ?thesis by simp
qed

definition bus_event :: "string \<Rightarrow> RunEvent" where
  "bus_event x = \<lparr> e_ID = x, e_RunID = ''r1'', e_ChildRunID = '''', e_ParentRunID = '''', e_RootRunID = '''',
     e_Type = ''t'', e_Message = '''', e_Attempt = 1, e_Timestamp = 9 \<rparr>"

theorem bus_history_bounded_witness:
  "int (length (get_or [] (b_history (fold bus_exec
     [BusPublish 9 None (bus_event ''a''), BusPublish 9 None (bus_event ''b''), BusPublish 9 None (bus_event ''c'')]
     (NewBusWithHistoryLimit 2))) ''r1'')) \<le> 2"
  using bus_history_bounded [OF refl, where limit = 2 and k = "''r1''" and
      ops = "[BusPublish 9 None (bus_event ''a''), BusPublish 9 None (bus_event ''b''), BusPublish 9 None (bus_event ''c'')]"]
  by simp

definition bus_one :: Bus where
  "bus_one = Publish 9 None (bus_event ''a'') NewBus"

theorem subscriber_receives_witness:
  "\<exists>c. chan_of ''r1'' (fst (subscribe 9 None ''r1'' [] bus_one))
       (publish_all 9 [bus_event ''b'', bus_event ''c''] (snd (subscribe 9 None ''r1'' [] bus_one))) = Some c
     \<and> ch_buffer c = [bus_event ''a''] @ [bus_event ''b'', bus_event ''c'']"
proof (rule subscriber_receives)
  show "bus_inv bus_one" unfolding bus_one_def NewBus_def by (intro Publish_inv bus_inv_new)
  show "subscribe 9 None ''r1'' [] bus_one = (fst (subscribe 9 None ''r1'' [] bus_one), snd (subscribe 9 None ''r1'' [] bus_one))"
    by simp
  show "[bus_event ''a''] = trim_history (b_maxHistory bus_one) (subscribe_merged 9 None ''r1'' [] bus_one)"
    by code_simp
  show "\<forall>e \<in> set [bus_event ''b'', bus_event ''c'']. ready_event e \<and> e_RunID e = ''r1''" by code_simp
  show "distinct (map e_ID ([bus_event ''a''] @ [bus_event ''b'', bus_event ''c'']))" by code_simp
qed simp

end
