(* ===== verification/Engine.thy ===== *)
theory Engine
  imports Store_System Coordination Queue_Memory Events_Bus
begin

text \<open>
  \<^verbatim>\<open>internal/engine/engine.go\<close>: the execution of Runs. A worker of the queue runs \<^verbatim>\<open>execute\<close>; while
  it does, a lease keeper and a cancellation watch run beside it. The state holds the shared
  components and every worker at its place in \<^verbatim>\<open>execute\<close>; a step performs one access to the
  store, the coordinator or the queue, and the publication that follows it. What the outside
  decides (the clock, the outcome of the runtime) is the record \<open>Env\<close>, any value of which may
  occur at any step; \<open>en_ctxDone\<close> tells that the process is shutting down, which cancels the context
  of every worker.
\<close>

section \<open>Data\<close>

record RetryPolicy =
  rp_MaxAttempts :: int
  rp_InitialBackoff :: duration
  rp_MaxBackoff :: duration
  rp_LeaseTTL :: duration
  rp_AttemptTimeout :: duration

definition DefaultAttemptTimeout :: duration where "DefaultAttemptTimeout = 30 * 1000000000"
definition DefaultLeaseTTL :: duration where "DefaultLeaseTTL = 300 * 1000000000"

text \<open>The defaults that \<^verbatim>\<open>NewWithResolver\<close> puts in.\<close>

definition with_defaults :: "RetryPolicy \<Rightarrow> RetryPolicy" where
  "with_defaults retry =
     (let retry = (if rp_AttemptTimeout retry \<le> 0 then retry\<lparr>rp_AttemptTimeout := DefaultAttemptTimeout\<rparr> else retry) in
      if rp_LeaseTTL retry \<le> 0 then retry\<lparr>rp_LeaseTTL := DefaultLeaseTTL\<rparr> else retry)"

datatype engine_error =
    LoadRun store_error
  | AcquireLease coord_error
  | AlreadyProcessing
  | ClaimExecution store_error
  | ReloadRun store_error
  | RunTransition run_error
  | PersistAttempt store_error
  | PersistCompleted store_error
  | PersistFailed store_error
  | LeaseRenewal coord_error
  | ContextDone
  | DeadLetterRun queue_error

text \<open>What \<^verbatim>\<open>execute\<close> returns: \<^verbatim>\<open>nil\<close>, which settles the queue message, or an error.\<close>

datatype run_exit = ExitNil | ExitErr engine_error

text \<open>What the call of the runtime comes to: its result and error, or a panic.\<close>

datatype runtime_outcome = RtReturn string "string option" | RtPanic string

record attempt_result =
  x_output :: string
  x_err :: "string option"

text \<open>The places in \<^verbatim>\<open>execute\<close>.\<close>

datatype pc =
    PcLoad
  | PcAcquire
  | PcClaim
  | PcActivate
  | PcWatch
  | PcReload
  | PcAgent
  | PcResolve
  | PcLease
  | PcCtx
  | PcBegin
  | PcExecute
  | PcLeaseAfter attempt_result
  | PcParentAfter attempt_result
  | PcCtxAfter attempt_result
  | PcOutcome attempt_result
  | PcWait
  | PcLeaseWait
  | PcParentWait
  | PcDeadLetter string
  | PcStopKeeper run_exit
  | PcUnwatch run_exit
  | PcRelease run_exit
  | PcReturned run_exit

text \<open>
  A worker: the local variables of \<^verbatim>\<open>execute\<close>, whether \<^verbatim>\<open>runCtx\<close> has been cancelled, the error of
  its lease keeper, and whether the keeper and the watch still run.
\<close>

record Worker =
  wk_runID :: string
  wk_pc :: pc
  wk_run :: Run
  wk_lease :: memoryLease
  wk_fence :: int
  wk_agent :: Agent
  wk_chan :: nat
  wk_canceled :: bool
  wk_keeperErr :: "coord_error option"
  wk_keeping :: bool
  wk_watching :: bool

record Engine =
  en_store :: Memory
  en_bus :: Bus
  en_queue :: RunQueue
  en_coord :: Coordinator
  en_active :: "(string, nat) gomap"
  en_workers :: "(nat, Worker) gomap"
  en_ctxDone :: bool

record Env =
  v_now :: time
  v_random :: "string option"
  v_outcome :: runtime_outcome
  v_deadline :: bool
  v_timer :: bool

section \<open>Operations\<close>

subsection \<open>Helpers\<close>

definition publishRun :: "Env \<Rightarrow> Run \<Rightarrow> string \<Rightarrow> string \<Rightarrow> int \<Rightarrow> Engine \<Rightarrow> Engine" where
  "publishRun v run eventType message attempt s =
     s\<lparr>en_bus := Publish (v_now v) (v_random v)
        \<lparr> e_ID = '''', e_RunID = r_ID run, e_ChildRunID = '''', e_ParentRunID = r_ParentRunID run,
          e_RootRunID = r_RootRunID run, e_Type = eventType, e_Message = message, e_Attempt = attempt,
          e_Timestamp = v_now v \<rparr> (en_bus s)\<rparr>"

definition engine_publish :: "Env \<Rightarrow> string \<Rightarrow> string \<Rightarrow> string \<Rightarrow> int \<Rightarrow> Engine \<Rightarrow> Engine" where
  "engine_publish v runID eventType message attempt s =
     publishRun v (zero_run\<lparr>r_ID := runID\<rparr>) eventType message attempt s"

text \<open>The key of the lease on a Run.\<close>

definition lease_key :: "string \<Rightarrow> string" where
  "lease_key runID = ''run:'' @ runID"

lemma lease_key_inj [simp]: "lease_key a = lease_key b \<longleftrightarrow> a = b"
  by (simp add: lease_key_def)

text \<open>The loop of \<^verbatim>\<open>backoff\<close> with the 64-bit duration it doubles.\<close>

fun backoff_loop :: "duration \<Rightarrow> duration \<Rightarrow> nat \<Rightarrow> duration" where
  "backoff_loop maxBackoff backoff 0 = (if backoff > maxBackoff then maxBackoff else backoff)"
| "backoff_loop maxBackoff backoff (Suc n) =
     (if backoff \<ge> go_div maxBackoff 2 then maxBackoff
      else backoff_loop maxBackoff (wrap64 (backoff * 2)) n)"

definition backoff :: "RetryPolicy \<Rightarrow> int \<Rightarrow> duration" where
  "backoff retry attempt = backoff_loop (rp_MaxBackoff retry) (rp_InitialBackoff retry) (nat (attempt - 1))"

text \<open>The result, the text of the error, and whether the error is \<^verbatim>\<open>ErrRuntimePanic\<close>.\<close>

definition executeRuntimeSafely :: "runtime_outcome \<Rightarrow> attempt_result \<times> bool" where
  "executeRuntimeSafely outcome =
     (case outcome of
        RtReturn output err \<Rightarrow> (\<lparr> x_output = output, x_err = err \<rparr>, False)
      | RtPanic text \<Rightarrow> (\<lparr> x_output = '''', x_err = Some (''runtime panic: '' @ text) \<rparr>, True))"

text \<open>
  The error of the keeper, if any, is published and returned. \<^verbatim>\<open>lease_text\<close> is the text of the
  error.
\<close>

definition lease_text :: "coord_error \<Rightarrow> string" where
  "lease_text e = ''run lease renewal failed: '' @
     (case e of ErrContextDone \<Rightarrow> ''context deadline exceeded'' | ErrLeaseLost \<Rightarrow> ''lease ownership lost''
      | ErrInvalidLeaseTTL \<Rightarrow> ''lease TTL must be positive'')"

definition leaseRenewalError :: "Env \<Rightarrow> Worker \<Rightarrow> Engine \<Rightarrow> engine_error option \<times> Engine" where
  "leaseRenewalError v w s =
     (case wk_keeperErr w of
        None \<Rightarrow> (None, s)
      | Some e \<Rightarrow> (Some (LeaseRenewal e),
          engine_publish v (wk_runID w) ''run.lease_lost'' (lease_text e) (r_Attempt (wk_run w)) s))"

abbreviation goto :: "pc \<Rightarrow> Worker \<Rightarrow> Worker" where
  "goto p w \<equiv> w\<lparr>wk_pc := p\<rparr>"

text \<open>Returning once the lease keeper runs, and returning with only the lease to release.\<close>

abbreviation return :: "run_exit \<Rightarrow> Worker \<Rightarrow> Worker" where
  "return x w \<equiv> goto (PcStopKeeper x) w"

definition failRun :: "Env \<Rightarrow> string \<Rightarrow> Worker \<Rightarrow> Engine \<Rightarrow> Worker \<times> Engine" where
  "failRun v err w s =
     (case Run_Fail (wk_run w) (Some err) (v_now v) of
        Inl e \<Rightarrow> (return (ExitErr (RunTransition e)) w, s)
      | Inr run \<Rightarrow>
          (case UpdateRunFenced run (wk_fence w) (en_store s) of
             Inl ErrRunCanceled \<Rightarrow> (return ExitNil w, s)
           | Inl e \<Rightarrow> (return (ExitErr (PersistFailed e)) w, s)
           | Inr m \<Rightarrow>
               (goto (PcDeadLetter err) w,
                publishRun v run ''run.failed'' err (r_Attempt run) (s\<lparr>en_store := m\<rparr>))))"

subsection \<open>The steps of execute\<close>

definition execute_load :: "Env \<Rightarrow> Worker \<Rightarrow> Engine \<Rightarrow> Worker \<times> Engine" where
  "execute_load v w s =
     (case GetRun (wk_runID w) (en_store s) of
        Inl e \<Rightarrow> (goto (PcReturned (ExitErr (LoadRun e))) w, s)
      | Inr run \<Rightarrow>
          (case r_Status run of
             RunSucceeded \<Rightarrow> (goto (PcReturned ExitNil) w, s)
           | RunFailed \<Rightarrow>
               (case QueueDeadLetter (v_now v) (r_ID run) (Some (r_Error run)) (en_queue s) of
                  Inl e \<Rightarrow> (goto (PcReturned (ExitErr (DeadLetterRun e))) w, s)
                | Inr q \<Rightarrow> (goto (PcReturned ExitNil) w, s\<lparr>en_queue := q\<rparr>))
           | RunCanceled \<Rightarrow> (goto (PcReturned ExitNil) w, s)
           | _ \<Rightarrow> (goto PcAcquire (w\<lparr>wk_run := run\<rparr>), s)))"

definition execute_acquire :: "RetryPolicy \<Rightarrow> Env \<Rightarrow> Worker \<Rightarrow> Engine \<Rightarrow> Worker \<times> Engine" where
  "execute_acquire retry v w s =
     (case Acquire (en_ctxDone s) (lease_key (r_ID (wk_run w))) (rp_LeaseTTL retry) (v_now v) (en_coord s) of
        Inl e \<Rightarrow> (goto (PcReturned (ExitErr (AcquireLease e))) w, s)
      | Inr (None, c) \<Rightarrow> (goto (PcReturned (ExitErr AlreadyProcessing)) w, s\<lparr>en_coord := c\<rparr>)
      | Inr (Some lease, c) \<Rightarrow> (goto PcClaim (w\<lparr>wk_lease := lease\<rparr>), s\<lparr>en_coord := c\<rparr>))"

definition execute_claim :: "Worker \<Rightarrow> Engine \<Rightarrow> Worker \<times> Engine" where
  "execute_claim w s =
     (case ClaimRunExecution (r_ID (wk_run w)) (FencingToken (wk_lease w)) (en_store s) of
        Inl ErrRunCanceled \<Rightarrow> (goto (PcRelease ExitNil) w, s)
      | Inl (ErrRunNotExecutable st) \<Rightarrow> (goto (PcRelease ExitNil) w, s)
      | Inl e \<Rightarrow> (goto (PcRelease (ExitErr (ClaimExecution e))) w, s)
      | Inr (fence, m) \<Rightarrow> (goto PcActivate (w\<lparr>wk_fence := fence\<rparr>), s\<lparr>en_store := m\<rparr>))"

text \<open>The cancel function is entered under the Run; then the watch and the lease keeper start.\<close>

definition execute_activate :: "nat \<Rightarrow> Worker \<Rightarrow> Engine \<Rightarrow> Worker \<times> Engine" where
  "execute_activate i w s =
     (goto PcWatch (w\<lparr>wk_canceled := False\<rparr>), s\<lparr>en_active := put (r_ID (wk_run w)) i (en_active s)\<rparr>)"

definition execute_watch :: "Worker \<Rightarrow> Engine \<Rightarrow> Worker \<times> Engine" where
  "execute_watch w s =
     (case Subscribe (r_ID (wk_run w)) (en_bus s) of
        (ch, b) \<Rightarrow> (goto PcReload (w\<lparr>wk_chan := ch, wk_watching := True, wk_keeping := True, wk_keeperErr := None\<rparr>),
                    s\<lparr>en_bus := b\<rparr>))"

definition execute_reload :: "Worker \<Rightarrow> Engine \<Rightarrow> Worker \<times> Engine" where
  "execute_reload w s =
     (case GetRun (r_ID (wk_run w)) (en_store s) of
        Inl e \<Rightarrow> (return (ExitErr (ReloadRun e)) w, s)
      | Inr run \<Rightarrow>
          if r_Status run = RunCanceled then (return ExitNil (w\<lparr>wk_run := run\<rparr>), s)
          else (goto PcAgent (w\<lparr>wk_run := run\<rparr>), s))"

definition execute_agent :: "Env \<Rightarrow> Worker \<Rightarrow> Engine \<Rightarrow> Worker \<times> Engine" where
  "execute_agent v w s =
     (case GetAgent (r_AgentID (wk_run w)) (en_store s) of
        Inl e \<Rightarrow> failRun v ''agent not found: not found'' w s
      | Inr agent \<Rightarrow> (goto PcResolve (w\<lparr>wk_agent := agent\<rparr>), s))"

text \<open>\<^verbatim>\<open>resolve\<close> gives the text of the resolver's error, or \<^const>\<open>None\<close> when it found a runtime.\<close>

definition execute_resolve :: "RetryPolicy \<Rightarrow> (Agent \<Rightarrow> string option) \<Rightarrow> Env \<Rightarrow> Worker \<Rightarrow> Engine \<Rightarrow> Worker \<times> Engine" where
  "execute_resolve retry resolve v w s =
     (case resolve (wk_agent w) of
        Some err \<Rightarrow> failRun v (''resolve runtime for agent '' @ a_ID (wk_agent w) @ '': '' @ err) w s
      | None \<Rightarrow>
          (goto PcLease (if r_MaxAttempts (wk_run w) < 1
             then w\<lparr>wk_run := (wk_run w)\<lparr>r_MaxAttempts := rp_MaxAttempts retry\<rparr>\<rparr> else w), s))"

text \<open>A check of the keeper's error that goes on to \<^verbatim>\<open>p\<close>.\<close>

definition lease_check :: "pc \<Rightarrow> Env \<Rightarrow> Worker \<Rightarrow> Engine \<Rightarrow> Worker \<times> Engine" where
  "lease_check p v w s =
     (case leaseRenewalError v w s of
        (Some e, s') \<Rightarrow> (return (ExitErr e) w, s')
      | (None, s') \<Rightarrow> (goto p w, s'))"

text \<open>\<^verbatim>\<open>runCtx\<close> is done when it was cancelled or its parent is.\<close>

definition runCtx_done :: "Worker \<Rightarrow> Engine \<Rightarrow> bool" where
  "runCtx_done w s \<longleftrightarrow> wk_canceled w \<or> en_ctxDone s"

definition attempt_begin :: "Env \<Rightarrow> Worker \<Rightarrow> Engine \<Rightarrow> Worker \<times> Engine" where
  "attempt_begin v w s =
     (case (if r_Status (wk_run w) = RunQueued then Run_Start (wk_run w) (v_now v) else Run_Retry (wk_run w)) of
        Inl e \<Rightarrow> (return (ExitErr (RunTransition e)) w, s)
      | Inr run \<Rightarrow>
          (case UpdateRunFenced run (wk_fence w) (en_store s) of
             Inl ErrRunCanceled \<Rightarrow> (return ExitNil (w\<lparr>wk_run := run\<rparr>), s)
           | Inl e \<Rightarrow> (return (ExitErr (PersistAttempt e)) (w\<lparr>wk_run := run\<rparr>), s)
           | Inr m \<Rightarrow>
               (goto PcExecute (w\<lparr>wk_run := run\<rparr>),
                publishRun v run ''run.started''
                  (''attempt '' @ Itoa (r_Attempt run) @ '' of '' @ Itoa (r_MaxAttempts run) @ '' started'')
                  (r_Attempt run) (s\<lparr>en_store := m\<rparr>))))"

definition attempt_execute :: "golib \<Rightarrow> RetryPolicy \<Rightarrow> Env \<Rightarrow> Worker \<Rightarrow> Engine \<Rightarrow> Worker \<times> Engine" where
  "attempt_execute L retry v w s =
     (case executeRuntimeSafely (v_outcome v) of
        (result, panicked) \<Rightarrow>
          if v_deadline v \<and> \<not> panicked then
            let text = ''run attempt timed out: attempt '' @ Itoa (r_Attempt (wk_run w)) @ '' exceeded '' @
                  lib_Duration_String L (rp_AttemptTimeout retry)
            in (goto (PcLeaseAfter (result\<lparr>x_err := Some text\<rparr>)) w,
                publishRun v (wk_run w) ''run.attempt_timed_out'' text (r_Attempt (wk_run w)) s)
          else (goto (PcLeaseAfter result) w, s))"

definition attempt_outcome :: "golib \<Rightarrow> RetryPolicy \<Rightarrow> Env \<Rightarrow> attempt_result \<Rightarrow> Worker \<Rightarrow> Engine \<Rightarrow> Worker \<times> Engine" where
  "attempt_outcome L retry v result w s =
     (case x_err result of
        None \<Rightarrow>
          (case Run_Succeed (wk_run w) (x_output result) (v_now v) of
             Inl e \<Rightarrow> (return (ExitErr (RunTransition e)) w, s)
           | Inr run \<Rightarrow>
               (case UpdateRunFenced run (wk_fence w) (en_store s) of
                  Inl ErrRunCanceled \<Rightarrow> (return ExitNil (w\<lparr>wk_run := run\<rparr>), s)
                | Inl e \<Rightarrow> (return (ExitErr (PersistCompleted e)) (w\<lparr>wk_run := run\<rparr>), s)
                | Inr m \<Rightarrow>
                    (return ExitNil (w\<lparr>wk_run := run\<rparr>),
                     publishRun v run ''run.succeeded'' ''run completed successfully'' (r_Attempt run)
                       (s\<lparr>en_store := m\<rparr>))))
      | Some err \<Rightarrow>
          if r_Attempt (wk_run w) \<ge> r_MaxAttempts (wk_run w) then failRun v err w s
          else (goto PcWait w,
                publishRun v (wk_run w) ''run.retrying''
                  (''attempt '' @ Itoa (r_Attempt (wk_run w)) @ '' failed; retrying in '' @
                   lib_Duration_String L (backoff retry (r_Attempt (wk_run w))) @ '': '' @ err)
                  (r_Attempt (wk_run w)) s))"

text \<open>
  The wait for the next attempt: the timer fires, or \<^verbatim>\<open>runCtx\<close> is done first; when both are ready
  either may be taken.
\<close>

definition attempt_wait :: "Env \<Rightarrow> Worker \<Rightarrow> Engine \<Rightarrow> Worker \<times> Engine" where
  "attempt_wait v w s = (goto (if runCtx_done w s \<and> \<not> v_timer v then PcLeaseWait else PcLease) w, s)"

definition dead_letter :: "Env \<Rightarrow> string \<Rightarrow> Worker \<Rightarrow> Engine \<Rightarrow> Worker \<times> Engine" where
  "dead_letter v err w s =
     (case QueueDeadLetter (v_now v) (r_ID (wk_run w)) (Some err) (en_queue s) of
        Inl e \<Rightarrow> (return (ExitErr (DeadLetterRun e)) w, s)
      | Inr q \<Rightarrow> (return ExitNil w, s\<lparr>en_queue := q\<rparr>))"

text \<open>The deferred calls, last deferred first.\<close>

definition stop_watch :: "run_exit \<Rightarrow> Worker \<Rightarrow> Engine \<Rightarrow> Worker \<times> Engine" where
  "stop_watch x w s =
     (goto (PcRelease x) (w\<lparr>wk_watching := False, wk_canceled := True\<rparr>),
      s\<lparr> en_bus := unsubscribe (r_ID (wk_run w)) (wk_chan w) (en_bus s),
         en_active := del (r_ID (wk_run w)) (en_active s) \<rparr>)"

definition releaseLease :: "run_exit \<Rightarrow> Worker \<Rightarrow> Engine \<Rightarrow> Worker \<times> Engine" where
  "releaseLease x w s =
     (case Release (wk_lease w) (en_coord s) of
        (lease, c) \<Rightarrow> (goto (PcReturned x) (w\<lparr>wk_lease := lease\<rparr>), s\<lparr>en_coord := c\<rparr>))"

definition execute_step ::
  "golib \<Rightarrow> RetryPolicy \<Rightarrow> (Agent \<Rightarrow> string option) \<Rightarrow> Env \<Rightarrow> nat \<Rightarrow> Worker \<Rightarrow> Engine \<Rightarrow> Worker \<times> Engine" where
  "execute_step L retry resolve v i w s =
     (case wk_pc w of
        PcLoad \<Rightarrow> execute_load v w s
      | PcAcquire \<Rightarrow> execute_acquire retry v w s
      | PcClaim \<Rightarrow> execute_claim w s
      | PcActivate \<Rightarrow> execute_activate i w s
      | PcWatch \<Rightarrow> execute_watch w s
      | PcReload \<Rightarrow> execute_reload w s
      | PcAgent \<Rightarrow> execute_agent v w s
      | PcResolve \<Rightarrow> execute_resolve retry resolve v w s
      | PcLease \<Rightarrow> lease_check PcCtx v w s
      | PcCtx \<Rightarrow> (if runCtx_done w s then return ExitNil w else goto PcBegin w, s)
      | PcBegin \<Rightarrow> attempt_begin v w s
      | PcExecute \<Rightarrow> attempt_execute L retry v w s
      | PcLeaseAfter result \<Rightarrow> lease_check (PcParentAfter result) v w s
      | PcParentAfter result \<Rightarrow> (if en_ctxDone s then return (ExitErr ContextDone) w else goto (PcCtxAfter result) w, s)
      | PcCtxAfter result \<Rightarrow> (if runCtx_done w s then return ExitNil w else goto (PcOutcome result) w, s)
      | PcOutcome result \<Rightarrow> attempt_outcome L retry v result w s
      | PcWait \<Rightarrow> attempt_wait v w s
      | PcLeaseWait \<Rightarrow> lease_check PcParentWait v w s
      | PcParentWait \<Rightarrow> (if en_ctxDone s then return (ExitErr ContextDone) w else return ExitNil w, s)
      | PcDeadLetter err \<Rightarrow> dead_letter v err w s
      | PcStopKeeper x \<Rightarrow> (goto (PcUnwatch x) (w\<lparr>wk_keeping := False\<rparr>), s)
      | PcUnwatch x \<Rightarrow> stop_watch x w s
      | PcRelease x \<Rightarrow> releaseLease x w s
      | PcReturned x \<Rightarrow> (w, s))"

subsection \<open>The goroutines beside execute\<close>

text \<open>A tick of the lease keeper; \<^verbatim>\<open>late\<close> tells that the renewal's own deadline passed.\<close>

definition keeper_tick :: "RetryPolicy \<Rightarrow> bool \<Rightarrow> Env \<Rightarrow> Worker \<Rightarrow> Engine \<Rightarrow> Worker \<times> Engine" where
  "keeper_tick retry late v w s =
     (case Renew (late \<or> en_ctxDone s) (wk_lease w) (rp_LeaseTTL retry) (v_now v) (en_coord s) of
        (None, c) \<Rightarrow> (w, s\<lparr>en_coord := c\<rparr>)
      | (Some err, c) \<Rightarrow>
          (if en_ctxDone s then w\<lparr>wk_keeping := False\<rparr>
           else w\<lparr>wk_keeping := False, wk_keeperErr := Some err, wk_canceled := True\<rparr>,
           s\<lparr>en_coord := c\<rparr>))"

definition watch_poll :: "Worker \<Rightarrow> Engine \<Rightarrow> Worker" where
  "watch_poll w s =
     (case GetRun (r_ID (wk_run w)) (en_store s) of
        Inl e \<Rightarrow> w
      | Inr run \<Rightarrow> if r_Status run = RunCanceled then w\<lparr>wk_watching := False, wk_canceled := True\<rparr> else w)"

text \<open>Taking the next event from the channel of the subscription.\<close>

definition chan_recv :: "string \<Rightarrow> nat \<Rightarrow> Bus \<Rightarrow> (RunEvent \<times> Bus) option" where
  "chan_recv runID ch b =
     (case get (get_or [] (b_subscribers b) runID) ch of
        None \<Rightarrow> None
      | Some c \<Rightarrow>
          (case ch_buffer c of
             [] \<Rightarrow> None
           | event # rest \<Rightarrow>
               Some (event, b\<lparr>b_subscribers := put runID
                 (put ch (c\<lparr>ch_buffer := rest\<rparr>) (get_or [] (b_subscribers b) runID)) (b_subscribers b)\<rparr>)))"

definition watch_event :: "Worker \<Rightarrow> Engine \<Rightarrow> Worker \<times> Engine" where
  "watch_event w s =
     (case chan_recv (r_ID (wk_run w)) (wk_chan w) (en_bus s) of
        None \<Rightarrow> (w, s)
      | Some (event, b) \<Rightarrow>
          (if e_Type event = ''run.canceled'' then w\<lparr>wk_watching := False, wk_canceled := True\<rparr> else w,
           s\<lparr>en_bus := b\<rparr>))"

subsection \<open>Cancellation and recovery\<close>

definition cancel_worker :: "nat \<Rightarrow> Engine \<Rightarrow> Engine" where
  "cancel_worker i s =
     (case get (en_workers s) i of
        None \<Rightarrow> s
      | Some w \<Rightarrow> s\<lparr>en_workers := put i (w\<lparr>wk_canceled := True\<rparr>) (en_workers s)\<rparr>)"

definition Engine_Cancel :: "Env \<Rightarrow> string \<Rightarrow> Engine \<Rightarrow> store_error + (Run \<times> Engine)" where
  "Engine_Cancel v runID s =
     (case CancelRun runID (v_now v) (en_store s) of
        Inl e \<Rightarrow> Inl e
      | Inr (run, m) \<Rightarrow>
          let s = s\<lparr>en_store := m\<rparr>;
              s = (case get (en_active s) runID of None \<Rightarrow> s | Some i \<Rightarrow> cancel_worker i s)
          in Inr (run, publishRun v run ''run.canceled'' ''run canceled'' (r_Attempt run) s))"

datatype recover_error = EnqueuePending string queue_error | AcquireRecovery coord_error | RecoverStore store_error

definition Engine_Enqueue :: "string \<Rightarrow> Engine \<Rightarrow> queue_error + Engine" where
  "Engine_Enqueue runID s =
     (case Enqueue False False runID (en_queue s) of Inl e \<Rightarrow> Inl e | Inr q \<Rightarrow> Inr (s\<lparr>en_queue := q\<rparr>))"

text \<open>One turn of the loop of \<^verbatim>\<open>Recover\<close>; an error also carries the state reached.\<close>

definition recover_one :: "RetryPolicy \<Rightarrow> time \<Rightarrow> PendingRun \<Rightarrow> Engine \<Rightarrow> recover_error option \<times> Engine" where
  "recover_one retry now pending s =
     (if p_Status pending = RunQueued then
        (case Engine_Enqueue (p_ID pending) s of
           Inl e \<Rightarrow> (Some (EnqueuePending (p_ID pending) e), s)
         | Inr s' \<Rightarrow> (None, s'))
      else if p_Status pending \<noteq> RunRunning then (None, s)
      else case Acquire False (lease_key (p_ID pending)) (rp_LeaseTTL retry) now (en_coord s) of
        Inl e \<Rightarrow> (Some (AcquireRecovery e), s)
      | Inr (None, c) \<Rightarrow> (None, s\<lparr>en_coord := c\<rparr>)
      | Inr (Some lease, c) \<Rightarrow>
          let result = RecoverRun (p_ID pending) (FencingToken lease) (en_store s);
              s = s\<lparr>en_coord := snd (Release lease c)\<rparr>
          in case result of
               Inl e \<Rightarrow> (Some (RecoverStore e), s)
             | Inr (recov, m) \<Rightarrow>
                 let s = s\<lparr>en_store := m\<rparr> in
                 if recov then
                   (case Engine_Enqueue (p_ID pending) s of
                      Inl e \<Rightarrow> (Some (EnqueuePending (p_ID pending) e), s)
                    | Inr s' \<Rightarrow> (None, s'))
                 else (None, s))"

fun recover_loop :: "RetryPolicy \<Rightarrow> time \<Rightarrow> PendingRun list \<Rightarrow> Engine \<Rightarrow> recover_error option \<times> Engine" where
  "recover_loop retry now [] s = (None, s)"
| "recover_loop retry now (pending # rest) s =
     (case recover_one retry now pending s of
        (Some e, s') \<Rightarrow> (Some e, s')
      | (None, s') \<Rightarrow> recover_loop retry now rest s')"

definition Engine_Recover :: "RetryPolicy \<Rightarrow> time \<Rightarrow> Engine \<Rightarrow> recover_error option \<times> Engine" where
  "Engine_Recover retry now s = recover_loop retry now (ListPendingRuns (en_store s)) s"

end
