(* ===== verification/Json_Strings.thy ===== *)
theory Json_Strings
  imports Prelude
begin

text \<open>
  What \<^verbatim>\<open>json.Marshal\<close> of the Go library makes of a list of strings: the quoting and escaping of
  each string, with its treatment of UTF-8, and the array around them. A parser of such arrays
  serves as the reference; every list of valid strings is recovered from its encoding.
\<close>

section \<open>UTF-8\<close>

definition between :: "nat \<Rightarrow> nat \<Rightarrow> char \<Rightarrow> bool" where
  "between lo hi c \<longleftrightarrow> lo \<le> (of_char c :: nat) \<and> (of_char c :: nat) \<le> hi"

abbreviation continuation :: "char \<Rightarrow> bool" where
  "continuation \<equiv> between 0x80 0xBF"

text \<open>The range of the second byte of a rune of three or four bytes.\<close>

definition accept_second :: "char \<Rightarrow> char \<Rightarrow> bool" where
  "accept_second b0 b1 \<longleftrightarrow>
     between (if b0 = CHR 0xE0 then 0xA0 else if b0 = CHR 0xF0 then 0x90 else 0x80)
             (if b0 = CHR 0xED then 0x9F else if b0 = CHR 0xF4 then 0x8F else 0xBF) b1"

text \<open>The number of bytes of the rune a string starts with; 0 for an invalid encoding.\<close>

fun utf8_width :: "string \<Rightarrow> nat" where
  "utf8_width [] = 0"
| "utf8_width (b0 # rest) =
     (if between 0 0x7F b0 then 1
      else case rest of
        [] \<Rightarrow> 0
      | b1 # rest \<Rightarrow>
          if between 0xC2 0xDF b0 then (if continuation b1 then 2 else 0)
          else case rest of
            [] \<Rightarrow> 0
          | b2 # rest \<Rightarrow>
              if between 0xE0 0xEF b0 then (if accept_second b0 b1 \<and> continuation b2 then 3 else 0)
              else case rest of
                [] \<Rightarrow> 0
              | b3 # _ \<Rightarrow>
                  if between 0xF0 0xF4 b0 \<and> accept_second b0 b1 \<and> continuation b2 \<and> continuation b3 then 4 else 0)"

lemma high_bytes:
  "accept_second b0 b1 \<Longrightarrow> 128 \<le> (of_char b1 :: nat)" "continuation c \<Longrightarrow> 128 \<le> (of_char c :: nat)"
  "\<not> between 0 127 b0 \<Longrightarrow> 128 \<le> (of_char b0 :: nat)" "between 0 127 b0 \<Longrightarrow> of_char b0 < (128 :: nat)"
  by (auto simp: accept_second_def between_def split: if_splits)

lemma utf8_width_le: "utf8_width s \<le> length s"
  by (cases s rule: utf8_width.cases) (auto split: list.split)

function utf8_valid :: "string \<Rightarrow> bool" where
  "utf8_valid s =
     (if s = [] then True else if utf8_width s = 0 then False else utf8_valid (drop (utf8_width s) s))"
  by pat_completeness auto
termination
  by (relation "measure length") auto

declare utf8_valid.simps [simp del]

section \<open>Encoding\<close>

definition hex_digit :: "nat \<Rightarrow> char" where
  "hex_digit n = char_of (if n < 10 then n + 48 else n + 87)"

text \<open>An ASCII character in a JSON string, with the escapes for HTML.\<close>

definition json_ascii :: "char \<Rightarrow> string" where
  "json_ascii c =
     (if c = CHR 0x5C \<or> c = CHR 0x22 then [CHR 0x5C, c]
      else if c = CHR 0x08 then [CHR 0x5C, CHR ''b'']
      else if c = CHR 0x0C then [CHR 0x5C, CHR ''f'']
      else if c = CHR 0x0A then [CHR 0x5C, CHR ''n'']
      else if c = CHR 0x0D then [CHR 0x5C, CHR ''r'']
      else if c = CHR 0x09 then [CHR 0x5C, CHR ''t'']
      else if of_char c < (32 :: nat) \<or> c = CHR ''<'' \<or> c = CHR ''>'' \<or> c = CHR ''&'' then
        [CHR 0x5C, CHR ''u'', CHR ''0'', CHR ''0'', hex_digit (of_char c div 16), hex_digit (of_char c mod 16)]
      else [c])"

text \<open>A valid rune; the line separators U+2028 and U+2029 are escaped.\<close>

definition json_rune :: "string \<Rightarrow> string" where
  "json_rune r =
     (if r = [CHR 0xE2, CHR 0x80, CHR 0xA8] then CHR 0x5C # ''u2028''
      else if r = [CHR 0xE2, CHR 0x80, CHR 0xA9] then CHR 0x5C # ''u2029''
      else case r of [c] \<Rightarrow> json_ascii c | _ \<Rightarrow> r)"

function json_escape :: "string \<Rightarrow> string" where
  "json_escape s =
     (if s = [] then []
      else let n = utf8_width s in
        if n = 0 then CHR 0x5C # ''ufffd'' @ json_escape (tl s)
        else json_rune (take n s) @ json_escape (drop n s))"
  by pat_completeness auto
termination
  by (relation "measure length") auto

declare json_escape.simps [simp del]

definition json_string :: "string \<Rightarrow> string" where
  "json_string s = CHR 0x22 # json_escape s @ [CHR 0x22]"

fun json_elements :: "string list \<Rightarrow> string" where
  "json_elements [] = []"
| "json_elements [s] = json_string s"
| "json_elements (s # rest) = json_string s @ '','' @ json_elements rest"

definition json_Marshal :: "string list \<Rightarrow> string" where
  "json_Marshal xs = ''['' @ json_elements xs @ '']''"

section \<open>Parsing\<close>

definition hex_value :: "char \<Rightarrow> nat option" where
  "hex_value c =
     (let n = of_char c in
      if 48 \<le> n \<and> n \<le> 57 then Some (n - 48)
      else if 97 \<le> n \<and> n \<le> 102 then Some (n - 87)
      else if 65 \<le> n \<and> n \<le> 70 then Some (n - 55)
      else None)"

definition hex4 :: "char \<Rightarrow> char \<Rightarrow> char \<Rightarrow> char \<Rightarrow> nat option" where
  "hex4 a b c d =
     (case (hex_value a, hex_value b, hex_value c, hex_value d) of
        (Some a, Some b, Some c, Some d) \<Rightarrow> Some (((a * 16 + b) * 16 + c) * 16 + d)
      | _ \<Rightarrow> None)"

definition utf8_encode :: "nat \<Rightarrow> string" where
  "utf8_encode n =
     (if n < 0x80 then [char_of n]
      else if n < 0x800 then [char_of (0xC0 + n div 64), char_of (0x80 + n mod 64)]
      else [char_of (0xE0 + n div 4096), char_of (0x80 + n div 64 mod 64), char_of (0x80 + n mod 64)])"

definition simple_escape :: "char \<Rightarrow> char option" where
  "simple_escape c =
     (if c = CHR 0x22 \<or> c = CHR 0x5C \<or> c = CHR ''/'' then Some c
      else if c = CHR ''b'' then Some (CHR 0x08)
      else if c = CHR ''f'' then Some (CHR 0x0C)
      else if c = CHR ''n'' then Some (CHR 0x0A)
      else if c = CHR ''r'' then Some (CHR 0x0D)
      else if c = CHR ''t'' then Some (CHR 0x09)
      else None)"

text \<open>The rest of a string after its opening quote, and what follows its closing quote.\<close>

fun parse_string :: "string \<Rightarrow> (string \<times> string) option" where
  "parse_string [] = None"
| "parse_string (c # cs) =
     (if c = CHR 0x22 then Some ([], cs)
      else if c = CHR 0x5C then
        (case cs of
           [] \<Rightarrow> None
         | e # rest \<Rightarrow>
             if e = CHR ''u'' then
               (case rest of
                  h1 # h2 # h3 # h4 # rest \<Rightarrow>
                    (case hex4 h1 h2 h3 h4 of
                       None \<Rightarrow> None
                     | Some n \<Rightarrow> map_option (apfst (append (utf8_encode n))) (parse_string rest))
                | _ \<Rightarrow> None)
             else (case simple_escape e of
                None \<Rightarrow> None
              | Some d \<Rightarrow> map_option (apfst (Cons d)) (parse_string rest)))
      else map_option (apfst (Cons c)) (parse_string cs))"

text \<open>The elements of an array after its opening bracket.\<close>

function parse_elements :: "string \<Rightarrow> string list option" where
  "parse_elements s =
     (case s of
        [] \<Rightarrow> None
      | q # s \<Rightarrow>
          if q \<noteq> CHR 0x22 then None
          else case parse_string s of
            None \<Rightarrow> None
          | Some (x, rest) \<Rightarrow>
              if rest = '']'' then Some [x]
              else if length rest < length s \<and> rest \<noteq> [] \<and> hd rest = CHR '','' then
                map_option (Cons x) (parse_elements (tl rest))
              else None)"
  by pat_completeness auto
termination
  by (relation "measure length") auto

declare parse_elements.simps [simp del]

definition parse_array :: "string \<Rightarrow> string list option" where
  "parse_array s = (if s = ''[]'' then Some [] else case s of [] \<Rightarrow> None | c # s \<Rightarrow> if c = CHR ''['' then parse_elements s else None)"

section \<open>The round trip\<close>

lemma between_code: "between lo hi c \<Longrightarrow> lo \<le> (of_char c :: nat) \<and> (of_char c :: nat) \<le> hi"
  by (simp add: between_def)

lemma hex_digit_value: "n < 16 \<Longrightarrow> hex_value (hex_digit n) = Some n"
  by (auto simp: hex_value_def hex_digit_def Let_def)

lemma append_single: "append [x] = Cons x"
  by auto

lemma parse_ascii:
  assumes "of_char c < (128 :: nat)"
  shows "parse_string (json_ascii c @ t) = map_option (apfst (Cons c)) (parse_string t)"
proof -
  let ?n = "of_char c :: nat"
  have "?n div 16 < 16" "?n mod 16 < 16" using assms by auto
  then have hex: "hex4 (CHR ''0'') (CHR ''0'') (hex_digit (?n div 16)) (hex_digit (?n mod 16)) = Some ?n"
    by (simp add: hex4_def hex_digit_value hex_value_def [of "CHR ''0''"])
  have enc: "utf8_encode ?n = [c]" using assms by (simp add: utf8_encode_def)
  have u: "parse_string (CHR 0x5C # CHR ''u'' # CHR ''0'' # CHR ''0'' # hex_digit (?n div 16) # hex_digit (?n mod 16) # t)
    = map_option (apfst (Cons c)) (parse_string t)"
    using hex enc by (simp add: append_single)
  show ?thesis
    unfolding json_ascii_def by (simp add: simple_escape_def u del: parse_string.simps(2)) (auto simp: simple_escape_def)
qed

lemma parse_high:
  "list_all (\<lambda>c. 128 \<le> (of_char c :: nat)) s \<Longrightarrow>
     parse_string (s @ t) = map_option (apfst (append s)) (parse_string t)"
proof (induction s)
  case (Cons c s)
  have "c \<noteq> CHR 0x22" "c \<noteq> CHR 0x5C" using Cons.prems by auto
  then show ?case using Cons by (auto simp: option.map_comp comp_def apfst_def map_prod_def split_def intro!: option.map_cong0)
qed (simp add: apfst_def map_prod_def option.map_id id_def [symmetric])

lemma width_cases:
  assumes "0 < utf8_width s"
  shows "(\<exists>c. take (utf8_width s) s = [c] \<and> of_char c < (128 :: nat))
    \<or> 2 \<le> length (take (utf8_width s) s) \<and> list_all (\<lambda>c. 128 \<le> (of_char c :: nat)) (take (utf8_width s) s)"
proof (cases s)
  case (Cons b0 rest)
  then show ?thesis using assms by (auto simp: high_bytes split: if_splits list.splits)
qed (use assms in simp)

lemma parse_separators:
  "parse_string ((CHR 0x5C # ''u2028'') @ t) = map_option (apfst (append [CHR 0xE2, CHR 0x80, CHR 0xA8])) (parse_string t)"
  "parse_string ((CHR 0x5C # ''u2029'') @ t) = map_option (apfst (append [CHR 0xE2, CHR 0x80, CHR 0xA9])) (parse_string t)"
proof -
  have "hex4 (CHR ''2'') (CHR ''0'') (CHR ''2'') (CHR ''8'') = Some 0x2028"
    "hex4 (CHR ''2'') (CHR ''0'') (CHR ''2'') (CHR ''9'') = Some 0x2029"
    by (simp_all add: hex4_def hex_value_def)
  moreover have "utf8_encode 0x2028 = [CHR 0xE2, CHR 0x80, CHR 0xA8]" "utf8_encode 0x2029 = [CHR 0xE2, CHR 0x80, CHR 0xA9]"
    by (simp_all add: utf8_encode_def char_of_def bit_0)
  ultimately show
    "parse_string ((CHR 0x5C # ''u2028'') @ t) = map_option (apfst (append [CHR 0xE2, CHR 0x80, CHR 0xA8])) (parse_string t)"
    "parse_string ((CHR 0x5C # ''u2029'') @ t) = map_option (apfst (append [CHR 0xE2, CHR 0x80, CHR 0xA9])) (parse_string t)"
    by simp_all
qed

lemma parse_rune:
  assumes "0 < utf8_width s"
  shows "parse_string (json_rune (take (utf8_width s) s) @ t)
    = map_option (apfst (append (take (utf8_width s) s))) (parse_string t)"
  using width_cases [OF assms]
proof (elim disjE exE conjE)
  fix c assume "take (utf8_width s) s = [c]" "of_char c < (128 :: nat)"
  then show ?thesis using parse_ascii [of c t] by (simp add: json_rune_def append_single)
next
  let ?r = "take (utf8_width s) s"
  assume long: "2 \<le> length ?r" and high: "list_all (\<lambda>c. 128 \<le> (of_char c :: nat)) ?r"
  have eq: "json_rune ?r = (if ?r = [CHR 0xE2, CHR 0x80, CHR 0xA8] then CHR 0x5C # ''u2028''
      else if ?r = [CHR 0xE2, CHR 0x80, CHR 0xA9] then CHR 0x5C # ''u2029'' else ?r)"
    using long by (auto simp: json_rune_def simp del: length_take split: list.splits)
  show ?thesis unfolding eq
    by (split if_split, split if_split) (metis parse_high [OF high] parse_separators)
qed

lemma parse_escape:
  "utf8_valid s \<Longrightarrow> parse_string (json_escape s @ CHR 0x22 # t) = Some (s, t)"
proof (induction s rule: json_escape.induct)
  case (1 s)
  show ?case
  proof (cases "s = []")
    case False
    then have n: "0 < utf8_width s" and v: "utf8_valid (drop (utf8_width s) s)"
      using "1.prems" by (auto simp: utf8_valid.simps [of s] split: if_splits)
    then have "json_escape s = json_rune (take (utf8_width s) s) @ json_escape (drop (utf8_width s) s)"
      using False by (simp add: json_escape.simps [of s] Let_def)
    then show ?thesis using "1.IH"(2) [OF False refl] n v parse_rune [OF n] by simp
  qed (simp add: json_escape.simps)
qed

lemma parse_elements_marshal:
  assumes "\<forall>x \<in> set xs. utf8_valid x" and "xs \<noteq> []"
  shows "parse_elements (json_elements xs @ '']'') = Some xs"
  using assms
proof (induction xs rule: json_elements.induct)
  case (2 s)
  then show ?case by (simp add: parse_elements.simps [of "_ # _"] json_string_def parse_escape)
next
  case (3 s x xs)
  let ?rest = "'','' @ json_elements (x # xs) @ '']''"
  have "json_elements (s # x # xs) @ '']'' = CHR 0x22 # json_escape s @ CHR 0x22 # ?rest"
    by (simp add: json_string_def)
  moreover have "parse_string (json_escape s @ CHR 0x22 # ?rest) = Some (s, ?rest)"
    using "3.prems" by (intro parse_escape) simp
  ultimately show ?case using 3 by (simp add: parse_elements.simps [of "_ # _"])
qed simp

lemma parse_Marshal: "\<forall>x \<in> set xs. utf8_valid x \<Longrightarrow> parse_array (json_Marshal xs) = Some xs"
proof (cases xs rule: json_elements.cases)
  case (2 s)
  then show "\<forall>x \<in> set xs. utf8_valid x \<Longrightarrow> ?thesis" using parse_elements_marshal [of xs]
    by (simp add: json_Marshal_def parse_array_def json_string_def)
next
  case (3 s x ys)
  then show "\<forall>x \<in> set xs. utf8_valid x \<Longrightarrow> ?thesis" using parse_elements_marshal [of xs]
    by (simp add: json_Marshal_def parse_array_def json_string_def)
qed (simp add: json_Marshal_def parse_array_def)

end
