(* ===== verification/Workflow_Plan.thy ===== *)
theory Workflow_Plan
  imports Domain_Workflow Domain_Run Events_Bus Json_Strings
begin

text \<open>
  The functions of \<^verbatim>\<open>internal/workflow/manager.go\<close> on one workflow value: what a reading of a Run
  makes of a step, which steps are skipped by their conditions, which step is started next and with
  which input.
\<close>

section \<open>Constants and identifiers\<close>

definition defaultPollInterval :: duration where "defaultPollInterval = 25 * Millisecond"
definition defaultLeaseTTL :: duration where "defaultLeaseTTL = 30 * Second"
definition eventRetention :: duration where "eventRetention = 7 * 24 * Hour"
definition eventHistoryLimit :: int where "eventHistoryLimit = 1000"

text \<open>\<^verbatim>\<open>random\<close> is the hexadecimal text of the random bytes, absent when reading them failed.\<close>

definition newID :: "string \<Rightarrow> string option \<Rightarrow> time \<Rightarrow> string" where
  "newID kind random now =
     (case random of
        None \<Rightarrow> kind @ ''_'' @ Itoa (UnixNano now)
      | Some hex \<Rightarrow> kind @ ''_'' @ hex)"

section \<open>Statuses\<close>

definition status_text :: "WorkflowStepStatus \<Rightarrow> string" where
  "status_text st =
     (case st of
        WorkflowStepPending \<Rightarrow> ''pending'' | WorkflowStepQueued \<Rightarrow> ''queued'' | WorkflowStepRunning \<Rightarrow> ''running''
      | WorkflowStepSucceeded \<Rightarrow> ''succeeded'' | WorkflowStepSkipped \<Rightarrow> ''skipped'' | WorkflowStepFailed \<Rightarrow> ''failed''
      | WorkflowStepCanceled \<Rightarrow> ''canceled'')"

definition workflowTerminalEvent :: "WorkflowStatus \<Rightarrow> string" where
  "workflowTerminalEvent st =
     (case st of
        WorkflowSucceeded \<Rightarrow> ''workflow.succeeded''
      | WorkflowCanceled \<Rightarrow> ''workflow.canceled''
      | _ \<Rightarrow> ''workflow.failed'')"

definition stepStatuses :: "Workflow \<Rightarrow> (string, WorkflowStepStatus) gomap" where
  "stepStatuses w = fold (\<lambda>step. put (s_ID step) (s_Status step)) (w_Steps w) []"

definition step_active :: "WorkflowStep \<Rightarrow> bool" where
  "step_active step \<longleftrightarrow> s_Status step = WorkflowStepQueued \<or> s_Status step = WorkflowStepRunning"

definition step_done :: "WorkflowStep \<Rightarrow> bool" where
  "step_done step \<longleftrightarrow> s_Status step = WorkflowStepSucceeded \<or> s_Status step = WorkflowStepSkipped"

definition activeStepCount :: "Workflow \<Rightarrow> int" where
  "activeStepCount w = int (length (filter step_active (w_Steps w)))"

text \<open>\<^verbatim>\<open>statuses[dependency]\<close> is succeeded or skipped; a missing key reads as neither.\<close>

definition dependency_done :: "(string, WorkflowStepStatus) gomap \<Rightarrow> string \<Rightarrow> bool" where
  "dependency_done statuses dependency \<longleftrightarrow>
     get statuses dependency = Some WorkflowStepSucceeded \<or> get statuses dependency = Some WorkflowStepSkipped"

definition findStep :: "Workflow \<Rightarrow> string \<Rightarrow> WorkflowStep option" where
  "findStep w stepID = find (\<lambda>step. s_ID step = stepID) (w_Steps w)"

section \<open>Choosing a step\<close>

fun ready_loop :: "(string, WorkflowStepStatus) gomap \<Rightarrow> nat \<Rightarrow> WorkflowStep list \<Rightarrow> nat option" where
  "ready_loop statuses index [] = None"
| "ready_loop statuses index (step # steps) =
     (if s_Status step = WorkflowStepPending \<and> list_all (dependency_done statuses) (s_DependsOn step) then Some index
      else ready_loop statuses (Suc index) steps)"

text \<open>\<^const>\<open>None\<close> stands for \<open>-1\<close>.\<close>

definition readyStep :: "Workflow \<Rightarrow> nat option" where
  "readyStep w = ready_loop (stepStatuses w) 0 (w_Steps w)"

section \<open>The input of a step\<close>

datatype input_error =
    DependencyIncomplete string
  | SourceIncomplete string string
  | AggregationRequired string

fun parent_loop :: "Workflow \<Rightarrow> string \<Rightarrow> string \<Rightarrow> string list \<Rightarrow> input_error + string" where
  "parent_loop w stepID parentRunID [] = Inr parentRunID"
| "parent_loop w stepID parentRunID (dependencyID # rest) =
     (case findStep w dependencyID of
        None \<Rightarrow> Inl (DependencyIncomplete stepID)
      | Some dependency \<Rightarrow>
          if \<not> step_done dependency then Inl (DependencyIncomplete stepID)
          else parent_loop w stepID
            (if parentRunID = '''' \<and> s_RunID dependency \<noteq> '''' then s_RunID dependency else parentRunID) rest)"

fun values_loop :: "Workflow \<Rightarrow> string \<Rightarrow> string list \<Rightarrow> string list \<Rightarrow> input_error + string list" where
  "values_loop w stepID vals [] = Inr vals"
| "values_loop w stepID vals (sourceID # rest) =
     (if sourceID = WorkflowInputSource then values_loop w stepID (vals @ [w_Input w]) rest
      else case findStep w sourceID of
        None \<Rightarrow> Inl (SourceIncomplete stepID sourceID)
      | Some source \<Rightarrow>
          if \<not> step_done source then Inl (SourceIncomplete stepID sourceID)
          else values_loop w stepID (vals @ [s_Output source]) rest)"

definition resolveInput :: "Workflow \<Rightarrow> WorkflowStep \<Rightarrow> input_error + (string \<times> string)" where
  "resolveInput w step =
     (case parent_loop w (s_ID step) '''' (s_DependsOn step) of
        Inl e \<Rightarrow> Inl e
      | Inr parentRunID \<Rightarrow>
          if s_InputFrom step = [] then Inr (s_Input step, parentRunID)
          else case values_loop w (s_ID step) [] (s_InputFrom step) of
            Inl e \<Rightarrow> Inl e
          | Inr vals \<Rightarrow>
              if length vals = 1 then Inr (hd vals, parentRunID)
              else if s_InputAggregation step \<noteq> WorkflowInputJSONArray then Inl (AggregationRequired (s_ID step))
              else Inr (json_Marshal vals, parentRunID))"

section \<open>Conditions\<close>

definition evaluateCondition :: "string \<Rightarrow> WorkflowCondition \<Rightarrow> bool" where
  "evaluateCondition actual c =
     (if c_Operator c = WorkflowConditionEquals then actual = c_Value c
      else if c_Operator c = WorkflowConditionNotEquals then actual \<noteq> c_Value c
      else if c_Operator c = WorkflowConditionContains then Contains actual (c_Value c)
      else if c_Operator c = WorkflowConditionNotContains then \<not> Contains actual (c_Value c)
      else False)"

text \<open>The value a condition looks at, absent when its source is not a step.\<close>

definition condition_source :: "Workflow \<Rightarrow> WorkflowCondition \<Rightarrow> string option" where
  "condition_source w c =
     (if c_Source c \<noteq> WorkflowInputSource then map_option s_Output (findStep w (c_Source c)) else Some (w_Input w))"

definition set_step :: "nat \<Rightarrow> WorkflowStep \<Rightarrow> Workflow \<Rightarrow> Workflow" where
  "set_step i step w = w\<lparr>w_Steps := (w_Steps w)[i := step]\<rparr>"

fun conditions_loop ::
  "time \<Rightarrow> nat list \<Rightarrow> (string, WorkflowStepStatus) gomap \<Rightarrow> bool \<Rightarrow> Workflow \<Rightarrow> bool \<times> Workflow" where
  "conditions_loop now [] statuses changed w = (changed, w)"
| "conditions_loop now (index # rest) statuses changed w =
     (let step = w_Steps w ! index in
      case s_Condition step of
        None \<Rightarrow> conditions_loop now rest statuses changed w
      | Some c \<Rightarrow>
          if s_Status step \<noteq> WorkflowStepPending \<or> \<not> list_all (dependency_done statuses) (s_DependsOn step) then
            conditions_loop now rest statuses changed w
          else case condition_source w c of
            None \<Rightarrow> conditions_loop now rest statuses changed w
          | Some actual \<Rightarrow>
              if evaluateCondition actual c then conditions_loop now rest statuses changed w
              else conditions_loop now rest (put (s_ID step) WorkflowStepSkipped statuses) True
                (set_step index (step\<lparr>s_Status := WorkflowStepSkipped, s_CompletedAt := Some now\<rparr>) w))"

definition applyConditions :: "time \<Rightarrow> Workflow \<Rightarrow> bool \<times> Workflow" where
  "applyConditions now w = conditions_loop now [0..<length (w_Steps w)] (stepStatuses w) False w"

section \<open>Reading the Runs of the steps\<close>

definition cancel_step :: "time \<Rightarrow> WorkflowStep \<Rightarrow> WorkflowStep" where
  "cancel_step now step =
     (if s_Status step = WorkflowStepPending \<or> step_active step
      then step\<lparr>s_Status := WorkflowStepCanceled, s_CompletedAt := Some now\<rparr> else step)"

definition cancelNonterminalSteps :: "time \<Rightarrow> Workflow \<Rightarrow> Workflow" where
  "cancelNonterminalSteps now w = w\<lparr>w_Steps := map (cancel_step now) (w_Steps w)\<rparr>"

text \<open>The \<^verbatim>\<open>switch\<close> of \<^verbatim>\<open>refreshSteps\<close>.\<close>

definition refresh_status :: "Run \<Rightarrow> WorkflowStep \<Rightarrow> WorkflowStep" where
  "refresh_status run step =
     (case r_Status run of
        RunQueued \<Rightarrow> step\<lparr>s_Status := WorkflowStepQueued\<rparr>
      | RunRunning \<Rightarrow> step\<lparr>s_Status := WorkflowStepRunning, s_StartedAt := r_StartedAt run\<rparr>
      | RunSucceeded \<Rightarrow> step\<lparr>s_Status := WorkflowStepSucceeded, s_Output := r_Output run, s_Error := '''',
          s_StartedAt := r_StartedAt run, s_CompletedAt := r_CompletedAt run\<rparr>
      | RunFailed \<Rightarrow> step\<lparr>s_Status := WorkflowStepFailed, s_Error := r_Error run, s_Output := '''',
          s_StartedAt := r_StartedAt run, s_CompletedAt := r_CompletedAt run\<rparr>
      | RunCanceled \<Rightarrow> step\<lparr>s_Status := WorkflowStepCanceled, s_Output := '''',
          s_StartedAt := r_StartedAt run, s_CompletedAt := r_CompletedAt run\<rparr>)"

text \<open>The workflow once the step at \<open>index\<close> has failed or was cancelled.\<close>

definition end_workflow :: "time \<Rightarrow> nat \<Rightarrow> Workflow \<Rightarrow> Workflow" where
  "end_workflow now index w =
     (let step = w_Steps w ! index;
          w = (if s_Status step = WorkflowStepFailed
               then w\<lparr>w_Status := WorkflowFailed, w_Error := ''step '' @ s_ID step @ '' failed: '' @ s_Error step\<rparr>
               else w\<lparr>w_Status := WorkflowCanceled\<rparr>)
      in cancelNonterminalSteps now (w\<lparr>w_CompletedAt := Some now\<rparr>))"

text \<open>The end of \<^verbatim>\<open>refreshSteps\<close>, when no step had failed.\<close>

definition succeed_workflow :: "time \<Rightarrow> Workflow \<Rightarrow> Workflow" where
  "succeed_workflow now w = w\<lparr>w_Status := WorkflowSucceeded, w_Error := '''', w_CompletedAt := Some now\<rparr>"

section \<open>Lemmas\<close>

subsection \<open>Reading statuses and steps\<close>

lemma fold_statuses:
  "distinct (map s_ID steps) \<Longrightarrow>
     get (fold (\<lambda>step. put (s_ID step) (s_Status step)) steps m) d =
       (case find (\<lambda>step. s_ID step = d) steps of None \<Rightarrow> get m d | Some step \<Rightarrow> Some (s_Status step))"
proof (induction steps arbitrary: m)
  case (Cons step steps)
  have "find (\<lambda>x. s_ID x = s_ID step) steps = None" using Cons.prems by (auto simp: find_None_iff image_iff)
  then show ?case using Cons by (auto split: option.split)
qed simp

lemma find_distinct:
  "distinct (map f xs) \<Longrightarrow> find (\<lambda>x. f x = k) xs = Some x \<longleftrightarrow> x \<in> set xs \<and> f x = k"
  by (induction xs) (auto simp: image_iff)

lemma findStep_iff:
  "distinct (map s_ID (w_Steps w)) \<Longrightarrow> findStep w d = Some step \<longleftrightarrow> step \<in> set (w_Steps w) \<and> s_ID step = d"
  by (simp add: findStep_def find_distinct)

text \<open>The dependencies of a step that are met.\<close>

definition met :: "WorkflowStep list \<Rightarrow> string \<Rightarrow> bool" where
  "met steps d \<longleftrightarrow> (\<exists>step \<in> set steps. s_ID step = d \<and> step_done step)"

lemma stepStatuses_met:
  assumes "distinct (map s_ID (w_Steps w))"
  shows "dependency_done (stepStatuses w) d \<longleftrightarrow> met (w_Steps w) d"
proof -
  have "get (stepStatuses w) d = Some st \<longleftrightarrow> (\<exists>step. findStep w d = Some step \<and> s_Status step = st)" for st
    using fold_statuses [OF assms, of "[]" d] by (auto simp: stepStatuses_def findStep_def split: option.split)
  then show ?thesis
    by (auto simp: dependency_done_def met_def step_done_def findStep_iff [OF assms])
qed

lemma set_step_simps [simp]:
  "w_Steps (set_step i step w) = (w_Steps w)[i := step]" "w_Status (set_step i step w) = w_Status w"
  "w_ID (set_step i step w) = w_ID w" "w_Input (set_step i step w) = w_Input w"
  "w_Version (set_step i step w) = w_Version w" "w_Error (set_step i step w) = w_Error w"
  "w_CreatedAt (set_step i step w) = w_CreatedAt w" "w_StartedAt (set_step i step w) = w_StartedAt w"
  "w_CompletedAt (set_step i step w) = w_CompletedAt w"
  by (simp_all add: set_step_def)

subsection \<open>The next step\<close>

lemma ready_loop_Some:
  "ready_loop statuses n steps = Some i \<Longrightarrow>
     n \<le> i \<and> i < n + length steps \<and> s_Status (steps ! (i - n)) = WorkflowStepPending
   \<and> list_all (dependency_done statuses) (s_DependsOn (steps ! (i - n)))"
proof (induction statuses n steps rule: ready_loop.induct)
  case (2 statuses n step steps)
  then show ?case by (cases "i = n") (auto simp: nth_Cons' split: if_splits)
qed simp

lemma ready_loop_None:
  "ready_loop statuses n steps = None \<longleftrightarrow>
     (\<forall>step \<in> set steps. s_Status step = WorkflowStepPending \<longrightarrow>
        \<not> list_all (dependency_done statuses) (s_DependsOn step))"
  by (induction statuses n steps rule: ready_loop.induct) auto

lemma readyStep_Some:
  assumes "readyStep w = Some i" and "distinct (map s_ID (w_Steps w))"
  shows "i < length (w_Steps w) \<and> s_Status (w_Steps w ! i) = WorkflowStepPending
    \<and> (\<forall>d \<in> set (s_DependsOn (w_Steps w ! i)). met (w_Steps w) d)"
  using ready_loop_Some [of "stepStatuses w" 0 "w_Steps w" i] assms stepStatuses_met [OF assms(2)]
  by (auto simp: readyStep_def list_all_iff)

text \<open>
  A valid workflow in which no step is active, failed or cancelled, and not all are done, has a
  step to start: one that is first in the order of the dependencies among those not done.
\<close>

lemma readyStep_exists:
  assumes valid: "workflow_valid w"
    and idle: "\<And>step. step \<in> set (w_Steps w) \<Longrightarrow> s_Status step = WorkflowStepPending \<or> step_done step"
    and open_step: "\<exists>step \<in> set (w_Steps w). \<not> step_done step"
  shows "readyStep w \<noteq> None"
proof -
  let ?S = "w_Steps w" and ?R = "dep_rel (w_Steps w)"
  have dist: "distinct (map s_ID ?S)" and deps: "\<And>s. s \<in> set ?S \<Longrightarrow> set (s_DependsOn s) \<subseteq> s_ID ` set ?S"
    and acyc: "acyclic ?R"
    using valid by (auto simp: workflow_valid_def list_all_iff step_valid_def)
  have "?R \<subseteq> (\<Union>s \<in> set ?S. set (s_DependsOn s) \<times> {s_ID s})" by (auto simp: dep_rel_def)
  then have "finite ?R" by (rule finite_subset) auto
  then have "wf ?R" using acyc by (rule finite_acyclic_wf)
  moreover obtain k0 where "k0 \<in> s_ID ` {s \<in> set ?S. \<not> step_done s}" using open_step by blast
  ultimately obtain k where k: "k \<in> s_ID ` {s \<in> set ?S. \<not> step_done s}"
    and least: "\<And>d. (d, k) \<in> ?R \<Longrightarrow> d \<notin> s_ID ` {s \<in> set ?S. \<not> step_done s}"
    by (rule wfE_min) blast
  then obtain s where s: "s \<in> set ?S" "\<not> step_done s" "s_ID s = k" by auto
  have "met ?S d" if d: "d \<in> set (s_DependsOn s)" for d
  proof -
    have "(d, k) \<in> ?R" using d s by (auto simp: dep_rel_def)
    then have "d \<notin> s_ID ` {s \<in> set ?S. \<not> step_done s}" by (rule least)
    moreover have "d \<in> s_ID ` set ?S" using deps [OF s(1)] d by auto
    ultimately show ?thesis by (auto simp: met_def)
  qed
  then have "list_all (dependency_done (stepStatuses w)) (s_DependsOn s)"
    using stepStatuses_met [OF dist] by (simp add: list_all_iff)
  moreover have "s_Status s = WorkflowStepPending" using idle [OF s(1)] s(2) by auto
  ultimately show ?thesis using s(1) by (auto simp: readyStep_def ready_loop_None)
qed

subsection \<open>The input of a ready step\<close>

lemma parent_loop_ok:
  assumes "distinct (map s_ID (w_Steps w))" and "\<forall>d \<in> set deps. met (w_Steps w) d"
  shows "\<exists>parent. parent_loop w stepID p deps = Inr parent
    \<and> (parent = p \<or> (\<exists>step \<in> set (w_Steps w). s_RunID step = parent \<and> parent \<noteq> ''''))"
  using assms(2)
proof (induction deps arbitrary: p)
  case (Cons d deps)
  from Cons.prems obtain step where step: "step \<in> set (w_Steps w)" "s_ID step = d" "step_done step"
    by (auto simp: met_def)
  then have "findStep w d = Some step" using findStep_iff [OF assms(1)] by simp
  moreover have "\<forall>d \<in> set deps. met (w_Steps w) d" using Cons.prems by simp
  ultimately show ?case using step Cons.IH [of "if p = '''' \<and> s_RunID step \<noteq> '''' then s_RunID step else p"]
    by (auto split: if_splits)
qed simp

text \<open>What a source of a step's input provides.\<close>

definition source_value :: "Workflow \<Rightarrow> string \<Rightarrow> string" where
  "source_value w src =
     (if src = WorkflowInputSource then w_Input w
      else case findStep w src of Some step \<Rightarrow> s_Output step | None \<Rightarrow> '''')"

lemma values_loop_ok:
  assumes "distinct (map s_ID (w_Steps w))"
    and "\<forall>src \<in> set sources. src = WorkflowInputSource \<or> met (w_Steps w) src"
  shows "values_loop w stepID vals sources = Inr (vals @ map (source_value w) sources)"
  using assms(2)
proof (induction sources arbitrary: vals)
  case (Cons src sources)
  show ?case
  proof (cases "src = WorkflowInputSource")
    case False
    with Cons.prems obtain step where step: "step \<in> set (w_Steps w)" "s_ID step = src" "step_done step"
      by (auto simp: met_def)
    then have "findStep w src = Some step" using findStep_iff [OF assms(1)] by simp
    then show ?thesis using Cons False step by (simp add: source_value_def)
  qed (use Cons in \<open>simp add: source_value_def\<close>)
qed simp

lemma resolveInput_ok:
  assumes valid: "workflow_valid w" and step: "step \<in> set (w_Steps w)"
    and ready: "\<forall>d \<in> set (s_DependsOn step). met (w_Steps w) d"
  shows "\<exists>parent. resolveInput w step = Inr
      (case s_InputFrom step of
         [] \<Rightarrow> s_Input step
       | [src] \<Rightarrow> source_value w src
       | sources \<Rightarrow> json_Marshal (map (source_value w) sources), parent)
    \<and> (parent = '''' \<or> (\<exists>s \<in> set (w_Steps w). s_RunID s = parent))"
proof -
  have dist: "distinct (map s_ID (w_Steps w))" and ok: "step_valid (w_Input w) (s_ID ` set (w_Steps w)) step"
    using valid step by (auto simp: workflow_valid_def list_all_iff)
  obtain parent where parent: "parent_loop w (s_ID step) '''' (s_DependsOn step) = Inr parent"
    "parent = '''' \<or> (\<exists>s \<in> set (w_Steps w). s_RunID s = parent)"
    using parent_loop_ok [OF dist ready] by metis
  have "\<forall>src \<in> set (s_InputFrom step). src = WorkflowInputSource \<or> met (w_Steps w) src"
    using ok ready by (auto simp: step_valid_def split: if_splits)
  then have vals: "values_loop w (s_ID step) [] (s_InputFrom step) = Inr (map (source_value w) (s_InputFrom step))"
    using values_loop_ok [OF dist] by simp
  have "s_InputFrom step \<noteq> [] \<longrightarrow> length (s_InputFrom step) \<noteq> 1 \<longrightarrow> s_InputAggregation step = WorkflowInputJSONArray"
    using ok by (simp add: step_valid_def)
  then show ?thesis using parent vals by (auto simp: resolveInput_def split: list.split)
qed

subsection \<open>Conditions\<close>

definition skip_step :: "time \<Rightarrow> WorkflowStep \<Rightarrow> WorkflowStep" where
  "skip_step now step = step\<lparr>s_Status := WorkflowStepSkipped, s_CompletedAt := Some now\<rparr>"

lemma met_update:
  assumes "i < length steps" and "\<not> step_done (steps ! i)" and "s_ID step' = s_ID (steps ! i)"
  shows "met (steps[i := step']) d \<longleftrightarrow> met steps d \<or> d = s_ID step' \<and> step_done step'"
proof -
  have "met (steps[i := step']) d" if "met steps d"
  proof -
    from that obtain j where j: "j < length steps" "s_ID (steps ! j) = d" "step_done (steps ! j)"
      by (auto simp: met_def in_set_conv_nth)
    then have "steps[i := step'] ! j = steps ! j" using assms(2) by (metis nth_list_update_neq)
    then show ?thesis using j by (metis met_def length_list_update nth_mem)
  qed
  moreover have "met (steps[i := step']) d" if "d = s_ID step'" "step_done step'"
    using that assms(1) by (auto simp: met_def set_update_memI)
  moreover have "met steps d \<or> d = s_ID step' \<and> step_done step'" if "met (steps[i := step']) d"
    using that set_update_subset_insert [of steps i step'] by (auto simp: met_def)
  ultimately show ?thesis by blast
qed

text \<open>
  The loop keeps what survives the skipping of a pending step whose dependencies are met: the
  local map of statuses follows the steps.
\<close>

lemma conditions_loop_invariant:
  assumes skip: "\<And>w i. P w \<Longrightarrow> i < length (w_Steps w) \<Longrightarrow> s_Status (w_Steps w ! i) = WorkflowStepPending \<Longrightarrow>
      \<forall>d \<in> set (s_DependsOn (w_Steps w ! i)). met (w_Steps w) d \<Longrightarrow> P (set_step i (skip_step now (w_Steps w ! i)) w)"
  shows "P w \<Longrightarrow> \<forall>d. dependency_done statuses d \<longleftrightarrow> met (w_Steps w) d \<Longrightarrow> set is \<subseteq> {..<length (w_Steps w)} \<Longrightarrow>
    P (snd (conditions_loop now is statuses changed w))"
proof (induction "is" arbitrary: statuses changed w)
  case (Cons i rest)
  let ?step = "w_Steps w ! i" and ?w = "set_step i (skip_step now (w_Steps w ! i)) w"
  have i: "i < length (w_Steps w)" using Cons.prems by simp
  show ?case
  proof (cases "\<exists>c actual. s_Condition ?step = Some c \<and> s_Status ?step = WorkflowStepPending
      \<and> list_all (dependency_done statuses) (s_DependsOn ?step) \<and> condition_source w c = Some actual
      \<and> \<not> evaluateCondition actual c")
    case True
    then obtain c actual where c: "s_Condition ?step = Some c" "s_Status ?step = WorkflowStepPending"
      "list_all (dependency_done statuses) (s_DependsOn ?step)" "condition_source w c = Some actual"
      "\<not> evaluateCondition actual c" by blast
    have "\<forall>d \<in> set (s_DependsOn ?step). met (w_Steps w) d" using c(3) Cons.prems(2) by (simp add: list_all_iff)
    then have "P ?w" using skip [OF Cons.prems(1) i c(2)] by simp
    moreover have "dependency_done (put (s_ID ?step) WorkflowStepSkipped statuses) d \<longleftrightarrow> met (w_Steps ?w) d" for d
      using met_update [OF i, of "skip_step now ?step" d] c(2) Cons.prems(2)
      by (auto simp: dependency_done_def step_done_def skip_step_def)
    ultimately show ?thesis using Cons.IH [of ?w "put (s_ID ?step) WorkflowStepSkipped statuses" True] c Cons.prems(3)
      by (simp add: Let_def skip_step_def)
  next
    case False
    then have "conditions_loop now (i # rest) statuses changed w = conditions_loop now rest statuses changed w"
      by (auto simp: Let_def split: option.split)
    moreover have "P (snd (conditions_loop now rest statuses changed w))"
      using Cons.IH [of w statuses changed] Cons.prems by simp
    ultimately show ?thesis by simp
  qed
qed simp

lemma applyConditions_invariant:
  assumes "distinct (map s_ID (w_Steps w))" and "P w"
    and "\<And>w i. P w \<Longrightarrow> i < length (w_Steps w) \<Longrightarrow> s_Status (w_Steps w ! i) = WorkflowStepPending \<Longrightarrow>
      \<forall>d \<in> set (s_DependsOn (w_Steps w ! i)). met (w_Steps w) d \<Longrightarrow> P (set_step i (skip_step now (w_Steps w ! i)) w)"
  shows "P (snd (applyConditions now w))"
  unfolding applyConditions_def
proof (rule conditions_loop_invariant [where P = P, OF assms(3)])
  show "\<forall>d. dependency_done (stepStatuses w) d \<longleftrightarrow> met (w_Steps w) d" using stepStatuses_met [OF assms(1)] by simp
qed (use assms(2) in auto)

lemma conditions_loop_changed: "fst (conditions_loop now is statuses True w)"
  by (induction "is" arbitrary: statuses w) (auto simp: Let_def split: option.split)

lemma conditions_loop_same:
  "\<not> fst (conditions_loop now is statuses changed w) \<Longrightarrow> snd (conditions_loop now is statuses changed w) = w"
proof (induction "is" arbitrary: statuses changed w)
  case (Cons i rest)
  then show ?case
    by (auto simp: Let_def conditions_loop_changed split: option.splits if_splits)
qed simp

lemma applyConditions_same: "applyConditions now w = (False, w') \<Longrightarrow> w' = w"
  using conditions_loop_same [of now "[0..<length (w_Steps w)]" "stepStatuses w" False w]
  by (simp add: applyConditions_def)

end
