(* ===== verification/Workflow_Manager.thy ===== *)
theory Workflow_Manager
  imports Engine Workflow_Plan
begin

text \<open>
  \<^verbatim>\<open>internal/workflow/manager.go\<close>: the scheduler of workflows. Each call of \<^verbatim>\<open>StartWorkflow\<close>,
  \<^verbatim>\<open>CancelWorkflow\<close> and \<^verbatim>\<open>Recover\<close> and each goroutine of \<^verbatim>\<open>schedule\<close> is a task; a step of a task performs
  one access to the store, the coordinator, the engine or the set of active workflows. Tasks
  interleave with each other and with the engine, which they share. The context of an API request
  is only handed to the store, which ignores it.
\<close>

section \<open>Data\<close>

record ManagerConfig =
  mc_poll :: duration
  mc_concurrency :: int
  mc_leaseTTL :: duration
  mc_scan :: duration

definition NewManager :: "int \<Rightarrow> duration \<Rightarrow> ManagerConfig" where
  "NewManager concurrency leaseTTL =
     (let concurrency = (if concurrency < 1 then 1 else concurrency);
          leaseTTL = (if leaseTTL \<le> 0 then defaultLeaseTTL else leaseTTL);
          scan = go_div leaseTTL 2;
          scan = (if scan > 5 * Second then 5 * Second else scan);
          scan = (if scan < 25 * Millisecond then 25 * Millisecond else scan)
      in \<lparr> mc_poll = defaultPollInterval, mc_concurrency = concurrency, mc_leaseTTL = leaseTTL, mc_scan = scan \<rparr>)"

text \<open>Why \<^verbatim>\<open>failWorkflow\<close> is called, with the text of the error.\<close>

datatype fail_cause =
    NoStepReady
  | InputUnresolved input_error
  | StepRunRefused string store_error

text \<open>The errors of \<^verbatim>\<open>CreateRun\<close>.\<close>

definition create_text :: "store_error \<Rightarrow> string" where
  "create_text e =
     (case e of
        ErrNotFound \<Rightarrow> ''not found''
      | ErrRootDeclaresRoot \<Rightarrow> ''root Run cannot declare root_run_id''
      | ErrRootMismatch \<Rightarrow> ''root_run_id does not match parent lineage''
      | ErrRun RunIDRequired \<Rightarrow> ''run id is required before assigning a parent''
      | ErrRun ParentRunIDRequired \<Rightarrow> ''parent run id is required''
      | ErrRun RunOwnParent \<Rightarrow> ''run cannot be its own parent''
      | ErrRun RootParentDeclaresRoot \<Rightarrow> ''root parent cannot declare root_run_id''
      | ErrRun ParentLineageIncomplete \<Rightarrow> ''parent run lineage is incomplete''
      | ErrRun RunOwnRoot \<Rightarrow> ''run cannot be its own root''
      | _ \<Rightarrow> '''')"

definition cause_text :: "fail_cause \<Rightarrow> string" where
  "cause_text cause =
     (case cause of
        NoStepReady \<Rightarrow> ''no workflow step is ready''
      | InputUnresolved (DependencyIncomplete stepID) \<Rightarrow> ''step '' @ stepID @ '' dependency is not complete''
      | InputUnresolved (SourceIncomplete stepID sourceID) \<Rightarrow>
          ''step '' @ stepID @ '' input source '' @ sourceID @ '' is not complete''
      | InputUnresolved (AggregationRequired stepID) \<Rightarrow> ''step '' @ stepID @ '' requires json-array aggregation''
      | StepRunRefused stepID e \<Rightarrow> ''create Run for step '' @ stepID @ '': '' @ create_text e)"

datatype task_error =
    TaskStore store_error
  | TaskContext
  | TaskCannotStart WorkflowStatus
  | TaskNotCancelable WorkflowStatus
  | TaskAcquire coord_error
  | TaskLeaseLost coord_error
  | TaskFailed fail_cause

datatype task_exit = TaskNil | TaskWorkflow Workflow | TaskErr task_error

text \<open>The fields of an event that \<^verbatim>\<open>emit\<close> is given: step, Run, type and message.\<close>

type_synonym emission = "string \<times> string \<times> string \<times> string"

text \<open>
  The places in \<^verbatim>\<open>StartWorkflow\<close>, \<^verbatim>\<open>CancelWorkflow\<close>, \<^verbatim>\<open>Recover\<close>, \<^verbatim>\<open>reconcileWithOwnership\<close> and
  \<^verbatim>\<open>reconcile\<close>; some carry what is still to be emitted, cancelled or scheduled and where to go on.
\<close>

datatype wpc =
    WpStart
  | WpStartUpdate
  | WpCancel
  | WpCancelUpdate "string list"
  | WpRecover
  | WpScheduleAll "string list" task_exit
  | WpAcquire
  | WpCheck
  | WpLoad
  | WpRefresh nat bool bool
  | WpTerminal
  | WpUpdate
  | WpPlan
  | WpWait
  | WpCreate nat string string
  | WpQueue nat Run
  | WpEnqueue string
  | WpEnqueueWait string
  | WpFail fail_cause
  | WpCancelRuns "string list" wpc
  | WpEmit "emission list" wpc
  | WpStop task_exit
  | WpJoin task_exit
  | WpRelease task_exit
  | WpReturned task_exit

text \<open>
  A task: the workflow it works on, the local variables, whether \<^verbatim>\<open>ownedCtx\<close> was cancelled, and the
  goroutine that renews its lease with its error.
\<close>

record Task =
  t_id :: string
  t_pc :: wpc
  t_candidate :: Workflow
  t_previous :: "(string, WorkflowStepStatus) gomap"
  t_lease :: memoryLease
  t_canceled :: bool
  t_renewing :: bool
  t_renewErr :: "coord_error option"
  t_scheduled :: bool

text \<open>
  \<^verbatim>\<open>mg_active\<close> is the set of scheduled workflows; \<^verbatim>\<open>mg_ctxDone\<close> tells that \<^verbatim>\<open>m.ctx\<close> is set and done.
\<close>

record Manager =
  mg_engine :: Engine
  mg_active :: "string list"
  mg_tasks :: "(nat, Task) gomap"
  mg_ctxDone :: bool

definition zero_workflow :: Workflow where
  "zero_workflow = \<lparr> w_ID = '''', w_Input = '''', w_Status = WorkflowPending, w_Steps = [], w_Error = '''',
     w_Version = 0, w_CreatedAt = 0, w_StartedAt = None, w_CompletedAt = None \<rparr>"

definition new_task :: "string \<Rightarrow> wpc \<Rightarrow> bool \<Rightarrow> Task" where
  "new_task workflowID p scheduled = \<lparr> t_id = workflowID, t_pc = p, t_candidate = zero_workflow, t_previous = [],
     t_lease = \<lparr> ls_key = '''', ls_token = 0, ls_once = True \<rparr>, t_canceled = False, t_renewing = False,
     t_renewErr = None, t_scheduled = scheduled \<rparr>"

abbreviation mg_store :: "Manager \<Rightarrow> Memory" where
  "mg_store s \<equiv> en_store (mg_engine s)"

definition set_store :: "Memory \<Rightarrow> Manager \<Rightarrow> Manager" where
  "set_store m s = s\<lparr>mg_engine := (mg_engine s)\<lparr>en_store := m\<rparr>\<rparr>"

definition set_coord :: "Coordinator \<Rightarrow> Manager \<Rightarrow> Manager" where
  "set_coord c s = s\<lparr>mg_engine := (mg_engine s)\<lparr>en_coord := c\<rparr>\<rparr>"

abbreviation jump :: "wpc \<Rightarrow> Task \<Rightarrow> Task" where
  "jump p t \<equiv> t\<lparr>t_pc := p\<rparr>"

definition owned_done :: "Task \<Rightarrow> Manager \<Rightarrow> bool" where
  "owned_done t s \<longleftrightarrow> t_canceled t \<or> mg_ctxDone s"

section \<open>Events\<close>

definition workflow_emit :: "Env \<Rightarrow> string \<Rightarrow> emission \<Rightarrow> Manager \<Rightarrow> Manager" where
  "workflow_emit v workflowID e s =
     (case e of (stepID, runID, eventType, message) \<Rightarrow>
      (case AppendWorkflowEvent (v_now v)
          \<lparr> we_ID = newID ''evt'' (v_random v) (v_now v), we_WorkflowID = workflowID, we_StepID = stepID,
            we_RunID = runID, we_Type = eventType, we_Message = message, we_Timestamp = v_now v \<rparr>
          eventRetention eventHistoryLimit (mg_store s) of
         Inl _ \<Rightarrow> s
       | Inr m \<Rightarrow> set_store m s))"

definition emitStepTransitions :: "Workflow \<Rightarrow> (string, WorkflowStepStatus) gomap \<Rightarrow> emission list" where
  "emitStepTransitions w previous =
     map (\<lambda>step. (s_ID step, s_RunID step, ''workflow.step_'' @ status_text (s_Status step),
                  ''workflow step '' @ status_text (s_Status step)))
       (filter (\<lambda>step. get previous (s_ID step) \<noteq> Some (s_Status step)) (w_Steps w))"

definition workflow_event :: "string \<Rightarrow> string \<Rightarrow> emission" where
  "workflow_event eventType message = ('''', '''', eventType, message)"

section \<open>Start, cancellation and scheduling\<close>

definition start_load :: "Env \<Rightarrow> Task \<Rightarrow> Manager \<Rightarrow> Task \<times> Manager" where
  "start_load v t s =
     (case GetWorkflow (t_id t) (mg_store s) of
        Inl e \<Rightarrow> (jump (WpReturned (TaskErr (TaskStore e))) t, s)
      | Inr candidate \<Rightarrow>
          if w_Status candidate \<noteq> WorkflowPending
          then (jump (WpReturned (TaskErr (TaskCannotStart (w_Status candidate)))) t, s)
          else (jump WpStartUpdate
                 (t\<lparr>t_candidate := candidate\<lparr>w_Status := WorkflowRunning, w_StartedAt := Some (v_now v)\<rparr>\<rparr>), s))"

definition start_update :: "Task \<Rightarrow> Manager \<Rightarrow> Task \<times> Manager" where
  "start_update t s =
     (case UpdateWorkflow (t_candidate t) (w_Version (t_candidate t)) (mg_store s) of
        Inl e \<Rightarrow> (jump (WpReturned (TaskErr (TaskStore e))) t, s)
      | Inr (updated, m) \<Rightarrow>
          (jump (WpEmit [workflow_event ''workflow.started'' ''workflow execution started'']
                   (WpScheduleAll [w_ID updated] (TaskWorkflow updated))) t,
           set_store m s))"

text \<open>The loop of \<^verbatim>\<open>CancelWorkflow\<close> over the steps, and the Runs it collects.\<close>

definition cancel_candidate :: "time \<Rightarrow> Workflow \<Rightarrow> Workflow" where
  "cancel_candidate now w = w\<lparr>w_Status := WorkflowCanceled, w_CompletedAt := Some now,
     w_Steps := map (cancel_step now) (w_Steps w)\<rparr>"

definition active_run_ids :: "Workflow \<Rightarrow> string list" where
  "active_run_ids w = map s_RunID (filter step_active (w_Steps w))"

definition cancel_load :: "Env \<Rightarrow> Task \<Rightarrow> Manager \<Rightarrow> Task \<times> Manager" where
  "cancel_load v t s =
     (case GetWorkflow (t_id t) (mg_store s) of
        Inl e \<Rightarrow> (jump (WpReturned (TaskErr (TaskStore e))) t, s)
      | Inr candidate \<Rightarrow>
          if w_Status candidate \<noteq> WorkflowPending \<and> w_Status candidate \<noteq> WorkflowRunning
          then (jump (WpReturned (TaskErr (TaskNotCancelable (w_Status candidate)))) t, s)
          else (jump (WpCancelUpdate (active_run_ids candidate))
                 (t\<lparr>t_candidate := cancel_candidate (v_now v) candidate\<rparr>), s))"

definition cancel_update :: "string list \<Rightarrow> Task \<Rightarrow> Manager \<Rightarrow> Task \<times> Manager" where
  "cancel_update activeRunIDs t s =
     (case UpdateWorkflow (t_candidate t) (w_Version (t_candidate t)) (mg_store s) of
        Inl e \<Rightarrow> (jump (WpReturned (TaskErr (TaskStore e))) t, s)
      | Inr (updated, m) \<Rightarrow>
          (jump (WpCancelRuns activeRunIDs
                   (WpEmit [workflow_event ''workflow.canceled'' ''workflow canceled'']
                      (WpReturned (TaskWorkflow updated)))) t,
           set_store m s))"

text \<open>A failed cancellation is logged and ignored.\<close>

definition cancel_run :: "Env \<Rightarrow> string \<Rightarrow> Manager \<Rightarrow> Manager" where
  "cancel_run v runID s =
     (case Engine_Cancel v runID (mg_engine s) of
        Inl _ \<Rightarrow> s
      | Inr (_, e) \<Rightarrow> s\<lparr>mg_engine := e\<rparr>)"

text \<open>\<open>j\<close> names the goroutine that \<^verbatim>\<open>schedule\<close> starts.\<close>

definition Manager_schedule :: "nat \<Rightarrow> string \<Rightarrow> Manager \<Rightarrow> Manager" where
  "Manager_schedule j workflowID s =
     (if workflowID \<in> set (mg_active s) then s
      else s\<lparr>mg_active := workflowID # mg_active s,
             mg_tasks := put j (new_task workflowID WpAcquire True) (mg_tasks s)\<rparr>)"

definition Manager_Recover :: "Task \<Rightarrow> Manager \<Rightarrow> Task \<times> Manager" where
  "Manager_Recover t s =
     (jump (WpScheduleAll (map w_ID (ListRunningWorkflows (mg_store s))) TaskNil) t, s)"

section \<open>Ownership\<close>

definition workflow_key :: "string \<Rightarrow> string" where
  "workflow_key workflowID = ''workflow:'' @ workflowID"

definition own_acquire :: "ManagerConfig \<Rightarrow> Env \<Rightarrow> Task \<Rightarrow> Manager \<Rightarrow> Task \<times> Manager" where
  "own_acquire cfg v t s =
     (case Acquire (mg_ctxDone s) (workflow_key (t_id t)) (mc_leaseTTL cfg) (v_now v) (en_coord (mg_engine s)) of
        Inl e \<Rightarrow> (jump (WpReturned (TaskErr (TaskAcquire e))) t, s)
      | Inr (None, c) \<Rightarrow> (jump (WpReturned TaskNil) t, set_coord c s)
      | Inr (Some lease, c) \<Rightarrow>
          (jump WpCheck (t\<lparr>t_lease := lease, t_canceled := False, t_renewing := True, t_renewErr := None\<rparr>),
           set_coord c s))"

text \<open>
  A turn of the goroutine that renews the lease: it ends when \<^verbatim>\<open>ownedCtx\<close> is done, or when a renewal
  fails, which cancels \<^verbatim>\<open>ownedCtx\<close>. \<^verbatim>\<open>late\<close> tells that the renewal's own deadline passed.
\<close>

definition renew_tick :: "ManagerConfig \<Rightarrow> bool \<Rightarrow> Env \<Rightarrow> Task \<Rightarrow> Manager \<Rightarrow> Task \<times> Manager" where
  "renew_tick cfg late v t s =
     (if owned_done t s then (t\<lparr>t_renewing := False\<rparr>, s)
      else case Renew late (t_lease t) (mc_leaseTTL cfg) (v_now v) (en_coord (mg_engine s)) of
        (None, c) \<Rightarrow> (t, set_coord c s)
      | (Some e, c) \<Rightarrow> (t\<lparr>t_renewing := False, t_canceled := True, t_renewErr := Some e\<rparr>, set_coord c s))"

definition own_release :: "task_exit \<Rightarrow> Task \<Rightarrow> Manager \<Rightarrow> Task \<times> Manager" where
  "own_release x t s =
     (case Release (t_lease t) (en_coord (mg_engine s)) of
        (lease, c) \<Rightarrow>
          (jump (WpReturned (case t_renewErr t of Some e \<Rightarrow> TaskErr (TaskLeaseLost e) | None \<Rightarrow> x))
             (t\<lparr>t_lease := lease\<rparr>), set_coord c s))"

section \<open>Reconciliation\<close>

definition reconcile_load :: "Task \<Rightarrow> Manager \<Rightarrow> Task \<times> Manager" where
  "reconcile_load t s =
     (case GetWorkflow (t_id t) (mg_store s) of
        Inl e \<Rightarrow> (jump (WpStop (TaskErr (TaskStore e))) t, s)
      | Inr candidate \<Rightarrow>
          if Workflow_IsTerminal candidate then (jump (WpStop TaskNil) t, s)
          else (jump (WpRefresh 0 False True)
                 (t\<lparr>t_candidate := candidate, t_previous := stepStatuses candidate\<rparr>), s))"

text \<open>One turn of the loop of \<^verbatim>\<open>refreshSteps\<close>, and its end.\<close>

definition refreshSteps :: "nat \<Rightarrow> bool \<Rightarrow> bool \<Rightarrow> Env \<Rightarrow> Task \<Rightarrow> Manager \<Rightarrow> Task \<times> Manager" where
  "refreshSteps index changed allSucceeded v t s =
     (let w = t_candidate t in
      if length (w_Steps w) \<le> index then
        (if allSucceeded then (jump WpTerminal (t\<lparr>t_candidate := succeed_workflow (v_now v) w\<rparr>), s)
         else (jump (if changed then WpUpdate else WpPlan) t, s))
      else let step = w_Steps w ! index in
        if s_Status step = WorkflowStepSkipped then (jump (WpRefresh (Suc index) changed allSucceeded) t, s)
        else if s_RunID step = '''' then (jump (WpRefresh (Suc index) changed False) t, s)
        else case GetRun (s_RunID step) (mg_store s) of
          Inl e \<Rightarrow> (jump (WpStop (TaskErr (TaskStore e))) t, s)
        | Inr run \<Rightarrow>
            let step' = refresh_status run step;
                w' = set_step index step' w
            in if s_Status step' = WorkflowStepFailed \<or> s_Status step' = WorkflowStepCanceled
               then (jump WpTerminal (t\<lparr>t_candidate := end_workflow (v_now v) index w'\<rparr>), s)
               else (jump (WpRefresh (Suc index) (changed \<or> s_Status step \<noteq> s_Status step')
                              (allSucceeded \<and> step_done step'))
                       (t\<lparr>t_candidate := w'\<rparr>), s))"

definition canceled_run_ids :: "Workflow \<Rightarrow> string list" where
  "canceled_run_ids w =
     map s_RunID (filter (\<lambda>step. s_Status step = WorkflowStepCanceled \<and> s_RunID step \<noteq> '''') (w_Steps w))"

text \<open>A conflict sends the loop round again.\<close>

definition reconcile_terminal :: "Task \<Rightarrow> Manager \<Rightarrow> Task \<times> Manager" where
  "reconcile_terminal t s =
     (case UpdateWorkflow (t_candidate t) (w_Version (t_candidate t)) (mg_store s) of
        Inl ErrConflict \<Rightarrow> (jump WpCheck t, s)
      | Inl e \<Rightarrow> (jump (WpStop (TaskErr (TaskStore e))) t, s)
      | Inr (updated, m) \<Rightarrow>
          (jump (WpCancelRuns (canceled_run_ids updated)
             (WpEmit (emitStepTransitions updated (t_previous t)
                @ [workflow_event (workflowTerminalEvent (w_Status (t_candidate t))) (w_Error (t_candidate t))])
             (WpStop TaskNil))) t, set_store m s))"

definition reconcile_update :: "Task \<Rightarrow> Manager \<Rightarrow> Task \<times> Manager" where
  "reconcile_update t s =
     (case UpdateWorkflow (t_candidate t) (w_Version (t_candidate t)) (mg_store s) of
        Inl ErrConflict \<Rightarrow> (jump WpCheck t, s)
      | Inl e \<Rightarrow> (jump (WpStop (TaskErr (TaskStore e))) t, s)
      | Inr (updated, m) \<Rightarrow>
          (jump (WpEmit (emitStepTransitions updated (t_previous t)) WpCheck) t, set_store m s))"

text \<open>The conditions, the limit on active steps, and the choice of the next step and its input.\<close>

definition reconcile_plan :: "ManagerConfig \<Rightarrow> Env \<Rightarrow> Task \<Rightarrow> Task" where
  "reconcile_plan cfg v t =
     (let w = t_candidate t in
      case applyConditions (v_now v) w of
        (True, w') \<Rightarrow> jump WpUpdate (t\<lparr>t_candidate := w'\<rparr>)
      | (False, w') \<Rightarrow>
          if activeStepCount w' \<ge> mc_concurrency cfg then jump WpWait (t\<lparr>t_candidate := w'\<rparr>)
          else case readyStep w' of
            None \<Rightarrow> jump (if 0 < activeStepCount w' then WpWait else WpFail NoStepReady) (t\<lparr>t_candidate := w'\<rparr>)
          | Some index \<Rightarrow>
              (case resolveInput w' (w_Steps w' ! index) of
                 Inl e \<Rightarrow> jump (WpFail (InputUnresolved e)) (t\<lparr>t_candidate := w'\<rparr>)
               | Inr (input, parentRunID) \<Rightarrow> jump (WpCreate index input parentRunID) (t\<lparr>t_candidate := w'\<rparr>)))"

text \<open>The wait for the next poll: the timer fires, or \<^verbatim>\<open>ownedCtx\<close> is done first.\<close>

definition wait_poll :: "wpc \<Rightarrow> Env \<Rightarrow> Task \<Rightarrow> Manager \<Rightarrow> Task \<times> Manager" where
  "wait_poll p v t s = (jump (if owned_done t s \<and> \<not> v_timer v then WpStop (TaskErr TaskContext) else p) t, s)"

definition step_key :: "string \<Rightarrow> string \<Rightarrow> string" where
  "step_key workflowID stepID = ''workflow:'' @ workflowID @ '':step:'' @ stepID"

definition step_run :: "RetryPolicy \<Rightarrow> Env \<Rightarrow> Workflow \<Rightarrow> WorkflowStep \<Rightarrow> string \<Rightarrow> string \<Rightarrow> Run" where
  "step_run retry v w step input parentRunID = zero_run\<lparr>
     r_ID := newID ''run'' (v_random v) (v_now v), r_AgentID := s_AgentID step, r_ParentRunID := parentRunID,
     r_Input := input, r_Status := RunQueued, r_MaxAttempts := rp_MaxAttempts retry,
     r_RequestID := workflow_key (w_ID w), r_CreatedAt := v_now v\<rparr>"

definition reconcile_create ::
  "RetryPolicy \<Rightarrow> nat \<Rightarrow> string \<Rightarrow> string \<Rightarrow> Env \<Rightarrow> Task \<Rightarrow> Manager \<Rightarrow> Task \<times> Manager" where
  "reconcile_create retry index input parentRunID v t s =
     (let w = t_candidate t; step = w_Steps w ! index in
      case CreateRun (step_run retry v w step input parentRunID) (step_key (w_ID w) (s_ID step)) (mg_store s) of
        Inl e \<Rightarrow> (jump (WpFail (StepRunRefused (s_ID step) e)) t, s)
      | Inr ((created, _), m) \<Rightarrow> (jump (WpQueue index created) t, set_store m s))"

definition queue_step :: "nat \<Rightarrow> Run \<Rightarrow> Workflow \<Rightarrow> Workflow" where
  "queue_step index created w =
     set_step index ((w_Steps w ! index)\<lparr>s_RunID := r_ID created, s_Status := WorkflowStepQueued\<rparr>) w"

definition reconcile_queue :: "nat \<Rightarrow> Run \<Rightarrow> Task \<Rightarrow> Manager \<Rightarrow> Task \<times> Manager" where
  "reconcile_queue index created t s =
     (let w = queue_step index created (t_candidate t) in
      case UpdateWorkflow w (w_Version w) (mg_store s) of
        Inl ErrConflict \<Rightarrow> (jump WpCheck t, s)
      | Inl e \<Rightarrow> (jump (WpStop (TaskErr (TaskStore e))) t, s)
      | Inr (updated, m) \<Rightarrow>
          let step = w_Steps updated ! index in
          (jump (WpEmit [(s_ID step, s_RunID step, ''workflow.step_queued'', ''workflow step queued'')]
             (WpEnqueue (r_ID created))) t, set_store m s))"

text \<open>\<^verbatim>\<open>pick\<close> is the choice of the queue's \<^verbatim>\<open>select\<close> when the context is done and there is room.\<close>

definition reconcile_enqueue :: "bool \<Rightarrow> string \<Rightarrow> Task \<Rightarrow> Manager \<Rightarrow> Task \<times> Manager" where
  "reconcile_enqueue pick runID t s =
     (case Enqueue (owned_done t s) pick runID (en_queue (mg_engine s)) of
        Inl _ \<Rightarrow> (jump (WpEnqueueWait runID) t, s)
      | Inr q \<Rightarrow> (jump WpCheck t, s\<lparr>mg_engine := (mg_engine s)\<lparr>en_queue := q\<rparr>\<rparr>))"

definition fail_candidate :: "time \<Rightarrow> fail_cause \<Rightarrow> Workflow \<Rightarrow> Workflow" where
  "fail_candidate now cause w =
     cancelNonterminalSteps now (w\<lparr>w_Status := WorkflowFailed, w_Error := cause_text cause, w_CompletedAt := Some now\<rparr>)"

definition failWorkflow :: "fail_cause \<Rightarrow> Env \<Rightarrow> Task \<Rightarrow> Manager \<Rightarrow> Task \<times> Manager" where
  "failWorkflow cause v t s =
     (let w = fail_candidate (v_now v) cause (t_candidate t);
          failed = WpEmit [workflow_event ''workflow.failed'' (w_Error w)] (WpStop (TaskErr (TaskFailed cause)))
      in case UpdateWorkflow w (w_Version w) (mg_store s) of
           Inl ErrConflict \<Rightarrow> (jump failed t, s)
         | Inl e \<Rightarrow> (jump (WpStop (TaskErr (TaskStore e))) t, s)
         | Inr (_, m) \<Rightarrow> (jump failed t, set_store m s))"

section \<open>A step of a task\<close>

definition task_step ::
  "ManagerConfig \<Rightarrow> RetryPolicy \<Rightarrow> Env \<Rightarrow> nat \<Rightarrow> Task \<Rightarrow> Manager \<Rightarrow> Task \<times> Manager" where
  "task_step cfg retry v j t s =
     (case t_pc t of
        WpStart \<Rightarrow> start_load v t s
      | WpStartUpdate \<Rightarrow> start_update t s
      | WpCancel \<Rightarrow> cancel_load v t s
      | WpCancelUpdate ids \<Rightarrow> cancel_update ids t s
      | WpRecover \<Rightarrow> Manager_Recover t s
      | WpScheduleAll [] x \<Rightarrow> (jump (WpReturned x) t, s)
      | WpScheduleAll (k # ks) x \<Rightarrow> (jump (WpScheduleAll ks x) t, Manager_schedule j k s)
      | WpAcquire \<Rightarrow> own_acquire cfg v t s
      | WpCheck \<Rightarrow> (jump (if owned_done t s then WpStop (TaskErr TaskContext) else WpLoad) t, s)
      | WpLoad \<Rightarrow> reconcile_load t s
      | WpRefresh index changed allSucceeded \<Rightarrow> refreshSteps index changed allSucceeded v t s
      | WpTerminal \<Rightarrow> reconcile_terminal t s
      | WpUpdate \<Rightarrow> reconcile_update t s
      | WpPlan \<Rightarrow> (reconcile_plan cfg v t, s)
      | WpWait \<Rightarrow> wait_poll WpCheck v t s
      | WpCreate index input parentRunID \<Rightarrow> reconcile_create retry index input parentRunID v t s
      | WpQueue index created \<Rightarrow> reconcile_queue index created t s
      | WpEnqueue runID \<Rightarrow> reconcile_enqueue (v_deadline v) runID t s
      | WpEnqueueWait runID \<Rightarrow> wait_poll (WpEnqueue runID) v t s
      | WpFail cause \<Rightarrow> failWorkflow cause v t s
      | WpCancelRuns [] p \<Rightarrow> (jump p t, s)
      | WpCancelRuns (k # ks) p \<Rightarrow> (jump (WpCancelRuns ks p) t, cancel_run v k s)
      | WpEmit [] p \<Rightarrow> (jump p t, s)
      | WpEmit (e # es) p \<Rightarrow> (jump (WpEmit es p) t, workflow_emit v (t_id t) e s)
      | WpStop x \<Rightarrow> (jump (WpJoin x) (t\<lparr>t_canceled := True\<rparr>), s)
      | WpJoin x \<Rightarrow> (if t_renewing t then t else jump (WpRelease x) t, s)
      | WpRelease x \<Rightarrow> own_release x t s
      | WpReturned x \<Rightarrow> (t, s))"

end
