(* ===== verification/Config.thy ===== *)
theory Config
  imports Strconv Net_Policy Agent_Health Workflow_Manager
begin

text \<open>
  The configuration: \<^verbatim>\<open>internal/config/config.go\<close>, read from the environment, and what
  \<^verbatim>\<open>cmd/agentmesh/main.go\<close> hands on to the components. \<^verbatim>\<open>Load\<close> is split into the consecutive parts
  of the source's one function. The environment, \<^verbatim>\<open>time.ParseDuration\<close> and \<^verbatim>\<open>netip.ParsePrefix\<close> are the
  record \<^verbatim>\<open>envlib\<close>; an unset variable is the empty string, as with \<^verbatim>\<open>os.Getenv\<close>.
\<close>

section \<open>Data\<close>

record Config =
  cf_Addr :: string
  cf_Mode :: string
  cf_Role :: string
  cf_Workers :: int
  cf_QueueSize :: int
  cf_ExecutionDelay :: duration
  cf_AttemptTimeout :: duration
  cf_ShutdownTimeout :: duration
  cf_DatabaseURL :: string
  cf_NATSURL :: string
  cf_RedisURL :: string
  cf_MaxAttempts :: int
  cf_RetryInitial :: duration
  cf_RetryMax :: duration
  cf_NATSAckWait :: duration
  cf_CacheTTL :: duration
  cf_LeaseTTL :: duration
  cf_EventRetention :: duration
  cf_EventHistoryLimit :: int
  cf_InstanceID :: string
  cf_AgentHealthPath :: string
  cf_AgentHealthInterval :: duration
  cf_AgentHealthTimeout :: duration
  cf_AgentHealthWorkers :: int
  cf_WorkflowConcurrency :: int
  cf_WorkflowLeaseTTL :: duration
  cf_AgentCallMaxDepth :: int
  cf_AgentCallMaxChildren :: int
  cf_HTTPRequireHTTPS :: bool
  cf_HTTPAllowPrivate :: bool
  cf_HTTPAllowLoopback :: bool
  cf_HTTPAllowLinkLocal :: bool
  cf_HTTPAllowedHosts :: "string list"
  cf_HTTPBlockedCIDRs :: "Prefix list"
  cf_HTTPMaxRequestBytes :: int
  cf_HTTPMaxResponseBytes :: int
  cf_AgentAuthConfig :: string
  cf_APIAuthConfig :: string
  cf_AuditRetention :: duration
  cf_AuditMaxEvents :: int
  cf_MetricsAddr :: string
  cf_MCPServersConfig :: string
  cf_MCPDefaultTimeout :: duration
  cf_ApprovalTTL :: duration
  cf_ApprovalRetention :: duration

record envlib =
  env_Getenv :: "string \<Rightarrow> string"
  env_ParseDuration :: "string \<Rightarrow> duration option"
  env_ParsePrefix :: "string \<Rightarrow> Prefix option"

datatype config_error =
    NotInteger string | NotBool string | NotDuration string | NotPrefix string string
  | OutOfRange string
  | ModeUnknown | RoleUnknown | RoleNeedsDistributed
  | BackoffInvalid | InstanceIDTooLong | HealthPathInvalid | URLsRequired

text \<open>The zero value the parts of \<^verbatim>\<open>Load\<close> fill in.\<close>

definition zero_config :: Config where
  "zero_config = \<lparr> cf_Addr = '''', cf_Mode = '''', cf_Role = '''', cf_Workers = 0, cf_QueueSize = 0,
     cf_ExecutionDelay = 0, cf_AttemptTimeout = 0, cf_ShutdownTimeout = 0, cf_DatabaseURL = '''',
     cf_NATSURL = '''', cf_RedisURL = '''', cf_MaxAttempts = 0, cf_RetryInitial = 0, cf_RetryMax = 0,
     cf_NATSAckWait = 0, cf_CacheTTL = 0, cf_LeaseTTL = 0, cf_EventRetention = 0, cf_EventHistoryLimit = 0,
     cf_InstanceID = '''', cf_AgentHealthPath = '''', cf_AgentHealthInterval = 0, cf_AgentHealthTimeout = 0,
     cf_AgentHealthWorkers = 0, cf_WorkflowConcurrency = 0, cf_WorkflowLeaseTTL = 0, cf_AgentCallMaxDepth = 0,
     cf_AgentCallMaxChildren = 0, cf_HTTPRequireHTTPS = False, cf_HTTPAllowPrivate = False,
     cf_HTTPAllowLoopback = False, cf_HTTPAllowLinkLocal = False, cf_HTTPAllowedHosts = [],
     cf_HTTPBlockedCIDRs = [], cf_HTTPMaxRequestBytes = 0, cf_HTTPMaxResponseBytes = 0,
     cf_AgentAuthConfig = '''', cf_APIAuthConfig = '''', cf_AuditRetention = 0, cf_AuditMaxEvents = 0,
     cf_MetricsAddr = '''', cf_MCPServersConfig = '''', cf_MCPDefaultTimeout = 0, cf_ApprovalTTL = 0,
     cf_ApprovalRetention = 0 \<rparr>"

section \<open>Single variables\<close>

definition stringEnv :: "envlib \<Rightarrow> string \<Rightarrow> string \<Rightarrow> string" where
  "stringEnv E key fallback = (let value = env_Getenv E key in if value \<noteq> '''' then value else fallback)"

definition intEnv :: "envlib \<Rightarrow> string \<Rightarrow> int \<Rightarrow> config_error + int" where
  "intEnv E key fallback =
     (let value = env_Getenv E key in
      if value = '''' then Inr fallback
      else case Atoi value of None \<Rightarrow> Inl (NotInteger key) | Some parsed \<Rightarrow> Inr parsed)"

definition int64Env :: "envlib \<Rightarrow> string \<Rightarrow> int \<Rightarrow> config_error + int" where
  "int64Env E key fallback =
     (let value = env_Getenv E key in
      if value = '''' then Inr fallback
      else case ParseInt value of None \<Rightarrow> Inl (NotInteger key) | Some parsed \<Rightarrow> Inr parsed)"

definition boolEnv :: "envlib \<Rightarrow> string \<Rightarrow> bool \<Rightarrow> config_error + bool" where
  "boolEnv E key fallback =
     (let value = env_Getenv E key in
      if value = '''' then Inr fallback
      else case ParseBool value of None \<Rightarrow> Inl (NotBool key) | Some parsed \<Rightarrow> Inr parsed)"

definition stringListEnv :: "envlib \<Rightarrow> string \<Rightarrow> string list" where
  "stringListEnv E key = filter (\<lambda>value. value \<noteq> '''') (map TrimSpace (split_on (CHR '','') (env_Getenv E key)))"

fun prefix_list :: "envlib \<Rightarrow> string \<Rightarrow> string list \<Rightarrow> config_error + Prefix list" where
  "prefix_list E key [] = Inr []"
| "prefix_list E key (value # rest) =
     (case env_ParsePrefix E value of
        None \<Rightarrow> Inl (NotPrefix key value)
      | Some p \<Rightarrow> (case prefix_list E key rest of Inl e \<Rightarrow> Inl e | Inr ps \<Rightarrow> Inr (Prefix_Masked p # ps)))"

definition prefixListEnv :: "envlib \<Rightarrow> string \<Rightarrow> config_error + Prefix list" where
  "prefixListEnv E key = prefix_list E key (stringListEnv E key)"

definition durationEnv :: "envlib \<Rightarrow> string \<Rightarrow> duration \<Rightarrow> config_error + duration" where
  "durationEnv E key fallback =
     (let value = env_Getenv E key in
      if value = '''' then Inr fallback
      else case env_ParseDuration E value of None \<Rightarrow> Inl (NotDuration key) | Some parsed \<Rightarrow> Inr parsed)"

text \<open>
  The two checks \<^verbatim>\<open>Load\<close> repeats: a count of at least one and a positive duration. \<^verbatim>\<open>either\<close> is its
  other form, with one error for an unreadable value and for one out of range.
\<close>

definition at_least_one :: "envlib \<Rightarrow> string \<Rightarrow> int \<Rightarrow> config_error + int" where
  "at_least_one E key fallback = andthen (intEnv E key fallback) (\<lambda>n. ensure (\<not> n < 1) (OutOfRange key) (Inr n))"

definition positive :: "envlib \<Rightarrow> string \<Rightarrow> duration \<Rightarrow> config_error + duration" where
  "positive E key fallback = andthen (durationEnv E key fallback) (\<lambda>d. ensure (\<not> d \<le> 0) (OutOfRange key) (Inr d))"

definition either :: "string \<Rightarrow> config_error + 'a \<Rightarrow> config_error + 'a" where
  "either key r = (case r of Inl _ \<Rightarrow> Inl (OutOfRange key) | Inr x \<Rightarrow> Inr x)"

section \<open>Load\<close>

definition load_mode :: "envlib \<Rightarrow> Config \<Rightarrow> config_error + Config" where
  "load_mode E c =
     (let mode = stringEnv E ''AGENTMESH_MODE'' ''memory''; role = stringEnv E ''AGENTMESH_ROLE'' ''all'' in
      ensure (mode = ''memory'' \<or> mode = ''distributed'') ModeUnknown (
      ensure (role = ''all'' \<or> role = ''api'' \<or> role = ''worker'') RoleUnknown (
      ensure (role = ''all'' \<or> mode = ''distributed'') RoleNeedsDistributed (
      Inr (c\<lparr>cf_Mode := mode, cf_Role := role\<rparr>)))))"

definition load_engine :: "envlib \<Rightarrow> Config \<Rightarrow> config_error + Config" where
  "load_engine E c =
     andthen (at_least_one E ''AGENTMESH_WORKERS'' 4) (\<lambda>workers.
     andthen (at_least_one E ''AGENTMESH_QUEUE_SIZE'' 128) (\<lambda>queueSize.
     andthen (durationEnv E ''AGENTMESH_EXECUTION_DELAY'' (750 * Millisecond)) (\<lambda>executionDelay.
     andthen (positive E ''AGENTMESH_ATTEMPT_TIMEOUT'' (30 * Second)) (\<lambda>attemptTimeout.
     andthen (durationEnv E ''AGENTMESH_SHUTDOWN_TIMEOUT'' (10 * Second)) (\<lambda>shutdownTimeout.
     andthen (at_least_one E ''AGENTMESH_MAX_ATTEMPTS'' 3) (\<lambda>maxAttempts.
     andthen (durationEnv E ''AGENTMESH_RETRY_INITIAL_BACKOFF'' (250 * Millisecond)) (\<lambda>retryInitial.
     andthen (durationEnv E ''AGENTMESH_RETRY_MAX_BACKOFF'' (5 * Second)) (\<lambda>retryMax.
     ensure (\<not> (retryInitial \<le> 0 \<or> retryMax < retryInitial)) BackoffInvalid (
     Inr (c\<lparr>cf_Workers := workers, cf_QueueSize := queueSize, cf_ExecutionDelay := executionDelay,
       cf_AttemptTimeout := attemptTimeout, cf_ShutdownTimeout := shutdownTimeout,
       cf_MaxAttempts := maxAttempts, cf_RetryInitial := retryInitial, cf_RetryMax := retryMax\<rparr>))))))))))"

definition load_leases :: "envlib \<Rightarrow> Config \<Rightarrow> config_error + Config" where
  "load_leases E c =
     andthen (positive E ''AGENTMESH_NATS_ACK_WAIT'' (2 * Minute)) (\<lambda>natsAckWait.
     andthen (positive E ''AGENTMESH_CACHE_TTL'' (30 * Second)) (\<lambda>cacheTTL.
     andthen (positive E ''AGENTMESH_LEASE_TTL'' (5 * Minute)) (\<lambda>leaseTTL.
     andthen (positive E ''AGENTMESH_EVENT_RETENTION'' (7 * 24 * Hour)) (\<lambda>eventRetention.
     andthen (at_least_one E ''AGENTMESH_EVENT_HISTORY_LIMIT'' 1000) (\<lambda>eventHistoryLimit.
     (let instanceID = stringEnv E ''AGENTMESH_INSTANCE_ID'' '''' in
     ensure (length instanceID \<le> 128) InstanceIDTooLong (
     Inr (c\<lparr>cf_NATSAckWait := natsAckWait, cf_CacheTTL := cacheTTL, cf_LeaseTTL := leaseTTL,
       cf_EventRetention := eventRetention, cf_EventHistoryLimit := eventHistoryLimit,
       cf_InstanceID := instanceID\<rparr>))))))))"

definition load_health :: "envlib \<Rightarrow> Config \<Rightarrow> config_error + Config" where
  "load_health E c =
     (let path = stringEnv E ''AGENTMESH_AGENT_HEALTH_PATH'' ''/healthz'' in
     ensure (\<not> (\<not> HasPrefix path ''/'' \<or> HasPrefix path ''//'' \<or> ContainsAny path ''?#'')) HealthPathInvalid (
     andthen (positive E ''AGENTMESH_AGENT_HEALTH_INTERVAL'' (30 * Second)) (\<lambda>interval.
     andthen (positive E ''AGENTMESH_AGENT_HEALTH_TIMEOUT'' (2 * Second)) (\<lambda>timeout.
     andthen (at_least_one E ''AGENTMESH_AGENT_HEALTH_WORKERS'' 2) (\<lambda>workers.
     Inr (c\<lparr>cf_AgentHealthPath := path, cf_AgentHealthInterval := interval,
       cf_AgentHealthTimeout := timeout, cf_AgentHealthWorkers := workers\<rparr>))))))"

definition load_workflow :: "envlib \<Rightarrow> Config \<Rightarrow> config_error + Config" where
  "load_workflow E c =
     andthen (at_least_one E ''AGENTMESH_WORKFLOW_CONCURRENCY'' 4) (\<lambda>concurrency.
     andthen (positive E ''AGENTMESH_WORKFLOW_LEASE_TTL'' (30 * Second)) (\<lambda>leaseTTL.
     andthen (at_least_one E ''AGENTMESH_AGENT_CALL_MAX_DEPTH'' 8) (\<lambda>depth.
     andthen (at_least_one E ''AGENTMESH_AGENT_CALL_MAX_CHILDREN'' 16) (\<lambda>children.
     Inr (c\<lparr>cf_WorkflowConcurrency := concurrency, cf_WorkflowLeaseTTL := leaseTTL,
       cf_AgentCallMaxDepth := depth, cf_AgentCallMaxChildren := children\<rparr>)))))"

definition load_http :: "envlib \<Rightarrow> Config \<Rightarrow> config_error + Config" where
  "load_http E c =
     andthen (boolEnv E ''AGENTMESH_HTTP_REQUIRE_HTTPS'' False) (\<lambda>requireHTTPS.
     andthen (boolEnv E ''AGENTMESH_HTTP_ALLOW_PRIVATE_NETWORKS'' True) (\<lambda>private.
     andthen (boolEnv E ''AGENTMESH_HTTP_ALLOW_LOOPBACK'' True) (\<lambda>loopback.
     andthen (boolEnv E ''AGENTMESH_HTTP_ALLOW_LINK_LOCAL'' False) (\<lambda>linkLocal.
     andthen (either ''AGENTMESH_HTTP_MAX_REQUEST_BYTES'' (int64Env E ''AGENTMESH_HTTP_MAX_REQUEST_BYTES'' (2 ^ 20))) (\<lambda>maxRequest.
     ensure (\<not> maxRequest < 1) (OutOfRange ''AGENTMESH_HTTP_MAX_REQUEST_BYTES'') (
     andthen (either ''AGENTMESH_HTTP_MAX_RESPONSE_BYTES'' (int64Env E ''AGENTMESH_HTTP_MAX_RESPONSE_BYTES'' (2 ^ 20))) (\<lambda>maxResponse.
     ensure (\<not> maxResponse < 1) (OutOfRange ''AGENTMESH_HTTP_MAX_RESPONSE_BYTES'') (
     andthen (prefixListEnv E ''AGENTMESH_HTTP_BLOCKED_CIDRS'') (\<lambda>blocked.
     Inr (c\<lparr>cf_HTTPRequireHTTPS := requireHTTPS, cf_HTTPAllowPrivate := private,
       cf_HTTPAllowLoopback := loopback, cf_HTTPAllowLinkLocal := linkLocal,
       cf_HTTPMaxRequestBytes := maxRequest, cf_HTTPMaxResponseBytes := maxResponse,
       cf_HTTPBlockedCIDRs := blocked,
       cf_HTTPAllowedHosts := stringListEnv E ''AGENTMESH_HTTP_ALLOWED_HOSTS''\<rparr>))))))))))"

definition load_security :: "envlib \<Rightarrow> Config \<Rightarrow> config_error + Config" where
  "load_security E c =
     andthen (either ''AGENTMESH_AUDIT_RETENTION'' (durationEnv E ''AGENTMESH_AUDIT_RETENTION'' (90 * 24 * Hour))) (\<lambda>auditRetention.
     ensure (\<not> auditRetention \<le> 0) (OutOfRange ''AGENTMESH_AUDIT_RETENTION'') (
     andthen (either ''AGENTMESH_AUDIT_MAX_EVENTS'' (intEnv E ''AGENTMESH_AUDIT_MAX_EVENTS'' 100000)) (\<lambda>auditMaxEvents.
     ensure (\<not> auditMaxEvents < 1) (OutOfRange ''AGENTMESH_AUDIT_MAX_EVENTS'') (
     andthen (either ''AGENTMESH_MCP_DEFAULT_TIMEOUT'' (durationEnv E ''AGENTMESH_MCP_DEFAULT_TIMEOUT'' (10 * Second))) (\<lambda>mcpTimeout.
     ensure (\<not> mcpTimeout \<le> 0) (OutOfRange ''AGENTMESH_MCP_DEFAULT_TIMEOUT'') (
     andthen (either ''AGENTMESH_APPROVAL_TTL'' (durationEnv E ''AGENTMESH_APPROVAL_TTL'' (15 * Minute))) (\<lambda>approvalTTL.
     ensure (\<not> approvalTTL \<le> 0) (OutOfRange ''AGENTMESH_APPROVAL_TTL'') (
     andthen (either ''AGENTMESH_APPROVAL_RETENTION'' (durationEnv E ''AGENTMESH_APPROVAL_RETENTION'' (30 * 24 * Hour))) (\<lambda>approvalRetention.
     ensure (\<not> approvalRetention \<le> 0) (OutOfRange ''AGENTMESH_APPROVAL_RETENTION'') (
     Inr (c\<lparr>cf_AuditRetention := auditRetention, cf_AuditMaxEvents := auditMaxEvents,
       cf_MCPDefaultTimeout := mcpTimeout, cf_ApprovalTTL := approvalTTL,
       cf_ApprovalRetention := approvalRetention\<rparr>)))))))))))"

definition load_urls :: "envlib \<Rightarrow> Config \<Rightarrow> config_error + Config" where
  "load_urls E c =
     (let databaseURL = stringEnv E ''AGENTMESH_DATABASE_URL'' ''''; natsURL = stringEnv E ''AGENTMESH_NATS_URL'' '''';
          redisURL = stringEnv E ''AGENTMESH_REDIS_URL'' '''' in
      ensure (\<not> (cf_Mode c = ''distributed'' \<and> (databaseURL = '''' \<or> natsURL = '''' \<or> redisURL = ''''))) URLsRequired (
      Inr (c\<lparr>cf_DatabaseURL := databaseURL, cf_NATSURL := natsURL, cf_RedisURL := redisURL\<rparr>)))"

text \<open>The variables that are taken over as they are.\<close>

definition load_plain :: "envlib \<Rightarrow> Config \<Rightarrow> Config" where
  "load_plain E c = c\<lparr>cf_Addr := stringEnv E ''AGENTMESH_ADDR'' '':8080'',
     cf_AgentAuthConfig := stringEnv E ''AGENTMESH_AGENT_AUTH_CONFIG'' '''',
     cf_APIAuthConfig := stringEnv E ''AGENTMESH_API_AUTH_CONFIG'' '''', cf_MetricsAddr := stringEnv E ''AGENTMESH_METRICS_ADDR'' '''',
     cf_MCPServersConfig := stringEnv E ''AGENTMESH_MCP_SERVERS'' ''''\<rparr>"

definition Load :: "envlib \<Rightarrow> config_error + Config" where
  "Load E =
     andthen (load_mode E zero_config) (\<lambda>c.
     andthen (load_engine E c) (\<lambda>c.
     andthen (load_leases E c) (\<lambda>c.
     andthen (load_health E c) (\<lambda>c.
     andthen (load_workflow E c) (\<lambda>c.
     andthen (load_http E c) (\<lambda>c.
     andthen (load_security E c) (\<lambda>c.
     andthen (load_urls E c) (\<lambda>c.
     Inr (load_plain E c)))))))))"

section \<open>What the process does with it\<close>

definition main_retry :: "Config \<Rightarrow> RetryPolicy" where
  "main_retry c = \<lparr> rp_MaxAttempts = cf_MaxAttempts c, rp_InitialBackoff = cf_RetryInitial c, rp_MaxBackoff = cf_RetryMax c,
     rp_LeaseTTL = cf_LeaseTTL c, rp_AttemptTimeout = cf_AttemptTimeout c \<rparr>"

definition main_policy :: "Config \<Rightarrow> HTTPPolicy" where
  "main_policy c = \<lparr> po_RequireHTTPS = cf_HTTPRequireHTTPS c, po_AllowPrivate = cf_HTTPAllowPrivate c,
     po_AllowLoopback = cf_HTTPAllowLoopback c, po_AllowLinkLocal = cf_HTTPAllowLinkLocal c,
     po_AllowedHosts = cf_HTTPAllowedHosts c, po_BlockedCIDRs = cf_HTTPBlockedCIDRs c \<rparr>"

definition main_health :: "Config \<Rightarrow> HealthConfig" where
  "main_health c = \<lparr> hc_Path = cf_AgentHealthPath c, hc_Interval = cf_AgentHealthInterval c,
     hc_Timeout = cf_AgentHealthTimeout c, hc_Workers = cf_AgentHealthWorkers c \<rparr>"

definition runsWork :: "Config \<Rightarrow> bool" where
  "runsWork c \<longleftrightarrow> cf_Role c = ''all'' \<or> cf_Role c = ''worker''"

definition servesAPI :: "Config \<Rightarrow> bool" where
  "servesAPI c \<longleftrightarrow> cf_Role c = ''all'' \<or> cf_Role c = ''api''"

section \<open>Ranges\<close>

lemma at_least_one_Inr: "at_least_one E key fallback = Inr n \<Longrightarrow> 1 \<le> n"
  by (auto simp: at_least_one_def first_error)

lemma positive_Inr: "positive E key fallback = Inr d \<Longrightarrow> 0 < d"
  by (auto simp: positive_def first_error)

lemma drop_push_drop: "drop_bit k (push_bit k (drop_bit k n)) = drop_bit k n" for n :: "'a::len word"
  by (rule bit_word_eqI) (auto simp: bit_drop_bit_eq bit_push_bit_iff dest: bit_imp_le_length)

lemma Prefix_Masked_idem [simp]: "Prefix_Masked (Prefix_Masked p) = Prefix_Masked p"
  by (cases "px_Addr p") (simp_all add: Prefix_Masked_def Let_def drop_push_drop)

lemma Prefix_Masked_valid [simp]: "Prefix_IsValid (Prefix_Masked p) \<longleftrightarrow> Prefix_IsValid p"
  by (cases "px_Addr p") (simp_all add: Prefix_Masked_def Prefix_IsValid_def BitLen_def Let_def)

text \<open>What is read here passes the checks of the HTTP policy unchanged.\<close>

lemma prefix_list_normal:
  assumes "prefix_list E key raws = Inr ps" and "\<And>s p. env_ParsePrefix E s = Some p \<Longrightarrow> Prefix_IsValid p"
  shows "normalize_cidrs k ps = Inr ps"
  using assms(1)
proof (induction raws arbitrary: ps k)
  case (Cons v vs)
  then show ?case using assms(2) by (auto split: option.splits sum.splits)
qed simp

lemma Load_Inr:
  assumes "Load E = Inr c"
  obtains c1 c2 c3 c4 c5 c6 c7 c8 where "load_mode E zero_config = Inr c1" "load_engine E c1 = Inr c2" "load_leases E c2 = Inr c3"
    "load_health E c3 = Inr c4" "load_workflow E c4 = Inr c5" "load_http E c5 = Inr c6" "load_security E c6 = Inr c7"
    "load_urls E c7 = Inr c8" "c = load_plain E c8"
  using assms unfolding Load_def first_error by blast

lemma load_mode_range:
  "load_mode E c = Inr c' \<Longrightarrow> cf_Mode c' \<in> {''memory'', ''distributed''} \<and> cf_Role c' \<in> {''all'', ''api'', ''worker''}
     \<and> (cf_Role c' \<noteq> ''all'' \<longrightarrow> cf_Mode c' = ''distributed'')"
  by (auto simp: load_mode_def Let_def first_error)

lemma load_engine_range:
  "load_engine E c = Inr c' \<Longrightarrow> 1 \<le> cf_Workers c' \<and> 1 \<le> cf_QueueSize c' \<and> 0 < cf_AttemptTimeout c' \<and> 1 \<le> cf_MaxAttempts c'
     \<and> 0 < cf_RetryInitial c' \<and> cf_RetryInitial c' \<le> cf_RetryMax c'"
  by (auto simp: load_engine_def first_error dest!: at_least_one_Inr positive_Inr)

lemma load_leases_range:
  "load_leases E c = Inr c' \<Longrightarrow> 0 < cf_NATSAckWait c' \<and> 0 < cf_CacheTTL c' \<and> 0 < cf_LeaseTTL c' \<and> 0 < cf_EventRetention c'
     \<and> 1 \<le> cf_EventHistoryLimit c' \<and> length (cf_InstanceID c') \<le> 128"
  by (auto simp: load_leases_def first_error Let_def dest!: at_least_one_Inr positive_Inr)

lemma load_health_range:
  "load_health E c = Inr c' \<Longrightarrow> HasPrefix (cf_AgentHealthPath c') ''/'' \<and> \<not> HasPrefix (cf_AgentHealthPath c') ''//''
     \<and> 0 < cf_AgentHealthInterval c' \<and> 0 < cf_AgentHealthTimeout c' \<and> 1 \<le> cf_AgentHealthWorkers c'"
  by (auto simp: load_health_def first_error Let_def dest!: at_least_one_Inr positive_Inr)

lemma load_workflow_range:
  "load_workflow E c = Inr c' \<Longrightarrow> 1 \<le> cf_WorkflowConcurrency c' \<and> 0 < cf_WorkflowLeaseTTL c'
     \<and> 1 \<le> cf_AgentCallMaxDepth c' \<and> 1 \<le> cf_AgentCallMaxChildren c'"
  by (auto simp: load_workflow_def first_error dest!: at_least_one_Inr positive_Inr)

lemma load_http_range:
  assumes "load_http E c = Inr c'" and "\<And>s p. env_ParsePrefix E s = Some p \<Longrightarrow> Prefix_IsValid p"
  shows "1 \<le> cf_HTTPMaxRequestBytes c' \<and> 1 \<le> cf_HTTPMaxResponseBytes c'
     \<and> normalize_cidrs k (cf_HTTPBlockedCIDRs c') = Inr (cf_HTTPBlockedCIDRs c')"
  using assms by (auto simp: load_http_def first_error prefixListEnv_def prefix_list_normal)

lemma load_security_range:
  "load_security E c = Inr c' \<Longrightarrow> 0 < cf_AuditRetention c' \<and> 1 \<le> cf_AuditMaxEvents c' \<and> 0 < cf_MCPDefaultTimeout c'
     \<and> 0 < cf_ApprovalTTL c' \<and> 0 < cf_ApprovalRetention c'"
  by (auto simp: load_security_def first_error)

lemma load_urls_range:
  "load_urls E c = Inr c' \<Longrightarrow>
     cf_Mode c = ''distributed'' \<longrightarrow> cf_DatabaseURL c' \<noteq> '''' \<and> cf_NATSURL c' \<noteq> '''' \<and> cf_RedisURL c' \<noteq> ''''"
  by (auto simp: load_urls_def first_error Let_def)

text \<open>No part changes what an earlier one has set.\<close>

lemma load_engine_kept:
  "load_engine E c = Inr c' \<Longrightarrow>
     cf_Mode c' = cf_Mode c \<and> cf_Role c' = cf_Role c"
  by (auto simp: load_engine_def first_error Let_def)

lemma load_leases_kept:
  "load_leases E c = Inr c' \<Longrightarrow>
     cf_Mode c' = cf_Mode c \<and> cf_Role c' = cf_Role c \<and> cf_Workers c' = cf_Workers c \<and>
     cf_QueueSize c' = cf_QueueSize c \<and> cf_MaxAttempts c' = cf_MaxAttempts c \<and>
     cf_RetryInitial c' = cf_RetryInitial c \<and> cf_RetryMax c' = cf_RetryMax c \<and>
     cf_AttemptTimeout c' = cf_AttemptTimeout c"
  by (auto simp: load_leases_def first_error Let_def)

lemma load_health_kept:
  "load_health E c = Inr c' \<Longrightarrow>
     cf_Mode c' = cf_Mode c \<and> cf_Role c' = cf_Role c \<and> cf_Workers c' = cf_Workers c \<and>
     cf_QueueSize c' = cf_QueueSize c \<and> cf_MaxAttempts c' = cf_MaxAttempts c \<and>
     cf_RetryInitial c' = cf_RetryInitial c \<and> cf_RetryMax c' = cf_RetryMax c \<and>
     cf_AttemptTimeout c' = cf_AttemptTimeout c \<and> cf_LeaseTTL c' = cf_LeaseTTL c \<and>
     cf_EventHistoryLimit c' = cf_EventHistoryLimit c"
  by (auto simp: load_health_def first_error Let_def)

lemma load_workflow_kept:
  "load_workflow E c = Inr c' \<Longrightarrow>
     cf_Mode c' = cf_Mode c \<and> cf_Role c' = cf_Role c \<and> cf_Workers c' = cf_Workers c \<and>
     cf_QueueSize c' = cf_QueueSize c \<and> cf_MaxAttempts c' = cf_MaxAttempts c \<and>
     cf_RetryInitial c' = cf_RetryInitial c \<and> cf_RetryMax c' = cf_RetryMax c \<and>
     cf_AttemptTimeout c' = cf_AttemptTimeout c \<and> cf_LeaseTTL c' = cf_LeaseTTL c \<and>
     cf_EventHistoryLimit c' = cf_EventHistoryLimit c \<and> cf_AgentHealthPath c' = cf_AgentHealthPath c
     \<and> cf_AgentHealthInterval c' = cf_AgentHealthInterval c \<and>
     cf_AgentHealthTimeout c' = cf_AgentHealthTimeout c \<and>
     cf_AgentHealthWorkers c' = cf_AgentHealthWorkers c"
  by (auto simp: load_workflow_def first_error Let_def)

lemma load_http_kept:
  "load_http E c = Inr c' \<Longrightarrow>
     cf_Mode c' = cf_Mode c \<and> cf_Role c' = cf_Role c \<and> cf_Workers c' = cf_Workers c \<and>
     cf_QueueSize c' = cf_QueueSize c \<and> cf_MaxAttempts c' = cf_MaxAttempts c \<and>
     cf_RetryInitial c' = cf_RetryInitial c \<and> cf_RetryMax c' = cf_RetryMax c \<and>
     cf_AttemptTimeout c' = cf_AttemptTimeout c \<and> cf_LeaseTTL c' = cf_LeaseTTL c \<and>
     cf_EventHistoryLimit c' = cf_EventHistoryLimit c \<and> cf_AgentHealthPath c' = cf_AgentHealthPath c
     \<and> cf_AgentHealthInterval c' = cf_AgentHealthInterval c \<and>
     cf_AgentHealthTimeout c' = cf_AgentHealthTimeout c \<and>
     cf_AgentHealthWorkers c' = cf_AgentHealthWorkers c \<and>
     cf_WorkflowConcurrency c' = cf_WorkflowConcurrency c \<and>
     cf_WorkflowLeaseTTL c' = cf_WorkflowLeaseTTL c \<and> cf_AgentCallMaxDepth c' = cf_AgentCallMaxDepth c
     \<and> cf_AgentCallMaxChildren c' = cf_AgentCallMaxChildren c"
  by (auto simp: load_http_def first_error Let_def)

lemma load_security_kept:
  "load_security E c = Inr c' \<Longrightarrow>
     cf_Mode c' = cf_Mode c \<and> cf_Role c' = cf_Role c \<and> cf_Workers c' = cf_Workers c \<and>
     cf_QueueSize c' = cf_QueueSize c \<and> cf_MaxAttempts c' = cf_MaxAttempts c \<and>
     cf_RetryInitial c' = cf_RetryInitial c \<and> cf_RetryMax c' = cf_RetryMax c \<and>
     cf_AttemptTimeout c' = cf_AttemptTimeout c \<and> cf_LeaseTTL c' = cf_LeaseTTL c \<and>
     cf_EventHistoryLimit c' = cf_EventHistoryLimit c \<and> cf_AgentHealthPath c' = cf_AgentHealthPath c
     \<and> cf_AgentHealthInterval c' = cf_AgentHealthInterval c \<and>
     cf_AgentHealthTimeout c' = cf_AgentHealthTimeout c \<and>
     cf_AgentHealthWorkers c' = cf_AgentHealthWorkers c \<and>
     cf_WorkflowConcurrency c' = cf_WorkflowConcurrency c \<and>
     cf_WorkflowLeaseTTL c' = cf_WorkflowLeaseTTL c \<and> cf_AgentCallMaxDepth c' = cf_AgentCallMaxDepth c
     \<and> cf_AgentCallMaxChildren c' = cf_AgentCallMaxChildren c \<and>
     cf_HTTPBlockedCIDRs c' = cf_HTTPBlockedCIDRs c"
  by (auto simp: load_security_def first_error Let_def)

lemma load_urls_kept:
  "load_urls E c = Inr c' \<Longrightarrow>
     cf_Mode c' = cf_Mode c \<and> cf_Role c' = cf_Role c \<and> cf_Workers c' = cf_Workers c \<and>
     cf_QueueSize c' = cf_QueueSize c \<and> cf_MaxAttempts c' = cf_MaxAttempts c \<and>
     cf_RetryInitial c' = cf_RetryInitial c \<and> cf_RetryMax c' = cf_RetryMax c \<and>
     cf_AttemptTimeout c' = cf_AttemptTimeout c \<and> cf_LeaseTTL c' = cf_LeaseTTL c \<and>
     cf_EventHistoryLimit c' = cf_EventHistoryLimit c \<and> cf_AgentHealthPath c' = cf_AgentHealthPath c
     \<and> cf_AgentHealthInterval c' = cf_AgentHealthInterval c \<and>
     cf_AgentHealthTimeout c' = cf_AgentHealthTimeout c \<and>
     cf_AgentHealthWorkers c' = cf_AgentHealthWorkers c \<and>
     cf_WorkflowConcurrency c' = cf_WorkflowConcurrency c \<and>
     cf_WorkflowLeaseTTL c' = cf_WorkflowLeaseTTL c \<and> cf_AgentCallMaxDepth c' = cf_AgentCallMaxDepth c
     \<and> cf_AgentCallMaxChildren c' = cf_AgentCallMaxChildren c \<and>
     cf_HTTPBlockedCIDRs c' = cf_HTTPBlockedCIDRs c \<and> cf_AuditMaxEvents c' = cf_AuditMaxEvents c \<and>
     cf_AuditRetention c' = cf_AuditRetention c \<and> cf_ApprovalTTL c' = cf_ApprovalTTL c"
  by (auto simp: load_urls_def first_error Let_def)

section \<open>Properties\<close>

definition parses_prefixes :: "envlib \<Rightarrow> bool" where
  "parses_prefixes E \<longleftrightarrow> (\<forall>s p. env_ParsePrefix E s = Some p \<longrightarrow> Prefix_IsValid p)"


definition sample_env :: envlib where
  "sample_env = \<lparr> env_Getenv = (\<lambda>key. if key = ''AGENTMESH_WORKERS'' then ''12'' else ''''),
     env_ParseDuration = (\<lambda>s. None), env_ParsePrefix = (\<lambda>s. None) \<rparr>"

definition sample_config :: Config where
  "sample_config = (case Load sample_env of Inr c \<Rightarrow> c | Inl _ \<Rightarrow> zero_config)"


end
