(* ===== verification/Redis_Leases.thy ===== *)
theory Redis_Leases
  imports Coordination Strconv
begin

text \<open>
  \<^verbatim>\<open>internal/cache/redis.go\<close>: the coordinator that keeps its leases in Redis, with the three Lua scripts it runs there,
  and the operations of the cache. The Redis server is an argument: its commands, on a state that is not looked
  into. What is relied on is the documented meaning of these commands, \<open>redis_laws\<close>. Times and expiries are the server's
  clock in milliseconds; a script runs as one step at one time.
\<close>

section \<open>The server\<close>

record 's redis =
  rd_EXISTS :: "time \<Rightarrow> string \<Rightarrow> 's \<Rightarrow> bool"
  rd_GET :: "time \<Rightarrow> string \<Rightarrow> 's \<Rightarrow> string option"
  rd_SET :: "time \<Rightarrow> string \<Rightarrow> string \<Rightarrow> int \<Rightarrow> 's \<Rightarrow> 's"
  rd_INCR :: "time \<Rightarrow> string \<Rightarrow> 's \<Rightarrow> (int \<times> 's) option"
  rd_PSETEX :: "time \<Rightarrow> string \<Rightarrow> int \<Rightarrow> string \<Rightarrow> 's \<Rightarrow> 's"
  rd_DEL :: "time \<Rightarrow> string \<Rightarrow> 's \<Rightarrow> int \<times> 's"
  rd_PEXPIRE :: "time \<Rightarrow> string \<Rightarrow> int \<Rightarrow> 's \<Rightarrow> int \<times> 's"

text \<open>A key holds a value and, if it is set to expire, the time from which it counts as absent.\<close>

type_synonym redis_entry = "(string \<times> time option) option"

definition alive :: "time \<Rightarrow> redis_entry \<Rightarrow> string option" where
  "alive now entry =
     (case entry of None \<Rightarrow> None
      | Some (value, None) \<Rightarrow> Some value
      | Some (value, Some expiry) \<Rightarrow> if now < expiry then Some value else None)"

definition redis_reads :: "'s redis \<Rightarrow> ('s \<Rightarrow> string \<Rightarrow> redis_entry) \<Rightarrow> bool" where
  "redis_reads R view \<longleftrightarrow>
     (\<forall>now k s. (rd_EXISTS R now k s \<longleftrightarrow> alive now (view s k) \<noteq> None) \<and> rd_GET R now k s = alive now (view s k))"

definition redis_counts :: "'s redis \<Rightarrow> ('s \<Rightarrow> string \<Rightarrow> redis_entry) \<Rightarrow> bool" where
  "redis_counts R view \<longleftrightarrow>
     (\<forall>now k s n. (view s k = None \<and> n = 0 \<or> view s k = Some (Itoa n, None) \<and> min_int64 \<le> n) \<and> n < max_int64 \<longrightarrow>
        (\<exists>s'. rd_INCR R now k s = Some (n + 1, s') \<and> view s' = (view s)(k \<mapsto> (Itoa (n + 1), None))))
   \<and> (\<forall>now k s. view s k = Some (Itoa max_int64, None) \<longrightarrow> rd_INCR R now k s = None)"

definition redis_writes :: "'s redis \<Rightarrow> ('s \<Rightarrow> string \<Rightarrow> redis_entry) \<Rightarrow> bool" where
  "redis_writes R view \<longleftrightarrow>
     (\<forall>now k ms v s. 0 < ms \<longrightarrow> view (rd_PSETEX R now k ms v s) = (view s)(k \<mapsto> (v, Some (now + ms))))
   \<and> (\<forall>now k s. alive now (view s k) \<noteq> None \<longrightarrow> view (snd (rd_DEL R now k s)) = (view s)(k := None))
   \<and> (\<forall>now k ms s v. alive now (view s k) = Some v \<and> 0 < ms \<longrightarrow>
        fst (rd_PEXPIRE R now k ms s) = 1 \<and> view (snd (rd_PEXPIRE R now k ms s)) = (view s)(k \<mapsto> (v, Some (now + ms))))"

definition redis_laws :: "'s redis \<Rightarrow> ('s \<Rightarrow> string \<Rightarrow> redis_entry) \<Rightarrow> bool" where
  "redis_laws R view \<longleftrightarrow> redis_reads R view \<and> redis_counts R view \<and> redis_writes R view"

lemma redis_lawsD:
  assumes "redis_laws R view"
  shows "rd_EXISTS R now k s \<longleftrightarrow> alive now (view s k) \<noteq> None"
    and "rd_GET R now k s = alive now (view s k)"
    and "view s k = None \<and> n = 0 \<or> view s k = Some (Itoa n, None) \<and> min_int64 \<le> n \<Longrightarrow> n < max_int64 \<Longrightarrow>
      \<exists>s'. rd_INCR R now k s = Some (n + 1, s') \<and> view s' = (view s)(k \<mapsto> (Itoa (n + 1), None))"
    and "view s k = Some (Itoa max_int64, None) \<Longrightarrow> rd_INCR R now k s = None"
    and "0 < ms \<Longrightarrow> view (rd_PSETEX R now k ms v s) = (view s)(k \<mapsto> (v, Some (now + ms)))"
    and "alive now (view s k) \<noteq> None \<Longrightarrow> view (snd (rd_DEL R now k s)) = (view s)(k := None)"
    and "alive now (view s k) = Some v \<Longrightarrow> 0 < ms \<Longrightarrow>
      fst (rd_PEXPIRE R now k ms s) = 1 \<and> view (snd (rd_PEXPIRE R now k ms s)) = (view s)(k \<mapsto> (v, Some (now + ms)))"
proof -
  have "redis_reads R view" and counts: "redis_counts R view" and writes: "redis_writes R view"
    using assms by (simp_all add: redis_laws_def)
  then show "rd_EXISTS R now k s \<longleftrightarrow> alive now (view s k) \<noteq> None" "rd_GET R now k s = alive now (view s k)"
    by (simp_all add: redis_reads_def)
  show "\<exists>s'. rd_INCR R now k s = Some (n + 1, s') \<and> view s' = (view s)(k \<mapsto> (Itoa (n + 1), None))"
    if "view s k = None \<and> n = 0 \<or> view s k = Some (Itoa n, None) \<and> min_int64 \<le> n" "n < max_int64"
    using counts [unfolded redis_counts_def, THEN conjunct1] that by blast
  show "rd_INCR R now k s = None" if "view s k = Some (Itoa max_int64, None)"
    using counts [unfolded redis_counts_def, THEN conjunct2] that by blast
  show "view (rd_PSETEX R now k ms v s) = (view s)(k \<mapsto> (v, Some (now + ms)))" if "0 < ms"
    using writes that by (simp add: redis_writes_def)
  show "view (snd (rd_DEL R now k s)) = (view s)(k := None)" if "alive now (view s k) \<noteq> None"
    using writes [unfolded redis_writes_def, THEN conjunct2, THEN conjunct1] that by blast
  show "fst (rd_PEXPIRE R now k ms s) = 1 \<and> view (snd (rd_PEXPIRE R now k ms s)) = (view s)(k \<mapsto> (v, Some (now + ms)))"
    if "alive now (view s k) = Some v" "0 < ms"
    using writes that by (simp add: redis_writes_def)
qed

text \<open>A call may be lost on its way to the server, or its answer on the way back.\<close>

datatype delivery = Delivered | LostRequest | LostReply

section \<open>The scripts\<close>

definition acquireLease_script :: "'s redis \<Rightarrow> time \<Rightarrow> string \<Rightarrow> string \<Rightarrow> int \<Rightarrow> 's \<Rightarrow> (int \<times> 's) option" where
  "acquireLease_script R now lock_key counter_key ttl s =
     (if rd_EXISTS R now lock_key s then Some (0, s)
      else case rd_INCR R now counter_key s of
        None \<Rightarrow> None
      | Some (token, s) \<Rightarrow> Some (token, rd_PSETEX R now lock_key ttl (Itoa token) s))"

definition releaseLease_script :: "'s redis \<Rightarrow> time \<Rightarrow> string \<Rightarrow> string \<Rightarrow> 's \<Rightarrow> int \<times> 's" where
  "releaseLease_script R now lock_key token s =
     (if rd_GET R now lock_key s = Some token then rd_DEL R now lock_key s else (0, s))"

definition renewLease_script :: "'s redis \<Rightarrow> time \<Rightarrow> string \<Rightarrow> string \<Rightarrow> int \<Rightarrow> 's \<Rightarrow> int \<times> 's" where
  "renewLease_script R now lock_key token ttl s =
     (if rd_GET R now lock_key s = Some token then rd_PEXPIRE R now lock_key ttl s else (0, s))"

section \<open>The coordinator\<close>

datatype redis_error = RedisInvalidLeaseTTL | RedisLeaseLost | RedisFailed

record redisLease =
  rl_key :: string
  rl_token :: int

definition redis_lease_key :: "string \<Rightarrow> string" where
  "redis_lease_key key = ''agentmesh:lease:'' @ key"

definition sequence_key :: string where
  "sequence_key = ''agentmesh:fence:sequence''"

definition ttl_millis :: "duration \<Rightarrow> int" where
  "ttl_millis ttl = (let millis = Milliseconds ttl in if millis < 1 then 1 else millis)"

definition Redis_Acquire ::
  "'s redis \<Rightarrow> delivery \<Rightarrow> string \<Rightarrow> duration \<Rightarrow> time \<Rightarrow> 's \<Rightarrow> (redis_error + redisLease option) \<times> 's" where
  "Redis_Acquire R luck key ttl now s =
     (if ttl \<le> 0 then (Inl RedisInvalidLeaseTTL, s)
      else if luck = LostRequest then (Inl RedisFailed, s)
      else let redisKey = redis_lease_key key in
        case acquireLease_script R now redisKey sequence_key (ttl_millis ttl) s of
          None \<Rightarrow> (Inl RedisFailed, s)
        | Some (token, s') \<Rightarrow>
            (if luck = LostReply then Inl RedisFailed
             else if token = 0 then Inr None else Inr (Some \<lparr> rl_key = redisKey, rl_token = token \<rparr>), s'))"

definition Redis_FencingToken :: "redisLease \<Rightarrow> int" where
  "Redis_FencingToken l = rl_token l"

definition Redis_Renew :: "'s redis \<Rightarrow> delivery \<Rightarrow> redisLease \<Rightarrow> duration \<Rightarrow> time \<Rightarrow> 's \<Rightarrow> redis_error option \<times> 's" where
  "Redis_Renew R luck l ttl now s =
     (if ttl \<le> 0 then (Some RedisInvalidLeaseTTL, s)
      else if luck = LostRequest then (Some RedisFailed, s)
      else case renewLease_script R now (rl_key l) (Itoa (rl_token l)) (ttl_millis ttl) s of
        (renewed, s') \<Rightarrow>
          (if luck = LostReply then Some RedisFailed else if renewed \<noteq> 1 then Some RedisLeaseLost else None, s'))"

definition Redis_Release :: "'s redis \<Rightarrow> delivery \<Rightarrow> redisLease \<Rightarrow> time \<Rightarrow> 's \<Rightarrow> redis_error option \<times> 's" where
  "Redis_Release R luck l now s =
     (if luck = LostRequest then (Some RedisFailed, s)
      else case releaseLease_script R now (rl_key l) (Itoa (rl_token l)) s of
        (_, s') \<Rightarrow> (if luck = LostReply then Some RedisFailed else None, s'))"

section \<open>The cache\<close>

text \<open>\<^verbatim>\<open>decode\<close> and \<^verbatim>\<open>encode\<close> are \<^verbatim>\<open>json.Unmarshal\<close> and \<^verbatim>\<open>json.Marshal\<close> for the type of the values.\<close>

datatype cache_error = CacheGetFailed | CacheDecodeFailed | CacheEncodeFailed | CacheSetFailed | CacheDeleteFailed

definition Redis_Get :: "'s redis \<Rightarrow> (string \<Rightarrow> 'a option) \<Rightarrow> delivery \<Rightarrow> string \<Rightarrow> time \<Rightarrow> 's \<Rightarrow> cache_error + 'a option" where
  "Redis_Get R decode luck key now s =
     (if luck \<noteq> Delivered then Inl CacheGetFailed
      else case rd_GET R now key s of
        None \<Rightarrow> Inr None
      | Some payload \<Rightarrow> (case decode payload of None \<Rightarrow> Inl CacheDecodeFailed | Some value \<Rightarrow> Inr (Some value)))"

definition Redis_Set ::
  "'s redis \<Rightarrow> ('a \<Rightarrow> string option) \<Rightarrow> delivery \<Rightarrow> string \<Rightarrow> 'a \<Rightarrow> int \<Rightarrow> time \<Rightarrow> 's \<Rightarrow> cache_error option \<times> 's" where
  "Redis_Set R encode luck key value ttl now s =
     (case encode value of
        None \<Rightarrow> (Some CacheEncodeFailed, s)
      | Some payload \<Rightarrow>
          if luck = LostRequest then (Some CacheSetFailed, s)
          else (if luck = LostReply then Some CacheSetFailed else None, rd_SET R now key payload ttl s))"

primrec del_keys :: "'s redis \<Rightarrow> time \<Rightarrow> string list \<Rightarrow> 's \<Rightarrow> 's" where
  "del_keys R now [] s = s"
| "del_keys R now (key # keys) s = del_keys R now keys (snd (rd_DEL R now key s))"

definition Redis_Delete :: "'s redis \<Rightarrow> delivery \<Rightarrow> string list \<Rightarrow> time \<Rightarrow> 's \<Rightarrow> cache_error option \<times> 's" where
  "Redis_Delete R luck keys now s =
     (if keys = [] then (None, s)
      else if luck = LostRequest then (Some CacheDeleteFailed, s)
      else (if luck = LostReply then Some CacheDeleteFailed else None, del_keys R now keys s))"

section \<open>The contract as a state machine\<close>

text \<open>Who owns which key until when, and the last token.\<close>

type_synonym lease_state = "(string \<Rightarrow> (int \<times> time) option) \<times> int"

definition ideal_acquire :: "string \<Rightarrow> duration \<Rightarrow> time \<Rightarrow> lease_state \<Rightarrow> (int \<times> lease_state) option" where
  "ideal_acquire k ttl now = (\<lambda>(owner, issued).
     if \<exists>t e. owner k = Some (t, e) \<and> now < e then None
     else Some (issued + 1, (owner(k \<mapsto> (issued + 1, now + ttl)), issued + 1)))"

definition ideal_renew :: "string \<Rightarrow> int \<Rightarrow> duration \<Rightarrow> time \<Rightarrow> lease_state \<Rightarrow> bool \<times> lease_state" where
  "ideal_renew k t ttl now = (\<lambda>(owner, issued).
     if \<exists>e. owner k = Some (t, e) \<and> now < e then (True, (owner(k \<mapsto> (t, now + ttl)), issued)) else (False, (owner, issued)))"

definition ideal_release :: "string \<Rightarrow> int \<Rightarrow> lease_state \<Rightarrow> lease_state" where
  "ideal_release k t = (\<lambda>(owner, issued). (if \<exists>e. owner k = Some (t, e) then owner(k := None) else owner, issued))"

interpretation ideal: lease_service ideal_acquire ideal_renew ideal_release fst snd
  by unfold_locales
    (auto simp: ideal_acquire_def ideal_renew_def ideal_release_def split: prod.splits if_splits)

section \<open>The leases in Redis implement it\<close>

lemma keys_apart [simp]: "redis_lease_key a = redis_lease_key b \<longleftrightarrow> a = b" "redis_lease_key a \<noteq> sequence_key" "sequence_key \<noteq> redis_lease_key a"
  by (simp_all add: redis_lease_key_def sequence_key_def)

text \<open>What the program keeps under its keys, and what it stands for.\<close>

definition last_token :: "(string \<Rightarrow> redis_entry) \<Rightarrow> int" where
  "last_token view = (case view sequence_key of Some (v, _) \<Rightarrow> (case ParseInt v of Some n \<Rightarrow> n | None \<Rightarrow> 0) | None \<Rightarrow> 0)"

definition lease_owner :: "(string \<Rightarrow> redis_entry) \<Rightarrow> string \<Rightarrow> (int \<times> time) option" where
  "lease_owner view k =
     (case view (redis_lease_key k) of Some (v, Some e) \<Rightarrow> map_option (\<lambda>t. (t, e)) (ParseInt v) | _ \<Rightarrow> None)"

definition leases_ok :: "(string \<Rightarrow> redis_entry) \<Rightarrow> bool" where
  "leases_ok view \<longleftrightarrow>
     (view sequence_key = None \<or> (\<exists>n. view sequence_key = Some (Itoa n, None) \<and> 1 \<le> n \<and> n \<le> max_int64))
   \<and> (\<forall>k. view (redis_lease_key k) = None
        \<or> (\<exists>t e. view (redis_lease_key k) = Some (Itoa t, Some e) \<and> 1 \<le> t \<and> t \<le> last_token view))"

definition leases_of :: "(string \<Rightarrow> redis_entry) \<Rightarrow> lease_state" where
  "leases_of view = (lease_owner view, last_token view)"

lemma leases_okE:
  assumes "leases_ok view"
  obtains "view sequence_key = None" "last_token view = 0"
  | n where "view sequence_key = Some (Itoa n, None)" "1 \<le> n" "n \<le> max_int64" "last_token view = n"
proof -
  have "ParseInt (Itoa n) = Some n" if "1 \<le> n" "n \<le> max_int64" for n
    using that by (intro ParseInt_Itoa) (simp_all add: min_int64_def)
  then show thesis using that assms unfolding leases_ok_def last_token_def by fastforce
qed

lemma token_read:
  assumes "leases_ok view" and "view (redis_lease_key k) = Some entry"
  obtains t e where "entry = (Itoa t, Some e)" "1 \<le> t" "t \<le> last_token view" "lease_owner view k = Some (t, e)"
proof -
  have "view (redis_lease_key k) = None \<or> (\<exists>t e. view (redis_lease_key k) = Some (Itoa t, Some e) \<and> 1 \<le> t \<and> t \<le> last_token view)"
    using assms(1) unfolding leases_ok_def by blast
  then obtain t e where entry: "entry = (Itoa t, Some e)" "1 \<le> t" "t \<le> last_token view"
    using assms(2) by auto
  have "last_token view \<le> max_int64" by (rule leases_okE [OF assms(1)]) (simp_all add: max_int64_def)
  then have "ParseInt (Itoa t) = Some t" using entry by (intro ParseInt_Itoa) (simp_all add: min_int64_def)
  then show thesis using that entry assms(2) by (simp add: lease_owner_def)
qed

lemma alive_lease:
  assumes "leases_ok view"
  shows "alive now (view (redis_lease_key k)) = Some (Itoa t) \<longleftrightarrow> (\<exists>e. lease_owner view k = Some (t, e) \<and> now < e)"
    and "alive now (view (redis_lease_key k)) \<noteq> None \<longleftrightarrow> (\<exists>t e. lease_owner view k = Some (t, e) \<and> now < e)"
proof -
  have "(alive now (view (redis_lease_key k)) = Some (Itoa t) \<longleftrightarrow> (\<exists>e. lease_owner view k = Some (t, e) \<and> now < e))
      \<and> (alive now (view (redis_lease_key k)) \<noteq> None \<longleftrightarrow> (\<exists>t e. lease_owner view k = Some (t, e) \<and> now < e))"
  proof (cases "view (redis_lease_key k)")
    case None
    then show ?thesis by (simp add: alive_def lease_owner_def)
  next
    case (Some entry)
    obtain t' e where "entry = (Itoa t', Some e)" "lease_owner view k = Some (t', e)" by (rule token_read [OF assms Some])
    then show ?thesis using Some by (auto simp: alive_def Itoa_inj)
  qed
  then show "alive now (view (redis_lease_key k)) = Some (Itoa t) \<longleftrightarrow> (\<exists>e. lease_owner view k = Some (t, e) \<and> now < e)"
    "alive now (view (redis_lease_key k)) \<noteq> None \<longleftrightarrow> (\<exists>t e. lease_owner view k = Some (t, e) \<and> now < e)" by blast+
qed

text \<open>What one change of a key means.\<close>

lemma leases_put:
  assumes "leases_ok view" and "1 \<le> t" and "t \<le> last_token view"
  shows "leases_ok (view(redis_lease_key k \<mapsto> (Itoa t, Some e)))"
    and "leases_of (view(redis_lease_key k \<mapsto> (Itoa t, Some e))) = ((lease_owner view)(k \<mapsto> (t, e)), last_token view)"
proof -
  have same: "last_token (view(redis_lease_key k \<mapsto> (Itoa t, Some e))) = last_token view" by (simp add: last_token_def)
  show ok: "leases_ok (view(redis_lease_key k \<mapsto> (Itoa t, Some e)))"
    using assms unfolding leases_ok_def same by auto
  have "lease_owner (view(redis_lease_key k \<mapsto> (Itoa t, Some e))) k' = ((lease_owner view)(k \<mapsto> (t, e))) k'" for k'
  proof (cases "k' = k")
    case True
    then show ?thesis using token_read [OF ok, of k "(Itoa t, Some e)"] by (auto simp: Itoa_inj)
  qed (simp add: lease_owner_def)
  then show "leases_of (view(redis_lease_key k \<mapsto> (Itoa t, Some e))) = ((lease_owner view)(k \<mapsto> (t, e)), last_token view)"
    by (simp add: leases_of_def same fun_eq_iff)
qed

lemma leases_drop:
  assumes "leases_ok view"
  shows "leases_ok (view(redis_lease_key k := None))"
    and "leases_of (view(redis_lease_key k := None)) = ((lease_owner view)(k := None), last_token view)"
proof -
  have same: "last_token (view(redis_lease_key k := None)) = last_token view" by (simp add: last_token_def)
  show "leases_ok (view(redis_lease_key k := None))" using assms unfolding leases_ok_def same by auto
  show "leases_of (view(redis_lease_key k := None)) = ((lease_owner view)(k := None), last_token view)"
    by (simp add: leases_of_def same lease_owner_def fun_eq_iff)
qed

lemma leases_count:
  assumes "leases_ok view" and "last_token view < max_int64"
  shows "leases_ok (view(sequence_key \<mapsto> (Itoa (last_token view + 1), None)))"
    and "leases_of (view(sequence_key \<mapsto> (Itoa (last_token view + 1), None))) = (lease_owner view, last_token view + 1)"
proof -
  have "0 \<le> last_token view" by (rule leases_okE [OF assms(1)]) simp_all
  then have "ParseInt (Itoa (last_token view + 1)) = Some (last_token view + 1)"
    using assms(2) by (intro ParseInt_Itoa) (simp_all add: min_int64_def)
  then have counted: "last_token (view(sequence_key \<mapsto> (Itoa (last_token view + 1), None))) = last_token view + 1"
    by (simp add: last_token_def)
  show "leases_ok (view(sequence_key \<mapsto> (Itoa (last_token view + 1), None)))"
  proof -
    have "view (redis_lease_key k) = None \<or> (\<exists>t e. view (redis_lease_key k) = Some (Itoa t, Some e) \<and> 1 \<le> t \<and> t \<le> last_token view + 1)" for k
    proof (cases "view (redis_lease_key k)")
      case (Some entry)
      obtain t e where "entry = (Itoa t, Some e)" "1 \<le> t" "t \<le> last_token view" by (rule token_read [OF assms(1) Some])
      then show ?thesis using Some by (auto intro!: exI [of _ t])
    qed simp
    then show ?thesis
      using assms(2) \<open>0 \<le> last_token view\<close> unfolding leases_ok_def counted by (auto intro: exI [of _ "last_token view + 1"])
  qed
  show "leases_of (view(sequence_key \<mapsto> (Itoa (last_token view + 1), None))) = (lease_owner view, last_token view + 1)"
    by (simp add: leases_of_def counted lease_owner_def fun_eq_iff)
qed

text \<open>The scripts.\<close>

lemma acquireLease_script_refines:
  assumes "redis_laws R view" and "leases_ok (view s)" and "0 < ms"
    and "acquireLease_script R now (redis_lease_key k) sequence_key ms s = Some (token, s')"
  shows "token = 0 \<and> s' = s \<and> ideal_acquire k ms now (leases_of (view s)) = None
    \<or> 1 \<le> token \<and> leases_ok (view s') \<and> ideal_acquire k ms now (leases_of (view s)) = Some (token, leases_of (view s'))"
proof (cases "rd_EXISTS R now (redis_lease_key k) s")
  case True
  then have "\<exists>t e. lease_owner (view s) k = Some (t, e) \<and> now < e"
    unfolding redis_lawsD(1) [OF assms(1)] alive_lease(2) [OF assms(2)] .
  then show ?thesis using True assms(4) by (auto simp: acquireLease_script_def ideal_acquire_def leases_of_def)
next
  case False
  then have free: "\<not> (\<exists>t e. lease_owner (view s) k = Some (t, e) \<and> now < e)"
    unfolding redis_lawsD(1) [OF assms(1)] alive_lease(2) [OF assms(2)] .
  obtain s1 where s1: "rd_INCR R now sequence_key s = Some (token, s1)" "s' = rd_PSETEX R now (redis_lease_key k) ms (Itoa token) s1"
    using False assms(4) by (auto simp: acquireLease_script_def split: option.splits)
  let ?n = "last_token (view s)"
  have n: "0 \<le> ?n" "view s sequence_key = None \<and> ?n = 0 \<or> view s sequence_key = Some (Itoa ?n, None) \<and> min_int64 \<le> ?n"
      "?n \<le> max_int64"
    by (rule leases_okE [OF assms(2)]; simp add: min_int64_def max_int64_def)+
  have "?n \<noteq> max_int64"
    using redis_lawsD(4) [OF assms(1), of s sequence_key now] n(2) s1(1) by (auto simp: max_int64_def)
  then have incr: "token = ?n + 1 \<and> view s1 = (view s)(sequence_key \<mapsto> (Itoa token, None)) \<and> 0 \<le> ?n \<and> ?n < max_int64"
    using redis_lawsD(3) [OF assms(1) n(2), of now] s1(1) n(1,3) by auto
  then have token: "token = ?n + 1" by blast
  have counted: "leases_ok (view s1)" "leases_of (view s1) = (lease_owner (view s), ?n + 1)"
    using leases_count [OF assms(2)] incr by auto
  have "view s' = (view s1)(redis_lease_key k \<mapsto> (Itoa token, Some (now + ms)))"
    using s1(2) redis_lawsD(5) [OF assms(1,3)] by simp
  then have "leases_ok (view s') \<and> leases_of (view s') = ((lease_owner (view s))(k \<mapsto> (token, now + ms)), token)"
    using leases_put [OF counted(1), of token k "now + ms"] counted(2) incr by (simp add: leases_of_def)
  then show ?thesis using free incr by (auto simp: ideal_acquire_def leases_of_def)
qed

lemma renewLease_script_refines:
  assumes "redis_laws R view" and "leases_ok (view s)" and "0 < ms"
    and "renewLease_script R now (redis_lease_key k) (Itoa t) ms s = (n, s')"
  shows "leases_ok (view s')" "ideal_renew k t ms now (leases_of (view s)) = (n = 1, leases_of (view s'))"
proof -
  have get: "rd_GET R now (redis_lease_key k) s = Some (Itoa t) \<longleftrightarrow> (\<exists>e. lease_owner (view s) k = Some (t, e) \<and> now < e)"
    unfolding redis_lawsD(2) [OF assms(1)] by (rule alive_lease(1) [OF assms(2)])
  have "leases_ok (view s') \<and> ideal_renew k t ms now (leases_of (view s)) = (n = 1, leases_of (view s'))"
  proof (cases "rd_GET R now (redis_lease_key k) s = Some (Itoa t)")
    case True
    then obtain e where e: "lease_owner (view s) k = Some (t, e)" "now < e" using get by blast
    obtain entry where entry: "view s (redis_lease_key k) = Some entry" using e(1) by (auto simp: lease_owner_def split: option.splits)
    have t: "1 \<le> t" "t \<le> last_token (view s)" using token_read [OF assms(2) entry] e(1) by auto
    have "alive now (view s (redis_lease_key k)) = Some (Itoa t)" using True redis_lawsD(2) [OF assms(1)] by simp
    from redis_lawsD(7) [OF assms(1) this assms(3)]
    have "n = 1 \<and> view s' = (view s)(redis_lease_key k \<mapsto> (Itoa t, Some (now + ms)))"
      using True assms(4) by (simp add: renewLease_script_def)
    then show ?thesis using leases_put [OF assms(2) t] e by (auto simp: ideal_renew_def leases_of_def)
  next
    case False
    then show ?thesis using assms(2,4) get by (auto simp: renewLease_script_def ideal_renew_def leases_of_def)
  qed
  then show "leases_ok (view s')" "ideal_renew k t ms now (leases_of (view s)) = (n = 1, leases_of (view s'))" by blast+
qed

text \<open>A release that comes too late does nothing.\<close>

lemma releaseLease_script_refines:
  assumes "redis_laws R view" and "leases_ok (view s)"
    and "releaseLease_script R now (redis_lease_key k) (Itoa t) s = (n, s')"
  shows "leases_ok (view s')" "leases_of (view s') \<in> {leases_of (view s), ideal_release k t (leases_of (view s))}"
proof -
  have get: "rd_GET R now (redis_lease_key k) s = Some (Itoa t) \<longleftrightarrow> (\<exists>e. lease_owner (view s) k = Some (t, e) \<and> now < e)"
    unfolding redis_lawsD(2) [OF assms(1)] by (rule alive_lease(1) [OF assms(2)])
  have "leases_ok (view s') \<and> leases_of (view s') \<in> {leases_of (view s), ideal_release k t (leases_of (view s))}"
  proof (cases "rd_GET R now (redis_lease_key k) s = Some (Itoa t)")
    case True
    then have "alive now (view s (redis_lease_key k)) \<noteq> None" using redis_lawsD(2) [OF assms(1)] by simp
    from redis_lawsD(6) [OF assms(1) this] have "view s' = (view s)(redis_lease_key k := None)"
      using True assms(3) by (simp add: releaseLease_script_def)
    then show ?thesis using leases_drop [OF assms(2)] True get by (auto simp: ideal_release_def leases_of_def)
  next
    case False
    then show ?thesis using assms(2,3) by (auto simp: releaseLease_script_def)
  qed
  then show "leases_ok (view s')" "leases_of (view s') \<in> {leases_of (view s), ideal_release k t (leases_of (view s))}" by blast+
qed

text \<open>The calls of the clients, delivered or not.\<close>

lemma ttl_millis_pos [simp]: "0 < ttl_millis ttl"
  by (simp add: ttl_millis_def Let_def)

lemma Redis_Acquire_refines:
  assumes "redis_laws R view" and "leases_ok (view s)" and "Redis_Acquire R luck k ttl now s = (result, s')"
  shows "leases_ok (view s')"
    and "s' = s \<and> \<not> (\<exists>l. result = Inr (Some l))
      \<or> (\<exists>t. ideal_acquire k (ttl_millis ttl) now (leases_of (view s)) = Some (t, leases_of (view s'))
           \<and> (\<forall>l. result = Inr (Some l) \<longrightarrow> l = \<lparr> rl_key = redis_lease_key k, rl_token = t \<rparr>))"
proof -
  let ?script = "acquireLease_script R now (redis_lease_key k) sequence_key (ttl_millis ttl) s"
  have "leases_ok (view s') \<and> (s' = s \<and> \<not> (\<exists>l. result = Inr (Some l))
      \<or> (\<exists>t. ideal_acquire k (ttl_millis ttl) now (leases_of (view s)) = Some (t, leases_of (view s'))
           \<and> (\<forall>l. result = Inr (Some l) \<longrightarrow> l = \<lparr> rl_key = redis_lease_key k, rl_token = t \<rparr>)))"
  proof (cases "ttl \<le> 0 \<or> luck = LostRequest \<or> ?script = None")
    case True
    then show ?thesis using assms(2,3) by (auto simp: Redis_Acquire_def Let_def split: if_splits)
  next
    case False
    then obtain token s1 where script: "?script = Some (token, s1)" by auto
    have same: "s1 = s'" "token = 0 \<longrightarrow> \<not> (\<exists>l. result = Inr (Some l))"
        "result = Inr (Some l) \<Longrightarrow> l = \<lparr> rl_key = redis_lease_key k, rl_token = token \<rparr>" for l
      using False assms(3) script by (auto simp: Redis_Acquire_def Let_def split: if_splits)
    from acquireLease_script_refines [OF assms(1,2) ttl_millis_pos script] show ?thesis using same assms(2) by auto
  qed
  then show "leases_ok (view s')" "s' = s \<and> \<not> (\<exists>l. result = Inr (Some l))
      \<or> (\<exists>t. ideal_acquire k (ttl_millis ttl) now (leases_of (view s)) = Some (t, leases_of (view s'))
           \<and> (\<forall>l. result = Inr (Some l) \<longrightarrow> l = \<lparr> rl_key = redis_lease_key k, rl_token = t \<rparr>))" by blast+
qed

lemma Redis_Renew_refines:
  assumes "redis_laws R view" and "leases_ok (view s)" and "Redis_Renew R luck \<lparr> rl_key = redis_lease_key k, rl_token = t \<rparr> ttl now s = (result, s')"
  shows "leases_ok (view s')"
    and "s' = s \<and> result \<noteq> None
      \<or> (\<exists>b. ideal_renew k t (ttl_millis ttl) now (leases_of (view s)) = (b, leases_of (view s')) \<and> (result = None \<longrightarrow> b))"
proof -
  obtain n s1 where script: "renewLease_script R now (redis_lease_key k) (Itoa t) (ttl_millis ttl) s = (n, s1)" by fastforce
  note refined = renewLease_script_refines [OF assms(1,2) ttl_millis_pos script]
  have "s' = s \<and> result \<noteq> None \<or> s' = s1 \<and> (result = None \<longrightarrow> n = 1)"
    using assms(3) script by (auto simp: Redis_Renew_def split: if_splits)
  then show "leases_ok (view s')" "s' = s \<and> result \<noteq> None
      \<or> (\<exists>b. ideal_renew k t (ttl_millis ttl) now (leases_of (view s)) = (b, leases_of (view s')) \<and> (result = None \<longrightarrow> b))"
    using refined assms(2) by auto
qed

lemma Redis_Release_refines:
  assumes "redis_laws R view" and "leases_ok (view s)" and "Redis_Release R luck \<lparr> rl_key = redis_lease_key k, rl_token = t \<rparr> now s = (result, s')"
  shows "leases_ok (view s')" and "leases_of (view s') \<in> {leases_of (view s), ideal_release k t (leases_of (view s))}"
proof -
  obtain n s1 where script: "releaseLease_script R now (redis_lease_key k) (Itoa t) s = (n, s1)" by fastforce
  have "s' = s \<or> s' = s1" using assms(3) script by (auto simp: Redis_Release_def split: if_splits)
  then show "leases_ok (view s')" "leases_of (view s') \<in> {leases_of (view s), ideal_release k t (leases_of (view s))}"
    using releaseLease_script_refines [OF assms(1,2) script] assms(2) by auto
qed

text \<open>
  Everything clients may do; \<open>redis_peaceful\<close> are the steps that leave the holder of token \<open>t\<close> on \<open>k\<close> alone until
  \<open>until\<close>, as in the contract.
\<close>

inductive redis_step :: "'s redis \<Rightarrow> 's \<Rightarrow> 's \<Rightarrow> bool" for R where
  acquired: "Redis_Acquire R luck k ttl now s = (result, s') \<Longrightarrow> redis_step R s s'"
| renewed: "Redis_Renew R luck \<lparr> rl_key = redis_lease_key k, rl_token = t \<rparr> ttl now s = (result', s') \<Longrightarrow> redis_step R s s'"
| released: "Redis_Release R luck \<lparr> rl_key = redis_lease_key k, rl_token = t \<rparr> now s = (result', s') \<Longrightarrow> redis_step R s s'"

inductive redis_peaceful :: "'s redis \<Rightarrow> string \<Rightarrow> int \<Rightarrow> time \<Rightarrow> 's \<Rightarrow> 's \<Rightarrow> bool" for R k t until where
  acquired: "now < until \<Longrightarrow> Redis_Acquire R luck k' ttl now s = (result, s') \<Longrightarrow> redis_peaceful R k t until s s'"
| renewed: "now < until \<Longrightarrow> Redis_Renew R luck \<lparr> rl_key = redis_lease_key k', rl_token = t' \<rparr> ttl now s = (result', s') \<Longrightarrow>
    (k' = k \<and> t' = t \<longrightarrow> until \<le> now + ttl_millis ttl) \<Longrightarrow> redis_peaceful R k t until s s'"
| released: "k' \<noteq> k \<or> t' \<noteq> t \<Longrightarrow> Redis_Release R luck \<lparr> rl_key = redis_lease_key k', rl_token = t' \<rparr> now s = (result', s') \<Longrightarrow>
    redis_peaceful R k t until s s'"

lemma redis_step_refines:
  assumes "redis_step R s s'" and "redis_laws R view" and "leases_ok (view s)"
  shows "leases_ok (view s') \<and> (\<lambda>x x'. \<exists>now. ideal.lease_step now x x')\<^sup>=\<^sup>= (leases_of (view s)) (leases_of (view s'))"
  using assms(1)
proof cases
  case (acquired luck k ttl now result)
  from Redis_Acquire_refines [OF assms(2,3) acquired] show ?thesis by (auto intro: ideal.lease_step.acquired)
next
  case (renewed luck k t ttl now result')
  from Redis_Renew_refines [OF assms(2,3) renewed] show ?thesis by (auto intro: ideal.lease_step.renewed)
next
  case (released luck k t now result')
  have "ideal.lease_step now (leases_of (view s)) (ideal_release k t (leases_of (view s)))" by (rule ideal.lease_step.released)
  then show ?thesis using Redis_Release_refines [OF assms(2,3) released] by auto
qed

lemma redis_peaceful_refines:
  assumes "redis_peaceful R k t until s s'" and "redis_laws R view" and "leases_ok (view s)"
  shows "leases_ok (view s') \<and> (ideal.peaceful k t until)\<^sup>=\<^sup>= (leases_of (view s)) (leases_of (view s'))"
  using assms(1)
proof cases
  case (acquired now luck k' ttl result)
  from Redis_Acquire_refines [OF assms(2,3) acquired(2)] show ?thesis using acquired(1) by (auto intro: ideal.peaceful.acquired)
next
  case (renewed now luck k' t' ttl result')
  from Redis_Renew_refines [OF assms(2,3) renewed(2)] show ?thesis using renewed(1,3) by (auto intro: ideal.peaceful.renewed)
next
  case (released k' t' luck now result')
  have "ideal.peaceful k t until (leases_of (view s)) (ideal_release k' t' (leases_of (view s)))"
    using released(1) by (rule ideal.peaceful.released)
  then show ?thesis using Redis_Release_refines [OF assms(2,3) released(2)] by auto
qed

lemma redis_steps_refine:
  assumes "(redis_step R)\<^sup>*\<^sup>* s s'" and "redis_laws R view" and "leases_ok (view s)"
  shows "leases_ok (view s') \<and> (\<lambda>x x'. \<exists>now. ideal.lease_step now x x')\<^sup>*\<^sup>* (leases_of (view s)) (leases_of (view s'))"
  using assms(1)
proof (induction rule: rtranclp_induct)
  case (step s1 s2)
  from redis_step_refines [OF step(2) assms(2)] step(3) show ?case by (auto intro: rtranclp.rtrancl_into_rtrancl)
qed (simp add: assms(3))

lemma redis_peace_refines:
  assumes "(redis_peaceful R k t until)\<^sup>*\<^sup>* s s'" and "redis_laws R view" and "leases_ok (view s)"
  shows "leases_ok (view s') \<and> (ideal.peaceful k t until)\<^sup>*\<^sup>* (leases_of (view s)) (leases_of (view s'))"
  using assms(1)
proof (induction rule: rtranclp_induct)
  case (step s1 s2)
  from redis_peaceful_refines [OF step(2) assms(2)] step(3) show ?case by (auto intro: rtranclp.rtrancl_into_rtrancl)
qed (simp add: assms(3))

lemma Redis_granted:
  assumes "redis_laws R view" and "leases_ok (view s)" and "Redis_Acquire R luck k ttl now s = (Inr (Some l), s')"
  shows "ideal_acquire k (ttl_millis ttl) now (leases_of (view s)) = Some (rl_token l, leases_of (view s'))" "leases_ok (view s')"
  using Redis_Acquire_refines [OF assms] by auto

section \<open>Properties\<close>

text \<open>
  C22: The leases in Redis exclude each other. On a server that keeps to the documented meaning of its commands, once a
  lease on a key is granted no other acquisition of the key is granted before its time to live, in
  milliseconds, has passed, whatever other clients do and whichever of their calls or answers are lost, provided the
  holder does not release the lease and renews it to no earlier time; and a lease granted after any calls of any clients
  carries a larger fencing token.
\<close>

theorem redis_leases_exclusive:
  assumes "redis_laws R view" and "leases_ok (view s)" and "Redis_Acquire R luck k ttl now s = (Inr (Some l), s1)"
  shows "((redis_peaceful R k (rl_token l) (now + ttl_millis ttl))\<^sup>*\<^sup>* s1 s2 \<and> now' < now + ttl_millis ttl \<longrightarrow>
      (\<forall>l'. fst (Redis_Acquire R luck' k ttl' now' s2) \<noteq> Inr (Some l')))
    \<and> ((redis_step R)\<^sup>*\<^sup>* s1 s2 \<and> fst (Redis_Acquire R luck' k' ttl' now' s2) = Inr (Some l') \<longrightarrow> rl_token l < rl_token l')"
proof -
  note granted = Redis_granted [OF assms]
  have "fst (Redis_Acquire R luck' k ttl' now' s2) \<noteq> Inr (Some l')"
    if peace: "(redis_peaceful R k (rl_token l) (now + ttl_millis ttl))\<^sup>*\<^sup>* s1 s2" "now' < now + ttl_millis ttl" for l'
  proof
    assume again: "fst (Redis_Acquire R luck' k ttl' now' s2) = Inr (Some l')"
    have "leases_ok (view s2)" and ideal: "(ideal.peaceful k (rl_token l) (now + ttl_millis ttl))\<^sup>*\<^sup>* (leases_of (view s1)) (leases_of (view s2))"
      using redis_peace_refines [OF peace(1) assms(1) granted(2)] by auto
    then have "ideal_acquire k (ttl_millis ttl') now' (leases_of (view s2)) \<noteq> None"
      using Redis_granted [OF assms(1), of s2 luck' k ttl' now' l'] again by (cases "Redis_Acquire R luck' k ttl' now' s2") auto
    then show False using ideal.exclusion [OF granted(1) ideal peace(2)] by simp
  qed
  moreover have "rl_token l < rl_token l'"
    if steps: "(redis_step R)\<^sup>*\<^sup>* s1 s2" "fst (Redis_Acquire R luck' k' ttl' now' s2) = Inr (Some l')"
  proof -
    obtain s3 where again: "Redis_Acquire R luck' k' ttl' now' s2 = (Inr (Some l'), s3)" using steps(2) by (metis surjective_pairing)
    have "leases_ok (view s2)" and ideal: "(\<lambda>x x'. \<exists>now. ideal.lease_step now x x')\<^sup>*\<^sup>* (leases_of (view s1)) (leases_of (view s2))"
      using redis_steps_refine [OF steps(1) assms(1) granted(2)] by auto
    then show ?thesis using ideal.tokens_increase [OF granted(1) ideal] Redis_granted(1) [OF assms(1) _ again] by blast
  qed
  ultimately show ?thesis by blast
qed

section \<open>A concrete server\<close>

definition sample_redis :: "(string, string \<times> time option) gomap redis" where
  "sample_redis = \<lparr>
     rd_EXISTS = (\<lambda>now k s. alive now (get s k) \<noteq> None),
     rd_GET = (\<lambda>now k s. alive now (get s k)),
     rd_SET = (\<lambda>now k v ttl s. put k (v, if ttl = 0 then None else Some (now + ttl)) s),
     rd_INCR = (\<lambda>now k s. case get s k of
         None \<Rightarrow> Some (1, put k (Itoa 1, None) s)
       | Some (v, e) \<Rightarrow> (case ParseInt v of
             None \<Rightarrow> None
           | Some n \<Rightarrow> if n = max_int64 then None else Some (n + 1, put k (Itoa (n + 1), e) s))),
     rd_PSETEX = (\<lambda>now k ms v s. put k (v, Some (now + ms)) s),
     rd_DEL = (\<lambda>now k s. if alive now (get s k) = None then (0, s) else (1, del k s)),
     rd_PEXPIRE = (\<lambda>now k ms s. case alive now (get s k) of None \<Rightarrow> (0, s) | Some v \<Rightarrow> (1, put k (v, Some (now + ms)) s)) \<rparr>"

lemma sample_redis_laws: "redis_laws sample_redis get"
proof -
  have "redis_counts sample_redis get"
    unfolding redis_counts_def
    by (auto simp: sample_redis_def ParseInt_Itoa fun_eq_iff) (simp_all add: ParseInt_Itoa min_int64_def max_int64_def)
  then show ?thesis by (auto simp: redis_laws_def redis_reads_def redis_writes_def sample_redis_def fun_eq_iff)
qed

definition sample_granted :: "(string, string \<times> time option) gomap" where
  "sample_granted = snd (Redis_Acquire sample_redis Delivered ''run:r1'' (20 * Millisecond) 10 [])"

lemma sample_grant:
  "Redis_Acquire sample_redis Delivered ''run:r1'' (20 * Millisecond) 10 [] = (Inr (Some \<lparr> rl_key = redis_lease_key ''run:r1'', rl_token = 1 \<rparr>), sample_granted)"
  by code_simp

text \<open>The answer to another client is lost, and the key is still taken.\<close>

theorem redis_leases_exclusive_witness:
  "\<forall>l'. fst (Redis_Acquire sample_redis Delivered ''run:r1'' (20 * Millisecond) 25
     (snd (Redis_Acquire sample_redis LostReply ''run:r2'' (20 * Millisecond) 12 sample_granted))) \<noteq> Inr (Some l')"
proof -
  have millis: "ttl_millis (20 * Millisecond) = 20" by code_simp
  have ok: "leases_ok (get [])" by (simp add: leases_ok_def)
  have peace: "redis_peaceful sample_redis ''run:r1'' 1 (10 + 20) sample_granted
      (snd (Redis_Acquire sample_redis LostReply ''run:r2'' (20 * Millisecond) 12 sample_granted))"
    by (rule redis_peaceful.acquired [of 12 _ _ LostReply "''run:r2''" "20 * Millisecond" _ "fst (Redis_Acquire sample_redis LostReply ''run:r2'' (20 * Millisecond) 12 sample_granted)"])
      simp_all
  have "(25::int) < 10 + 20" by simp
  with r_into_rtranclp [of "redis_peaceful sample_redis ''run:r1'' 1 (10 + 20)", OF peace] show ?thesis
    using redis_leases_exclusive [OF sample_redis_laws ok sample_grant, unfolded millis redisLease.select_convs] by blast
qed

end
