(* ===== verification/Queue_Nats.thy ===== *)
theory Queue_Nats
  imports Queue_Memory
begin

text \<open>
  \<^verbatim>\<open>internal/queue/nats.go\<close>: the Run queue on a JetStream stream with one durable consumer. The JetStream server is an
  argument, its operations on a state that is not looked into; what is relied on is its documented behaviour for the
  configuration the code asks for, \<open>jetstream_laws\<close>. A message stays due until a handler returned without error, for seven
  days; the identifier of a message keeps the same Run out of the stream for ten minutes.
\<close>

section \<open>Configuration\<close>

definition minutes :: "int \<Rightarrow> duration" where
  "minutes n = n * 60 * 1000000000"

record StreamConfig =
  jc_Name :: string
  jc_Subjects :: "string list"
  jc_MaxAge :: duration
  jc_Duplicates :: duration

record ConsumerConfig =
  jk_Durable :: string
  jk_AckWait :: duration
  jk_MaxDeliver :: int
  jk_FilterSubject :: string

record NatsQueue =
  nq_stream :: StreamConfig
  nq_consumer :: ConsumerConfig

definition executeSubject :: string where
  "executeSubject = ''agentmesh.runs.execute''"

definition dlqSubject :: string where
  "dlqSubject = ''agentmesh.runs.dlq''"

definition runs_stream :: StreamConfig where
  "runs_stream = \<lparr> jc_Name = ''AGENTMESH_RUNS'', jc_Subjects = [executeSubject, dlqSubject],
     jc_MaxAge = minutes (7 * 24 * 60), jc_Duplicates = minutes 10 \<rparr>"

definition runs_consumer :: "duration \<Rightarrow> ConsumerConfig" where
  "runs_consumer ackWait = \<lparr> jk_Durable = ''agentmesh-workers'', jk_AckWait = ackWait, jk_MaxDeliver = - 1,
     jk_FilterSubject = executeSubject \<rparr>"

text \<open>Which of the calls that set the queue up succeed.\<close>

record QueueSetup =
  qs_connects :: bool
  qs_client :: bool
  qs_stream :: bool
  qs_consumer :: bool

datatype nats_queue_error =
    ConnectFailed | JetStreamClientFailed | ConfigureStreamFailed | ConfigureConsumerFailed
  | PublishRunFailed | EncodeDeadLetterFailed | PublishDeadLetterFailed

definition NewQueueNATS :: "QueueSetup \<Rightarrow> duration \<Rightarrow> nats_queue_error + NatsQueue" where
  "NewQueueNATS calls ackWait =
     (if \<not> qs_connects calls then Inl ConnectFailed
      else if \<not> qs_client calls then Inl JetStreamClientFailed
      else if \<not> qs_stream calls then Inl ConfigureStreamFailed
      else if \<not> qs_consumer calls then Inl ConfigureConsumerFailed
      else Inr \<lparr> nq_stream = runs_stream, nq_consumer = runs_consumer ackWait \<rparr>)"

section \<open>The server\<close>

record JetMsg =
  jm_Seq :: nat
  jm_Subject :: string
  jm_MsgID :: string
  jm_Data :: string
  jm_At :: time

text \<open>
  Publishing with a message identifier, the two answers of a consumer to a message, and the passage of time, at which the
  server drops what is older than the maximal age. The log of the messages ever stored and the numbers of those the consumer
  still has to deliver or to have acknowledged describe the state.
\<close>

record 's jetstream =
  js_publish :: "time \<Rightarrow> string \<Rightarrow> string \<Rightarrow> string \<Rightarrow> 's \<Rightarrow> 's"
  js_ack :: "nat \<Rightarrow> 's \<Rightarrow> 's"
  js_nak :: "nat \<Rightarrow> duration \<Rightarrow> 's \<Rightarrow> 's"
  js_expire :: "time \<Rightarrow> 's \<Rightarrow> 's"
  js_log :: "'s \<Rightarrow> JetMsg list"
  js_due :: "'s \<Rightarrow> nat list"

definition duplicate :: "'s jetstream \<Rightarrow> NatsQueue \<Rightarrow> time \<Rightarrow> string \<Rightarrow> 's \<Rightarrow> bool" where
  "duplicate J q now msgID s \<longleftrightarrow>
     msgID \<noteq> '''' \<and> (\<exists>m \<in> set (js_log J s). jm_MsgID m = msgID \<and> now - jm_At m < jc_Duplicates (nq_stream q))"

text \<open>A message the server accepts as new gets a fresh number; it is due when it has the subject of the consumer.\<close>

definition publish_law :: "'s jetstream \<Rightarrow> NatsQueue \<Rightarrow> bool" where
  "publish_law J q \<longleftrightarrow> (\<forall>now subject payload msgID s.
     if duplicate J q now msgID s then js_publish J now subject payload msgID s = s
     else \<exists>n. n \<notin> jm_Seq ` set (js_log J s) \<union> set (js_due J s)
       \<and> js_log J (js_publish J now subject payload msgID s) = js_log J s @
           [\<lparr> jm_Seq = n, jm_Subject = subject, jm_MsgID = msgID, jm_Data = payload, jm_At = now \<rparr>]
       \<and> set (js_due J (js_publish J now subject payload msgID s)) =
           set (js_due J s) \<union> (if subject = jk_FilterSubject (nq_consumer q) then {n} else {}))"

definition answer_laws :: "'s jetstream \<Rightarrow> bool" where
  "answer_laws J \<longleftrightarrow> (\<forall>n s. js_log J (js_ack J n s) = js_log J s \<and> set (js_due J (js_ack J n s)) = set (js_due J s) - {n})
   \<and> (\<forall>n delay s. js_log J (js_nak J n delay s) = js_log J s \<and> set (js_due J (js_nak J n delay s)) = set (js_due J s))"

definition expiry_law :: "'s jetstream \<Rightarrow> NatsQueue \<Rightarrow> bool" where
  "expiry_law J q \<longleftrightarrow> (\<forall>now s. js_log J (js_expire J now s) = js_log J s
     \<and> set (js_due J (js_expire J now s)) \<subseteq> set (js_due J s)
     \<and> (\<forall>m \<in> set (js_log J s). jm_Seq m \<in> set (js_due J s) \<and> now - jm_At m < jc_MaxAge (nq_stream q) \<longrightarrow>
          jm_Seq m \<in> set (js_due J (js_expire J now s))))"

definition jetstream_laws :: "'s jetstream \<Rightarrow> NatsQueue \<Rightarrow> bool" where
  "jetstream_laws J q \<longleftrightarrow> publish_law J q \<and> answer_laws J \<and> expiry_law J q"

section \<open>Operations\<close>

text \<open>Whether a request reaches the server and whether its answer comes back.\<close>

record NetLuck =
  nw_reaches :: bool
  nw_answered :: bool

definition Nats_Enqueue :: "'s jetstream \<Rightarrow> NetLuck \<Rightarrow> time \<Rightarrow> string \<Rightarrow> 's \<Rightarrow> nats_queue_error option \<times> 's" where
  "Nats_Enqueue J luck now runID s =
     (let s = (if nw_reaches luck then js_publish J now executeSubject runID runID s else s)
      in (if nw_reaches luck \<and> nw_answered luck then None else Some PublishRunFailed, s))"

text \<open>
  The callback of \<^verbatim>\<open>Consume\<close> for the delivered message \<^verbatim>\<open>n\<close>: \<^verbatim>\<open>stopped\<close> when the context is done before a worker is
  free; otherwise the handler has run, with or without an error, and its answer is sent, which may get lost.
\<close>

definition nats_turn :: "'s jetstream \<Rightarrow> bool \<Rightarrow> bool \<Rightarrow> bool \<Rightarrow> nat \<Rightarrow> 's \<Rightarrow> 's" where
  "nats_turn J stopped handler_failed reaches n s =
     (if stopped then s
      else if handler_failed then (if reaches then js_nak J n 1000000000 s else s)
      else if reaches then js_ack J n s else s)"

text \<open>The JSON text of the dead letter is an argument; encoding it may fail.\<close>

definition Nats_DeadLetter ::
  "'s jetstream \<Rightarrow> NetLuck \<Rightarrow> (DeadLetter \<Rightarrow> string option) \<Rightarrow> time \<Rightarrow> string \<Rightarrow> string \<Rightarrow> 's \<Rightarrow> nats_queue_error option \<times> 's" where
  "Nats_DeadLetter J luck encode now runID cause s =
     (case encode \<lparr> dl_RunID = runID, dl_Cause = cause, dl_At = now \<rparr> of
        None \<Rightarrow> (Some EncodeDeadLetterFailed, s)
      | Some payload \<Rightarrow>
          let s = (if nw_reaches luck then js_publish J now dlqSubject payload (''dlq-'' @ runID) s else s)
          in (if nw_reaches luck \<and> nw_answered luck then None else Some PublishDeadLetterFailed, s))"

section \<open>Delivery\<close>

datatype nats_op =
    NEnqueue NetLuck time string
  | NDeadLetter NetLuck "DeadLetter \<Rightarrow> string option" time string string
  | NTurn bool bool bool nat
  | NPass time

fun nats_exec :: "'s jetstream \<Rightarrow> nats_op \<Rightarrow> 's \<Rightarrow> 's" where
  "nats_exec J (NEnqueue luck now runID) s = snd (Nats_Enqueue J luck now runID s)"
| "nats_exec J (NDeadLetter luck encode now runID cause) s = snd (Nats_DeadLetter J luck encode now runID cause s)"
| "nats_exec J (NTurn stopped handler_failed reaches n) s = nats_turn J stopped handler_failed reaches n s"
| "nats_exec J (NPass now) s = js_expire J now s"

text \<open>The one answer that takes a message off: its handler returned without error and the server heard of it.\<close>

definition settles :: "nat \<Rightarrow> nats_op \<Rightarrow> bool" where
  "settles n op \<longleftrightarrow> op = NTurn False False True n"

lemma publish_grows:
  assumes "publish_law J q"
  shows "set (js_log J s) \<subseteq> set (js_log J (js_publish J now subject payload msgID s))"
    and "set (js_due J s) \<subseteq> set (js_due J (js_publish J now subject payload msgID s))"
  using assms [unfolded publish_law_def, rule_format, of now msgID s subject payload]
  by (auto split: if_splits)

lemma publish_duplicate: "publish_law J q \<Longrightarrow> duplicate J q now msgID s \<Longrightarrow> js_publish J now subject payload msgID s = s"
  by (simp add: publish_law_def)

lemma publish_new:
  assumes "publish_law J q" and "\<not> duplicate J q now msgID s"
  obtains n where "n \<notin> set (js_due J s)"
    "js_log J (js_publish J now subject payload msgID s) = js_log J s @
       [\<lparr> jm_Seq = n, jm_Subject = subject, jm_MsgID = msgID, jm_Data = payload, jm_At = now \<rparr>]"
    "set (js_due J (js_publish J now subject payload msgID s)) =
       set (js_due J s) \<union> (if subject = jk_FilterSubject (nq_consumer q) then {n} else {})"
  using assms(1) [unfolded publish_law_def, rule_format, of now msgID s subject payload] assms(2) by auto

lemma answers_keep:
  assumes "answer_laws J"
  shows "js_log J (nats_turn J stopped failed reaches n s) = js_log J s"
    and "k \<in> set (js_due J s) \<Longrightarrow> \<not> settles k (NTurn stopped failed reaches n) \<Longrightarrow>
      k \<in> set (js_due J (nats_turn J stopped failed reaches n s))"
  using assms by (auto simp: nats_turn_def answer_laws_def settles_def)

lemma due_kept:
  assumes laws: "jetstream_laws J q" and m: "m \<in> set (js_log J s)" "jm_Seq m \<in> set (js_due J s)"
    and op: "\<not> settles (jm_Seq m) op" "\<forall>t. op = NPass t \<longrightarrow> t - jm_At m < jc_MaxAge (nq_stream q)"
  shows "m \<in> set (js_log J (nats_exec J op s)) \<and> jm_Seq m \<in> set (js_due J (nats_exec J op s))"
proof -
  have P: "publish_law J q" and A: "answer_laws J" and E: "expiry_law J q"
    using laws by (simp_all add: jetstream_laws_def)
  show ?thesis
  proof (cases op)
    case (NEnqueue luck now runID)
    then show ?thesis using m subsetD [OF publish_grows(1) [OF P]] subsetD [OF publish_grows(2) [OF P]]
      by (simp add: Nats_Enqueue_def Let_def)
  next
    case (NDeadLetter luck encode now runID cause)
    then show ?thesis using m subsetD [OF publish_grows(1) [OF P]] subsetD [OF publish_grows(2) [OF P]]
      by (simp add: Nats_DeadLetter_def Let_def split: option.splits)
  next
    case (NTurn stopped failed reaches n)
    then show ?thesis using m op(1) answers_keep [OF A] by simp
  next
    case (NPass now)
    then show ?thesis using m op(2) E [unfolded expiry_law_def, rule_format, of now s] by simp
  qed
qed

lemma due_kept_fold:
  assumes "jetstream_laws J q" and "m \<in> set (js_log J s)" and "jm_Seq m \<in> set (js_due J s)"
    and "\<forall>op \<in> set ops. \<not> settles (jm_Seq m) op \<and> (\<forall>t. op = NPass t \<longrightarrow> t - jm_At m < jc_MaxAge (nq_stream q))"
  shows "jm_Seq m \<in> set (js_due J (fold (nats_exec J) ops s))"
  using assms(2-)
proof (induction ops arbitrary: s)
  case (Cons op ops)
  then show ?case using due_kept [OF assms(1), of m s op] by simp
qed simp

lemma NewQueueNATS_Inr:
  "NewQueueNATS calls ackWait = Inr q \<Longrightarrow> nq_stream q = runs_stream \<and> nq_consumer q = runs_consumer ackWait"
  by (auto simp: NewQueueNATS_def split: if_splits)


text \<open>
  Enqueueing the same Run again within ten minutes reports success and does nothing, even when the first message has been
  acknowledged and no message of the Run is due any more.
\<close>

lemma enqueue_again_dropped:
  assumes "NewQueueNATS calls ackWait = Inr q" and "jetstream_laws J q" and "runID \<noteq> ''''"
    and "m \<in> set (js_log J s)" and "jm_MsgID m = runID" and "now < jm_At m + minutes 10"
    and "nw_reaches luck" and "nw_answered luck"
  shows "Nats_Enqueue J luck now runID s = (None, s)"
proof -
  have "duplicate J q now runID s"
    using assms(3-6) NewQueueNATS_Inr [OF assms(1)] by (auto simp: duplicate_def runs_stream_def)
  then show ?thesis
    using assms(2,7,8) publish_duplicate [of J q now runID s] by (simp add: Nats_Enqueue_def jetstream_laws_def)
qed

text \<open>A server that obeys the laws: the log, and the numbers of the messages that are due.\<close>

definition fresh_seq :: "JetMsg list \<times> nat list \<Rightarrow> nat" where
  "fresh_seq s = Suc (sum_list (map jm_Seq (fst s) @ snd s))"

definition sample_published :: "time \<Rightarrow> string \<Rightarrow> string \<Rightarrow> string \<Rightarrow> JetMsg list \<times> nat list \<Rightarrow> JetMsg list \<times> nat list" where
  "sample_published now subject payload msgID s =
     (if msgID \<noteq> '''' \<and> (\<exists>m \<in> set (fst s). jm_MsgID m = msgID \<and> now - jm_At m < minutes 10) then s
      else let n = fresh_seq s in
        (fst s @ [\<lparr> jm_Seq = n, jm_Subject = subject, jm_MsgID = msgID, jm_Data = payload, jm_At = now \<rparr>],
         if subject = executeSubject then snd s @ [n] else snd s))"

definition sample_jetstream :: "(JetMsg list \<times> nat list) jetstream" where
  "sample_jetstream = \<lparr> js_publish = sample_published, js_ack = (\<lambda>n s. (fst s, filter (\<lambda>k. k \<noteq> n) (snd s))), js_nak = (\<lambda>n delay s. s),
     js_expire = (\<lambda>now s. (fst s, filter (\<lambda>k. \<exists>m \<in> set (fst s). jm_Seq m = k \<and> now - jm_At m < minutes (7 * 24 * 60)) (snd s))),
     js_log = fst, js_due = snd \<rparr>"

definition sample_queue :: NatsQueue where
  "sample_queue = \<lparr> nq_stream = runs_stream, nq_consumer = runs_consumer 30 \<rparr>"

lemma fresh_seq_new: "fresh_seq s \<notin> jm_Seq ` set (fst s) \<union> set (snd s)"
proof
  assume "fresh_seq s \<in> jm_Seq ` set (fst s) \<union> set (snd s)"
  then have "fresh_seq s \<le> sum_list (map jm_Seq (fst s) @ snd s)" by (intro member_le_sum_list) auto
  then show False by (simp add: fresh_seq_def)
qed

lemma sample_duplicate:
  "duplicate sample_jetstream sample_queue now msgID s \<longleftrightarrow>
     msgID \<noteq> '''' \<and> (\<exists>m \<in> set (fst s). jm_MsgID m = msgID \<and> now - jm_At m < minutes 10)"
  by (simp add: duplicate_def sample_jetstream_def sample_queue_def runs_stream_def)

lemma sample_publish_law: "publish_law sample_jetstream sample_queue"
  unfolding publish_law_def sample_duplicate
proof (intro allI)
  fix now subject payload msgID and s :: "JetMsg list \<times> nat list"
  show "if msgID \<noteq> '''' \<and> (\<exists>m \<in> set (fst s). jm_MsgID m = msgID \<and> now - jm_At m < minutes 10)
        then js_publish sample_jetstream now subject payload msgID s = s
        else \<exists>n. n \<notin> jm_Seq ` set (js_log sample_jetstream s) \<union> set (js_due sample_jetstream s)
          \<and> js_log sample_jetstream (js_publish sample_jetstream now subject payload msgID s) = js_log sample_jetstream s @
              [\<lparr> jm_Seq = n, jm_Subject = subject, jm_MsgID = msgID, jm_Data = payload, jm_At = now \<rparr>]
          \<and> set (js_due sample_jetstream (js_publish sample_jetstream now subject payload msgID s)) =
              set (js_due sample_jetstream s) \<union> (if subject = jk_FilterSubject (nq_consumer sample_queue) then {n} else {})"
    using fresh_seq_new [of s]
    by (simp add: sample_jetstream_def sample_published_def sample_queue_def runs_consumer_def Let_def)
qed

lemma sample_jetstream_laws: "jetstream_laws sample_jetstream sample_queue"
  unfolding jetstream_laws_def
proof (intro conjI)
  show "answer_laws sample_jetstream" by (auto simp: answer_laws_def sample_jetstream_def)
  show "expiry_law sample_jetstream sample_queue"
    by (auto simp: expiry_law_def sample_jetstream_def sample_queue_def runs_stream_def)
qed (rule sample_publish_law)

definition sample_setup :: QueueSetup where
  "sample_setup = \<lparr> qs_connects = True, qs_client = True, qs_stream = True, qs_consumer = True \<rparr>"


end
