(* ===== verification/Events_Nats.thy ===== *)
theory Events_Nats
  imports Events_Bus Store_Runs
begin

text \<open>
  \<^verbatim>\<open>internal/events/nats.go\<close>: the broker of Run events of a process that shares them with others over NATS and keeps their
  history in the repository, here the in-memory one. Whether the calls of the connection and of the repository succeed and the
  JSON coding of events are arguments. Messages reach every process but the one that sent them, at most once each, in some
  order: a process makes one \<^verbatim>\<open>nats_receive\<close> step for each that arrives.
\<close>

section \<open>The broker\<close>

record NatsBus =
  nb_local :: Bus
  nb_persistent :: bool  \<comment> \<open>\<^verbatim>\<open>history\<close> is not nil\<close>
  nb_retention :: duration
  nb_limit :: int

datatype nats_bus_error =
    HistoryRequired | RetentionNotPositive | LimitNotPositive
  | ConnectEventsFailed | SubscribeEventsFailed | InitializeEventsFailed

text \<open>What opening the connection meets: each of its three calls may fail.\<close>

record NatsSetup =
  ns_connects :: bool
  ns_subscribes :: bool
  ns_flushes :: bool

definition newNATS :: "NatsSetup \<Rightarrow> bool \<Rightarrow> duration \<Rightarrow> int \<Rightarrow> nats_bus_error + NatsBus" where
  "newNATS conn persistent retention limit =
     (if \<not> ns_connects conn then Inl ConnectEventsFailed
      else if \<not> ns_subscribes conn then Inl SubscribeEventsFailed
      else if \<not> ns_flushes conn then Inl InitializeEventsFailed
      else Inr \<lparr> nb_local = NewBusWithHistoryLimit limit, nb_persistent = persistent,
                 nb_retention = retention, nb_limit = limit \<rparr>)"

definition NewNATS :: "NatsSetup \<Rightarrow> nats_bus_error + NatsBus" where
  "NewNATS conn = newNATS conn False 0 128"

definition NewPersistentNATS :: "NatsSetup \<Rightarrow> bool \<Rightarrow> duration \<Rightarrow> int \<Rightarrow> nats_bus_error + NatsBus" where
  "NewPersistentNATS conn history_given retention limit =
     (if \<not> history_given then Inl HistoryRequired
      else if retention \<le> 0 then Inl RetentionNotPositive
      else if limit < 1 then Inl LimitNotPositive
      else newNATS conn True retention limit)"

text \<open>
  What one publication meets: whether the repository answers in time, the encoder of events (\<^const>\<open>None\<close> for an error), and
  whether the connection takes the message.
\<close>

record NatsLuck =
  nl_store :: bool
  nl_encode :: "RunEvent \<Rightarrow> string option"
  nl_send :: bool

text \<open>The result has the broker, the repository and the payload sent to the other processes.\<close>

definition Nats_Publish ::
  "NatsLuck \<Rightarrow> time \<Rightarrow> string option \<Rightarrow> RunEvent \<Rightarrow> NatsBus \<Rightarrow> Memory \<Rightarrow> NatsBus \<times> Memory \<times> string option" where
  "Nats_Publish luck now random event b m =
     (let event = prepare now random event;
          m = (if nb_persistent b \<and> nl_store luck then
                 (case AppendRunEvent now event (nb_retention b) (nb_limit b) m of Inl _ \<Rightarrow> m | Inr m \<Rightarrow> m)
               else m);
          b = b\<lparr>nb_local := Publish now random event (nb_local b)\<rparr>
      in case nl_encode luck event of
           None \<Rightarrow> (b, m, None)
         | Some payload \<Rightarrow> (b, m, if nl_send luck then Some payload else None))"

definition Nats_Subscribe :: "bool \<Rightarrow> time \<Rightarrow> string option \<Rightarrow> string \<Rightarrow> NatsBus \<Rightarrow> Memory \<Rightarrow> nat \<times> NatsBus" where
  "Nats_Subscribe store_answers now random runID b m =
     (let local = (if nb_persistent b \<and> store_answers then
                     (case ListRunEvents runID (nb_limit b) m of
                        Inr persisted \<Rightarrow> SubscribeWithHistory now random runID persisted (nb_local b)
                      | Inl _ \<Rightarrow> Subscribe runID (nb_local b))
                   else Subscribe runID (nb_local b))
      in case local of (ch, bus) \<Rightarrow> (ch, b\<lparr>nb_local := bus\<rparr>))"

definition nats_receive :: "(string \<Rightarrow> RunEvent option) \<Rightarrow> time \<Rightarrow> string option \<Rightarrow> string \<Rightarrow> NatsBus \<Rightarrow> NatsBus" where
  "nats_receive decode now random payload b =
     (case decode payload of
        None \<Rightarrow> b
      | Some event \<Rightarrow>
          if e_RunID event = '''' \<or> e_Type event = '''' then b
          else b\<lparr>nb_local := Publish now random event (nb_local b)\<rparr>)"

section \<open>One process\<close>

text \<open>The broker of a process keeps the limit it was opened with, and its local history stays bounded and free of duplicates.\<close>

definition nats_inv :: "NatsBus \<Rightarrow> bool" where
  "nats_inv b \<longleftrightarrow> bus_inv (nb_local b) \<and> b_maxHistory (nb_local b) = nb_limit b"

lemma newNATS_inv: "newNATS conn persistent retention limit = Inr b \<Longrightarrow>
  nats_inv b \<and> nb_limit b = limit \<and> nb_persistent b = persistent \<and> nb_retention b = retention"
  using bus_inv_new [of limit] by (auto simp: newNATS_def nats_inv_def NewBusWithHistoryLimit_def split: if_splits)

lemma NewPersistentNATS_inv:
  "NewPersistentNATS conn given retention limit = Inr b \<Longrightarrow> nats_inv b \<and> nb_persistent b \<and> 0 < nb_limit b \<and> 0 < nb_retention b"
  using newNATS_inv [of conn True retention limit b] by (simp add: NewPersistentNATS_def split: if_splits)

lemma Publish_limit [simp]: "b_maxHistory (Publish now random event b) = b_maxHistory b"
  by (auto simp: Publish_eq Let_def split: option.splits)

lemma Nats_Publish_inv: "nats_inv b \<Longrightarrow> nats_inv (fst (Nats_Publish luck now random event b m))"
  by (auto simp: Nats_Publish_def nats_inv_def Let_def Publish_inv split: option.splits)

lemma nats_receive_inv: "nats_inv b \<Longrightarrow> nats_inv (nats_receive decode now random payload b)"
  by (auto simp: nats_receive_def nats_inv_def Publish_inv split: option.splits)

lemma subscribe_limit [simp]: "b_maxHistory (snd (subscribe now random k persisted b)) = b_maxHistory b"
  by (simp add: subscribe_def replaceHistory_def Let_def)

lemma Nats_Subscribe_subscribes:
  "\<exists>now random persisted. snd (Nats_Subscribe answers now' random' k b m) =
     b\<lparr>nb_local := snd (subscribe now random k persisted (nb_local b))\<rparr>"
  by (auto simp: Nats_Subscribe_def Subscribe_def SubscribeWithHistory_def Let_def case_prod_unfold split: sum.splits)

lemma Nats_Subscribe_inv: "nats_inv b \<Longrightarrow> nats_inv (snd (Nats_Subscribe answers now random k b m))"
  using Nats_Subscribe_subscribes [of answers now random k b m] subscribe_inv [of "nb_local b"]
  by (auto simp: nats_inv_def)

text \<open>A message that arrives again, as the same event published here, or replayed from the repository, changes nothing.\<close>

lemma prepare_makes_ready: "\<not> IsZero now \<Longrightarrow> ready_event (prepare now random event)"
  by (auto simp: prepare_def ready_event_def Let_def split: option.splits)

lemma prepare_run [simp]: "e_RunID (prepare now random event) = e_RunID event"
  by (simp add: prepare_def Let_def split: option.splits)

lemma nats_receive_seen:
  "decode payload = Some event \<Longrightarrow> ready_event event \<Longrightarrow> hasSeen event (nb_local b) \<Longrightarrow>
     nats_receive decode now random payload b = b"
  by (simp add: nats_receive_def Publish_def)

lemma recorded_seen: "b_maxHistory b \<noteq> 0 \<Longrightarrow> hasSeen event (recorded event b)"
  by (auto simp: recorded_def hasSeen_def remember_def replaceHistory_def trim_history_def Let_def)

lemma Publish_seen:
  assumes "ready_event event" and "b_maxHistory b \<noteq> 0"
  shows "hasSeen event (Publish now random event b)"
  using assms recorded_seen [of b event]
  by (auto simp: Publish_eq Let_def hasSeen_def split: option.splits)

lemma nats_receive_idem:
  assumes "decode payload = Some event" and "ready_event event" and "nats_inv b" and "nb_limit b \<noteq> 0"
  shows "nats_receive decode now' random' payload (nats_receive decode now random payload b) =
     nats_receive decode now random payload b"
proof (cases "e_RunID event = '''' \<or> e_Type event = ''''")
  case True
  then show ?thesis using assms(1) by (auto simp: nats_receive_def)
next
  case False
  then have "nats_receive decode now random payload b = b\<lparr>nb_local := Publish now random event (nb_local b)\<rparr>"
    using assms(1) by (simp add: nats_receive_def)
  moreover have "hasSeen event (Publish now random event (nb_local b))"
    using assms by (intro Publish_seen) (simp_all add: nats_inv_def)
  ultimately show ?thesis using nats_receive_seen [of decode payload event] assms(1,2) by simp
qed

section \<open>Between processes\<close>

lemma merge_events_known: "e_ID ` set es \<subseteq> e_ID ` set merged \<Longrightarrow> merge_events merged es = merged"
  by (induction es) auto

lemma map_prepare_ready: "\<forall>e \<in> set es. ready_event e \<Longrightarrow> map (prepare now random) es = es"
  by (simp add: map_idI)

text \<open>The channel of a new subscriber when all local events of the Run are among the persisted ones.\<close>

lemma Nats_Subscribe_replays:
  assumes list: "ListRunEvents k (nb_limit b) m = Inr es" and b: "nb_persistent b" "nats_inv b"
    and es: "\<forall>e \<in> set es. ready_event e" "distinct (map e_ID es)" "0 < nb_limit b \<Longrightarrow> int (length es) \<le> nb_limit b"
    and known: "e_ID ` set (get_or [] (b_history (nb_local b)) k) \<subseteq> e_ID ` set es" and pos: "0 < nb_limit b"
    and sub: "Nats_Subscribe True now random k b m = (ch, b')"
  shows "chan_of k ch (nb_local b') = Some \<lparr> ch_buffer = es, ch_cap = length es + 16 \<rparr>
    \<and> (\<forall>e \<in> set es. e_RunID e = k \<longrightarrow> hasSeen e (nb_local b'))"
proof -
  have "merge_events [] es = es" using merge_events_fresh [of es "[]"] es(2) by simp
  then have "subscribe_merged now random k es (nb_local b) = es"
    using known es(1) by (simp add: subscribe_merged_def map_prepare_ready merge_events_known)
  moreover have "trim_history (b_maxHistory (nb_local b)) es = es"
    using es(3) [OF pos] b(2) by (simp add: trim_history_def nats_inv_def)
  ultimately show ?thesis
    using sub list b(1)
    by (auto simp: Nats_Subscribe_def SubscribeWithHistory_def subscribe_def replaceHistory_def chan_of_def hasSeen_def Let_def)
qed

lemma last_events_snoc: "\<exists>xs. last_events limit (es @ [e]) = xs @ [e] \<and> suffix xs es"
proof -
  obtain n where n: "last_events limit (es @ [e]) = drop n (es @ [e])" and "n \<le> length es"
    by (cases "0 < limit \<and> limit < int (length (es @ [e]))")
       (auto simp: last_events_def intro: that [of "Suc (length es) - nat limit"] that [of 0])
  then show ?thesis by (auto simp: suffix_drop)
qed

lemma last_events_length: "0 < limit \<Longrightarrow> int (length (last_events limit es)) \<le> limit"
  by (auto simp: last_events_def)

lemma Nats_Publish_persists:
  assumes "Nats_Publish luck now random event a m = (a', m', sent)" and "nb_persistent a" and "nl_store luck"
    and "get (m_runs m) (e_RunID event) \<noteq> None"
  shows "AppendRunEvent now (prepare now random event) (nb_retention a) (nb_limit a) m = Inr m'"
    and "sent = Some payload \<Longrightarrow> nl_encode luck (prepare now random event) = Some payload"
  using assms
  by (auto simp: Nats_Publish_def AppendRunEvent_def Let_def split: option.splits sum.splits if_splits)

lemma suffix_set_distinct:
  "suffix xs ys \<Longrightarrow> distinct (map f (ys @ [e])) \<Longrightarrow> distinct (map f (xs @ [e])) \<and> set xs \<subseteq> set ys"
  by (auto simp: suffix_def)

text \<open>The events of a Run that the repository holds: complete ones, each once.\<close>

definition stored_events :: "string \<Rightarrow> Memory \<Rightarrow> RunEvent list" where
  "stored_events k m = get_or [] (m_runEvents m) k"


definition sample_nats :: NatsBus where
  "sample_nats = \<lparr> nb_local = NewBusWithHistoryLimit 4, nb_persistent = True, nb_retention = 50, nb_limit = 4 \<rparr>"

definition sample_nats_luck :: NatsLuck where
  "sample_nats_luck = \<lparr> nl_store = True, nl_encode = (\<lambda>x. if x = bus_event ''b'' then Some ''payload'' else None), nl_send = True \<rparr>"

definition sample_nats_store :: Memory where
  "sample_nats_store = sample_runs_store\<lparr>m_runEvents := [(''r1'', [bus_event ''a''])]\<rparr>"

definition sample_nats_stored :: Memory where
  "sample_nats_stored = sample_runs_store\<lparr>m_runEvents := [(''r1'', [bus_event ''a'', bus_event ''b''])]\<rparr>"


end
