(* ===== verification/Discovery.thy ===== *)
theory Discovery
  imports Store_Agents Agent_Health
begin

text \<open>
  \<^verbatim>\<open>internal/discovery/service.go\<close>: paged search over the stored Agents and their derived health.
\<close>

section \<open>Search\<close>

definition MaxPageSize :: int where "MaxPageSize = 200"

record Query =
  qy_Capability :: string
  qy_Runtime :: string
  qy_Protocol :: string
  qy_Health :: string
  qy_Limit :: int
  qy_Offset :: int

record SearchResult =
  sr_Items :: "Agent list"
  sr_Total :: int
  sr_Limit :: int
  sr_Offset :: int

datatype discovery_error = ErrInvalidQuery agent_error | ErrInvalidPage | ErrInvalidHealth | ErrSearch store_error

text \<open>\<^verbatim>\<open>health\<close> is the status the health registry reports for an Agent.\<close>

definition search_agents :: "golib \<Rightarrow> (string \<Rightarrow> string) \<Rightarrow> Memory \<Rightarrow> Query \<Rightarrow> discovery_error + Agent list" where
  "search_agents L health m query =
     (case normalize_filter L \<lparr> f_Capability = qy_Capability query, f_Runtime = qy_Runtime query,
                               f_Protocol = qy_Protocol query \<rparr> of
        Inl e \<Rightarrow> Inl (ErrInvalidQuery e)
      | Inr flt \<Rightarrow>
          if qy_Limit query < 0 \<or> MaxPageSize < qy_Limit query \<or> qy_Offset query < 0 then Inl ErrInvalidPage
          else let wanted = lower_trim L (qy_Health query) in
            if wanted \<noteq> '''' \<and> wanted \<noteq> StatusUnknown \<and> wanted \<noteq> StatusHealthy \<and> wanted \<noteq> StatusUnhealthy then
              Inl ErrInvalidHealth
            else case FindAgents L flt m of
              Inl e \<Rightarrow> Inl (ErrSearch e)
            | Inr agents \<Rightarrow>
                Inr (sort_by (created_then_id a_CreatedAt a_ID)
                       (filter (\<lambda>agent. wanted = '''' \<or> health (a_ID agent) = wanted) agents)))"

definition page :: "int \<Rightarrow> int \<Rightarrow> 'a list \<Rightarrow> 'a list" where
  "page limit offset xs =
     (let total = int (length xs);
          start = (if offset > total then total else offset);
          stop = (if 0 < limit \<and> start + limit < total then start + limit else total)
      in take (nat (stop - start)) (drop (nat start) xs))"

definition Search :: "golib \<Rightarrow> (string \<Rightarrow> string) \<Rightarrow> Memory \<Rightarrow> Query \<Rightarrow> discovery_error + SearchResult" where
  "Search L health m query =
     (case search_agents L health m query of
        Inl e \<Rightarrow> Inl e
      | Inr filtered \<Rightarrow>
          Inr \<lparr> sr_Items = page (qy_Limit query) (qy_Offset query) filtered,
                sr_Total = int (length filtered), sr_Limit = qy_Limit query, sr_Offset = qy_Offset query \<rparr>)"

section \<open>Lemmas\<close>

lemma page_eq: "0 \<le> offset \<Longrightarrow> page limit offset xs =
    (if 0 < limit then take (nat limit) (drop (nat offset) xs) else drop (nat offset) xs)"
proof -
  assume o: "0 \<le> offset"
  show ?thesis
  proof (cases "int (length xs) < offset")
    case True
    then show ?thesis by (simp add: page_def Let_def)
  next
    case False
    then show ?thesis using o by (auto simp: page_def Let_def nat_diff_distrib nat_add_distrib)
  qed
qed

lemma search_agents_Inr:
  assumes "search_agents L health m query = Inr agents"
  obtains flt found where
    "normalize_filter L \<lparr> f_Capability = qy_Capability query, f_Runtime = qy_Runtime query,
       f_Protocol = qy_Protocol query \<rparr> = Inr flt"
    and "FindAgents L flt m = Inr found" and "0 \<le> qy_Offset query" and "0 \<le> qy_Limit query"
    and "agents = sort_by (created_then_id a_CreatedAt a_ID)
      (filter (\<lambda>agent. lower_trim L (qy_Health query) = '''' \<or> health (a_ID agent) = lower_trim L (qy_Health query)) found)"
  using assms unfolding search_agents_def Let_def
  by (auto split: sum.splits if_splits)

text \<open>What a client reads that asks for one page after the other.\<close>

fun pages :: "golib \<Rightarrow> (string \<Rightarrow> string) \<Rightarrow> Memory \<Rightarrow> Query \<Rightarrow> nat \<Rightarrow> Agent list" where
  "pages L health m query 0 = []"
| "pages L health m query (Suc n) =
     pages L health m query n @
     (case Search L health m (query\<lparr>qy_Offset := int n * qy_Limit query\<rparr>) of Inl _ \<Rightarrow> [] | Inr r \<Rightarrow> sr_Items r)"

lemma search_agents_offset:
  "0 \<le> qy_Offset query \<Longrightarrow> 0 \<le> offset \<Longrightarrow>
     search_agents L health m (query\<lparr>qy_Offset := offset\<rparr>) = search_agents L health m query"
  by (simp add: search_agents_def Let_def split: sum.split)

lemma pages_take:
  assumes "search_agents L health m query = Inr agents" and "0 < qy_Limit query" and "qy_Offset query = 0"
  shows "pages L health m query n = take (n * nat (qy_Limit query)) agents"
proof (induction n)
  case (Suc n)
  have "search_agents L health m (query\<lparr>qy_Offset := int n * qy_Limit query\<rparr>) = Inr agents"
    using assms by (subst search_agents_offset) auto
  then have "pages L health m query (Suc n) =
      take (n * nat (qy_Limit query)) agents @ page (qy_Limit query) (int n * qy_Limit query) agents"
    using Suc by (simp add: Search_def)
  also have "page (qy_Limit query) (int n * qy_Limit query) agents
      = take (nat (qy_Limit query)) (drop (n * nat (qy_Limit query)) agents)"
    using assms(2) by (simp add: page_eq nat_mult_distrib)
  finally show ?case by (simp add: take_add add.commute [of "nat (qy_Limit query)"])
qed simp

lemma normalize_filter_fixed: "normalize_filter L flt = Inr f \<Longrightarrow> normalize_filter L f = Inr f"
proof -
  assume "normalize_filter L flt = Inr f"
  then obtain capability runtime protocol where
    c: "(if f_Capability flt \<noteq> '''' then NormalizeCapability L (f_Capability flt) else Inr (f_Capability flt)) = Inr capability"
    and r: "NormalizeAgentIdentifier L ''runtime'' (f_Runtime flt) = Inr runtime"
    and p: "NormalizeAgentIdentifier L ''protocol'' (f_Protocol flt) = Inr protocol"
    and f: "f = \<lparr> f_Capability = capability, f_Runtime = runtime, f_Protocol = protocol \<rparr>"
    unfolding normalize_filter_def by (force split: sum.splits)
  have "capability \<noteq> '''' \<Longrightarrow> NormalizeCapability L capability = Inr capability"
    using c by (auto dest: NormalizeCapability_canonical intro: NormalizeCapability_fixed split: if_splits)
  moreover have "NormalizeAgentIdentifier L ''runtime'' runtime = Inr runtime"
    and "NormalizeAgentIdentifier L ''protocol'' protocol = Inr protocol"
    by (rule NormalizeAgentIdentifier_fixed, use r p in \<open>blast dest: NormalizeAgentIdentifier_Inr [THEN iffD1]\<close>)+
  ultimately show "normalize_filter L f = Inr f" unfolding normalize_filter_def f by (cases "capability = ''''") simp_all
qed

definition query_filter :: "Query \<Rightarrow> AgentFilter" where
  "query_filter query = \<lparr> f_Capability = qy_Capability query, f_Runtime = qy_Runtime query,
     f_Protocol = qy_Protocol query \<rparr>"

definition search_matches :: "golib \<Rightarrow> (string \<Rightarrow> string) \<Rightarrow> Memory \<Rightarrow> Query \<Rightarrow> Agent \<Rightarrow> bool" where
  "search_matches L health m query a \<longleftrightarrow>
     get (m_agents m) (a_ID a) = Some a
   \<and> (case normalize_filter L (query_filter query) of Inl _ \<Rightarrow> False | Inr f \<Rightarrow> agent_matches f a)
   \<and> (lower_trim L (qy_Health query) = '''' \<or> health (a_ID a) = lower_trim L (qy_Health query))"

lemma search_agents_exact:
  assumes "agents_keyed m" and "search_agents L health m query = Inr agents"
  shows "distinct agents" and "a \<in> set agents \<longleftrightarrow> search_matches L health m query a"
    and "sorted_wrt (\<lambda>a b. \<not> created_then_id a_CreatedAt a_ID b a) agents"
proof -
  obtain flt found where flt: "normalize_filter L (query_filter query) = Inr flt"
    and found: "FindAgents L flt m = Inr found"
    and agents: "agents = sort_by (created_then_id a_CreatedAt a_ID)
      (filter (\<lambda>agent. lower_trim L (qy_Health query) = '''' \<or> health (a_ID agent) = lower_trim L (qy_Health query)) found)"
    using assms(2) unfolding query_filter_def by (rule search_agents_Inr)
  have found': "found = sortAgents (filter (agent_matches flt) (map snd (m_agents m)))"
    using found normalize_filter_fixed [OF flt] by (simp add: FindAgents_Inr)
  have k: "keyed a_ID (m_agents m)" using assms(1) by (simp add: agents_keyed_def)
  show "distinct agents" using keyed_values(1) [OF k] by (simp add: agents found' sortAgents_def)
  show "a \<in> set agents \<longleftrightarrow> search_matches L health m query a"
    using keyed_values(3) [OF k, of a] flt by (auto simp: agents found' sortAgents_def search_matches_def)
  show "sorted_wrt (\<lambda>a b. \<not> created_then_id a_CreatedAt a_ID b a) agents"
    unfolding agents by (rule created_id.sorted_sort_by)
qed

lemma Search_Inr:
  "Search L health m query = Inr r \<longleftrightarrow> (\<exists>agents. search_agents L health m query = Inr agents
     \<and> r = \<lparr> sr_Items = page (qy_Limit query) (qy_Offset query) agents, sr_Total = int (length agents),
             sr_Limit = qy_Limit query, sr_Offset = qy_Offset query \<rparr>)"
  by (auto simp: Search_def split: sum.splits)

section \<open>Properties\<close>

text \<open>
  C38: Paging is complete. Reading a search page by page (a positive limit, the offset advanced by
  it) until the reported total is covered yields every stored Agent that matches the normalised
  query and has the requested health, each exactly once, ordered by creation time and identifier;
  the reported total is their number, whatever the page.
\<close>

theorem search_pages_complete:
  assumes "agents_keyed m" and "Search L health m query = Inr r" and "0 < qy_Limit query" and "qy_Offset query = 0"
    and "sr_Total r \<le> int n * qy_Limit query"
  shows "(\<forall>a. a \<in> set (pages L health m query n) \<longleftrightarrow> search_matches L health m query a)
    \<and> distinct (pages L health m query n) \<and> int (length (pages L health m query n)) = sr_Total r
    \<and> sorted_wrt (\<lambda>a b. \<not> created_then_id a_CreatedAt a_ID b a) (pages L health m query n)
    \<and> (\<forall>i. \<exists>ri. Search L health m (query\<lparr>qy_Offset := int i * qy_Limit query\<rparr>) = Inr ri
         \<and> sr_Total ri = sr_Total r \<and> int (length (sr_Items ri)) \<le> qy_Limit query)"
proof -
  obtain agents where agents: "search_agents L health m query = Inr agents" and total: "sr_Total r = int (length agents)"
    using assms(2) by (auto simp: Search_Inr)
  have "int (length agents) \<le> int (n * nat (qy_Limit query))" using assms(3,5) total by simp
  then have "length agents \<le> n * nat (qy_Limit query)" by (simp only: of_nat_le_iff)
  then have "pages L health m query n = agents" using pages_take [OF agents assms(3,4)] by simp
  moreover have "\<exists>ri. Search L health m (query\<lparr>qy_Offset := int i * qy_Limit query\<rparr>) = Inr ri
         \<and> sr_Total ri = sr_Total r \<and> int (length (sr_Items ri)) \<le> qy_Limit query" for i
  proof -
    have "search_agents L health m (query\<lparr>qy_Offset := int i * qy_Limit query\<rparr>) = Inr agents"
      using agents assms(3,4) by (subst search_agents_offset) auto
    then show ?thesis using assms(3) total by (auto simp: Search_def page_eq)
  qed
  ultimately show ?thesis using search_agents_exact [OF assms(1) agents] total by simp
qed

definition sample_pair :: Memory where
  "sample_pair = NewMemory\<lparr>m_agents :=
     [(''b'', sample_agent_normal\<lparr>a_ID := ''b'', a_Version := 1\<rparr>), (''a'', sample_agent_normal\<lparr>a_Version := 1\<rparr>)]\<rparr>"

definition sample_query :: Query where
  "sample_query = \<lparr> qy_Capability = ''SQL'', qy_Runtime = '''', qy_Protocol = '''', qy_Health = '' Unknown'',
     qy_Limit = 1, qy_Offset = 0 \<rparr>"

lemma sample_pair_keyed: "agents_keyed sample_pair"
  by (simp add: agents_keyed_def keyed_def keys_distinct_def sample_pair_def NewMemory_def
      sample_agent_normal_def sample_agent_def)

theorem search_pages_complete_witness:
  "map a_ID (pages sample_lib (\<lambda>_. StatusUnknown) sample_pair sample_query 2) = [''a'', ''b'']
   \<and> distinct (pages sample_lib (\<lambda>_. StatusUnknown) sample_pair sample_query 2)"
proof -
  have first: "Search sample_lib (\<lambda>_. StatusUnknown) sample_pair sample_query =
      Inr \<lparr> sr_Items = [sample_agent_normal\<lparr>a_Version := 1\<rparr>], sr_Total = 2, sr_Limit = 1, sr_Offset = 0 \<rparr>"
    by code_simp
  have "map a_ID (pages sample_lib (\<lambda>_. StatusUnknown) sample_pair sample_query 2) = [''a'', ''b'']"
    by code_simp
  then show ?thesis
    using search_pages_complete [OF sample_pair_keyed first, of 2] by (simp add: sample_query_def)
qed

end
