(* ===== verification/Router.thy ===== *)
theory Router
  imports Complex_Main Discovery Store_Runs
begin

text \<open>
  \<^verbatim>\<open>internal/router/router.go\<close>: the choice of an Agent for a set of required capabilities. The two
  services the router calls, discovery and the count of active Runs, are arguments of
  \<open>Select\<close>; the properties put the store's own operations there. The load comparison keeps the
  64-bit products of the source.
\<close>

section \<open>Data\<close>

datatype router_error =
    ErrNoCandidate
  | ErrNoCapacity
  | ErrNoRequirements
  | ErrBadRequirement agent_error
  | ErrDiscovery discovery_error
  | ErrLoad store_error

record Decision =
  d_Agent :: Agent
  d_RequiredCapabilities :: "string list"
  d_Health :: string
  d_Strategy :: string
  d_CandidateCount :: int
  d_ActiveRuns :: int
  d_EffectiveCapacity :: int
  d_Priority :: int

record rankedAgent =
  ra_agent :: Agent
  ra_active :: int
  ra_capacity :: int

section \<open>Operations\<close>

definition NormalizeRequirements :: "golib \<Rightarrow> string list \<Rightarrow> router_error + string list" where
  "NormalizeRequirements L required =
     (if required = [] then Inl ErrNoRequirements
      else case capabilities_loop L [] required of Inl e \<Rightarrow> Inl (ErrBadRequirement e) | Inr result \<Rightarrow> Inr result)"

definition matchingAll :: "Agent list \<Rightarrow> string list \<Rightarrow> Agent list" where
  "matchingAll agents required =
     filter (\<lambda>agent. list_all (\<lambda>capability. capability \<in> set (a_Capabilities agent)) required) agents"

definition agentIDs :: "Agent list \<Rightarrow> string list" where
  "agentIDs agents = map a_ID agents"

definition zeroLoad :: "string list \<Rightarrow> store_error + (string, int) gomap" where
  "zeroLoad idents = Inr []"

definition capacity_of :: "Agent \<Rightarrow> int" where
  "capacity_of agent = (if a_MaxConcurrency agent = 0 then 1 else a_MaxConcurrency agent)"

definition rank_before :: "rankedAgent \<Rightarrow> rankedAgent \<Rightarrow> bool" where
  "rank_before left right =
     (let leftLoad = wrap64 (ra_active left * ra_capacity right);
          rightLoad = wrap64 (ra_active right * ra_capacity left) in
      if leftLoad \<noteq> rightLoad then leftLoad < rightLoad
      else if a_Priority (ra_agent left) \<noteq> a_Priority (ra_agent right) then
        a_Priority (ra_agent left) > a_Priority (ra_agent right)
      else let leftRemaining = ra_capacity left - ra_active left;
               rightRemaining = ra_capacity right - ra_active right in
        if leftRemaining \<noteq> rightRemaining then leftRemaining > rightRemaining
        else if a_CreatedAt (ra_agent left) \<noteq> a_CreatedAt (ra_agent right) then
          a_CreatedAt (ra_agent left) < a_CreatedAt (ra_agent right)
        else a_ID (ra_agent left) < a_ID (ra_agent right))"

fun rank_loop :: "(string, int) gomap \<Rightarrow> Agent list \<Rightarrow> rankedAgent list" where
  "rank_loop loads [] = []"
| "rank_loop loads (agent # agents) =
     (let capacity = capacity_of agent; active = get_or 0 loads (a_ID agent) in
      if active \<ge> capacity then rank_loop loads agents
      else \<lparr> ra_agent = agent, ra_active = active, ra_capacity = capacity \<rparr> # rank_loop loads agents)"

definition rankAvailable :: "Agent list \<Rightarrow> (string, int) gomap \<Rightarrow> rankedAgent list" where
  "rankAvailable agents loads = sort_by rank_before (rank_loop loads agents)"

definition tiers :: "(string \<times> string) list" where
  "tiers = [(StatusHealthy, ''healthy-load-priority-created-at-id''),
            (StatusUnknown, ''unknown-fallback-load-priority-created-at-id'')]"

definition tier_query :: "string \<Rightarrow> string \<Rightarrow> Query" where
  "tier_query capability health = \<lparr> qy_Capability = capability, qy_Runtime = '''', qy_Protocol = '''',
     qy_Health = health, qy_Limit = 0, qy_Offset = 0 \<rparr>"

fun select_tiers ::
  "(Query \<Rightarrow> discovery_error + SearchResult) \<Rightarrow> (string list \<Rightarrow> store_error + (string, int) gomap) \<Rightarrow>
   string list \<Rightarrow> bool \<Rightarrow> (string \<times> string) list \<Rightarrow> router_error + Decision" where
  "select_tiers search load capabilities sawSaturated [] =
     (if sawSaturated then Inl ErrNoCapacity else Inl ErrNoCandidate)"
| "select_tiers search load capabilities sawSaturated ((health, strategy) # rest) =
     (case search (tier_query (hd capabilities) health) of
        Inl e \<Rightarrow> Inl (ErrDiscovery e)
      | Inr result \<Rightarrow>
          let candidates = matchingAll (sr_Items result) capabilities in
          if candidates = [] then select_tiers search load capabilities sawSaturated rest
          else case load (agentIDs candidates) of
            Inl e \<Rightarrow> Inl (ErrLoad e)
          | Inr loads \<Rightarrow>
              (case rankAvailable candidates loads of
                 [] \<Rightarrow> select_tiers search load capabilities True rest
               | selected # others \<Rightarrow>
                   Inr \<lparr> d_Agent = ra_agent selected, d_RequiredCapabilities = capabilities, d_Health = health,
                         d_Strategy = strategy, d_CandidateCount = int (length (selected # others)),
                         d_ActiveRuns = ra_active selected, d_EffectiveCapacity = ra_capacity selected,
                         d_Priority = a_Priority (ra_agent selected) \<rparr>))"

definition Select ::
  "golib \<Rightarrow> (Query \<Rightarrow> discovery_error + SearchResult) \<Rightarrow> (string list \<Rightarrow> store_error + (string, int) gomap) \<Rightarrow>
   string list \<Rightarrow> router_error + Decision" where
  "Select L search load required =
     (case NormalizeRequirements L required of
        Inl e \<Rightarrow> Inl e
      | Inr capabilities \<Rightarrow> select_tiers search load capabilities False tiers)"

section \<open>The intended order\<close>

text \<open>The comparison over exact load fractions. It is an order whatever the operands.\<close>

definition load_fraction :: "rankedAgent \<Rightarrow> rat" where
  "load_fraction r = of_int (ra_active r) / of_int (ra_capacity r)"

definition ideal_before :: "rankedAgent \<Rightarrow> rankedAgent \<Rightarrow> bool" where
  "ideal_before left right =
     (if load_fraction left \<noteq> load_fraction right then load_fraction left < load_fraction right
      else if a_Priority (ra_agent left) \<noteq> a_Priority (ra_agent right) then
        a_Priority (ra_agent left) > a_Priority (ra_agent right)
      else if ra_capacity left - ra_active left \<noteq> ra_capacity right - ra_active right then
        ra_capacity left - ra_active left > ra_capacity right - ra_active right
      else if a_CreatedAt (ra_agent left) \<noteq> a_CreatedAt (ra_agent right) then
        a_CreatedAt (ra_agent left) < a_CreatedAt (ra_agent right)
      else a_ID (ra_agent left) < a_ID (ra_agent right))"

interpretation ideal_rank: slice_order ideal_before
  by unfold_locales (auto simp: ideal_before_def split: if_splits)

definition rank_small :: "rankedAgent \<Rightarrow> bool" where
  "rank_small r \<longleftrightarrow> 0 \<le> ra_active r \<and> ra_active r < ra_capacity r \<and> ra_capacity r \<le> 2 ^ 31"

lemma small_product:
  assumes "rank_small l" and "rank_small r"
  shows "wrap64 (ra_active l * ra_capacity r) = ra_active l * ra_capacity r"
proof (rule wrap64_id)
  have "ra_active l * ra_capacity r \<le> 2 ^ 31 * 2 ^ 31"
    using assms by (intro mult_mono) (auto simp: rank_small_def)
  then show "ra_active l * ra_capacity r \<le> max_int64" by (simp add: max_int64_def)
  have "0 \<le> ra_active l * ra_capacity r" using assms by (auto simp: rank_small_def)
  then show "min_int64 \<le> ra_active l * ra_capacity r" by (simp add: min_int64_def)
qed

lemma fraction_compare:
  assumes "rank_small l" and "rank_small r"
  shows "load_fraction l < load_fraction r \<longleftrightarrow> ra_active l * ra_capacity r < ra_active r * ra_capacity l"
    and "load_fraction l = load_fraction r \<longleftrightarrow> ra_active l * ra_capacity r = ra_active r * ra_capacity l"
proof -
  have pos: "(0::rat) < of_int (ra_capacity l)" "(0::rat) < of_int (ra_capacity r)"
    using assms by (auto simp: rank_small_def)
  show "load_fraction l < load_fraction r \<longleftrightarrow> ra_active l * ra_capacity r < ra_active r * ra_capacity l"
    using pos by (simp add: load_fraction_def divide_less_eq less_divide_eq field_simps flip: of_int_mult)
  show "load_fraction l = load_fraction r \<longleftrightarrow> ra_active l * ra_capacity r = ra_active r * ra_capacity l"
    using pos by (simp add: load_fraction_def frac_eq_eq flip: of_int_mult)
qed

lemma rank_before_ideal: "rank_small l \<Longrightarrow> rank_small r \<Longrightarrow> rank_before l r = ideal_before l r"
  unfolding rank_before_def ideal_before_def Let_def small_product fraction_compare
  by (simp add: small_product fraction_compare)

section \<open>The router on the store\<close>

text \<open>The router wired to discovery over the store and to the store's count of active Runs.\<close>

definition store_route :: "golib \<Rightarrow> (string \<Rightarrow> string) \<Rightarrow> Memory \<Rightarrow> string list \<Rightarrow> router_error + Decision" where
  "store_route L health m required =
     Select L (Search L health m) (\<lambda>idents. Inr (CountActiveRunsByAgent idents m)) required"

definition load_of :: "Memory \<Rightarrow> Agent \<Rightarrow> int" where
  "load_of m a = active_of (a_ID a) (map snd (m_runs m))"

definition has_room :: "Memory \<Rightarrow> Agent \<Rightarrow> bool" where
  "has_room m a \<longleftrightarrow> load_of m a < capacity_of a"

definition rank_of :: "Memory \<Rightarrow> Agent \<Rightarrow> rankedAgent" where
  "rank_of m a = \<lparr> ra_agent = a, ra_active = load_of m a, ra_capacity = capacity_of a \<rparr>"

text \<open>A stored Agent of the given health that declares every required capability.\<close>

definition candidate :: "(string \<Rightarrow> string) \<Rightarrow> Memory \<Rightarrow> string list \<Rightarrow> string \<Rightarrow> Agent \<Rightarrow> bool" where
  "candidate health m capabilities tier a \<longleftrightarrow>
     get (m_agents m) (a_ID a) = Some a \<and> set capabilities \<subseteq> set (a_Capabilities a) \<and> health (a_ID a) = tier"

definition decision_for ::
  "(string \<Rightarrow> string) \<Rightarrow> Memory \<Rightarrow> string list \<Rightarrow> string \<Rightarrow> Decision \<Rightarrow> bool" where
  "decision_for health m capabilities tier d \<longleftrightarrow>
     candidate health m capabilities tier (d_Agent d) \<and> has_room m (d_Agent d)
   \<and> d_RequiredCapabilities d = capabilities \<and> d_Health d = tier
   \<and> d_CandidateCount d = int (card {a. candidate health m capabilities tier a \<and> has_room m a})
   \<and> d_ActiveRuns d = load_of m (d_Agent d) \<and> d_EffectiveCapacity d = capacity_of (d_Agent d)
   \<and> d_Priority d = a_Priority (d_Agent d)"

definition decision_best ::
  "(string \<Rightarrow> string) \<Rightarrow> Memory \<Rightarrow> string list \<Rightarrow> string \<Rightarrow> Decision \<Rightarrow> bool" where
  "decision_best health m capabilities tier d \<longleftrightarrow>
     (\<forall>b. candidate health m capabilities tier b \<and> has_room m b \<longrightarrow>
        \<not> ideal_before (rank_of m b) (rank_of m (d_Agent d)))"

lemma load_of_nonneg: "0 \<le> load_of m a"
  by (simp add: load_of_def active_of_def)

lemma rank_loop_counts:
  "set (agentIDs agents) \<subseteq> set idents \<Longrightarrow>
     rank_loop (CountActiveRunsByAgent idents m) agents = map (rank_of m) (filter (has_room m) agents)"
  by (induction agents) (auto simp: agentIDs_def rank_of_def load_of_def has_room_def CountActive_get get_or_def Let_def)

lemma status_lower_trim:
  "lower_trim L StatusHealthy = StatusHealthy" "lower_trim L StatusUnknown = StatusUnknown"
  by (rule canonical_lower_trim, code_simp)+

lemma tier_search:
  assumes "agents_keyed m" and "canonical_capability c" and "tier = StatusHealthy \<or> tier = StatusUnknown"
  obtains r where "Search L health m (tier_query c tier) = Inr r" and "distinct (sr_Items r)"
    and "\<And>a. a \<in> set (sr_Items r) \<longleftrightarrow>
      get (m_agents m) (a_ID a) = Some a \<and> c \<in> set (a_Capabilities a) \<and> health (a_ID a) = tier"
proof -
  have c: "c \<noteq> ''''" using assms(2) by (auto simp: canonical_capability_def)
  have tier: "lower_trim L tier = tier" "tier \<noteq> ''''"
    using assms(3) status_lower_trim by (auto simp: health_status)
  have flt: "normalize_filter L (query_filter (tier_query c tier)) = Inr (query_filter (tier_query c tier))"
    using c NormalizeCapability_fixed [OF assms(2), of L]
    by (simp add: normalize_filter_def query_filter_def tier_query_def NormalizeAgentIdentifier_fixed)
  obtain agents where agents: "search_agents L health m (tier_query c tier) = Inr agents"
    using flt tier assms(3)
    by (auto simp: search_agents_def query_filter_def tier_query_def FindAgents_def MaxPageSize_def Let_def)
  have "search_matches L health m (tier_query c tier) a \<longleftrightarrow>
      get (m_agents m) (a_ID a) = Some a \<and> c \<in> set (a_Capabilities a) \<and> health (a_ID a) = tier" for a
    using tier c by (auto simp: search_matches_def flt)
      (auto simp: query_filter_def tier_query_def agent_matches_def agentHasCapability_def list_ex_iff)
  then show ?thesis
    using that [of "\<lparr>sr_Items = agents, sr_Total = int (length agents), sr_Limit = 0, sr_Offset = 0\<rparr>"]
      agents search_agents_exact [OF assms(1) agents]
    by (simp add: Search_def page_eq tier_query_def)
qed

lemma sort_by_cong:
  assumes "\<And>x y. x \<in> set xs \<Longrightarrow> y \<in> set xs \<Longrightarrow> lt x y = lt' x y"
  shows "sort_by lt xs = sort_by lt' xs"
  using assms
proof (induction xs)
  case (Cons x xs)
  have "insert_by lt x ys = insert_by lt' x ys" if "set ys \<subseteq> set xs" for ys
    using that by (induction ys) (auto simp: Cons.prems)
  with Cons show ?case by simp
qed simp

definition small_capacities :: "Memory \<Rightarrow> bool" where
  "small_capacities m \<longleftrightarrow> (\<forall>ident a. get (m_agents m) ident = Some a \<longrightarrow> a_MaxConcurrency a \<le> 2 ^ 31)"

lemma candidate_rank_small:
  "small_capacities m \<Longrightarrow> candidate health m capabilities tier a \<Longrightarrow> has_room m a \<Longrightarrow> rank_small (rank_of m a)"
  using load_of_nonneg [of m a]
  by (auto simp: small_capacities_def candidate_def has_room_def rank_small_def rank_of_def capacity_of_def
      split: if_splits)

text \<open>The ranking of the candidates of a tier.\<close>

lemma ranked_candidates:
  fixes m health capabilities tier cs
  defines "ranked \<equiv> rankAvailable cs (CountActiveRunsByAgent (agentIDs cs) m)"
    and "roomy \<equiv> {a. candidate health m capabilities tier a \<and> has_room m a}"
  assumes cs: "\<And>a. a \<in> set cs \<longleftrightarrow> candidate health m capabilities tier a" and "distinct cs"
  shows "set ranked = rank_of m ` roomy" and "length ranked = card roomy"
    and "small_capacities m \<Longrightarrow> ranked = x # xs \<Longrightarrow> b \<in> roomy \<Longrightarrow> \<not> ideal_before (rank_of m b) x"
proof -
  have ranked: "ranked = sort_by rank_before (map (rank_of m) (filter (has_room m) cs))"
    by (simp add: ranked_def rankAvailable_def rank_loop_counts)
  have roomy: "roomy = set (filter (has_room m) cs)" using cs by (auto simp: roomy_def)
  show "set ranked = rank_of m ` roomy" by (simp add: ranked roomy)
  show "length ranked = card roomy"
    using distinct_card [of "filter (has_room m) cs"] \<open>distinct cs\<close> unfolding ranked roomy by simp
  assume small: "small_capacities m" and hd: "ranked = x # xs" and b: "b \<in> roomy"
  have "rank_small y" if "y \<in> set (map (rank_of m) (filter (has_room m) cs))" for y
    using that cs candidate_rank_small [OF small] by auto
  then have "ranked = sort_by ideal_before (map (rank_of m) (filter (has_room m) cs))"
    unfolding ranked by (intro sort_by_cong rank_before_ideal) auto
  with hd have "sort_by ideal_before (map (rank_of m) (filter (has_room m) cs)) = x # xs" by simp
  moreover have "rank_of m b \<in> set (map (rank_of m) (filter (has_room m) cs))" using b by (simp add: roomy)
  ultimately show "\<not> ideal_before (rank_of m b) x" by (rule ideal_rank.sort_by_hd_least)
qed

text \<open>One tier: no candidate, no room, or a decision among the candidates with room.\<close>

lemma select_tier:
  fixes L m health capabilities rest saw strategy tier
  defines "next_tier \<equiv> \<lambda>saw. select_tiers (Search L health m) (\<lambda>idents. Inr (CountActiveRunsByAgent idents m))
      capabilities saw rest"
    and "this_tier \<equiv> select_tiers (Search L health m) (\<lambda>idents. Inr (CountActiveRunsByAgent idents m))
      capabilities saw ((tier, strategy) # rest)"
  assumes m: "agents_keyed m" and caps: "capabilities \<noteq> []" "list_all canonical_capability capabilities"
    and tier: "tier = StatusHealthy \<or> tier = StatusUnknown"
  obtains (none) "\<nexists>a. candidate health m capabilities tier a" and "this_tier = next_tier saw"
  | (full) "\<exists>a. candidate health m capabilities tier a"
      and "\<nexists>a. candidate health m capabilities tier a \<and> has_room m a" and "this_tier = next_tier True"
  | (found) d where "this_tier = Inr d" and "decision_for health m capabilities tier d"
      and "small_capacities m \<Longrightarrow> decision_best health m capabilities tier d"
proof -
  have "canonical_capability (hd capabilities)" using caps by (cases capabilities) auto
  from tier_search [OF m this tier] obtain r where r: "Search L health m (tier_query (hd capabilities) tier) = Inr r"
    and dr: "distinct (sr_Items r)"
    and items: "\<And>a. a \<in> set (sr_Items r) \<longleftrightarrow>
      get (m_agents m) (a_ID a) = Some a \<and> hd capabilities \<in> set (a_Capabilities a) \<and> health (a_ID a) = tier"
    by metis
  define cs where "cs = matchingAll (sr_Items r) capabilities"
  have cs: "a \<in> set cs \<longleftrightarrow> candidate health m capabilities tier a" for a
    using items [of a] caps(1) hd_in_set [OF caps(1)]
    by (auto simp: cs_def matchingAll_def candidate_def list_all_iff)
  have dcs: "distinct cs" using dr by (simp add: cs_def matchingAll_def)
  define ranked where "ranked = rankAvailable cs (CountActiveRunsByAgent (agentIDs cs) m)"
  note facts = ranked_candidates [OF cs dcs, folded ranked_def]
  show thesis
  proof (cases ranked)
    case Nil
    with facts(1) have no_room: "\<nexists>a. candidate health m capabilities tier a \<and> has_room m a" by auto
    show thesis
    proof (cases "cs = []")
      case True
      then have "this_tier = next_tier saw" by (simp add: this_tier_def next_tier_def r flip: cs_def)
      moreover have "\<nexists>a. candidate health m capabilities tier a" using True cs by simp
      ultimately show thesis using none by blast
    next
      case False
      then have "this_tier = next_tier True" using Nil by (simp add: this_tier_def next_tier_def r flip: cs_def ranked_def)
      moreover have "\<exists>a. candidate health m capabilities tier a" using False cs by (cases cs) auto
      ultimately show thesis using full no_room by blast
    qed
  next
    case (Cons selected others)
    then have "selected \<in> rank_of m ` {a. candidate health m capabilities tier a \<and> has_room m a}"
      unfolding facts(1) [symmetric] by simp
    then obtain a where a: "selected = rank_of m a" "candidate health m capabilities tier a" "has_room m a" by blast
    have "cs \<noteq> []" using a(2) cs [of a] by auto
    with Cons obtain d where d: "this_tier = Inr d" "d_Agent d = a" "d_RequiredCapabilities d = capabilities"
      "d_Health d = tier" "d_CandidateCount d = int (length ranked)" "d_ActiveRuns d = load_of m a"
      "d_EffectiveCapacity d = capacity_of a" "d_Priority d = a_Priority a"
      by (simp add: this_tier_def r a(1) rank_of_def flip: cs_def ranked_def)
    have "decision_best health m capabilities tier d" if "small_capacities m"
      using facts(3) [OF that Cons] d(2) a(1) by (simp add: decision_best_def)
    moreover have "decision_for health m capabilities tier d"
      using d a(2,3) facts(2) by (simp add: decision_for_def)
    ultimately show thesis using found d(1) by blast
  qed
qed

lemma requirements_canonical:
  assumes "NormalizeRequirements L required = Inr capabilities"
  shows "capabilities \<noteq> []" and "list_all canonical_capability capabilities"
proof -
  have loop: "capabilities_loop L [] required = Inr capabilities" and "required \<noteq> []"
    using assms by (auto simp: NormalizeRequirements_def split: if_splits sum.splits)
  then show "list_all canonical_capability capabilities" using capabilities_loop_result by fastforce
  obtain c rest where "required = c # rest" using \<open>required \<noteq> []\<close> by (cases required) auto
  with loop obtain n where "NormalizeCapability L c = Inr n" by (auto split: sum.splits)
  then have "n \<in> set capabilities" using capabilities_loop_set [OF loop] \<open>required = c # rest\<close> by auto
  then show "capabilities \<noteq> []" by auto
qed

section \<open>Properties\<close>

text \<open>
  C18: Routing is sound and complete. A decision names a stored Agent that declares every required
  capability, is not unhealthy and runs below its capacity, and falls back to an Agent of unknown
  health only when no healthy one has room; the reported load, capacity and number of eligible
  Agents are the true ones. "No candidate" and "no capacity" are reported exactly when no such
  Agent exists, or all of them are saturated; every other failure is an invalid requirement.
\<close>

theorem router_sound:
  assumes "agents_keyed m"
  shows "case NormalizeRequirements L required of
      Inl e \<Rightarrow> store_route L health m required = Inl e
    | Inr capabilities \<Rightarrow>
        (case store_route L health m required of
           Inr d \<Rightarrow> decision_for health m capabilities (d_Health d) d
             \<and> (d_Health d = StatusHealthy \<or> d_Health d = StatusUnknown
                  \<and> (\<nexists>a. candidate health m capabilities StatusHealthy a \<and> has_room m a))
         | Inl e \<Rightarrow>
             (\<nexists>a. (candidate health m capabilities StatusHealthy a \<or> candidate health m capabilities StatusUnknown a)
                \<and> has_room m a)
           \<and> e = (if \<exists>a. candidate health m capabilities StatusHealthy a \<or> candidate health m capabilities StatusUnknown a
                  then ErrNoCapacity else ErrNoCandidate))"
proof (cases "NormalizeRequirements L required")
  case (Inr capabilities)
  note caps = requirements_canonical [OF Inr]
  let ?sel = "select_tiers (Search L health m) (\<lambda>idents. Inr (CountActiveRunsByAgent idents m)) capabilities"
  have route: "store_route L health m required = ?sel False tiers"
    by (simp add: store_route_def Select_def Inr)
  let ?rest = "[(StatusUnknown, ''unknown-fallback-load-priority-created-at-id'')]"
  have second: "case ?sel saw ?rest of
      Inr d \<Rightarrow> decision_for health m capabilities StatusUnknown d
    | Inl e \<Rightarrow> (\<nexists>a. candidate health m capabilities StatusUnknown a \<and> has_room m a)
        \<and> e = (if saw \<or> (\<exists>a. candidate health m capabilities StatusUnknown a) then ErrNoCapacity else ErrNoCandidate)" for saw
    by (rule select_tier [OF assms caps, where tier = StatusUnknown and saw = saw and rest = "[]" and L = L
          and health = health and strategy = "''unknown-fallback-load-priority-created-at-id''"])
      (auto simp del: select_tiers.simps(2))
  have health: "d_Health d = tier" if "decision_for health m capabilities tier d" for d tier
    using that by (simp add: decision_for_def)
  show ?thesis
    by (rule select_tier [OF assms caps, where tier = StatusHealthy and saw = False and rest = ?rest and L = L
          and health = health and strategy = "''healthy-load-priority-created-at-id''"])
      (use second [of False] second [of True] health in
        \<open>auto simp: Inr route tiers_def split: sum.splits simp del: select_tiers.simps(2)\<close>)
qed (simp add: store_route_def Select_def)

lemma select_tiers_best:
  assumes "agents_keyed m" and "small_capacities m"
    and "capabilities \<noteq> []" and "list_all canonical_capability capabilities"
    and "\<forall>(tier, strategy) \<in> set ts. tier = StatusHealthy \<or> tier = StatusUnknown"
    and "select_tiers (Search L health m) (\<lambda>idents. Inr (CountActiveRunsByAgent idents m)) capabilities saw ts = Inr d"
  shows "decision_for health m capabilities (d_Health d) d \<and> decision_best health m capabilities (d_Health d) d"
  using assms(5,6)
proof (induction ts arbitrary: saw)
  case Nil
  then show ?case by (simp split: if_splits)
next
  case (Cons t ts)
  obtain tier strategy where t: "t = (tier, strategy)" by (cases t)
  have tier: "tier = StatusHealthy \<or> tier = StatusUnknown" using Cons.prems(1) t by simp
  have ts: "\<forall>(tier, strategy) \<in> set ts. tier = StatusHealthy \<or> tier = StatusUnknown" using Cons.prems(1) by simp
  show ?case
  proof (cases rule: select_tier [OF assms(1,3,4) tier, where saw = saw and rest = ts and L = L and health = health
        and strategy = strategy])
    case 1
    show ?thesis by (rule Cons.IH [OF ts trans [OF 1(2) [symmetric] Cons.prems(2) [unfolded t]]])
  next
    case 2
    show ?thesis by (rule Cons.IH [OF ts trans [OF 2(3) [symmetric] Cons.prems(2) [unfolded t]]])
  next
    case (3 d')
    have "Inr d' = (Inr d :: router_error + Decision)" by (rule trans [OF 3(1) [symmetric] Cons.prems(2) [unfolded t]])
    then have "d' = d" by simp
    then show ?thesis using 3(2) 3(3) [OF assms(2)] by (simp add: decision_for_def)
  qed
qed

lemma route_best:
  assumes "agents_keyed m" and "small_capacities m"
    and "NormalizeRequirements L required = Inr capabilities" and "store_route L health m required = Inr d"
  shows "decision_for health m capabilities (d_Health d) d \<and> decision_best health m capabilities (d_Health d) d"
proof (rule select_tiers_best [OF assms(1,2) requirements_canonical [OF assms(3)]])
  show "select_tiers (Search L health m) (\<lambda>idents. Inr (CountActiveRunsByAgent idents m)) capabilities False tiers = Inr d"
    using assms(4) unfolding store_route_def Select_def assms(3) by (simp only: sum.case)
qed (simp add: tiers_def)

text \<open>
  C32: Routing balances load. While the capacities are at most \<open>2 ^ 31\<close>, no eligible Agent of the
  same health is preferable to the selected one: the selected Agent has the least ratio of active
  Runs to capacity, among those the highest priority, among those the most remaining capacity,
  then the earliest creation and the least identifier.
\<close>

theorem router_least_loaded:
  assumes "agents_keyed m" and "small_capacities m"
    and "NormalizeRequirements L required = Inr capabilities" and "store_route L health m required = Inr d"
    and "candidate health m capabilities (d_Health d) b" and "has_room m b"
  shows "let a = d_Agent d; x = load_of m a * capacity_of b; y = load_of m b * capacity_of a in
    x < y \<or> x = y \<and> (a_Priority b < a_Priority a \<or> a_Priority b = a_Priority a \<and>
      (let u = capacity_of a - load_of m a; v = capacity_of b - load_of m b in
       v < u \<or> v = u \<and> (a_CreatedAt a < a_CreatedAt b \<or> a_CreatedAt a = a_CreatedAt b \<and> a_ID a \<le> a_ID b)))"
proof -
  let ?a = "d_Agent d"
  note best = route_best [OF assms(1-4)]
  have a: "candidate health m capabilities (d_Health d) ?a" "has_room m ?a"
    using best by (simp_all add: decision_for_def)
  have ra: "rank_small (rank_of m ?a)" using candidate_rank_small [OF assms(2) a] .
  have rb: "rank_small (rank_of m b)" using candidate_rank_small [OF assms(2,5,6)] .
  have "\<not> ideal_before (rank_of m b) (rank_of m ?a)" using best assms(5,6) by (simp add: decision_best_def)
  then have "\<not> rank_before (rank_of m b) (rank_of m ?a)" using rank_before_ideal [OF rb ra] by simp
  then show ?thesis unfolding rank_before_def Let_def small_product [OF ra rb] small_product [OF rb ra]
    by (auto simp: rank_of_def split: if_splits)
qed

definition sample_routing :: Memory where
  "sample_routing = sample_pair\<lparr>m_runs := [(''r'', sample_run\<lparr>r_AgentID := ''a''\<rparr>)]\<rparr>"

lemma sample_routing_agents: "agents_keyed sample_routing" "small_capacities sample_routing"
  by (simp_all add: sample_routing_def agents_keyed_def keyed_def keys_distinct_def sample_pair_def NewMemory_def
      small_capacities_def sample_agent_normal_def sample_agent_def)

definition sample_decision :: Decision where
  "sample_decision = \<lparr> d_Agent = sample_agent_normal\<lparr>a_ID := ''b'', a_Version := 1\<rparr>,
     d_RequiredCapabilities = [''sql''], d_Health = ''unknown'', d_Strategy = ''unknown-fallback-load-priority-created-at-id'',
     d_CandidateCount = 2, d_ActiveRuns = 0, d_EffectiveCapacity = 2, d_Priority = a_Priority sample_agent \<rparr>"

lemma sample_routed: "store_route sample_lib (\<lambda>_. StatusUnknown) sample_routing [''SQL''] = Inr sample_decision"
  by code_simp

lemma sample_required: "NormalizeRequirements sample_lib [''SQL''] = Inr [''sql'']"
  by code_simp

theorem router_sound_witness:
  "store_route sample_lib (\<lambda>_. StatusUnknown) sample_routing [''SQL''] = Inr sample_decision
   \<and> decision_for (\<lambda>_. StatusUnknown) sample_routing [''sql''] StatusUnknown sample_decision
   \<and> (\<nexists>a. candidate (\<lambda>_. StatusUnknown) sample_routing [''sql''] StatusHealthy a \<and> has_room sample_routing a)"
proof -
  have h: "d_Health sample_decision = StatusUnknown" "StatusUnknown \<noteq> StatusHealthy" by code_simp+
  show ?thesis
    using router_sound [OF sample_routing_agents(1), where L = sample_lib and required = "[''SQL'']" and health = "\<lambda>_. StatusUnknown"] sample_routed h
    by (simp add: sample_required)
qed

lemma sample_rival:
  "candidate (\<lambda>_. StatusUnknown) sample_routing [''sql''] (d_Health sample_decision) (sample_agent_normal\<lparr>a_Version := 1\<rparr>)"
  "has_room sample_routing (sample_agent_normal\<lparr>a_Version := 1\<rparr>)"
  by (simp add: candidate_def) code_simp+

theorem router_least_loaded_witness:
  "store_route sample_lib (\<lambda>_. StatusUnknown) sample_routing [''SQL''] = Inr sample_decision
   \<and> load_of sample_routing (d_Agent sample_decision) * 2 \<le> load_of sample_routing (sample_agent_normal\<lparr>a_Version := 1\<rparr>) * 2"
proof -
  have "capacity_of (d_Agent sample_decision) = 2" "capacity_of (sample_agent_normal\<lparr>a_Version := 1\<rparr>) = 2"
    by code_simp+
  then show ?thesis
    using router_least_loaded [OF sample_routing_agents sample_required sample_routed sample_rival] sample_routed
    by (auto simp: Let_def)
qed

text \<open>
  Without the bound on capacities the 64-bit products can overflow: an Agent at three quarters of
  its capacity is then ranked before an idle one.
\<close>

lemma rank_before_overflow:
  "let busy = \<lparr> ra_agent = sample_agent, ra_active = 3, ra_capacity = 4 \<rparr>;
       idle = \<lparr> ra_agent = sample_agent, ra_active = 0, ra_capacity = 2 ^ 62 \<rparr>
   in rank_before busy idle \<and> ideal_before idle busy"
  by (simp add: rank_before_def ideal_before_def load_fraction_def wrap64_def)

end
