(* ===== verification/Engine_System.thy ===== *)
theory Engine_System
  imports Engine
begin

text \<open>
  The engine as a whole: every interleaving of the workers, their lease keepers and cancellation
  watches, cancellations, queue deliveries and the writes of the API. The step relation is
  labelled with the attempts it starts. Its invariant ties what a worker holds in its local
  variables to the store, as long as the worker's execution fence is the current one.
\<close>

section \<open>Steps\<close>

definition zero_agent :: Agent where
  "zero_agent = \<lparr> a_ID = '''', a_Name = '''', a_SystemPrompt = '''', a_Runtime = '''', a_Protocol = '''',
     a_Endpoint = '''', a_Model = '''', a_Capabilities = [], a_EffectIdempotency = '''', a_MaxConcurrency = 0,
     a_Priority = 0, a_CreatedAt = 0, a_UpdatedAt = 0, a_Version = 0 \<rparr>"

definition new_worker :: "string \<Rightarrow> Worker" where
  "new_worker runID = \<lparr> wk_runID = runID, wk_pc = PcLoad, wk_run = zero_run\<lparr>r_ID := runID\<rparr>,
     wk_lease = \<lparr> ls_key = '''', ls_token = 0, ls_once = True \<rparr>, wk_fence = 0, wk_agent = zero_agent,
     wk_chan = 0, wk_canceled = False, wk_keeperErr = None, wk_keeping = False, wk_watching = False \<rparr>"

text \<open>
  The calls of the repository from outside the engine. Of the ways to write Runs the API uses
  creation and cancellation, and it marks a Run it could not enqueue as failed.
\<close>

fun api_op :: "Memory \<Rightarrow> store_op \<Rightarrow> bool" where
  "api_op m (OpUpdateRun run) \<longleftrightarrow>
     (case get (m_runs m) (r_ID run) of
        None \<Rightarrow> True
      | Some existing \<Rightarrow> run_active existing \<and> r_Status run = RunFailed
          \<and> r_Attempt run = r_Attempt existing \<and> r_MaxAttempts run = r_MaxAttempts existing)"
| "api_op m (OpClaimRunExecution _ _) \<longleftrightarrow> False"
| "api_op m (OpUpdateRunFenced _ _) \<longleftrightarrow> False"
| "api_op m (OpRecoverRun _ _) \<longleftrightarrow> False"
| "api_op m op \<longleftrightarrow> op_fresh m op"

text \<open>The attempt a step of a worker hands to the runtime.\<close>

definition attempt_label :: "Worker \<Rightarrow> Worker \<Rightarrow> (string \<times> int) list" where
  "attempt_label w w' =
     (if wk_pc w = PcBegin \<and> wk_pc w' = PcExecute then [(wk_runID w, r_Attempt (wk_run w'))] else [])"

definition set_worker :: "nat \<Rightarrow> Worker \<times> Engine \<Rightarrow> Engine" where
  "set_worker i ws = (snd ws)\<lparr>en_workers := put i (fst ws) (en_workers (snd ws))\<rparr>"

inductive engine_step ::
  "golib \<Rightarrow> RetryPolicy \<Rightarrow> (Agent \<Rightarrow> string option) \<Rightarrow> Engine \<Rightarrow> (string \<times> int) list \<Rightarrow> Engine \<Rightarrow> bool"
  for L :: golib and retry :: RetryPolicy and resolve :: "Agent \<Rightarrow> string option" where
  deliver: "get (en_workers s) i = None \<Longrightarrow> receive (en_queue s) = Some (k, q) \<Longrightarrow>
    engine_step L retry resolve s [] (s\<lparr>en_queue := q, en_workers := put i (new_worker k) (en_workers s)\<rparr>)"
| work: "get (en_workers s) i = Some w \<Longrightarrow> execute_step L retry resolve v i w s = ws \<Longrightarrow>
    engine_step L retry resolve s (attempt_label w (fst ws)) (set_worker i ws)"
| keeper: "get (en_workers s) i = Some w \<Longrightarrow> wk_keeping w \<Longrightarrow> keeper_tick retry late v w s = ws \<Longrightarrow>
    engine_step L retry resolve s [] (set_worker i ws)"
| poll: "get (en_workers s) i = Some w \<Longrightarrow> wk_watching w \<Longrightarrow>
    engine_step L retry resolve s [] (set_worker i (watch_poll w s, s))"
| event: "get (en_workers s) i = Some w \<Longrightarrow> wk_watching w \<Longrightarrow> watch_event w s = ws \<Longrightarrow>
    engine_step L retry resolve s [] (set_worker i ws)"
| cancel: "Engine_Cancel v k s = Inr (run, s') \<Longrightarrow> engine_step L retry resolve s [] s'"
| enqueue: "Engine_Enqueue k s = Inr s' \<Longrightarrow> engine_step L retry resolve s [] s'"
| finish: "get (en_workers s) i = Some w \<Longrightarrow> wk_pc w = PcReturned x \<Longrightarrow>
    engine_step L retry resolve s []
      (s\<lparr>en_queue := requeue (x \<noteq> ExitNil) (en_ctxDone s) (wk_runID w) (en_queue s), en_workers := del i (en_workers s)\<rparr>)"
| shutdown: "engine_step L retry resolve s [] (s\<lparr>en_ctxDone := True\<rparr>)"
| leases: "engine_step L retry resolve s [] (s\<lparr>en_coord := c\<rparr>)"
| api: "api_op (en_store s) op \<Longrightarrow>
    engine_step L retry resolve s [] (s\<lparr>en_store := store_exec L op (en_store s)\<rparr>)"

text \<open>
  The coordinator is shared with the schedulers of workflows and with other processes: \<open>leases\<close>
  lets it change in any way, so that nothing below rests on the leases; what keeps two workers apart
  is the fence of the store.

  An execution with the attempts started in it, in order:
\<close>

inductive engine_run ::
  "golib \<Rightarrow> RetryPolicy \<Rightarrow> (Agent \<Rightarrow> string option) \<Rightarrow> Engine \<Rightarrow> (string \<times> int) list \<Rightarrow> Engine \<Rightarrow> bool"
  for L :: golib and retry :: RetryPolicy and resolve :: "Agent \<Rightarrow> string option" where
  stay: "engine_run L retry resolve s [] s"
| step: "engine_run L retry resolve s tr s1 \<Longrightarrow> engine_step L retry resolve s1 l s2 \<Longrightarrow>
    engine_run L retry resolve s (tr @ l) s2"

section \<open>What a worker knows\<close>

text \<open>
  \<^verbatim>\<open>holding\<close>: the worker has claimed the Run and not begun to return; \<^verbatim>\<open>loaded\<close>: it has also read the
  Run again under its claim.
\<close>

fun loaded :: "pc \<Rightarrow> bool" where
  "loaded PcLoad = False" | "loaded PcAcquire = False" | "loaded PcClaim = False" | "loaded PcActivate = False"
| "loaded PcWatch = False" | "loaded PcReload = False" | "loaded (PcDeadLetter _) = False"
| "loaded (PcStopKeeper _) = False" | "loaded (PcUnwatch _) = False" | "loaded (PcRelease _) = False"
| "loaded (PcReturned _) = False" | "loaded _ = True"

definition holding :: "pc \<Rightarrow> bool" where
  "holding p \<longleftrightarrow> loaded p \<or> p = PcActivate \<or> p = PcWatch \<or> p = PcReload"

lemma holding_simps [simp]:
  "\<not> holding PcLoad" "\<not> holding PcAcquire" "\<not> holding PcClaim" "\<not> holding (PcDeadLetter e)" "\<not> holding (PcStopKeeper x)"
  "\<not> holding (PcUnwatch x)" "\<not> holding (PcRelease x)" "\<not> holding (PcReturned x)"
  "holding PcActivate" "holding PcWatch" "holding PcReload" "loaded p \<Longrightarrow> holding p"
  by (simp_all add: holding_def)

text \<open>The local copy agrees with the stored Run, which is live or was cancelled.\<close>

definition in_sync :: "pc \<Rightarrow> Run \<Rightarrow> Run \<Rightarrow> bool" where
  "in_sync p stored run \<longleftrightarrow>
     (r_Status stored = RunCanceled \<or> run_active stored \<and> (loaded p \<longrightarrow> r_Status stored = r_Status run))
   \<and> (loaded p \<longrightarrow> r_Attempt stored = r_Attempt run
        \<and> (1 \<le> r_MaxAttempts stored \<longrightarrow> r_MaxAttempts run = r_MaxAttempts stored))"

definition worker_ok :: "Memory \<Rightarrow> Worker \<Rightarrow> bool" where
  "worker_ok m w \<longleftrightarrow> r_ID (wk_run w) = wk_runID w
   \<and> (holding (wk_pc w) \<longrightarrow> 0 < wk_fence w \<and> wk_fence w \<le> fence_of m (wk_runID w)
        \<and> (\<exists>stored. get (m_runs m) (wk_runID w) = Some stored
             \<and> (fence_of m (wk_runID w) = wk_fence w \<longrightarrow> in_sync (wk_pc w) stored (wk_run w))))
   \<and> ((\<exists>e. wk_pc w = PcDeadLetter e) \<longrightarrow>
        (\<exists>stored. get (m_runs m) (wk_runID w) = Some stored \<and> \<not> run_active stored))"

text \<open>The two ways in which a worker changes the store.\<close>

definition claims :: "string \<Rightarrow> int \<Rightarrow> Memory \<Rightarrow> Memory \<Rightarrow> bool" where
  "claims k f m m' \<longleftrightarrow> (\<exists>stored. get (m_runs m) k = Some stored \<and> run_active stored) \<and> fence_of m k < f
   \<and> m' = m\<lparr>m_runFences := put k f (m_runFences m)\<rparr>"

definition writes :: "string \<Rightarrow> int \<Rightarrow> Run \<Rightarrow> Memory \<Rightarrow> Memory \<Rightarrow> bool" where
  "writes k f run m m' \<longleftrightarrow>
     (\<exists>stored. get (m_runs m) k = Some stored \<and> run_active stored \<and> fence_of m k = f \<and> r_ID run = k
        \<and> (1 \<le> r_MaxAttempts stored \<longrightarrow> r_MaxAttempts run = r_MaxAttempts stored)
        \<and> m' = m\<lparr>m_runs := put k (keep_lineage stored run) (m_runs m)\<rparr>)"

text \<open>What a step of a worker may do, with the attempts it starts.\<close>

definition own_effect :: "Worker \<Rightarrow> Worker \<Rightarrow> Memory \<Rightarrow> Memory \<Rightarrow> bool" where
  "own_effect w w' m m' \<longleftrightarrow>
     (let k = wk_runID w in
      m' = m \<and> attempt_label w w' = [] \<and> (holding (wk_pc w') \<longrightarrow> holding (wk_pc w) \<and> wk_fence w' = wk_fence w)
    \<or> claims k (wk_fence w') m m' \<and> attempt_label w w' = []
    \<or> (\<exists>run. writes k (wk_fence w) run m m' \<and> holding (wk_pc w) \<and> wk_fence w' = wk_fence w
         \<and> (attempt_label w w' = [] \<and> r_Attempt run = r_Attempt (the (get (m_runs m) k))
            \<or> attempt_label w w' = [(k, r_Attempt run)] \<and> r_Attempt run = r_Attempt (the (get (m_runs m) k)) + 1
              \<and> (0 < r_MaxAttempts run \<longrightarrow> r_Attempt run \<le> r_MaxAttempts run))))"

definition step_ok :: "Worker \<Rightarrow> Engine \<Rightarrow> Worker \<times> Engine \<Rightarrow> bool" where
  "step_ok w s ws \<longleftrightarrow> en_workers (snd ws) = en_workers s \<and> wk_runID (fst ws) = wk_runID w
   \<and> worker_ok (en_store (snd ws)) (fst ws) \<and> own_effect w (fst ws) (en_store s) (en_store (snd ws))"

lemma worker_okD:
  assumes "worker_ok m w"
  shows "r_ID (wk_run w) = wk_runID w"
    and "holding (wk_pc w) \<Longrightarrow> 0 < wk_fence w \<and> wk_fence w \<le> fence_of m (wk_runID w)"
    and "holding (wk_pc w) \<Longrightarrow> \<exists>stored. get (m_runs m) (wk_runID w) = Some stored
             \<and> (fence_of m (wk_runID w) = wk_fence w \<longrightarrow> in_sync (wk_pc w) stored (wk_run w))"
  using assms by (auto simp: worker_ok_def)

text \<open>A step that leaves the store alone and does not claim more than the worker had.\<close>

lemma quiet_ok:
  assumes "worker_ok (en_store s) w" and "en_workers s' = en_workers s" and "en_store s' = en_store s"
    and "wk_runID w' = wk_runID w" and "r_ID (wk_run w') = wk_runID w"
    and "holding (wk_pc w') \<Longrightarrow> holding (wk_pc w) \<and> wk_fence w' = wk_fence w
      \<and> (loaded (wk_pc w') \<longrightarrow> loaded (wk_pc w) \<and> r_Status (wk_run w') = r_Status (wk_run w)
           \<and> r_Attempt (wk_run w') = r_Attempt (wk_run w)
           \<and> (1 \<le> r_MaxAttempts (wk_run w) \<longrightarrow> r_MaxAttempts (wk_run w') = r_MaxAttempts (wk_run w)))"
    and "wk_pc w \<noteq> PcBegin \<or> wk_pc w' \<noteq> PcExecute" and "\<And>e. wk_pc w' \<noteq> PcDeadLetter e"
  shows "step_ok w s (w', s')"
proof -
  have "worker_ok (en_store s) w'" using assms(1,4,5,6,8) unfolding worker_ok_def in_sync_def by auto
  moreover have "own_effect w w' (en_store s) (en_store s)"
    using assms(6,7) by (auto simp: own_effect_def attempt_label_def)
  ultimately show ?thesis using assms(2,3,4) by (simp add: step_ok_def)
qed

lemma publish_store [simp]:
  "en_store (publishRun v run t msg n s) = en_store s" "en_workers (publishRun v run t msg n s) = en_workers s"
  "en_store (engine_publish v k t msg n s) = en_store s" "en_workers (engine_publish v k t msg n s) = en_workers s"
  by (simp_all add: publishRun_def engine_publish_def)

lemma lease_check_cases:
  obtains e s' where "lease_check p v w s = (return (ExitErr e) w, s')"
      "en_store s' = en_store s" "en_workers s' = en_workers s"
  | "lease_check p v w s = (goto p w, s)"
  by (cases "wk_keeperErr w") (auto simp: lease_check_def leaseRenewalError_def)

section \<open>Every step of a worker keeps its knowledge\<close>

lemma claim_ok:
  assumes "worker_ok (en_store s) w" and "wk_pc w = PcClaim" and "\<forall>k. 0 \<le> fence_of (en_store s) k"
  shows "step_ok w s (execute_claim w s)"
proof (cases "ClaimRunExecution (r_ID (wk_run w)) (FencingToken (wk_lease w)) (en_store s)")
  case (Inl e)
  have "\<exists>x. execute_claim w s = (goto (PcRelease x) w, s)"
    using Inl by (auto simp: execute_claim_def split: store_error.splits)
  then show ?thesis using assms(1) worker_okD(1) [OF assms(1)] by (auto intro!: quiet_ok)
next
  case (Inr r)
  obtain f m where r: "r = (f, m)" by (cases r)
  have k: "r_ID (wk_run w) = wk_runID w" by (rule worker_okD(1) [OF assms(1)])
  from Inr r obtain stored where stored: "get (m_runs (en_store s)) (wk_runID w) = Some stored" "run_active stored"
    and f: "f = max (fence_of (en_store s) (wk_runID w) + 1) (FencingToken (wk_lease w))"
    and m: "m = (en_store s)\<lparr>m_runFences := put (wk_runID w) f (m_runFences (en_store s))\<rparr>"
    by (auto simp: ClaimRunExecution_Inr k)
  have above: "fence_of (en_store s) (wk_runID w) < f" "0 < f" using f assms(3) [THEN spec, of "wk_runID w"] by auto
  have "execute_claim w s = (goto PcActivate (w\<lparr>wk_fence := f\<rparr>), s\<lparr>en_store := m\<rparr>)"
    using Inr r by (simp add: execute_claim_def)
  moreover have "claims (wk_runID w) f (en_store s) m" using stored above m by (simp add: claims_def)
  moreover have "worker_ok m (goto PcActivate (w\<lparr>wk_fence := f\<rparr>))"
    using stored above k by (auto simp: worker_ok_def m in_sync_def)
  ultimately show ?thesis using assms(2) by (simp add: step_ok_def own_effect_def attempt_label_def)
qed

text \<open>A fenced write by a worker that has read its Run.\<close>

lemma fenced_write:
  assumes "worker_ok m w" and "loaded (wk_pc w)" and "UpdateRunFenced run (wk_fence w) m = Inr m'"
    and "r_ID run = r_ID (wk_run w)"
    and "1 \<le> r_MaxAttempts (wk_run w) \<Longrightarrow> r_MaxAttempts run = r_MaxAttempts (wk_run w)"
  obtains stored where "get (m_runs m) (wk_runID w) = Some stored" and "run_active stored"
    and "r_Attempt stored = r_Attempt (wk_run w)" and "writes (wk_runID w) (wk_fence w) run m m'"
    and "get (m_runs m') (wk_runID w) = Some (keep_lineage stored run)" and "fence_of m' (wk_runID w) = wk_fence w"
proof -
  have k: "r_ID (wk_run w) = wk_runID w" by (rule worker_okD(1) [OF assms(1)])
  from assms(3,4) k obtain stored where stored: "get (m_runs m) (wk_runID w) = Some stored"
    "r_Status stored \<noteq> RunCanceled" "fence_of m (wk_runID w) = wk_fence w"
    and m': "m' = m\<lparr>m_runs := put (wk_runID w) (keep_lineage stored run) (m_runs m)\<rparr>"
    by (auto simp: UpdateRunFenced_Inr)
  have "in_sync (wk_pc w) stored (wk_run w)"
    using worker_okD(3) [OF assms(1)] assms(2) stored(1,3) by auto
  then have "run_active stored" "r_Attempt stored = r_Attempt (wk_run w)"
    "1 \<le> r_MaxAttempts stored \<longrightarrow> r_MaxAttempts run = r_MaxAttempts stored"
    using assms(2,5) stored(2) by (auto simp: in_sync_def)
  then show thesis using that stored m' assms(4) k by (auto simp: writes_def)
qed

lemma failRun_ok:
  assumes "worker_ok (en_store s) w" and "loaded (wk_pc w)" and "wk_pc w \<noteq> PcBegin"
  shows "step_ok w s (failRun v err w s)"
proof (cases "Run_Fail (wk_run w) (Some err) (v_now v)")
  case (Inl e)
  then show ?thesis using assms worker_okD(1) [OF assms(1)] by (auto simp: failRun_def intro!: quiet_ok)
next
  case run: (Inr run)
  then have same: "r_ID run = r_ID (wk_run w)" "r_MaxAttempts run = r_MaxAttempts (wk_run w)"
    "r_Attempt run = r_Attempt (wk_run w)" "r_Status run = RunFailed"
    by (auto simp: Run_Fail_def split: if_splits)
  show ?thesis
  proof (cases "UpdateRunFenced run (wk_fence w) (en_store s)")
    case (Inl e)
    have "\<exists>x. failRun v err w s = (return x w, s)"
      using Inl run by (auto simp: failRun_def split: store_error.splits)
    then show ?thesis using assms worker_okD(1) [OF assms(1)] by (auto intro!: quiet_ok)
  next
    case (Inr m)
    from fenced_write [OF assms(1,2) Inr same(1)] same(2) obtain stored where
      stored: "get (m_runs (en_store s)) (wk_runID w) = Some stored" "r_Attempt stored = r_Attempt (wk_run w)"
      and written: "writes (wk_runID w) (wk_fence w) run (en_store s) m"
      and now: "get (m_runs m) (wk_runID w) = Some (keep_lineage stored run)"
      by metis
    have "worker_ok m (goto (PcDeadLetter err) w)"
      using now worker_okD(1) [OF assms(1)] same(4) by (auto simp: worker_ok_def run_active_def)
    then show ?thesis using run Inr written stored same(3) assms(2)
      by (auto simp: failRun_def step_ok_def own_effect_def attempt_label_def Let_def)
  qed
qed

lemma begin_ok:
  assumes "worker_ok (en_store s) w" and "wk_pc w = PcBegin"
  shows "step_ok w s (attempt_begin v w s)"
proof (cases "if r_Status (wk_run w) = RunQueued then Run_Start (wk_run w) (v_now v) else Run_Retry (wk_run w)")
  case (Inl e)
  then show ?thesis using assms worker_okD(1) [OF assms(1)] by (auto simp: attempt_begin_def intro!: quiet_ok)
next
  case run: (Inr run)
  then have same: "r_ID run = r_ID (wk_run w)" "r_MaxAttempts run = r_MaxAttempts (wk_run w)"
    "r_Attempt run = r_Attempt (wk_run w) + 1" "0 < r_MaxAttempts run \<longrightarrow> r_Attempt run \<le> r_MaxAttempts run"
    "r_Status run = RunRunning"
    by (auto simp: Run_Start_Inr Run_Retry_Inr split: if_splits)
  have loaded: "loaded (wk_pc w)" using assms(2) by simp
  show ?thesis
  proof (cases "UpdateRunFenced run (wk_fence w) (en_store s)")
    case (Inl e)
    have "\<exists>x. attempt_begin v w s = (return x (w\<lparr>wk_run := run\<rparr>), s)"
      using Inl run by (auto simp: attempt_begin_def split: store_error.splits)
    then show ?thesis using assms worker_okD(1) [OF assms(1)] same(1) by (auto intro!: quiet_ok)
  next
    case (Inr m)
    from fenced_write [OF assms(1) loaded Inr same(1)] same(2) obtain stored where
      stored: "get (m_runs (en_store s)) (wk_runID w) = Some stored" "r_Attempt stored = r_Attempt (wk_run w)"
      and written: "writes (wk_runID w) (wk_fence w) run (en_store s) m"
      and now: "get (m_runs m) (wk_runID w) = Some (keep_lineage stored run)" "fence_of m (wk_runID w) = wk_fence w"
      by metis
    have "worker_ok m (goto PcExecute (w\<lparr>wk_run := run\<rparr>))"
      using now worker_okD(1,2) [OF assms(1)] same(1,5) assms(2)
      by (auto simp: worker_ok_def in_sync_def run_active_def keep_lineage_def)
    moreover have "attempt_label w (goto PcExecute (w\<lparr>wk_run := run\<rparr>)) = [(wk_runID w, r_Attempt run)]"
      using assms(2) by (simp add: attempt_label_def)
    ultimately show ?thesis using run Inr written stored same(3,4) assms(2)
      by (auto simp: attempt_begin_def step_ok_def own_effect_def Let_def)
  qed
qed

lemma outcome_ok:
  assumes "worker_ok (en_store s) w" and "wk_pc w = PcOutcome result"
  shows "step_ok w s (attempt_outcome L retry v result w s)"
proof (cases "x_err result")
  case (Some err)
  show ?thesis
  proof (cases "r_Attempt (wk_run w) \<ge> r_MaxAttempts (wk_run w)")
    case True
    then show ?thesis using Some failRun_ok [OF assms(1)] assms(2) by (simp add: attempt_outcome_def)
  next
    case False
    then show ?thesis using Some assms worker_okD(1) [OF assms(1)] by (auto simp: attempt_outcome_def intro!: quiet_ok)
  qed
next
  case None
  have loaded: "loaded (wk_pc w)" using assms(2) by simp
  show ?thesis
  proof (cases "Run_Succeed (wk_run w) (x_output result) (v_now v)")
    case (Inl e)
    then show ?thesis using None assms worker_okD(1) [OF assms(1)] by (auto simp: attempt_outcome_def intro!: quiet_ok)
  next
    case run: (Inr run)
    then have same: "r_ID run = r_ID (wk_run w)" "r_MaxAttempts run = r_MaxAttempts (wk_run w)"
      "r_Attempt run = r_Attempt (wk_run w)"
      by (auto simp: Run_Succeed_def split: if_splits)
    show ?thesis
    proof (cases "UpdateRunFenced run (wk_fence w) (en_store s)")
      case (Inl e)
      have "\<exists>x. attempt_outcome L retry v result w s = (return x (w\<lparr>wk_run := run\<rparr>), s)"
        using Inl run None by (auto simp: attempt_outcome_def split: store_error.splits)
      then show ?thesis using assms worker_okD(1) [OF assms(1)] same(1) by (auto intro!: quiet_ok)
    next
      case (Inr m)
      from fenced_write [OF assms(1) loaded Inr same(1)] same(2) obtain stored where
        stored: "get (m_runs (en_store s)) (wk_runID w) = Some stored" "r_Attempt stored = r_Attempt (wk_run w)"
        and written: "writes (wk_runID w) (wk_fence w) run (en_store s) m"
        by metis
      have "worker_ok m (return ExitNil (w\<lparr>wk_run := run\<rparr>))"
        using worker_okD(1) [OF assms(1)] same(1) by (simp add: worker_ok_def)
      then show ?thesis using run Inr None written stored same(3) assms(2)
        by (auto simp: attempt_outcome_def step_ok_def own_effect_def attempt_label_def Let_def)
    qed
  qed
qed

lemma reload_ok:
  assumes "worker_ok (en_store s) w" and "wk_pc w = PcReload" and "keyed r_ID (m_runs (en_store s))"
  shows "step_ok w s (execute_reload w s)"
proof (cases "GetRun (r_ID (wk_run w)) (en_store s)")
  case (Inl e)
  then show ?thesis using assms(1,2) worker_okD(1) [OF assms(1)] by (auto simp: execute_reload_def intro!: quiet_ok)
next
  case (Inr run)
  have k: "r_ID (wk_run w) = wk_runID w" by (rule worker_okD(1) [OF assms(1)])
  then have stored: "get (m_runs (en_store s)) (wk_runID w) = Some run"
    using Inr by (auto simp: GetRun_def split: option.splits)
  then have ID: "r_ID run = wk_runID w" using keyedD [OF assms(3)] by blast
  show ?thesis
  proof (cases "r_Status run = RunCanceled")
    case True
    then show ?thesis using Inr assms(1,2) ID by (auto simp: execute_reload_def intro!: quiet_ok)
  next
    case False
    have "worker_ok (en_store s) (goto PcAgent (w\<lparr>wk_run := run\<rparr>))"
      using assms(1,2) stored ID False by (auto simp: worker_ok_def in_sync_def)
    then show ?thesis using Inr False assms(2)
      by (auto simp: execute_reload_def step_ok_def own_effect_def attempt_label_def Let_def)
  qed
qed

lemma load_ok:
  assumes "worker_ok (en_store s) w" and "wk_pc w = PcLoad" and "keyed r_ID (m_runs (en_store s))"
  shows "step_ok w s (execute_load v w s)"
proof -
  have "\<exists>p run s'. execute_load v w s = (goto p (w\<lparr>wk_run := run\<rparr>), s') \<and> r_ID run = wk_runID w
      \<and> (p = PcAcquire \<or> (\<exists>x. p = PcReturned x)) \<and> en_store s' = en_store s \<and> en_workers s' = en_workers s"
  proof (cases "GetRun (wk_runID w) (en_store s)")
    case (Inl e)
    then show ?thesis using worker_okD(1) [OF assms(1)]
      by (intro exI [of _ "PcReturned (ExitErr (LoadRun e))"] exI [of _ "wk_run w"] exI [of _ s])
        (simp add: execute_load_def)
  next
    case (Inr run)
    have ID: "r_ID run = wk_runID w" "r_ID (wk_run w) = wk_runID w"
      using Inr keyedD [OF assms(3)] worker_okD(1) [OF assms(1)] by (auto simp: GetRun_def split: option.splits)
    show ?thesis
    proof (cases "run_active run")
      case True
      then show ?thesis using Inr ID
        by (intro exI [of _ PcAcquire] exI [of _ run] exI [of _ s])
          (auto simp: execute_load_def run_active_def)
    next
      case False
      then have "fst (execute_load v w s) = goto (PcReturned ExitNil) w" "en_store (snd (execute_load v w s)) = en_store s"
        "en_workers (snd (execute_load v w s)) = en_workers s"
        using Inr by (cases "r_Status run"; simp add: execute_load_def run_active_def QueueDeadLetter_def)+
      then show ?thesis using ID(2)
        by (intro exI [of _ "PcReturned ExitNil"] exI [of _ "wk_run w"] exI [of _ "snd (execute_load v w s)"])
          (simp add: prod_eq_iff)
    qed
  qed
  then show ?thesis using assms(1,2) by (auto intro!: quiet_ok)
qed

lemma acquire_ok:
  assumes "worker_ok (en_store s) w" and "wk_pc w = PcAcquire"
  shows "step_ok w s (execute_acquire retry v w s)"
  using assms worker_okD(1) [OF assms(1)]
  by (auto simp: execute_acquire_def intro!: quiet_ok split: sum.splits prod.splits option.splits)

lemma lease_check_ok:
  assumes "worker_ok (en_store s) w" and "loaded (wk_pc w)" and "loaded p" and "wk_pc w \<noteq> PcBegin"
  shows "step_ok w s (lease_check p v w s)"
proof (cases rule: lease_check_cases [of p v w s])
  case (1 e s')
  then show ?thesis using assms(1,2,4) worker_okD(1) [OF assms(1)] by (auto intro!: quiet_ok)
next
  case 2
  then show ?thesis using assms worker_okD(1) [OF assms(1)] by (auto intro!: quiet_ok)
qed

lemma execute_step_ok:
  assumes "worker_ok (en_store s) w" and "keyed r_ID (m_runs (en_store s))" and "\<forall>k. 0 \<le> fence_of (en_store s) k"
  shows "step_ok w s (execute_step L retry resolve v i w s)"
proof -
  note ID = worker_okD(1) [OF assms(1)]
  note here = execute_step_def [of L retry resolve v i w s]
  show ?thesis
  proof (cases "wk_pc w")
    case PcLoad then show ?thesis using load_ok [OF assms(1) _ assms(2)] by (simp add: here)
  next
    case PcAcquire then show ?thesis using acquire_ok [OF assms(1)] by (simp add: here)
  next
    case PcClaim then show ?thesis using claim_ok [OF assms(1) _ assms(3)] by (simp add: here)
  next
    case PcActivate then show ?thesis using assms(1) ID by (auto simp: here execute_activate_def intro!: quiet_ok)
  next
    case PcWatch then show ?thesis using assms(1) ID
      by (auto simp: here execute_watch_def intro!: quiet_ok split: prod.split)
  next
    case PcReload then show ?thesis using reload_ok [OF assms(1) _ assms(2)] by (simp add: here)
  next
    case PcAgent then show ?thesis using assms(1) ID failRun_ok [OF assms(1)]
      by (auto simp: here execute_agent_def intro!: quiet_ok split: sum.split)
  next
    case PcResolve then show ?thesis using assms(1) ID failRun_ok [OF assms(1)]
      by (auto simp: here execute_resolve_def intro!: quiet_ok split: option.split)
  next
    case PcLease then show ?thesis using lease_check_ok [OF assms(1)] by (simp add: here)
  next
    case PcCtx then show ?thesis using assms(1) ID by (auto simp: here intro!: quiet_ok)
  next
    case PcBegin then show ?thesis using begin_ok [OF assms(1)] by (simp add: here)
  next
    case PcExecute then show ?thesis using assms(1) ID
      by (auto simp: here attempt_execute_def Let_def intro!: quiet_ok split: prod.split)
  next
    case (PcLeaseAfter r) then show ?thesis using lease_check_ok [OF assms(1)] by (simp add: here)
  next
    case (PcParentAfter r) then show ?thesis using assms(1) ID by (auto simp: here intro!: quiet_ok)
  next
    case (PcCtxAfter r) then show ?thesis using assms(1) ID by (auto simp: here intro!: quiet_ok)
  next
    case (PcOutcome r) then show ?thesis using outcome_ok [OF assms(1)] by (simp add: here)
  next
    case PcWait then show ?thesis using assms(1) ID by (auto simp: here attempt_wait_def intro!: quiet_ok)
  next
    case PcLeaseWait then show ?thesis using lease_check_ok [OF assms(1)] by (simp add: here)
  next
    case PcParentWait then show ?thesis using assms(1) ID by (auto simp: here intro!: quiet_ok)
  next
    case (PcDeadLetter e) then show ?thesis using assms(1) ID
      by (auto simp: here dead_letter_def QueueDeadLetter_def intro!: quiet_ok)
  next
    case (PcStopKeeper x) then show ?thesis using assms(1) ID by (auto simp: here intro!: quiet_ok)
  next
    case (PcUnwatch x) then show ?thesis using assms(1) ID by (auto simp: here stop_watch_def intro!: quiet_ok)
  next
    case (PcRelease x) then show ?thesis using assms(1) ID
      by (auto simp: here releaseLease_def intro!: quiet_ok split: prod.split)
  next
    case (PcReturned x) then show ?thesis using assms(1) ID by (auto simp: here intro!: quiet_ok)
  qed
qed

section \<open>What the other steps do to the store\<close>

text \<open>
  The API and cancellations leave fences and attempt counts alone; a Run that has ended stays as
  it is, and one that was ever claimed only changes by being cancelled.
\<close>

definition evolves :: "Memory \<Rightarrow> Memory \<Rightarrow> bool" where
  "evolves m m' \<longleftrightarrow> (\<forall>k. fence_of m' k = fence_of m k)
   \<and> (\<forall>k stored. get (m_runs m) k = Some stored \<longrightarrow>
        (\<exists>stored'. get (m_runs m') k = Some stored' \<and> r_Attempt stored' = r_Attempt stored
           \<and> r_MaxAttempts stored' = r_MaxAttempts stored \<and> (\<not> run_active stored \<longrightarrow> stored' = stored)
           \<and> (0 < fence_of m k \<longrightarrow> r_Status stored' = r_Status stored \<or> r_Status stored' = RunCanceled)))"

lemma evolves_same: "m_runs m' = m_runs m \<Longrightarrow> m_runFences m' = m_runFences m \<Longrightarrow> evolves m m'"
  by (simp add: evolves_def)

lemma evolves_replace:
  assumes "get (m_runs m) k = Some stored" and "m_runs m' = put k run (m_runs m)" and "m_runFences m' = m_runFences m"
    and "r_Attempt run = r_Attempt stored" and "r_MaxAttempts run = r_MaxAttempts stored" and "run_active stored"
    and "0 < fence_of m k \<Longrightarrow> r_Status run = RunCanceled"
  shows "evolves m m'"
  using assms unfolding evolves_def by auto

lemma cancel_evolves:
  assumes "CancelRun k at m = Inr (run, m')"
  shows "evolves m m'"
proof -
  obtain stored where stored: "get (m_runs m) k = Some stored" "Run_Cancel stored at = Inr run"
    and m': "m' = m\<lparr>m_runs := put k run (m_runs m)\<rparr>"
    using assms by (auto simp: CancelRun_Inr)
  then show ?thesis by (intro evolves_replace [OF stored(1), of m' run]) (auto simp: Run_Cancel_Inr run_active_def)
qed

lemma create_evolves:
  assumes "createRunLocked run key m = Inr (r, m')" and "get (m_runs m) (r_ID run) = None" and "keyed r_ID (m_runs m)"
  shows "evolves m m'"
  using createRunLocked_other [OF assms(1) _ assms(2,3)] createRunLocked_frame [OF assms(1)]
  by (auto simp: evolves_def)

lemma update_evolves:
  assumes "UpdateRun run m = Inr m'" and "api_op m (OpUpdateRun run)"
  shows "evolves m m'"
proof -
  obtain stored where stored: "get (m_runs m) (r_ID run) = Some stored" "fence_of m (r_ID run) = 0"
    and m': "m' = m\<lparr>m_runs := put (r_ID run) (keep_lineage stored run) (m_runs m)\<rparr>"
    using assms(1) by (auto simp: UpdateRun_Inr)
  then show ?thesis using assms(2)
    by (intro evolves_replace [OF stored(1), of m' "keep_lineage stored run"]) (auto simp: keep_lineage_def)
qed

lemma api_evolves:
  assumes "runs_inv m" and "api_op m op"
  shows "evolves m (store_exec L op m)"
proof (cases "touches_runs op")
  case False
  then show ?thesis using exec_runs_frame [OF False, of L m] by (simp add: evolves_same)
next
  case True
  have keyed: "keyed r_ID (m_runs m)" using assms(1) by (simp add: runs_inv_def)
  have refl: "evolves m m" by (simp add: evolves_same)
  show ?thesis using True assms(2) refl
    by (cases op)
      (auto simp: state_of_def state_of'_def CreateRun_def simp del: api_op.simps(1)
        intro: create_evolves [OF _ _ keyed] create_evolves [OF CreateChildRun_cases(1) _ keyed] cancel_evolves
          update_evolves split: sum.splits)
qed

lemma api_fresh: "api_op m op \<Longrightarrow> op_fresh m op"
  by (cases op) auto

lemma evolves_ok:
  assumes "worker_ok m w" and "evolves m m'"
  shows "worker_ok m' w"
proof -
  have fence: "fence_of m' (wk_runID w) = fence_of m (wk_runID w)" using assms(2) by (simp add: evolves_def)
  have run: "\<exists>stored'. get (m_runs m') (wk_runID w) = Some stored' \<and> r_Attempt stored' = r_Attempt stored
           \<and> r_MaxAttempts stored' = r_MaxAttempts stored \<and> (\<not> run_active stored \<longrightarrow> stored' = stored)
           \<and> (0 < fence_of m (wk_runID w) \<longrightarrow> r_Status stored' = r_Status stored \<or> r_Status stored' = RunCanceled)"
    if "get (m_runs m) (wk_runID w) = Some stored" for stored
    using assms(2) that unfolding evolves_def by blast
  have "0 < fence_of m' (wk_runID w) \<and> (\<exists>stored. get (m_runs m') (wk_runID w) = Some stored
       \<and> (fence_of m' (wk_runID w) = wk_fence w \<longrightarrow> in_sync (wk_pc w) stored (wk_run w)))" if h: "holding (wk_pc w)"
  proof -
    obtain stored where stored: "get (m_runs m) (wk_runID w) = Some stored"
      "fence_of m (wk_runID w) = wk_fence w \<longrightarrow> in_sync (wk_pc w) stored (wk_run w)"
      using worker_okD(3) [OF assms(1) h] by blast
    moreover have "0 < fence_of m (wk_runID w)" using worker_okD(2) [OF assms(1) h] by linarith
    ultimately show ?thesis using run [OF stored(1)] fence by (auto simp: in_sync_def run_active_def)
  qed
  moreover have "\<exists>stored'. get (m_runs m') (wk_runID w) = Some stored' \<and> \<not> run_active stored'"
    if "wk_pc w = PcDeadLetter e" for e
    using assms(1) that run unfolding worker_ok_def by blast
  ultimately show ?thesis using assms(1) unfolding worker_ok_def fence by blast
qed

section \<open>The invariant of the engine\<close>

definition engine_inv :: "Engine \<Rightarrow> bool" where
  "engine_inv s \<longleftrightarrow> store_inv (en_store s) \<and> (\<forall>k. 0 \<le> fence_of (en_store s) k)
   \<and> (\<forall>i w. get (en_workers s) i = Some w \<longrightarrow> worker_ok (en_store s) w)
   \<and> (\<forall>i j w u. get (en_workers s) i = Some w \<and> get (en_workers s) j = Some u \<and> i \<noteq> j
        \<and> holding (wk_pc w) \<and> holding (wk_pc u) \<and> wk_runID w = wk_runID u \<longrightarrow> wk_fence w \<noteq> wk_fence u)"

lemma engine_invD:
  assumes "engine_inv s"
  shows "store_inv (en_store s)" and "keyed r_ID (m_runs (en_store s))" and "runs_inv (en_store s)"
    and "\<forall>k. 0 \<le> fence_of (en_store s) k" and "get (en_workers s) i = Some w \<Longrightarrow> worker_ok (en_store s) w"
    and "get (en_workers s) i = Some w \<Longrightarrow> get (en_workers s) j = Some u \<Longrightarrow> i \<noteq> j \<Longrightarrow> holding (wk_pc w)
      \<Longrightarrow> holding (wk_pc u) \<Longrightarrow> wk_runID w = wk_runID u \<Longrightarrow> wk_fence w \<noteq> wk_fence u"
proof -
  show store: "store_inv (en_store s)" using assms unfolding engine_inv_def by blast
  then show runs: "runs_inv (en_store s)" unfolding store_inv_def by blast
  then show "keyed r_ID (m_runs (en_store s))" unfolding runs_inv_def by blast
qed (use assms in \<open>unfold engine_inv_def, blast+\<close>)

text \<open>
  A write or claim of one worker leaves the knowledge of another intact: it is about another Run,
  or the other worker's fence is not, or no longer, the current one.
\<close>

lemma other_worker_ok:
  assumes u: "worker_ok m u" and w: "worker_ok m w" and effect: "own_effect w w' m m'"
    and differ: "holding (wk_pc w) \<Longrightarrow> holding (wk_pc u) \<Longrightarrow> wk_runID w = wk_runID u \<Longrightarrow> wk_fence w \<noteq> wk_fence u"
  shows "worker_ok m' u"
proof -
  consider "m' = m" | "claims (wk_runID w) (wk_fence w') m m'"
    | run where "writes (wk_runID w) (wk_fence w) run m m'" "holding (wk_pc w)"
    using effect unfolding own_effect_def Let_def by blast
  then show ?thesis
  proof cases
    case 2
    then have runs: "m_runs m' = m_runs m" and f: "fence_of m (wk_runID w) < wk_fence w'"
      and fences: "fence_of m' k = (if k = wk_runID w then wk_fence w' else fence_of m k)" for k
      by (auto simp: claims_def)
    show ?thesis using u f unfolding worker_ok_def runs fences by auto
  next
    case 3
    then obtain stored where stored: "get (m_runs m) (wk_runID w) = Some stored" "run_active stored"
      "fence_of m (wk_runID w) = wk_fence w"
      and m': "m' = m\<lparr>m_runs := put (wk_runID w) (keep_lineage stored run) (m_runs m)\<rparr>"
      by (auto simp: writes_def)
    show ?thesis
    proof (cases "wk_runID u = wk_runID w")
      case True
      then have "holding (wk_pc u) \<longrightarrow> fence_of m (wk_runID u) \<noteq> wk_fence u" using differ 3(2) stored(3) by auto
      moreover have "wk_pc u \<noteq> PcDeadLetter e" for e using u stored(1,2) True by (auto simp: worker_ok_def)
      ultimately show ?thesis using u True unfolding worker_ok_def m' by auto
    next
      case False
      then show ?thesis using u unfolding worker_ok_def m' by auto
    qed
  qed (use u in simp)
qed

lemma own_effect_fences:
  assumes "own_effect w w' m m'" and "\<forall>k. 0 \<le> fence_of m k"
  shows "\<forall>k. 0 \<le> fence_of m' k"
proof
  fix k
  have "0 \<le> fence_of m k" "0 \<le> fence_of m (wk_runID w)" using assms(2) by auto
  moreover have "fence_of m' k = fence_of m k \<or> claims (wk_runID w) (wk_fence w') m m'"
    using assms(1) by (auto simp: own_effect_def writes_def Let_def)
  ultimately show "0 \<le> fence_of m' k" by (auto simp: claims_def)
qed

lemma new_fence_differs:
  assumes "own_effect w w' m m'" and "holding (wk_pc w')" and "worker_ok m u" and "holding (wk_pc u)"
    and "wk_runID w = wk_runID u" and "holding (wk_pc w) \<Longrightarrow> wk_fence w \<noteq> wk_fence u"
  shows "wk_fence w' \<noteq> wk_fence u"
proof -
  have le: "wk_fence u \<le> fence_of m (wk_runID w)" using worker_okD(2) [OF assms(3,4)] assms(5) by simp
  consider "holding (wk_pc w)" "wk_fence w' = wk_fence w" | "claims (wk_runID w) (wk_fence w') m m'"
    using assms(1,2) unfolding own_effect_def Let_def by blast
  then show ?thesis using assms(6) le by cases (auto simp: claims_def)
qed

text \<open>The effect of a worker on the store is that of calls to the repository.\<close>

definition by_call :: "golib \<Rightarrow> Memory \<Rightarrow> Memory \<Rightarrow> bool" where
  "by_call L m m' \<longleftrightarrow> (\<exists>ops. ids_fresh L ops m \<and> m' = store_execs L ops m)"

lemma by_call_refl [intro]: "by_call L m m"
  unfolding by_call_def by (intro exI [of _ "[]"]) simp

lemma by_call_op: "op_fresh m op \<Longrightarrow> by_call L m (store_exec L op m)"
  unfolding by_call_def by (intro exI [of _ "[op]"]) simp

lemma by_call_claim: "ClaimRunExecution k f m = Inr (g, m') \<Longrightarrow> by_call L m m'"
  using by_call_op [of m "OpClaimRunExecution k f" L] by (simp add: state_of_def)

lemma by_call_write: "UpdateRunFenced run f m = Inr m' \<Longrightarrow> by_call L m m'"
  using by_call_op [of m "OpUpdateRunFenced run f" L] by (simp add: state_of'_def)

lemma by_call_inv: "by_call L m m' \<Longrightarrow> store_inv m \<Longrightarrow> store_inv m'"
  unfolding by_call_def using execs_store_inv by blast

lemmas by_call_intros = by_call_refl by_call_claim by_call_write

lemma failRun_call: "by_call L (en_store s) (en_store (snd (failRun v err w s)))"
  by (auto simp: failRun_def intro: by_call_intros split: sum.split store_error.split)

lemma lease_check_call: "by_call L (en_store s) (en_store (snd (lease_check p v w s)))"
  by (cases rule: lease_check_cases [of p v w s]) (auto intro: by_call_intros)

lemma own_call: "by_call L (en_store s) (en_store (snd (execute_step L retry resolve v i w s)))"
proof (cases "wk_pc w")
  case PcAcquire then show ?thesis
    by (auto simp: execute_step_def execute_acquire_def intro: by_call_intros split: sum.split prod.split option.split)
next
  case PcClaim then show ?thesis
    by (auto simp: execute_step_def execute_claim_def intro: by_call_intros split: sum.split prod.split store_error.split)
next
  case PcBegin
  have "by_call L (en_store s) (en_store (snd (attempt_begin v w s)))"
  proof (cases "if r_Status (wk_run w) = RunQueued then Run_Start (wk_run w) (v_now v) else Run_Retry (wk_run w)")
    case (Inr run)
    then show ?thesis unfolding attempt_begin_def Inr
      by (auto intro: by_call_intros split: sum.split store_error.split)
  qed (simp add: attempt_begin_def by_call_refl)
  then show ?thesis using PcBegin by (simp add: execute_step_def)
next
  case (PcOutcome r) then show ?thesis
    by (auto simp: execute_step_def attempt_outcome_def intro: by_call_intros failRun_call
        split: option.split sum.split store_error.split)
next
  case PcLoad then show ?thesis
    by (auto simp: execute_step_def execute_load_def QueueDeadLetter_def intro: by_call_refl split: sum.split RunStatus.split)
next
  case PcAgent then show ?thesis
    by (simp add: execute_step_def execute_agent_def by_call_refl failRun_call split: sum.split)
next
  case PcResolve then show ?thesis
    by (simp add: execute_step_def execute_resolve_def by_call_refl failRun_call split: option.split)
next
  case PcReload then show ?thesis
    by (simp add: execute_step_def execute_reload_def by_call_refl split: sum.split)
next
  case PcExecute then show ?thesis
    by (simp add: execute_step_def attempt_execute_def by_call_refl Let_def split: prod.split)
next
  case (PcDeadLetter e) then show ?thesis
    by (simp add: execute_step_def dead_letter_def QueueDeadLetter_def by_call_refl)
next
  case PcWatch then show ?thesis
    by (simp add: execute_step_def execute_watch_def by_call_refl split: prod.split)
next
  case (PcRelease x) then show ?thesis
    by (simp add: execute_step_def releaseLease_def by_call_refl split: prod.split)
qed (simp_all add: execute_step_def execute_activate_def attempt_wait_def stop_watch_def by_call_refl lease_check_call)

text \<open>A worker whose place, local variables and fence are those of another knows as much.\<close>

definition core :: "Worker \<Rightarrow> string \<times> pc \<times> Run \<times> int" where
  "core w = (wk_runID w, wk_pc w, wk_run w, wk_fence w)"

lemma core_ok: "core w' = core w \<Longrightarrow> worker_ok m w' \<longleftrightarrow> worker_ok m w"
  by (simp add: core_def worker_ok_def)

lemma core_fields: "core w' = core w \<Longrightarrow> wk_runID w' = wk_runID w \<and> wk_pc w' = wk_pc w \<and> wk_fence w' = wk_fence w"
  by (simp add: core_def)

text \<open>Changing only the store by a call from outside, and only the flags of workers, keeps the invariant.\<close>

lemma inv_outside:
  assumes "engine_inv s" and "store_inv m'" and "evolves (en_store s) m'"
    and "\<And>i w'. get (en_workers s') i = Some w' \<Longrightarrow> \<exists>w. get (en_workers s) i = Some w \<and> core w' = core w"
    and "en_store s' = m'"
  shows "engine_inv s'"
  unfolding engine_inv_def
proof (intro conjI allI impI)
  show "store_inv (en_store s')" using assms(2,5) by simp
  show "0 \<le> fence_of (en_store s') k" for k
    using engine_invD(4) [OF assms(1)] assms(3,5) by (simp add: evolves_def)
  fix i w' assume "get (en_workers s') i = Some w'"
  then obtain w where w: "get (en_workers s) i = Some w" "core w' = core w" using assms(4) by blast
  have "worker_ok (en_store s) w'" using engine_invD(5) [OF assms(1) w(1)] core_ok [OF w(2)] by simp
  then show "worker_ok (en_store s') w'" using evolves_ok assms(3,5) by simp
next
  fix i j w' u'
  assume h: "get (en_workers s') i = Some w' \<and> get (en_workers s') j = Some u' \<and> i \<noteq> j
        \<and> holding (wk_pc w') \<and> holding (wk_pc u') \<and> wk_runID w' = wk_runID u'"
  then obtain w u where w: "get (en_workers s) i = Some w" "core w' = core w"
    and u: "get (en_workers s) j = Some u" "core u' = core u" using assms(4) by metis
  show "wk_fence w' \<noteq> wk_fence u'"
    using engine_invD(6) [OF assms(1) w(1) u(1)] h core_fields [OF w(2)] core_fields [OF u(2)] by simp
qed

lemma inv_work:
  assumes "engine_inv s" and "get (en_workers s) i = Some w" and "execute_step L retry resolve v i w s = (w', s1)"
  shows "engine_inv (set_worker i (w', s1))"
proof -
  have w: "worker_ok (en_store s) w" using engine_invD(5) [OF assms(1,2)] .
  have "step_ok w s (w', s1)"
    using execute_step_ok [OF w engine_invD(2,4) [OF assms(1)], of L retry resolve v i] assms(3) by simp
  then have same: "en_workers s1 = en_workers s" "wk_runID w' = wk_runID w" and ok: "worker_ok (en_store s1) w'"
    and effect: "own_effect w w' (en_store s) (en_store s1)"
    by (simp_all add: step_ok_def)
  have store: "store_inv (en_store s1)"
    using by_call_inv [OF own_call engine_invD(1) [OF assms(1)]] assms(3) by (metis snd_conv)
  have others: "worker_ok (en_store s1) u" if "get (en_workers s) j = Some u" "j \<noteq> i" for j u
    using other_worker_ok [OF engine_invD(5) [OF assms(1) that(1)] w effect]
      engine_invD(6) [OF assms(1,2) that(1)] that(2) by metis
  have differ: "wk_fence w' \<noteq> wk_fence u"
    if "get (en_workers s) j = Some u" "j \<noteq> i" "holding (wk_pc w')" "holding (wk_pc u)" "wk_runID w' = wk_runID u" for j u
    using new_fence_differs [OF effect that(3) engine_invD(5) [OF assms(1) that(1)] that(4)]
      engine_invD(6) [OF assms(1,2) that(1)] that same(2) by metis
  have workers: "en_workers (set_worker i (w', s1)) = put i w' (en_workers s)" "en_store (set_worker i (w', s1)) = en_store s1"
    by (simp_all add: set_worker_def same(1))
  show ?thesis
    unfolding engine_inv_def workers
  proof (intro conjI allI impI)
    show "store_inv (en_store s1)" by (rule store)
    show "0 \<le> fence_of (en_store s1) k" for k using own_effect_fences [OF effect engine_invD(4) [OF assms(1)]] by blast
    show "worker_ok (en_store s1) u" if "get (put i w' (en_workers s)) j = Some u" for j u
      using that ok others by (auto split: if_splits)
    show "wk_fence x \<noteq> wk_fence y"
      if "get (put i w' (en_workers s)) j = Some x \<and> get (put i w' (en_workers s)) k = Some y \<and> j \<noteq> k
        \<and> holding (wk_pc x) \<and> holding (wk_pc y) \<and> wk_runID x = wk_runID y" for j k x y
      using that differ [of j x] differ [of k y] engine_invD(6) [OF assms(1), of j x k y] by (auto split: if_splits)
  qed
qed

section \<open>Attempts\<close>

abbreviation of_run :: "string \<Rightarrow> (string \<times> int) list \<Rightarrow> (string \<times> int) list" where
  "of_run k tr \<equiv> filter (\<lambda>a. fst a = k) tr"

text \<open>What a step that starts the attempts \<open>l\<close> may do to a Run.\<close>

definition advances :: "(string \<times> int) list \<Rightarrow> Memory \<Rightarrow> Memory \<Rightarrow> bool" where
  "advances l m m' \<longleftrightarrow>
     (\<forall>k. (get (m_runs m) k = None \<longrightarrow> of_run k l = [])
        \<and> (\<forall>stored. get (m_runs m) k = Some stored \<longrightarrow>
             (\<exists>stored'. get (m_runs m') k = Some stored'
                \<and> (\<not> run_active stored \<longrightarrow> stored' = stored)
                \<and> (1 \<le> r_MaxAttempts stored \<longrightarrow> r_MaxAttempts stored' = r_MaxAttempts stored)
                \<and> (of_run k l = [] \<and> r_Attempt stored' = r_Attempt stored
                   \<or> of_run k l = [(k, r_Attempt stored + 1)] \<and> r_Attempt stored' = r_Attempt stored + 1
                     \<and> run_active stored
                     \<and> (1 \<le> r_MaxAttempts stored \<longrightarrow> r_Attempt stored + 1 \<le> r_MaxAttempts stored)))))"

lemma evolves_advances: "evolves m m' \<Longrightarrow> advances [] m m'"
  unfolding evolves_def advances_def by fastforce

lemma effect_advances:
  assumes "own_effect w w' m m'"
  shows "advances (attempt_label w w') m m'"
proof -
  consider "m' = m \<or> claims (wk_runID w) (wk_fence w') m m'" "attempt_label w w' = []"
    | run stored where "get (m_runs m) (wk_runID w) = Some stored" "run_active stored"
        "1 \<le> r_MaxAttempts stored \<longrightarrow> r_MaxAttempts run = r_MaxAttempts stored"
        "m' = m\<lparr>m_runs := put (wk_runID w) (keep_lineage stored run) (m_runs m)\<rparr>"
        "attempt_label w w' = [] \<and> r_Attempt run = r_Attempt stored
         \<or> attempt_label w w' = [(wk_runID w, r_Attempt run)] \<and> r_Attempt run = r_Attempt stored + 1
           \<and> (0 < r_MaxAttempts run \<longrightarrow> r_Attempt run \<le> r_MaxAttempts run)"
  proof (cases "(m' = m \<or> claims (wk_runID w) (wk_fence w') m m') \<and> attempt_label w w' = []")
    case True
    with that(1) show thesis by blast
  next
    case False
    with assms obtain run where run: "writes (wk_runID w) (wk_fence w) run m m'"
      "attempt_label w w' = [] \<and> r_Attempt run = r_Attempt (the (get (m_runs m) (wk_runID w)))
         \<or> attempt_label w w' = [(wk_runID w, r_Attempt run)]
           \<and> r_Attempt run = r_Attempt (the (get (m_runs m) (wk_runID w))) + 1
           \<and> (0 < r_MaxAttempts run \<longrightarrow> r_Attempt run \<le> r_MaxAttempts run)"
      unfolding own_effect_def Let_def by blast
    then obtain stored where "get (m_runs m) (wk_runID w) = Some stored" "run_active stored"
      "1 \<le> r_MaxAttempts stored \<longrightarrow> r_MaxAttempts run = r_MaxAttempts stored"
      "m' = m\<lparr>m_runs := put (wk_runID w) (keep_lineage stored run) (m_runs m)\<rparr>"
      unfolding writes_def by blast
    with run(2) that(2) show thesis by simp
  qed
  then show ?thesis
  proof cases
    case 1
    then have "m_runs m' = m_runs m" by (auto simp: claims_def)
    then show ?thesis using 1(2) by (simp add: advances_def)
  next
    case 2
    let ?k = "wk_runID w"
    have other: "of_run k (attempt_label w w') = []" "get (m_runs m') k = get (m_runs m) k" if "k \<noteq> ?k" for k
      using 2(4,5) that by auto
    have mine: "get (m_runs m') ?k = Some (keep_lineage stored run)"
      "r_Attempt (keep_lineage stored run) = r_Attempt run" "r_MaxAttempts (keep_lineage stored run) = r_MaxAttempts run"
      using 2(4) by (simp_all add: keep_lineage_def)
    have "of_run ?k (attempt_label w w') = [] \<and> r_Attempt run = r_Attempt stored
         \<or> of_run ?k (attempt_label w w') = [(?k, r_Attempt stored + 1)] \<and> r_Attempt run = r_Attempt stored + 1
           \<and> (0 < r_MaxAttempts run \<longrightarrow> r_Attempt run \<le> r_MaxAttempts run)"
      using 2(5) by auto
    then have "\<exists>stored'. get (m_runs m') ?k = Some stored'
                \<and> (\<not> run_active stored \<longrightarrow> stored' = stored)
                \<and> (1 \<le> r_MaxAttempts stored \<longrightarrow> r_MaxAttempts stored' = r_MaxAttempts stored)
                \<and> (of_run ?k (attempt_label w w') = [] \<and> r_Attempt stored' = r_Attempt stored
                   \<or> of_run ?k (attempt_label w w') = [(?k, r_Attempt stored + 1)] \<and> r_Attempt stored' = r_Attempt stored + 1
                     \<and> run_active stored
                     \<and> (1 \<le> r_MaxAttempts stored \<longrightarrow> r_Attempt stored + 1 \<le> r_MaxAttempts stored))"
      using mine 2(2,3) by (intro exI [of _ "keep_lineage stored run"]) auto
    then show ?thesis unfolding advances_def using 2(1) other by (metis option.distinct(1) option.inject)
  qed
qed

lemma advances_refl: "m_runs m' = m_runs m \<Longrightarrow> advances [] m m'"
  by (simp add: advances_def)

text \<open>Every step keeps the invariant and advances the Runs by the attempts in its label.\<close>

lemma inv_flags:
  assumes "engine_inv s" and "get (en_workers s) i = Some w" and "core w' = core w"
    and "en_store s1 = en_store s" and "en_workers s1 = en_workers s"
  shows "engine_inv (set_worker i (w', s1)) \<and> advances [] (en_store s) (en_store (set_worker i (w', s1)))"
proof
  show "engine_inv (set_worker i (w', s1))"
  proof (rule inv_outside [OF assms(1) engine_invD(1) [OF assms(1)]])
    show "evolves (en_store s) (en_store s)" by (simp add: evolves_same)
    show "en_store (set_worker i (w', s1)) = en_store s" by (simp add: set_worker_def assms(4))
    show "\<exists>x. get (en_workers s) j = Some x \<and> core u = core x"
      if "get (en_workers (set_worker i (w', s1))) j = Some u" for j u
      using that assms(2,3,5) by (cases "j = i") (simp_all add: set_worker_def)
  qed
qed (simp add: set_worker_def assms(4) advances_refl)

lemma inv_deliver:
  assumes "engine_inv s" and "get (en_workers s) i = None"
  shows "engine_inv (s\<lparr>en_queue := q, en_workers := put i (new_worker k) (en_workers s)\<rparr>)"
proof -
  have "worker_ok (en_store s) (new_worker k)" "\<not> holding (wk_pc (new_worker k))"
    by (simp_all add: worker_ok_def new_worker_def)
  then show ?thesis using assms(1) unfolding engine_inv_def by (auto split: if_splits)
qed

lemma inv_cancel:
  assumes "engine_inv s" and "Engine_Cancel v k s = Inr (run, s')"
  shows "engine_inv s' \<and> advances [] (en_store s) (en_store s')"
proof -
  obtain m where m: "CancelRun k (v_now v) (en_store s) = Inr (run, m)"
    using assms(2) by (auto simp: Engine_Cancel_def Let_def split: sum.splits prod.splits)
  have store: "en_store s' = m"
    and workers: "get (en_workers s') i = Some w' \<Longrightarrow> \<exists>w. get (en_workers s) i = Some w \<and> core w' = core w" for i w'
    using assms(2) m by (auto simp: Engine_Cancel_def cancel_worker_def core_def Let_def
        split: option.splits if_splits)
  have "store_inv m"
    using by_call_inv [OF by_call_op [of "en_store s" "OpCancelRun k (v_now v)"] engine_invD(1) [OF assms(1)]] m
    by (simp add: state_of_def)
  then have "engine_inv s'" by (rule inv_outside [OF assms(1) _ cancel_evolves [OF m] workers store])
  then show ?thesis using evolves_advances [OF cancel_evolves [OF m]] store by simp
qed

lemma keeper_frame:
  "core (fst (keeper_tick retry late v w s)) = core w" "en_store (snd (keeper_tick retry late v w s)) = en_store s"
  "en_workers (snd (keeper_tick retry late v w s)) = en_workers s"
  by (auto simp: keeper_tick_def core_def split: prod.split option.split)

lemma watch_frame:
  "core (fst (watch_event w s)) = core w" "en_store (snd (watch_event w s)) = en_store s"
  "en_workers (snd (watch_event w s)) = en_workers s" "core (watch_poll w s) = core w"
  by (auto simp: watch_event_def watch_poll_def core_def split: prod.split option.split sum.split)

lemma inv_finish:
  assumes "engine_inv s"
  shows "engine_inv (s\<lparr>en_queue := q, en_workers := del i (en_workers s)\<rparr>)"
proof (rule inv_outside [OF assms engine_invD(1) [OF assms]])
  show "evolves (en_store s) (en_store s)" by (simp add: evolves_same)
  show "\<exists>x. get (en_workers s) j = Some x \<and> core u = core x"
    if "get (en_workers (s\<lparr>en_queue := q, en_workers := del i (en_workers s)\<rparr>)) j = Some u" for j u
    using that by (simp split: if_splits)
qed simp

lemma engine_step_inv:
  assumes "engine_step L retry resolve s l s'" and "engine_inv s"
  shows "engine_inv s' \<and> advances l (en_store s) (en_store s')"
  using assms
proof (induction rule: engine_step.induct)
  case (deliver s i k q)
  then show ?case using inv_deliver by (simp add: advances_refl)
next
  case (work s i w v ws)
  obtain w' s1 where ws: "ws = (w', s1)" by (cases ws)
  have "step_ok w s (w', s1)"
    using execute_step_ok [OF engine_invD(5) [OF work(3,1)] engine_invD(2,4) [OF work(3)], of L retry resolve v i] work(2) ws
    by simp
  then have "advances (attempt_label w w') (en_store s) (en_store s1)"
    using effect_advances by (simp add: step_ok_def)
  then show ?case using inv_work [OF work(3,1)] work(2) ws by (simp add: set_worker_def)
next
  case (keeper s i w late v ws)
  then show ?case using inv_flags [OF keeper(4,1) keeper_frame [of retry late v w s]] by simp
next
  case (poll s i w)
  show ?case using inv_flags [OF poll(3,1) watch_frame(4) [of w s] refl refl] .
next
  case (event s i w ws)
  then show ?case using inv_flags [OF event(4,1) watch_frame(1,2,3) [of w s]] by simp
next
  case (cancel v k s run s')
  then show ?case using inv_cancel by blast
next
  case (enqueue k s s')
  then obtain q where s': "s' = s\<lparr>en_queue := q\<rparr>" by (auto simp: Engine_Enqueue_def split: sum.splits)
  have same: "en_store s' = en_store s" "en_workers s' = en_workers s" by (simp_all add: s')
  have "engine_inv s'" using enqueue(2) unfolding engine_inv_def same .
  then show ?case by (simp add: advances_refl s')
next
  case (finish s i w x)
  then show ?case using inv_finish by (simp add: advances_refl)
next
  case (shutdown s)
  have same: "en_store (s\<lparr>en_ctxDone := True\<rparr>) = en_store s" "en_workers (s\<lparr>en_ctxDone := True\<rparr>) = en_workers s" by simp_all
  have "engine_inv (s\<lparr>en_ctxDone := True\<rparr>)" using shutdown unfolding engine_inv_def same .
  then show ?case by (simp add: advances_refl)
next
  case (leases s c)
  have same: "en_store (s\<lparr>en_coord := c\<rparr>) = en_store s" "en_workers (s\<lparr>en_coord := c\<rparr>) = en_workers s" by simp_all
  have "engine_inv (s\<lparr>en_coord := c\<rparr>)" using leases unfolding engine_inv_def same .
  then show ?case by (simp add: advances_refl)
next
  case (api s op)
  have "evolves (en_store s) (store_exec L op (en_store s))" using api engine_invD(3) api_evolves by blast
  moreover have "store_inv (store_exec L op (en_store s))"
    using api by (intro exec_store_inv engine_invD(1) api_fresh)
  ultimately have "engine_inv (s\<lparr>en_store := store_exec L op (en_store s)\<rparr>)"
    by (intro inv_outside [OF api(2), of "store_exec L op (en_store s)"]) simp_all
  then show ?case using \<open>evolves (en_store s) (store_exec L op (en_store s))\<close> evolves_advances by simp
qed

section \<open>Executions\<close>

definition counted :: "(string \<times> int) list \<Rightarrow> Run \<Rightarrow> string \<Rightarrow> Run \<Rightarrow> bool" where
  "counted tr r k r' \<longleftrightarrow> (\<not> run_active r \<longrightarrow> r' = r) \<and> (1 \<le> r_MaxAttempts r \<longrightarrow> r_MaxAttempts r' = r_MaxAttempts r)
   \<and> r_Attempt r \<le> r_Attempt r' \<and> map snd (of_run k tr) = [r_Attempt r + 1..r_Attempt r']
   \<and> (1 \<le> r_MaxAttempts r \<and> of_run k tr \<noteq> [] \<longrightarrow> r_Attempt r' \<le> r_MaxAttempts r)"

lemma counted_step:
  assumes "counted tr r k r1" and "advances l m m'" and "get (m_runs m) k = Some r1"
  obtains r2 where "get (m_runs m') k = Some r2" and "counted (tr @ l) r k r2"
proof -
  from assms(2,3) obtain r2 where r2: "get (m_runs m') k = Some r2" "\<not> run_active r1 \<longrightarrow> r2 = r1"
    "1 \<le> r_MaxAttempts r1 \<longrightarrow> r_MaxAttempts r2 = r_MaxAttempts r1"
    and l: "of_run k l = [] \<and> r_Attempt r2 = r_Attempt r1
      \<or> of_run k l = [(k, r_Attempt r1 + 1)] \<and> r_Attempt r2 = r_Attempt r1 + 1 \<and> run_active r1
        \<and> (1 \<le> r_MaxAttempts r1 \<longrightarrow> r_Attempt r1 + 1 \<le> r_MaxAttempts r1)"
    unfolding advances_def by blast
  have "[r_Attempt r + 1..r_Attempt r1 + 1] = [r_Attempt r + 1..r_Attempt r1] @ [r_Attempt r1 + 1]"
    using assms(1) upto_rec2 [of "r_Attempt r + 1" "r_Attempt r1 + 1"] by (simp add: counted_def)
  then have up: "map snd (of_run k (tr @ l)) = [r_Attempt r + 1..r_Attempt r2]" "r_Attempt r \<le> r_Attempt r2"
    using assms(1) l unfolding counted_def by auto
  have "\<not> run_active r \<longrightarrow> r2 = r" using assms(1) r2(2) unfolding counted_def by auto
  moreover have max: "1 \<le> r_MaxAttempts r \<longrightarrow> r_MaxAttempts r2 = r_MaxAttempts r \<and> r_MaxAttempts r1 = r_MaxAttempts r"
    using assms(1) r2(3) unfolding counted_def by auto
  moreover have "r_Attempt r2 \<le> r_MaxAttempts r" if "1 \<le> r_MaxAttempts r" "of_run k (tr @ l) \<noteq> []"
  proof (cases "of_run k l = []")
    case True
    then show ?thesis using that l assms(1) unfolding counted_def by auto
  next
    case False
    then show ?thesis using that l max by auto
  qed
  ultimately have "counted (tr @ l) r k r2" using up unfolding counted_def by blast
  then show thesis using that r2(1) by blast
qed

lemma engine_run_counts:
  assumes "engine_run L retry resolve s tr s'" and "engine_inv s"
  shows "engine_inv s' \<and> (\<forall>k r. get (m_runs (en_store s)) k = Some r \<longrightarrow>
     (\<exists>r'. get (m_runs (en_store s')) k = Some r' \<and> counted tr r k r'))"
  using assms
proof (induction rule: engine_run.induct)
  case (stay s)
  then show ?case by (simp add: counted_def)
next
  case (step s tr s1 l s2)
  have IH: "\<exists>r1. get (m_runs (en_store s1)) k = Some r1 \<and> counted tr r k r1"
    if "get (m_runs (en_store s)) k = Some r" for k r
    using step.IH step.prems that by blast
  have s1: "engine_inv s1" using step.IH step.prems by blast
  note after = engine_step_inv [OF step.hyps(2) s1]
  have "\<exists>r2. get (m_runs (en_store s2)) k = Some r2 \<and> counted (tr @ l) r k r2"
    if k: "get (m_runs (en_store s)) k = Some r" for k r
  proof -
    obtain r1 where r1: "get (m_runs (en_store s1)) k = Some r1" "counted tr r k r1" using IH [OF k] by blast
    show ?thesis using counted_step [OF r1(2) conjunct2 [OF after] r1(1)] by blast
  qed
  then show ?case using after by blast
qed

lemma by_call_trans: "by_call L m m1 \<Longrightarrow> by_call L m1 m2 \<Longrightarrow> by_call L m m2"
  unfolding by_call_def by (metis execs_append fresh_append)

lemma engine_step_call:
  assumes "engine_step L retry resolve s l s'"
  shows "by_call L (en_store s) (en_store s')"
  using assms
proof (induction rule: engine_step.induct)
  case (work s i w v ws)
  then show ?case using own_call [of L s retry resolve v i w] by (simp add: set_worker_def)
next
  case (keeper s i w late v ws)
  then show ?case using keeper_frame(2) [of retry late v w s] by (simp add: set_worker_def by_call_refl)
next
  case (event s i w ws)
  then show ?case using watch_frame(2) [of w s] by (simp add: set_worker_def by_call_refl)
next
  case (cancel v k s run s')
  then obtain m where m: "CancelRun k (v_now v) (en_store s) = Inr (run, m)"
    by (auto simp: Engine_Cancel_def Let_def split: sum.splits prod.splits)
  then have "en_store s' = m"
    using cancel by (auto simp: Engine_Cancel_def cancel_worker_def Let_def split: option.splits)
  then show ?case using by_call_op [of "en_store s" "OpCancelRun k (v_now v)" L] m by (simp add: state_of_def)
next
  case (enqueue k s s')
  then show ?case by (auto simp: Engine_Enqueue_def by_call_refl split: sum.splits)
next
  case (api s op)
  then show ?case using by_call_op [OF api_fresh] by simp
qed (simp_all add: set_worker_def by_call_refl)

lemma engine_run_call: "engine_run L retry resolve s tr s' \<Longrightarrow> by_call L (en_store s) (en_store s')"
  by (induction rule: engine_run.induct) (auto intro: by_call_trans engine_step_call)

end
