(* ===== verification/Workflow_System.thy ===== *)
theory Workflow_System
  imports Workflow_Manager Engine_System
begin

text \<open>
  Every interleaving of the tasks of the workflow manager with each other, with the engine and with
  the creation of workflows. The repository's workflows are written with the version they were read
  at; what a task holds in its candidate is therefore tied to the stored workflow as long as that
  still has the candidate's version, and is worthless, because the write will be refused,
  once it has not.
\<close>

section \<open>Steps\<close>

inductive manager_step ::
  "golib \<Rightarrow> ManagerConfig \<Rightarrow> RetryPolicy \<Rightarrow> (Agent \<Rightarrow> string option) \<Rightarrow> Manager \<Rightarrow> (string \<times> int) list \<Rightarrow> Manager \<Rightarrow> bool"
  for L :: golib and cfg :: ManagerConfig and retry :: RetryPolicy and resolve :: "Agent \<Rightarrow> string option" where
  engine: "engine_step L retry resolve (mg_engine s) l e \<Longrightarrow> m_workflows (en_store e) = m_workflows (mg_store s) \<Longrightarrow>
    manager_step L cfg retry resolve s l (s\<lparr>mg_engine := e\<rparr>)"
| create: "CreateWorkflow L now workflow (mg_store s) = Inr (w, m) \<Longrightarrow>
    manager_step L cfg retry resolve s [] (set_store m s)"
| call: "get (mg_tasks s) i = None \<Longrightarrow> p = WpStart \<or> p = WpCancel \<or> p = WpRecover \<Longrightarrow>
    manager_step L cfg retry resolve s [] (s\<lparr>mg_tasks := put i (new_task k p False) (mg_tasks s)\<rparr>)"
| work: "get (mg_tasks s) i = Some t \<Longrightarrow> get (mg_tasks s) j = None \<Longrightarrow>
    get (m_runs (mg_store s)) (newID ''run'' (v_random v) (v_now v)) = None \<Longrightarrow>
    task_step cfg retry v j t s = (t', s') \<Longrightarrow>
    manager_step L cfg retry resolve s [] (s'\<lparr>mg_tasks := put i t' (mg_tasks s')\<rparr>)"
| renew: "get (mg_tasks s) i = Some t \<Longrightarrow> t_renewing t \<Longrightarrow> renew_tick cfg late v t s = (t', s') \<Longrightarrow>
    manager_step L cfg retry resolve s [] (s'\<lparr>mg_tasks := put i t' (mg_tasks s')\<rparr>)"
| finish: "get (mg_tasks s) i = Some t \<Longrightarrow> t_pc t = WpReturned x \<Longrightarrow>
    manager_step L cfg retry resolve s []
      (s\<lparr>mg_tasks := del i (mg_tasks s),
         mg_active := (if t_scheduled t then removeAll (t_id t) (mg_active s) else mg_active s)\<rparr>)"
| shutdown: "manager_step L cfg retry resolve s [] (s\<lparr>mg_ctxDone := True\<rparr>)"

inductive manager_run ::
  "golib \<Rightarrow> ManagerConfig \<Rightarrow> RetryPolicy \<Rightarrow> (Agent \<Rightarrow> string option) \<Rightarrow> Manager \<Rightarrow> (string \<times> int) list \<Rightarrow> Manager \<Rightarrow> bool"
  for L :: golib and cfg :: ManagerConfig and retry :: RetryPolicy and resolve :: "Agent \<Rightarrow> string option" where
  stay: "manager_run L cfg retry resolve s [] s"
| step: "manager_run L cfg retry resolve s tr s1 \<Longrightarrow> manager_step L cfg retry resolve s1 l s2 \<Longrightarrow>
    manager_run L cfg retry resolve s (tr @ l) s2"

section \<open>What holds of a workflow\<close>

text \<open>
  A step has a Run exactly when it was started, the Run is stored, and the outcome recorded in the
  step is that of the Run.
\<close>

definition step_sound :: "Memory \<Rightarrow> WorkflowStep \<Rightarrow> bool" where
  "step_sound m step \<longleftrightarrow>
     (s_Status step = WorkflowStepPending \<or> s_Status step = WorkflowStepSkipped \<longrightarrow> s_RunID step = '''')
   \<and> (step_active step \<or> s_Status step = WorkflowStepSucceeded \<or> s_Status step = WorkflowStepFailed \<longrightarrow> s_RunID step \<noteq> '''')
   \<and> (s_RunID step \<noteq> '''' \<longrightarrow>
        (\<exists>run. get (m_runs m) (s_RunID step) = Some run
           \<and> (s_Status step = WorkflowStepSucceeded \<longrightarrow> r_Status run = RunSucceeded \<and> s_Output step = r_Output run)
           \<and> (s_Status step = WorkflowStepFailed \<longrightarrow> r_Status run = RunFailed \<and> s_Error step = r_Error run)))"

text \<open>A step is started or skipped only after all its dependencies are done.\<close>

definition ordered :: "WorkflowStep list \<Rightarrow> bool" where
  "ordered steps \<longleftrightarrow>
     (\<forall>step \<in> set steps. s_RunID step \<noteq> '''' \<or> s_Status step = WorkflowStepSkipped \<longrightarrow>
        (\<forall>d \<in> set (s_DependsOn step). met steps d))"

text \<open>The statuses of the steps fit the status of the workflow.\<close>

definition statuses_fit :: "Workflow \<Rightarrow> bool" where
  "statuses_fit w \<longleftrightarrow>
     (case w_Status w of
        WorkflowPending \<Rightarrow> \<forall>s \<in> set (w_Steps w). s_Status s = WorkflowStepPending
      | WorkflowRunning \<Rightarrow> \<forall>s \<in> set (w_Steps w). s_Status s = WorkflowStepPending \<or> step_active s \<or> step_done s
      | WorkflowSucceeded \<Rightarrow> \<forall>s \<in> set (w_Steps w). step_done s
      | WorkflowFailed \<Rightarrow> (\<exists>s \<in> set (w_Steps w). s_Status s = WorkflowStepFailed)
          \<and> (\<forall>s \<in> set (w_Steps w). s_Status s \<noteq> WorkflowStepPending \<and> \<not> step_active s)
      | WorkflowCanceled \<Rightarrow> \<forall>s \<in> set (w_Steps w). s_Status s \<noteq> WorkflowStepPending \<and> \<not> step_active s)"

definition workflow_ok :: "int \<Rightarrow> Memory \<Rightarrow> Workflow \<Rightarrow> bool" where
  "workflow_ok n m w \<longleftrightarrow> workflow_valid w \<and> (\<forall>s \<in> set (w_Steps w). step_sound m s) \<and> ordered (w_Steps w)
     \<and> activeStepCount w \<le> n \<and> statuses_fit w"

text \<open>How a step and a workflow may change: Runs and results once recorded stay, and so does an end.\<close>

definition step_progress :: "WorkflowStep \<Rightarrow> WorkflowStep \<Rightarrow> bool" where
  "step_progress s s' \<longleftrightarrow> same_step s s' \<and> (s_RunID s \<noteq> '''' \<longrightarrow> s_RunID s' = s_RunID s)
     \<and> (step_done s \<longrightarrow> s_Status s' = s_Status s \<and> s_Output s' = s_Output s)"

definition progress :: "Workflow \<Rightarrow> Workflow \<Rightarrow> bool" where
  "progress w w' \<longleftrightarrow> same_definition w w' \<and> list_all2 step_progress (w_Steps w) (w_Steps w')
     \<and> (w_Status w \<noteq> WorkflowPending \<longrightarrow> w_Status w' \<noteq> WorkflowPending) \<and> (Workflow_IsTerminal w \<longrightarrow> w' = w)"

text \<open>How the store may change under a task.\<close>

definition runs_kept :: "Memory \<Rightarrow> Memory \<Rightarrow> bool" where
  "runs_kept m m' \<longleftrightarrow> (\<forall>k r. get (m_runs m) k = Some r \<longrightarrow>
     (\<exists>r'. get (m_runs m') k = Some r' \<and> (\<not> run_active r \<longrightarrow> r' = r)))"

definition workflows_kept :: "Memory \<Rightarrow> Memory \<Rightarrow> bool" where
  "workflows_kept m m' \<longleftrightarrow> (\<forall>k w. get (m_workflows m) k = Some w \<longrightarrow>
     (\<exists>w'. get (m_workflows m') k = Some w' \<and> (w' = w \<or> w_Version w < w_Version w') \<and> progress w w'))"

definition workflows_ok :: "int \<Rightarrow> Memory \<Rightarrow> bool" where
  "workflows_ok n m \<longleftrightarrow> (\<forall>k w. get (m_workflows m) k = Some w \<longrightarrow> workflow_ok n m w)"

section \<open>What a task knows\<close>

text \<open>The candidate is the stored workflow with execution fields changed by progress, unless it is out of date.\<close>

definition merged :: "Workflow \<Rightarrow> Workflow \<Rightarrow> Workflow" where
  "merged stored w = stored\<lparr>
     w_Status := w_Status w, w_Error := w_Error w, w_StartedAt := w_StartedAt w, w_CompletedAt := w_CompletedAt w,
     w_Steps := map2 update_step (w_Steps stored) (w_Steps w)\<rparr>"

definition candidate_ok :: "int \<Rightarrow> Memory \<Rightarrow> string \<Rightarrow> Workflow \<Rightarrow> bool" where
  "candidate_ok n m k w \<longleftrightarrow> w_ID w = k \<and> workflow_ok n m w
     \<and> (\<exists>stored. get (m_workflows m) k = Some stored \<and> w_Version w \<le> w_Version stored
          \<and> (w_Version stored = w_Version w \<longrightarrow>
               \<not> Workflow_IsTerminal stored \<and> length (w_Steps w) = length (w_Steps stored) \<and> merged stored w = w
             \<and> progress stored w))"

definition started :: "Memory \<Rightarrow> string \<Rightarrow> bool" where
  "started m k \<longleftrightarrow> (\<exists>w. get (m_workflows m) k = Some w \<and> w_Status w \<noteq> WorkflowPending)"

definition startable :: "int \<Rightarrow> Workflow \<Rightarrow> nat \<Rightarrow> bool" where
  "startable n w i \<longleftrightarrow> w_Status w = WorkflowRunning \<and> i < length (w_Steps w)
     \<and> s_Status (w_Steps w ! i) = WorkflowStepPending
     \<and> (\<forall>d \<in> set (s_DependsOn (w_Steps w ! i)). met (w_Steps w) d) \<and> activeStepCount w < n"

fun pc_ok :: "int \<Rightarrow> Memory \<Rightarrow> string \<Rightarrow> Workflow \<Rightarrow> wpc \<Rightarrow> bool" where
  "pc_ok n m k w WpStart \<longleftrightarrow> True"
| "pc_ok n m k w WpStartUpdate \<longleftrightarrow> candidate_ok n m k w \<and> w_Status w = WorkflowRunning"
| "pc_ok n m k w WpCancel \<longleftrightarrow> True"
| "pc_ok n m k w (WpCancelUpdate _) \<longleftrightarrow> candidate_ok n m k w \<and> w_Status w \<noteq> WorkflowPending"
| "pc_ok n m k w WpRecover \<longleftrightarrow> True"
| "pc_ok n m k w (WpScheduleAll ks _) \<longleftrightarrow> (\<forall>k \<in> set ks. started m k)"
| "pc_ok n m k w (WpRefresh i _ allSucceeded) \<longleftrightarrow> started m k \<and> candidate_ok n m k w \<and> w_Status w = WorkflowRunning
     \<and> (allSucceeded \<longleftrightarrow> (\<forall>j < length (w_Steps w). j < i \<longrightarrow> step_done (w_Steps w ! j)))"
| "pc_ok n m k w WpTerminal \<longleftrightarrow> started m k \<and> candidate_ok n m k w \<and> w_Status w \<noteq> WorkflowPending"
| "pc_ok n m k w WpUpdate \<longleftrightarrow> started m k \<and> candidate_ok n m k w \<and> w_Status w \<noteq> WorkflowPending"
| "pc_ok n m k w WpPlan \<longleftrightarrow> started m k \<and> candidate_ok n m k w \<and> w_Status w = WorkflowRunning
     \<and> (\<exists>s \<in> set (w_Steps w). \<not> step_done s)"
| "pc_ok n m k w (WpCreate i _ parent) \<longleftrightarrow> started m k \<and> candidate_ok n m k w \<and> startable n w i
     \<and> (parent = '''' \<or> get (m_runs m) parent \<noteq> None)"
| "pc_ok n m k w (WpQueue i created) \<longleftrightarrow> started m k \<and> candidate_ok n m k w \<and> startable n w i
     \<and> r_ID created \<noteq> '''' \<and> get (m_runs m) (r_ID created) \<noteq> None"
| "pc_ok n m k w (WpFail _) \<longleftrightarrow> False"
| "pc_ok n m k w (WpCancelRuns _ p) \<longleftrightarrow> pc_ok n m k w p"
| "pc_ok n m k w (WpEmit _ p) \<longleftrightarrow> pc_ok n m k w p"
| "pc_ok n m k w (WpReturned _) \<longleftrightarrow> True"
| "pc_ok n m k w _ \<longleftrightarrow> started m k"

definition task_ok :: "int \<Rightarrow> Memory \<Rightarrow> Task \<Rightarrow> bool" where
  "task_ok n m t \<longleftrightarrow> pc_ok n m (t_id t) (t_candidate t) (t_pc t)"

definition manager_inv :: "int \<Rightarrow> Manager \<Rightarrow> bool" where
  "manager_inv n s \<longleftrightarrow> engine_inv (mg_engine s) \<and> workflows_ok n (mg_store s)
     \<and> (\<forall>i t. get (mg_tasks s) i = Some t \<longrightarrow> task_ok n (mg_store s) t)"

section \<open>Knowledge survives the steps of others\<close>

lemma runs_kept_refl: "m_runs m' = m_runs m \<Longrightarrow> runs_kept m m'"
  by (simp add: runs_kept_def)

lemma runs_keptD: "runs_kept m m' \<Longrightarrow> get (m_runs m) k \<noteq> None \<Longrightarrow> get (m_runs m') k \<noteq> None"
  by (fastforce simp: runs_kept_def)

lemma advances_kept: "advances l m m' \<Longrightarrow> runs_kept m m'"
  by (fastforce simp: advances_def runs_kept_def)

lemma step_sound_kept: "runs_kept m m' \<Longrightarrow> step_sound m s \<Longrightarrow> step_sound m' s"
  unfolding step_sound_def runs_kept_def run_active_def by (metis RunStatus.distinct)

lemma workflow_ok_kept: "runs_kept m m' \<Longrightarrow> workflow_ok n m w \<Longrightarrow> workflow_ok n m' w"
  by (auto simp: workflow_ok_def step_sound_kept)

lemma step_progress_refl [simp]: "step_progress s s"
  by (simp add: step_progress_def)

lemma step_progress_trans: "step_progress a b \<Longrightarrow> step_progress b c \<Longrightarrow> step_progress a c"
  using same_step_trans [of a b c] by (auto simp: step_progress_def step_done_def)

lemma progress_refl [simp]: "progress w w"
  by (simp add: progress_def list_all2_refl)

lemma progress_trans:
  assumes "progress a b" and "progress b c"
  shows "progress a c"
proof -
  have "list_all2 step_progress (w_Steps a) (w_Steps c)"
    by (rule list_all2_trans [of step_progress step_progress step_progress, OF step_progress_trans])
      (use assms in \<open>auto simp: progress_def\<close>)
  moreover have "same_definition a c" using assms same_definition_trans by (auto simp: progress_def)
  ultimately show ?thesis using assms unfolding progress_def by auto
qed

lemma workflows_kept_refl: "m_workflows m' = m_workflows m \<Longrightarrow> workflows_kept m m'"
  by (simp add: workflows_kept_def)

lemma workflows_kept_trans:
  assumes "workflows_kept a b" and "workflows_kept b c"
  shows "workflows_kept a c"
  unfolding workflows_kept_def
proof (intro allI impI)
  fix k w
  assume "get (m_workflows a) k = Some w"
  with assms(1) obtain x where x: "get (m_workflows b) k = Some x" "x = w \<or> w_Version w < w_Version x" "progress w x"
    by (auto simp: workflows_kept_def)
  with assms(2) obtain y where y: "get (m_workflows c) k = Some y" "y = x \<or> w_Version x < w_Version y" "progress x y"
    by (auto simp: workflows_kept_def)
  have "progress w y" using x(3) y(3) by (rule progress_trans)
  then show "\<exists>w'. get (m_workflows c) k = Some w' \<and> (w' = w \<or> w_Version w < w_Version w') \<and> progress w w'"
    using x(2) y(1,2) by auto
qed

lemma started_kept:
  assumes "workflows_kept m m'" and "started m k"
  shows "started m' k"
proof -
  from assms(2) obtain w where "get (m_workflows m) k = Some w" "w_Status w \<noteq> WorkflowPending"
    by (auto simp: started_def)
  then show ?thesis using assms(1) by (fastforce simp: workflows_kept_def started_def progress_def)
qed

lemma candidate_ok_kept:
  assumes "runs_kept m m'" and "workflows_kept m m'" and "candidate_ok n m k w"
  shows "candidate_ok n m' k w"
proof -
  from assms(3) obtain stored where stored: "get (m_workflows m) k = Some stored" "w_Version w \<le> w_Version stored"
    "w_Version stored = w_Version w \<longrightarrow>
       \<not> Workflow_IsTerminal stored \<and> length (w_Steps w) = length (w_Steps stored) \<and> merged stored w = w \<and> progress stored w"
    by (auto simp: candidate_ok_def)
  from assms(2) stored(1) obtain stored' where "get (m_workflows m') k = Some stored'"
    "stored' = stored \<or> w_Version stored < w_Version stored'"
    by (auto simp: workflows_kept_def)
  then show ?thesis using stored assms(3) workflow_ok_kept [OF assms(1)] by (auto simp: candidate_ok_def)
qed

lemma pc_ok_kept:
  assumes "runs_kept m m'" and "workflows_kept m m'"
  shows "pc_ok n m k w p \<Longrightarrow> pc_ok n m' k w p"
  using runs_keptD [OF assms(1)]
  by (induction p) (auto simp: candidate_ok_kept [OF assms] started_kept [OF assms(2)] simp del: not_None_eq)

lemma task_ok_kept: "runs_kept m m' \<Longrightarrow> workflows_kept m m' \<Longrightarrow> task_ok n m t \<Longrightarrow> task_ok n m' t"
  by (simp add: task_ok_def pc_ok_kept)

lemma workflows_ok_kept:
  "runs_kept m m' \<Longrightarrow> m_workflows m' = m_workflows m \<Longrightarrow> workflows_ok n m \<Longrightarrow> workflows_ok n m'"
  by (auto simp: workflows_ok_def workflow_ok_kept)

section \<open>Changing a candidate\<close>

definition evolve :: "Workflow \<Rightarrow> Workflow \<Rightarrow> bool" where
  "evolve w w' \<longleftrightarrow> length (w_Steps w') = length (w_Steps w) \<and> merged w w' = w' \<and> progress w w'"

lemma update_update [simp]: "update_step (update_step a b) c = update_step a c"
  by (simp add: update_step_def)

lemma map2_update_update:
  "length as = length bs \<Longrightarrow> length bs = length cs \<Longrightarrow>
     map2 update_step (map2 update_step as bs) cs = map2 update_step as cs"
  by (induction as bs cs rule: list_induct3) auto

lemma merged_trans:
  assumes "length (w_Steps b) = length (w_Steps a)" and "length (w_Steps c) = length (w_Steps b)"
    and "merged a b = b" and "merged b c = c"
  shows "merged a c = c"
proof -
  have "merged (merged a b) c = merged a c"
    using map2_update_update [of "w_Steps a" "w_Steps b" "w_Steps c"] assms(1,2) by (simp add: merged_def)
  then show ?thesis using assms(3,4) by simp
qed

lemma merged_same:
  assumes "merged w w' = w'"
  shows "w_ID w' = w_ID w" and "w_Input w' = w_Input w" and "w_CreatedAt w' = w_CreatedAt w"
    and "w_Version w' = w_Version w"
proof -
  have "w_ID (merged w w') = w_ID w" "w_Input (merged w w') = w_Input w" "w_CreatedAt (merged w w') = w_CreatedAt w"
    "w_Version (merged w w') = w_Version w" by (simp_all add: merged_def)
  then show "w_ID w' = w_ID w" "w_Input w' = w_Input w" "w_CreatedAt w' = w_CreatedAt w" "w_Version w' = w_Version w"
    using assms by simp_all
qed

lemma candidate_change:
  assumes "candidate_ok n m k w" and "evolve w w'" and "workflow_ok n m w'"
  shows "candidate_ok n m k w'"
proof -
  note same = merged_same [of w w']
  show ?thesis
    using assms merged_trans [of w _ w'] progress_trans [of _ w w'] same
    unfolding candidate_ok_def evolve_def by metis
qed

section \<open>The changes a task makes to its candidate\<close>

text \<open>Everything but the fit of the statuses, which a change may break for a moment.\<close>

definition workflow_base :: "int \<Rightarrow> Memory \<Rightarrow> Workflow \<Rightarrow> bool" where
  "workflow_base n m w \<longleftrightarrow> workflow_valid w \<and> (\<forall>s \<in> set (w_Steps w). step_sound m s) \<and> ordered (w_Steps w)
     \<and> activeStepCount w \<le> n"

lemma workflow_ok_base: "workflow_ok n m w \<longleftrightarrow> workflow_base n m w \<and> statuses_fit w"
  by (auto simp: workflow_ok_def workflow_base_def)

lemma map2_update_same [simp]: "map2 update_step xs xs = xs"
  by (induction xs) (auto simp: update_step_def)

lemma evolve_refl: "evolve w w"
  by (simp add: evolve_def merged_def)

lemma evolve_trans: "evolve a b \<Longrightarrow> evolve b c \<Longrightarrow> evolve a c"
  using merged_trans [of b a c] progress_trans [of a b c] by (simp add: evolve_def)

lemma list_all2_update: "(\<And>x. P x x) \<Longrightarrow> i < length xs \<Longrightarrow> P (xs ! i) y \<Longrightarrow> list_all2 P xs (xs[i := y])"
  by (simp add: list_all2_conv_all_nth nth_list_update)

lemma map2_update_step:
  "i < length steps \<Longrightarrow> update_step (steps ! i) s' = s' \<Longrightarrow> map2 update_step steps (steps[i := s']) = steps[i := s']"
  by (rule nth_equalityI) (auto simp: nth_list_update update_step_def)

lemma same_step_refl_update: "update_step s s' = s' \<Longrightarrow> same_step s s'"
  by (metis same_step_update)

lemma evolve_set_step:
  assumes "i < length (w_Steps w)" and "update_step (w_Steps w ! i) s' = s'" and "step_progress (w_Steps w ! i) s'"
    and "\<not> Workflow_IsTerminal w"
  shows "evolve w (set_step i s' w)"
proof -
  have "list_all2 same_step (w_Steps w) ((w_Steps w)[i := s'])"
    using assms(1) same_step_refl_update [OF assms(2)] by (intro list_all2_update) auto
  moreover have "list_all2 step_progress (w_Steps w) ((w_Steps w)[i := s'])"
    using assms(1,3) by (intro list_all2_update) auto
  ultimately show ?thesis
    using map2_update_step [OF assms(1,2)] assms(4)
    by (simp add: evolve_def progress_def same_definition_def merged_def set_step_def)
qed

lemma length_filter_update:
  "i < length xs \<Longrightarrow>
     int (length (filter P (xs[i := y]))) = int (length (filter P xs)) - (if P (xs ! i) then 1 else 0) + (if P y then 1 else 0)"
proof (induction xs arbitrary: i)
  case (Cons x xs)
  show ?case
  proof (cases i)
    case (Suc j)
    then show ?thesis using Cons.IH [of j] Cons.prems by (auto split: if_splits)
  qed simp
qed simp

lemma activeStepCount_set_step:
  "i < length (w_Steps w) \<Longrightarrow> activeStepCount (set_step i s' w) =
     activeStepCount w - (if step_active (w_Steps w ! i) then 1 else 0) + (if step_active s' then 1 else 0)"
  by (simp add: activeStepCount_def length_filter_update)

lemma met_set_step:
  assumes "i < length steps" and "s_ID s' = s_ID (steps ! i)" and "step_done (steps ! i) \<Longrightarrow> step_done s'" and "met steps d"
  shows "met (steps[i := s']) d"
proof (cases "step_done (steps ! i)")
  case False
  then show ?thesis using met_update [OF assms(1) False assms(2)] assms(4) by simp
next
  case True
  from assms(4) obtain j where j: "j < length steps" "s_ID (steps ! j) = d" "step_done (steps ! j)"
    by (auto simp: met_def in_set_conv_nth)
  then have "s_ID (steps[i := s'] ! j) = d" "step_done (steps[i := s'] ! j)"
    using assms(1,2,3) True by (auto simp: nth_list_update)
  then show ?thesis using j(1) by (metis met_def length_list_update nth_mem)
qed

lemma base_set_step:
  assumes base: "workflow_base n m w" and i: "i < length (w_Steps w)"
    and upd: "update_step (w_Steps w ! i) s' = s'" and sound: "step_sound m s'"
    and done': "step_done (w_Steps w ! i) \<Longrightarrow> step_done s'"
    and deps: "s_RunID s' \<noteq> '''' \<or> s_Status s' = WorkflowStepSkipped \<Longrightarrow>
      \<forall>d \<in> set (s_DependsOn (w_Steps w ! i)). met (w_Steps w) d"
    and count: "activeStepCount (set_step i s' w) \<le> n"
  shows "workflow_base n m (set_step i s' w)"
proof -
  have same: "same_step (w_Steps w ! i) s'" using upd by (rule same_step_refl_update)
  have "same_definition w (set_step i s' w)"
    using list_all2_update [of same_step i "w_Steps w" s'] i same by (simp add: same_definition_def)
  then have "workflow_valid (set_step i s' w)" using base same_definition_valid by (auto simp: workflow_base_def)
  moreover have "\<forall>s \<in> set (w_Steps (set_step i s' w)). step_sound m s"
    using base sound set_update_subset_insert [of "w_Steps w" i s'] by (auto simp: workflow_base_def)
  moreover have "ordered (w_Steps (set_step i s' w))"
    unfolding ordered_def
  proof (intro ballI impI)
    fix s d
    assume s: "s \<in> set (w_Steps (set_step i s' w))" and st: "s_RunID s \<noteq> '''' \<or> s_Status s = WorkflowStepSkipped"
      and d: "d \<in> set (s_DependsOn s)"
    from s consider "s = s'" | "s \<in> set (w_Steps w)" using set_update_subset_insert [of "w_Steps w" i s'] by auto
    then have "met (w_Steps w) d"
      by cases (use deps st d same base in \<open>auto simp: same_step_def workflow_base_def ordered_def\<close>)
    then show "met (w_Steps (set_step i s' w)) d" using i same done' by (auto simp: same_step_def intro!: met_set_step)
  qed
  ultimately show ?thesis using count by (simp add: workflow_base_def)
qed

lemma running_not_terminal [simp]: "w_Status w = WorkflowRunning \<Longrightarrow> \<not> Workflow_IsTerminal w"
  "w_Status w = WorkflowPending \<Longrightarrow> \<not> Workflow_IsTerminal w"
  by (simp_all add: Workflow_IsTerminal_def)

lemma base_sound: "workflow_base n m w \<Longrightarrow> i < length (w_Steps w) \<Longrightarrow> step_sound m (w_Steps w ! i)"
  by (simp add: workflow_base_def)

lemma base_deps:
  "workflow_base n m w \<Longrightarrow> i < length (w_Steps w) \<Longrightarrow>
   s_RunID (w_Steps w ! i) \<noteq> '''' \<or> s_Status (w_Steps w ! i) = WorkflowStepSkipped \<Longrightarrow>
     \<forall>d \<in> set (s_DependsOn (w_Steps w ! i)). met (w_Steps w) d"
  using nth_mem [of i "w_Steps w"] by (auto simp: workflow_base_def ordered_def)

text \<open>Reading the Run of a step: a step that is done stays as it is, and no step becomes active that was not.\<close>

lemma refresh_facts:
  assumes "step_sound m s" and "s_RunID s \<noteq> ''''" and "get (m_runs m) (s_RunID s) = Some run"
  shows "update_step s (refresh_status run s) = refresh_status run s"
    and "step_sound m (refresh_status run s)" and "step_progress s (refresh_status run s)"
    and "s_Status s \<noteq> WorkflowStepFailed \<Longrightarrow> s_Status s \<noteq> WorkflowStepCanceled \<Longrightarrow>
      step_active (refresh_status run s) \<Longrightarrow> step_active s"
    and "step_active (refresh_status run s) \<or> step_done (refresh_status run s)
      \<or> s_Status (refresh_status run s) = WorkflowStepFailed \<or> s_Status (refresh_status run s) = WorkflowStepCanceled"
    and "s_RunID (refresh_status run s) = s_RunID s"
proof -
  show upd: "update_step s (refresh_status run s) = refresh_status run s"
    by (cases "r_Status run") (simp_all add: refresh_status_def update_step_def)
  show run: "s_RunID (refresh_status run s) = s_RunID s"
    by (cases "r_Status run") (simp_all add: refresh_status_def)
  show "step_sound m (refresh_status run s)"
    using assms(2,3) by (cases "r_Status run") (simp_all add: refresh_status_def step_sound_def step_active_def)
  show "step_progress s (refresh_status run s)"
    using assms same_step_refl_update [OF upd] run
    by (cases "r_Status run")
      (auto simp: step_progress_def refresh_status_def step_sound_def step_done_def)
  show "step_active (refresh_status run s) \<Longrightarrow> step_active s"
    if "s_Status s \<noteq> WorkflowStepFailed" "s_Status s \<noteq> WorkflowStepCanceled"
    using assms that
    by (cases "s_Status s"; cases "r_Status run")
      (auto simp: refresh_status_def step_sound_def step_active_def)
  show "step_active (refresh_status run s) \<or> step_done (refresh_status run s)
      \<or> s_Status (refresh_status run s) = WorkflowStepFailed \<or> s_Status (refresh_status run s) = WorkflowStepCanceled"
    by (cases "r_Status run") (simp_all add: refresh_status_def step_active_def step_done_def)
qed

lemma running_step:
  "workflow_ok n m w \<Longrightarrow> w_Status w = WorkflowRunning \<Longrightarrow> i < length (w_Steps w) \<Longrightarrow>
     s_Status (w_Steps w ! i) = WorkflowStepPending \<or> step_active (w_Steps w ! i) \<or> step_done (w_Steps w ! i)"
  by (simp add: workflow_ok_def statuses_fit_def)

lemma refresh_base:
  assumes ok: "workflow_ok n m w" and running: "w_Status w = WorkflowRunning" and i: "i < length (w_Steps w)"
    and run: "s_RunID (w_Steps w ! i) \<noteq> ''''" "get (m_runs m) (s_RunID (w_Steps w ! i)) = Some run"
  shows "workflow_base n m (set_step i (refresh_status run (w_Steps w ! i)) w)"
    and "evolve w (set_step i (refresh_status run (w_Steps w ! i)) w)"
proof -
  let ?s = "w_Steps w ! i" and ?s' = "refresh_status run (w_Steps w ! i)"
  have base: "workflow_base n m w" using ok by (simp add: workflow_ok_base)
  note facts = refresh_facts [OF base_sound [OF base i] run]
  have "s_Status ?s \<noteq> WorkflowStepFailed \<and> s_Status ?s \<noteq> WorkflowStepCanceled"
    using running_step [OF ok running i] by (auto simp: step_active_def step_done_def)
  then have "activeStepCount (set_step i ?s' w) \<le> n"
    using facts(4) base activeStepCount_set_step [OF i, of ?s'] by (auto simp: workflow_base_def)
  moreover have "step_done ?s \<Longrightarrow> step_done ?s'" using facts(3) by (auto simp: step_progress_def step_done_def)
  ultimately show "workflow_base n m (set_step i ?s' w)"
    using base_set_step [OF base i facts(1,2)] base_deps [OF base i] run(1) by blast
  show "evolve w (set_step i ?s' w)" using evolve_set_step [OF i facts(1,3)] running by simp
qed

lemma refresh_ok:
  assumes ok: "workflow_ok n m w" and running: "w_Status w = WorkflowRunning" and i: "i < length (w_Steps w)"
    and run: "s_RunID (w_Steps w ! i) \<noteq> ''''" "get (m_runs m) (s_RunID (w_Steps w ! i)) = Some run"
    and live: "s_Status (refresh_status run (w_Steps w ! i)) \<noteq> WorkflowStepFailed"
      "s_Status (refresh_status run (w_Steps w ! i)) \<noteq> WorkflowStepCanceled"
  shows "workflow_ok n m (set_step i (refresh_status run (w_Steps w ! i)) w)"
proof -
  let ?s' = "refresh_status run (w_Steps w ! i)"
  have "workflow_base n m w" using ok by (simp add: workflow_ok_base)
  then have "step_active ?s' \<or> step_done ?s'" using refresh_facts(5) [OF base_sound run] i live by auto
  then have "statuses_fit (set_step i ?s' w)"
    using ok running set_update_subset_insert [of "w_Steps w" i ?s']
    by (auto simp: workflow_ok_def statuses_fit_def)
  then show ?thesis using refresh_base(1) [OF ok running i run] by (simp add: workflow_ok_base)
qed

text \<open>Cancelling what is not yet over, under a new status of the workflow.\<close>

definition ended :: "WorkflowStatus \<Rightarrow> string \<Rightarrow> time \<Rightarrow> Workflow \<Rightarrow> Workflow" where
  "ended status err now w = w\<lparr>w_Status := status, w_Error := err, w_CompletedAt := Some now,
     w_Steps := map (cancel_step now) (w_Steps w)\<rparr>"

lemma cancel_step_facts:
  "update_step s (cancel_step now s) = cancel_step now s" "step_sound m s \<Longrightarrow> step_sound m (cancel_step now s)"
  "step_progress s (cancel_step now s)" "step_done (cancel_step now s) \<longleftrightarrow> step_done s"
  "\<not> step_active (cancel_step now s)" "s_Status (cancel_step now s) \<noteq> WorkflowStepPending"
  "s_Status (cancel_step now s) = WorkflowStepFailed \<longleftrightarrow> s_Status s = WorkflowStepFailed"
  "s_ID (cancel_step now s) = s_ID s" "s_RunID (cancel_step now s) = s_RunID s"
  "s_DependsOn (cancel_step now s) = s_DependsOn s"
  "s_Status (cancel_step now s) = WorkflowStepSkipped \<longleftrightarrow> s_Status s = WorkflowStepSkipped"
  by (auto simp: cancel_step_def update_step_def step_sound_def step_active_def step_progress_def same_step_def step_done_def)

lemma ended_base:
  assumes base: "workflow_base n m w" and live: "\<not> Workflow_IsTerminal w" and "status \<noteq> WorkflowPending"
  shows "workflow_base n m (ended status err now w)" and "evolve w (ended status err now w)"
proof -
  let ?w = "ended status err now w"
  have nth: "map2 update_step (w_Steps w) (w_Steps ?w) = w_Steps ?w"
    by (rule nth_equalityI) (simp_all add: ended_def cancel_step_facts)
  have all2: "list_all2 P (w_Steps w) (w_Steps ?w)" if "\<And>s. P s (cancel_step now s)" for P
    using that by (simp add: ended_def list_all2_conv_all_nth)
  have def': "same_definition w ?w"
    using all2 [of same_step] same_step_refl_update [OF cancel_step_facts(1)]
    by (simp add: same_definition_def ended_def)
  have met: "met (w_Steps ?w) d \<longleftrightarrow> met (w_Steps w) d" for d
    by (auto simp: met_def ended_def cancel_step_facts)
  have "filter step_active (w_Steps ?w) = []" by (simp add: ended_def filter_empty_conv cancel_step_facts)
  then have "activeStepCount ?w \<le> n"
    using base by (simp add: activeStepCount_def workflow_base_def)
  moreover have "ordered (w_Steps ?w)"
    unfolding ordered_def
  proof (intro ballI impI)
    fix s d
    assume "s \<in> set (w_Steps ?w)" "s_RunID s \<noteq> '''' \<or> s_Status s = WorkflowStepSkipped" "d \<in> set (s_DependsOn s)"
    then obtain u where "u \<in> set (w_Steps w)" "s_RunID u \<noteq> '''' \<or> s_Status u = WorkflowStepSkipped" "d \<in> set (s_DependsOn u)"
      by (auto simp: ended_def cancel_step_facts)
    then have "met (w_Steps w) d" using base unfolding workflow_base_def ordered_def by blast
    then show "met (w_Steps ?w) d" by (simp add: met)
  qed
  moreover have "workflow_valid ?w" using base same_definition_valid [OF def'] by (simp add: workflow_base_def)
  moreover have "\<forall>s \<in> set (w_Steps ?w). step_sound m s"
    using base by (auto simp: workflow_base_def ended_def cancel_step_facts)
  ultimately show "workflow_base n m ?w" by (simp add: workflow_base_def)
  have "list_all2 step_progress (w_Steps w) (w_Steps ?w)" using all2 cancel_step_facts(3) by blast
  then show "evolve w ?w"
    using def' nth live assms(3) unfolding evolve_def progress_def
    by (simp add: merged_def) (simp add: ended_def)
qed

lemma ended_fit:
  assumes "status = WorkflowCanceled \<or> status = WorkflowFailed \<and> (\<exists>s \<in> set (w_Steps w). s_Status s = WorkflowStepFailed)"
  shows "statuses_fit (ended status err now w)"
  using assms by (auto simp: statuses_fit_def ended_def cancel_step_facts)

lemma end_workflow_ended:
  "end_workflow now i w =
     (if s_Status (w_Steps w ! i) = WorkflowStepFailed
      then ended WorkflowFailed (''step '' @ s_ID (w_Steps w ! i) @ '' failed: '' @ s_Error (w_Steps w ! i)) now w
      else ended WorkflowCanceled (w_Error w) now w)"
  by (simp add: end_workflow_def ended_def cancelNonterminalSteps_def Let_def)

lemma cancel_candidate_ended: "cancel_candidate now w = ended WorkflowCanceled (w_Error w) now w"
  by (simp add: cancel_candidate_def ended_def)

lemma end_workflow_ok:
  assumes "workflow_base n m w" and "\<not> Workflow_IsTerminal w" and "i < length (w_Steps w)"
  shows "workflow_ok n m (end_workflow now i w)" and "evolve w (end_workflow now i w)"
  using assms nth_mem [OF assms(3)]
  by (auto simp: end_workflow_ended workflow_ok_base intro!: ended_base ended_fit)

lemma cancel_candidate_ok:
  assumes "workflow_ok n m w" and "\<not> Workflow_IsTerminal w"
  shows "workflow_ok n m (cancel_candidate now w)" and "evolve w (cancel_candidate now w)"
  using assms by (auto simp: cancel_candidate_ended workflow_ok_base intro!: ended_base ended_fit)

text \<open>A new status alone.\<close>

lemma status_ok:
  assumes "workflow_ok n m w" and "\<not> Workflow_IsTerminal w" and "status \<noteq> WorkflowPending"
    and w': "w' = w\<lparr>w_Status := status, w_Error := err, w_StartedAt := a, w_CompletedAt := c\<rparr>" and "statuses_fit w'"
  shows "workflow_ok n m w'" and "evolve w w'"
proof -
  have "same_definition w w'" by (simp add: w' same_definition_def list_all2_refl)
  then show "workflow_ok n m w'"
    using assms(1,5) same_definition_valid by (auto simp: workflow_ok_def w' activeStepCount_def)
  have "merged w w' = w'" by (simp add: merged_def w')
  then show "evolve w w'"
    using \<open>same_definition w w'\<close> assms(2,3) by (simp add: evolve_def progress_def w' list_all2_refl)
qed

lemma succeed_ok:
  assumes "workflow_ok n m w" and "w_Status w = WorkflowRunning" and "\<forall>s \<in> set (w_Steps w). step_done s"
  shows "workflow_ok n m (succeed_workflow now w)" and "evolve w (succeed_workflow now w)"
proof -
  have eq: "succeed_workflow now w = w\<lparr>w_Status := WorkflowSucceeded, w_Error := '''', w_StartedAt := w_StartedAt w,
      w_CompletedAt := Some now\<rparr>"
    by (simp add: succeed_workflow_def)
  have "statuses_fit (succeed_workflow now w)" using assms(3) by (simp add: succeed_workflow_def statuses_fit_def)
  note status = status_ok [OF assms(1) running_not_terminal(1) [OF assms(2)] _ eq this]
  show "workflow_ok n m (succeed_workflow now w)" "evolve w (succeed_workflow now w)" by (rule status; simp)+
qed

text \<open>Skipping a pending step and queueing a Run for one.\<close>

lemma pending_step_ok:
  assumes ok: "workflow_ok n m w" and running: "w_Status w = WorkflowRunning" and i: "i < length (w_Steps w)"
    and pending: "s_Status (w_Steps w ! i) = WorkflowStepPending"
    and ready: "\<forall>d \<in> set (s_DependsOn (w_Steps w ! i)). met (w_Steps w) d"
    and upd: "update_step (w_Steps w ! i) s' = s'" and sound: "step_sound m s'"
    and st: "s_Status s' = WorkflowStepSkipped \<or> s_Status s' = WorkflowStepQueued \<and> activeStepCount w < n"
  shows "workflow_ok n m (set_step i s' w)" and "evolve w (set_step i s' w)"
proof -
  have base: "workflow_base n m w" using ok by (simp add: workflow_ok_base)
  have none: "s_RunID (w_Steps w ! i) = ''''" "\<not> step_done (w_Steps w ! i)" "\<not> step_active (w_Steps w ! i)"
    using base_sound [OF base i] pending by (auto simp: step_sound_def step_done_def step_active_def)
  have "activeStepCount (set_step i s' w) \<le> n"
    using activeStepCount_set_step [OF i, of s'] none(3) st base
    by (auto simp: workflow_base_def step_active_def)
  then have "workflow_base n m (set_step i s' w)"
    using base_set_step [OF base i upd sound] none(2) ready by blast
  moreover have "statuses_fit (set_step i s' w)"
    using ok running st set_update_subset_insert [of "w_Steps w" i s']
    by (auto simp: workflow_ok_def statuses_fit_def step_active_def step_done_def)
  ultimately show "workflow_ok n m (set_step i s' w)" by (simp add: workflow_ok_base)
  have "step_progress (w_Steps w ! i) s'"
    using same_step_refl_update [OF upd] none by (simp add: step_progress_def)
  then show "evolve w (set_step i s' w)" using evolve_set_step [OF i upd] running by simp
qed

section \<open>Writing a candidate\<close>

lemma update_candidate:
  assumes cand: "candidate_ok n m k w" and upd: "UpdateWorkflow w (w_Version w) m = Inr (u, m')"
    and ok: "workflows_ok n m"
  shows "u = w\<lparr>w_Version := w_Version w + 1\<rparr>" and "m' = m\<lparr>m_workflows := put k u (m_workflows m)\<rparr>"
    and "workflows_kept m m'" and "workflows_ok n m'" and "runs_kept m m'"
proof -
  from cand obtain stored where stored: "get (m_workflows m) k = Some stored" and k: "w_ID w = k"
    and wok: "workflow_ok n m w"
    and cur: "w_Version stored = w_Version w \<longrightarrow>
      \<not> Workflow_IsTerminal stored \<and> length (w_Steps w) = length (w_Steps stored) \<and> merged stored w = w \<and> progress stored w"
    by (auto simp: candidate_ok_def)
  from upd stored k have v: "w_Version stored = w_Version w" by (auto simp: UpdateWorkflow_def split: if_splits)
  note now = cur [THEN mp, OF v]
  have u: "u = (merged stored w)\<lparr>w_Version := w_Version stored + 1\<rparr>"
    and m': "m' = m\<lparr>m_workflows := put k u (m_workflows m)\<rparr>"
    using upd stored k by (auto simp: UpdateWorkflow_def merged_def Let_def split: if_splits)
  show u': "u = w\<lparr>w_Version := w_Version w + 1\<rparr>" using u now v by simp
  show "m' = m\<lparr>m_workflows := put k u (m_workflows m)\<rparr>" by (rule m')
  show kept: "runs_kept m m'" by (simp add: runs_kept_refl m')
  have "progress stored u"
    using now by (simp add: u' progress_def same_definition_def)
  then show "workflows_kept m m'" using stored v by (auto simp: workflows_kept_def m' u')
  have "workflow_ok n m' w" using kept wok by (rule workflow_ok_kept)
  moreover have "workflow_valid u \<longleftrightarrow> workflow_valid w" by (simp add: u' workflow_valid_def)
  moreover have "statuses_fit u \<longleftrightarrow> statuses_fit w" by (cases "w_Status w") (simp_all add: u' statuses_fit_def)
  moreover have "w_Steps u = w_Steps w" "activeStepCount u = activeStepCount w" by (simp_all add: u' activeStepCount_def)
  ultimately have "workflow_ok n m' u" unfolding workflow_ok_def by metis
  then show "workflows_ok n m'" using ok workflow_ok_kept [OF kept] by (auto simp: workflows_ok_def m')
qed

text \<open>A task that has just read a live workflow.\<close>

lemma candidate_load:
  assumes "workflows_ok n m" and "keyed w_ID (m_workflows m)" and "GetWorkflow k m = Inr w" and "\<not> Workflow_IsTerminal w"
  shows "candidate_ok n m k w" and "w_Status w \<noteq> WorkflowPending \<Longrightarrow> started m k"
proof -
  have w: "get (m_workflows m) k = Some w" using assms(3) by (auto simp: GetWorkflow_def split: option.splits)
  then have "w_ID w = k" "workflow_ok n m w" using assms(1,2) by (auto simp: workflows_ok_def dest: keyedD)
  then show "candidate_ok n m k w"
    using w assms(4) evolve_refl [of w] by (simp add: candidate_ok_def evolve_def)
  show "w_Status w \<noteq> WorkflowPending \<Longrightarrow> started m k" using w by (auto simp: started_def)
qed

section \<open>A step of a task is a step of the engine\<close>

lemma set_store_simps [simp]:
  "mg_engine (set_store m s) = (mg_engine s)\<lparr>en_store := m\<rparr>" "mg_tasks (set_store m s) = mg_tasks s"
  "mg_active (set_store m s) = mg_active s" "mg_ctxDone (set_store m s) = mg_ctxDone s"
  "mg_engine (set_coord c s) = (mg_engine s)\<lparr>en_coord := c\<rparr>" "mg_tasks (set_coord c s) = mg_tasks s"
  "mg_active (set_coord c s) = mg_active s" "mg_ctxDone (set_coord c s) = mg_ctxDone s"
  by (simp_all add: set_store_def set_coord_def)

lemma engine_update:
  "UpdateWorkflow w v (en_store e) = Inr (u, m) \<Longrightarrow> engine_step L retry resolve e [] (e\<lparr>en_store := m\<rparr>)"
  using engine_step.api [of e "OpUpdateWorkflow w v" L retry resolve] by (simp add: state_of_def)

lemma engine_append:
  "AppendWorkflowEvent now event r n (en_store e) = Inr m \<Longrightarrow> engine_step L retry resolve e [] (e\<lparr>en_store := m\<rparr>)"
  using engine_step.api [of e "OpAppendWorkflowEvent now event r n" L retry resolve] by (simp add: state_of'_def)

lemma engine_create:
  "CreateRun run key (en_store e) = Inr (r, m) \<Longrightarrow> get (m_runs (en_store e)) (r_ID run) = None \<Longrightarrow> r_ID run \<noteq> '''' \<Longrightarrow>
   engine_step L retry resolve e [] (e\<lparr>en_store := m\<rparr>)"
  using engine_step.api [of e "OpCreateRun run key" L retry resolve] by (simp add: state_of_def)

lemma engine_push:
  assumes "Enqueue d p k (en_queue e) = Inr q"
  shows "engine_step L retry resolve e [] (e\<lparr>en_queue := q\<rparr>)"
proof (rule engine_step.enqueue)
  show "Engine_Enqueue k e = Inr (e\<lparr>en_queue := q\<rparr>)"
    using assms by (auto simp: Engine_Enqueue_def Enqueue_def split: if_splits)
qed

lemma newID_not_empty [simp]: "newID kind random now \<noteq> ''''"
  by (simp add: newID_def split: option.split)

lemma step_run_id [simp]: "r_ID (step_run retry v w step input parent) = newID ''run'' (v_random v) (v_now v)"
  by (simp add: step_run_def)

text \<open>What the calls do besides their results.\<close>

lemma emit_frame:
  "mg_engine (workflow_emit v k e s) = mg_engine s \<or> engine_step L retry resolve (mg_engine s) [] (mg_engine (workflow_emit v k e s))"
  "m_runs (mg_store (workflow_emit v k e s)) = m_runs (mg_store s)"
  "m_workflows (mg_store (workflow_emit v k e s)) = m_workflows (mg_store s)" "mg_tasks (workflow_emit v k e s) = mg_tasks s"
proof -
  show "mg_engine (workflow_emit v k e s) = mg_engine s \<or> engine_step L retry resolve (mg_engine s) [] (mg_engine (workflow_emit v k e s))"
    by (auto simp: workflow_emit_def intro: engine_append split: prod.split sum.split)
qed (auto simp: workflow_emit_def AppendWorkflowEvent_def Let_def split: prod.split sum.split if_splits)

lemma Engine_Cancel_workflows: "Engine_Cancel v k e = Inr (run, e') \<Longrightarrow> m_workflows (en_store e') = m_workflows (en_store e)"
  by (auto simp: Engine_Cancel_def CancelRun_Inr cancel_worker_def Let_def split: sum.splits prod.splits option.split)

lemma cancel_frame:
  "mg_engine (cancel_run v k s) = mg_engine s \<or> engine_step L retry resolve (mg_engine s) [] (mg_engine (cancel_run v k s))"
  "m_workflows (mg_store (cancel_run v k s)) = m_workflows (mg_store s)" "mg_tasks (cancel_run v k s) = mg_tasks s"
  by (auto simp: cancel_run_def intro: engine_step.cancel dest: Engine_Cancel_workflows split: sum.split prod.split)

abbreviation engine_moves :: "golib \<Rightarrow> RetryPolicy \<Rightarrow> (Agent \<Rightarrow> string option) \<Rightarrow> Manager \<Rightarrow> Manager \<Rightarrow> bool" where
  "engine_moves L retry resolve s s' \<equiv>
     mg_engine s' = mg_engine s \<or> engine_step L retry resolve (mg_engine s) [] (mg_engine s')"

lemma update_moves:
  "engine_moves L retry resolve s (snd (start_update t s))" "engine_moves L retry resolve s (snd (cancel_update ids t s))"
  "engine_moves L retry resolve s (snd (reconcile_terminal t s))" "engine_moves L retry resolve s (snd (reconcile_update t s))"
  "engine_moves L retry resolve s (snd (reconcile_queue i run t s))" "engine_moves L retry resolve s (snd (failWorkflow c v t s))"
  by (auto simp: start_update_def cancel_update_def reconcile_terminal_def reconcile_update_def reconcile_queue_def
      failWorkflow_def Let_def intro: engine_update split: sum.split prod.split store_error.split)

lemma task_step_engine:
  assumes "get (m_runs (mg_store s)) (newID ''run'' (v_random v) (v_now v)) = None"
  shows "engine_moves L retry resolve s (snd (task_step cfg retry v j t s))"
proof (cases "t_pc t")
  case (WpScheduleAll ks x)
  then show ?thesis by (cases ks) (simp_all add: task_step_def Manager_schedule_def)
next
  case (WpCreate i input parent)
  then show ?thesis using assms
    by (auto simp: task_step_def reconcile_create_def Let_def intro: engine_create split: sum.split prod.split)
next
  case (WpCancelRuns ks p)
  then show ?thesis using cancel_frame(1) by (cases ks) (simp_all add: task_step_def)
next
  case (WpEmit es p)
  then show ?thesis using emit_frame(1) by (cases es) (simp_all add: task_step_def)
next
  case WpAcquire
  then show ?thesis
    by (auto simp: task_step_def own_acquire_def intro: engine_step.leases split: sum.split prod.split option.split)
next
  case (WpRelease x)
  then show ?thesis
    by (auto simp: task_step_def own_release_def intro: engine_step.leases split: prod.split)
next
  case (WpEnqueue k)
  then show ?thesis by (auto simp: task_step_def reconcile_enqueue_def intro: engine_push split: sum.split)
qed (simp_all add: task_step_def update_moves start_load_def cancel_load_def Manager_Recover_def reconcile_load_def
    refreshSteps_def wait_poll_def Let_def split: sum.split)

section \<open>A Run can be created for a step that is ready\<close>

lemma finite_parent_rel: "finite (parent_rel m)"
proof -
  have "parent_rel m \<subseteq> (\<lambda>k. (the (parent_of m k), k)) ` fst ` set (m_runs m)"
  proof
    fix x
    assume "x \<in> parent_rel m"
    then obtain p k where x: "x = (p, k)" "parent_of m k = Some p" by (auto simp: parent_rel_def)
    then obtain r where "get (m_runs m) k = Some r" by (auto simp: parent_of_def split: option.splits)
    then have "(k, r) \<in> set (m_runs m)" by (rule get_Some_set)
    then have "k \<in> fst ` set (m_runs m)" by force
    then show "x \<in> (\<lambda>k. (the (parent_of m k), k)) ` fst ` set (m_runs m)" using x by (intro image_eqI [of _ _ k]) simp_all
  qed
  then show ?thesis by (rule finite_subset) simp
qed

lemma root_stored:
  assumes "runs_inv m" and "get (m_runs m) k = Some r"
  shows "get (m_runs m) (root_of r) \<noteq> None"
proof -
  have "wf (parent_rel m)" using assms(1) finite_parent_rel by (simp add: runs_inv_def finite_acyclic_wf)
  then show ?thesis using assms(2)
  proof (induction k arbitrary: r rule: wf_induct_rule)
    case (less k)
    show ?case
    proof (cases "r_ParentRunID r = ''''")
      case True
      then show ?thesis using less.prems run_key [OF assms(1) less.prems] by (simp add: root_of_def)
    next
      case False
      have "lineage_ok m r" using less.prems assms(1) by (auto simp: runs_inv_def)
      then obtain p where p: "get (m_runs m) (r_ParentRunID r) = Some p" "r_RootRunID r = root_of p"
        using False by (auto simp: lineage_ok_def)
      have "(r_ParentRunID r, k) \<in> parent_rel m" using less.prems False by (simp add: parent_rel_def parent_of_def)
      then show ?thesis using less.IH p False by (simp add: root_of_def)
    qed
  qed
qed

lemma CreateRun_ready:
  assumes inv: "runs_inv m" and fresh: "get (m_runs m) (r_ID run) = None" "r_ID run \<noteq> ''''" "r_RootRunID run = ''''"
    and parent: "r_ParentRunID run = '''' \<or> get (m_runs m) (r_ParentRunID run) \<noteq> None"
  shows "\<exists>r b m'. CreateRun run key m = Inr ((r, b), m') \<and> r_ID r \<noteq> '''' \<and> get (m_runs m') (r_ID r) \<noteq> None
    \<and> m_workflows m' = m_workflows m"
proof (cases "key_known key m")
  case (Some k)
  then have "get (m_idempotencyKeys m) key = Some k" by (auto simp: key_known_def split: if_splits)
  then obtain r where "get (m_runs m) k = Some r" using inv unfolding runs_inv_def by fastforce
  moreover have "r_ID r = k" "k \<noteq> ''''" using calculation inv run_key by (auto simp: runs_inv_def)
  ultimately show ?thesis
    using createRunLocked_known [OF Some, of run]
    by (intro exI [of _ r] exI [of _ False] exI [of _ m]) (simp add: CreateRun_def get_or_def)
next
  case None
  have stored: "get (m_runs (snd (store_run x key m))) (r_ID x) \<noteq> None" "m_workflows (snd (store_run x key m)) = m_workflows m"
    "fst (fst (store_run x key m)) = x" for x
    by (simp_all add: store_run_def)
  show ?thesis
  proof (cases "r_ParentRunID run = ''''")
    case True
    then have "CreateRun run key m = Inr (store_run run key m)"
      using None fresh by (simp add: CreateRun_def createRunLocked_def key_known_def split: if_splits)
    then show ?thesis using stored [of run] fresh(2) by (metis prod.collapse)
  next
    case False
    then obtain p where p: "get (m_runs m) (r_ParentRunID run) = Some p" using parent by auto
    have id: "r_ID p = r_ParentRunID run" using inv p by (rule run_key)
    have line: "lineage_ok m p" "get (m_runs m) (root_of p) \<noteq> None"
      using inv p root_stored by (auto simp: runs_inv_def)
    have root: "root_of p \<noteq> r_ID run" using line(2) fresh(1) by auto
    have "r_ParentRunID p \<noteq> '''' \<Longrightarrow> r_RootRunID p \<noteq> ''''"
      using line inv by (auto simp: root_of_def runs_inv_def)
    moreover have "r_ParentRunID p = '''' \<Longrightarrow> r_RootRunID p = ''''" using line(1) by (simp add: lineage_ok_def)
    moreover have "r_ParentRunID run \<noteq> r_ID run" using p fresh(1) by auto
    moreover define x where "x = run\<lparr>r_ParentRunID := r_ID p, r_RootRunID := root_of p\<rparr>"
    ultimately have x: "Run_AttachTo run p = Inr x" "r_ID x = r_ID run"
      using fresh(2) id False root
      by (cases "r_ParentRunID p = ''''"; simp add: Run_AttachTo_def root_of_def Let_def)+
    then have "CreateRun run key m = Inr (store_run x key m)"
      using None fresh p False
      by (simp add: CreateRun_def createRunLocked_def key_known_def split: if_splits)
    then show ?thesis using stored [of x] fresh(2) x(2) by (metis prod.collapse)
  qed
qed

section \<open>Every step of a task keeps its knowledge\<close>

definition task_good :: "int \<Rightarrow> Manager \<Rightarrow> Task \<times> Manager \<Rightarrow> bool" where
  "task_good n s ts \<longleftrightarrow> workflows_kept (mg_store s) (mg_store (snd ts)) \<and> workflows_ok n (mg_store (snd ts))
     \<and> task_ok n (mg_store (snd ts)) (fst ts) \<and> mg_tasks (snd ts) = mg_tasks s"

lemma good_quiet:
  "workflows_ok n (mg_store s) \<Longrightarrow> task_ok n (mg_store s) t' \<Longrightarrow> task_good n s (t', s)"
  by (simp add: task_good_def workflows_kept_refl)

lemma good_coord:
  "workflows_ok n (mg_store s) \<Longrightarrow> task_ok n (mg_store s) t' \<Longrightarrow> task_good n s (t', set_coord c s)"
  by (simp add: task_good_def workflows_kept_refl)

text \<open>A successful write of a candidate.\<close>

lemma good_write:
  assumes "workflows_ok n (mg_store s)" and "candidate_ok n (mg_store s) k w" and "w_Status w \<noteq> WorkflowPending"
    and "UpdateWorkflow w (w_Version w) (mg_store s) = Inr (u, m)" and "t_id t' = k"
    and "started m k \<Longrightarrow> w_ID u = k \<Longrightarrow> pc_ok n m k (t_candidate t') (t_pc t')"
  shows "task_good n s (t', set_store m s)"
proof -
  note upd = update_candidate [OF assms(2,4,1)]
  have "started m k" using assms(3) by (simp add: started_def upd(2) upd(1))
  moreover have "w_ID u = k" using assms(2) by (simp add: upd(1) candidate_ok_def)
  ultimately show ?thesis using upd(3,4) assms(5,6) by (simp add: task_good_def task_ok_def)
qed

lemma start_good:
  assumes "workflows_ok n (mg_store s)" and "keyed w_ID (m_workflows (mg_store s))"
  shows "task_good n s (start_load v t s)"
proof (cases "GetWorkflow (t_id t) (mg_store s)")
  case (Inr w)
  show ?thesis
  proof (cases "w_Status w = WorkflowPending")
    case True
    let ?w = "w\<lparr>w_Status := WorkflowRunning, w_StartedAt := Some (v_now v)\<rparr>"
    have cand: "candidate_ok n (mg_store s) (t_id t) w" using candidate_load [OF assms Inr] True by simp
    then have ok: "workflow_ok n (mg_store s) w" by (simp add: candidate_ok_def)
    have eq: "?w = w\<lparr>w_Status := WorkflowRunning, w_Error := w_Error w, w_StartedAt := Some (v_now v), w_CompletedAt := w_CompletedAt w\<rparr>"
      by simp
    have "statuses_fit ?w" using ok True by (simp add: workflow_ok_def statuses_fit_def)
    note status = status_ok [OF ok running_not_terminal(2) [OF True] _ eq this]
    have "candidate_ok n (mg_store s) (t_id t) ?w" using candidate_change [OF cand] status by simp
    then show ?thesis using Inr True assms(1) by (simp add: start_load_def good_quiet task_ok_def)
  qed (use Inr assms(1) in \<open>simp add: start_load_def good_quiet task_ok_def\<close>)
qed (use assms(1) in \<open>simp add: start_load_def good_quiet task_ok_def\<close>)

lemma cancel_good:
  assumes "workflows_ok n (mg_store s)" and "keyed w_ID (m_workflows (mg_store s))"
  shows "task_good n s (cancel_load v t s)"
proof (cases "GetWorkflow (t_id t) (mg_store s)")
  case (Inr w)
  show ?thesis
  proof (cases "w_Status w = WorkflowPending \<or> w_Status w = WorkflowRunning")
    case True
    then have live: "\<not> Workflow_IsTerminal w" by auto
    have cand: "candidate_ok n (mg_store s) (t_id t) w" using candidate_load [OF assms Inr] live by simp
    then have ok: "workflow_ok n (mg_store s) w" by (simp add: candidate_ok_def)
    have "candidate_ok n (mg_store s) (t_id t) (cancel_candidate (v_now v) w)"
      by (rule candidate_change [OF cand cancel_candidate_ok(2) [OF ok live] cancel_candidate_ok(1) [OF ok live]])
    moreover have "w_Status (cancel_candidate (v_now v) w) = WorkflowCanceled" by (simp add: cancel_candidate_def)
    moreover have "cancel_load v t s = (jump (WpCancelUpdate (active_run_ids w))
        (t\<lparr>t_candidate := cancel_candidate (v_now v) w\<rparr>), s)"
      using Inr True by (auto simp: cancel_load_def)
    ultimately show ?thesis using assms(1) by (simp add: good_quiet task_ok_def)
  qed (use Inr assms(1) in \<open>simp add: cancel_load_def good_quiet task_ok_def\<close>)
qed (use assms(1) in \<open>simp add: cancel_load_def good_quiet task_ok_def\<close>)

lemma load_good:
  assumes "workflows_ok n (mg_store s)" and "keyed w_ID (m_workflows (mg_store s))" and "started (mg_store s) (t_id t)"
  shows "task_good n s (reconcile_load t s)"
proof (cases "GetWorkflow (t_id t) (mg_store s)")
  case (Inr w)
  show ?thesis
  proof (cases "Workflow_IsTerminal w")
    case False
    have "w_Status w \<noteq> WorkflowPending" using Inr assms(3) by (auto simp: started_def GetWorkflow_def split: option.splits)
    then have "w_Status w = WorkflowRunning" using False by (cases "w_Status w") (simp_all add: Workflow_IsTerminal_def)
    then show ?thesis using Inr False candidate_load(1) [OF assms(1,2) Inr False] assms(1,3)
      by (simp add: reconcile_load_def good_quiet task_ok_def)
  qed (use Inr assms(1,3) in \<open>simp add: reconcile_load_def good_quiet task_ok_def\<close>)
qed (use assms(1,3) in \<open>simp add: reconcile_load_def good_quiet task_ok_def\<close>)

lemma write_good:
  assumes "workflows_ok n (mg_store s)" and "candidate_ok n (mg_store s) (t_id t) (t_candidate t)"
    and "w_Status (t_candidate t) \<noteq> WorkflowPending"
  shows "task_good n s (start_update t s)" and "task_good n s (cancel_update ids t s)"
    and "started (mg_store s) (t_id t) \<Longrightarrow> task_good n s (reconcile_terminal t s)"
    and "started (mg_store s) (t_id t) \<Longrightarrow> task_good n s (reconcile_update t s)"
proof -
  note quiet = good_quiet [OF assms(1)] and stored = good_write [OF assms]
  show "task_good n s (start_update t s)"
    by (auto simp: start_update_def task_ok_def intro!: quiet stored split: sum.split prod.split)
  show "task_good n s (cancel_update ids t s)"
    by (auto simp: cancel_update_def task_ok_def intro!: quiet stored split: sum.split prod.split)
  show "task_good n s (reconcile_terminal t s)" if "started (mg_store s) (t_id t)"
    using that by (auto simp: reconcile_terminal_def task_ok_def intro!: quiet stored split: sum.split prod.split store_error.split)
  show "task_good n s (reconcile_update t s)" if "started (mg_store s) (t_id t)"
    using that by (auto simp: reconcile_update_def task_ok_def intro!: quiet stored split: sum.split prod.split store_error.split)
qed

lemma done_upto_Suc:
  "i < length steps \<Longrightarrow> (\<forall>j < length steps. j < Suc i \<longrightarrow> step_done (steps ! j)) \<longleftrightarrow>
     (\<forall>j < length steps. j < i \<longrightarrow> step_done (steps ! j)) \<and> step_done (steps ! i)"
  by (auto simp: less_Suc_eq)

lemma read_good:
  assumes inv: "workflows_ok n (mg_store s)"
    and st: "started (mg_store s) (t_id t)" and cand: "candidate_ok n (mg_store s) (t_id t) (t_candidate t)"
    and running: "w_Status (t_candidate t) = WorkflowRunning"
    and all: "allS \<longleftrightarrow> (\<forall>j < length (w_Steps (t_candidate t)). j < i \<longrightarrow> step_done (w_Steps (t_candidate t) ! j))"
    and i: "i < length (w_Steps (t_candidate t))"
    and step: "s_Status (w_Steps (t_candidate t) ! i) \<noteq> WorkflowStepSkipped" "s_RunID (w_Steps (t_candidate t) ! i) \<noteq> ''''"
  shows "task_good n s (refreshSteps i changed allS v t s)"
proof -
  let ?w = "t_candidate t" and ?m = "mg_store s" and ?step = "w_Steps (t_candidate t) ! i"
  have ok: "workflow_ok n ?m ?w" using cand by (simp add: candidate_ok_def)
  then have "step_sound ?m ?step" using i by (simp add: workflow_ok_def)
  then obtain run where run: "get (m_runs ?m) (s_RunID ?step) = Some run" using step(2) by (auto simp: step_sound_def)
  let ?step' = "refresh_status run ?step"
  let ?w' = "set_step i ?step' ?w"
  note base = refresh_base [OF ok running i step(2) run] and quiet = good_quiet [OF inv]
  have i': "i < length (w_Steps ?w')" using i by simp
  have run': "w_Status ?w' = WorkflowRunning" using running by simp
  show ?thesis
  proof (cases "s_Status ?step' = WorkflowStepFailed \<or> s_Status ?step' = WorkflowStepCanceled")
    case True
    note over = end_workflow_ok [OF base(1) running_not_terminal(1) [OF run'] i']
    have "candidate_ok n ?m (t_id t) (end_workflow (v_now v) i ?w')"
      by (rule candidate_change [OF cand evolve_trans [OF base(2) over(2)] over(1)])
    moreover have "w_Status (end_workflow (v_now v) i ?w') \<noteq> WorkflowPending"
      by (simp add: end_workflow_ended ended_def)
    ultimately show ?thesis using step i st run True
      by (simp add: refreshSteps_def GetRun_def Let_def task_ok_def quiet)
  next
    case False
    have "candidate_ok n ?m (t_id t) ?w'"
      using candidate_change [OF cand base(2) refresh_ok [OF ok running i step(2) run]] False by simp
    moreover have "allS \<and> step_done ?step' \<longleftrightarrow>
        (\<forall>j < length (w_Steps ?w'). j < Suc i \<longrightarrow> step_done (w_Steps ?w' ! j))"
      unfolding done_upto_Suc [OF i'] using all i by (auto simp: nth_list_update)
    ultimately have "pc_ok n ?m (t_id t) ?w' (WpRefresh (Suc i) c (allS \<and> step_done ?step'))" for c
      using st run' by (simp only: pc_ok.simps)
    then show ?thesis using step i run False
      by (simp add: refreshSteps_def GetRun_def Let_def task_ok_def quiet del: pc_ok.simps)
  qed
qed

lemma refresh_good:
  assumes inv: "workflows_ok n (mg_store s)"
    and st: "started (mg_store s) (t_id t)" and cand: "candidate_ok n (mg_store s) (t_id t) (t_candidate t)"
    and running: "w_Status (t_candidate t) = WorkflowRunning"
    and all: "allS \<longleftrightarrow> (\<forall>j < length (w_Steps (t_candidate t)). j < i \<longrightarrow> step_done (w_Steps (t_candidate t) ! j))"
  shows "task_good n s (refreshSteps i changed allS v t s)"
proof -
  let ?w = "t_candidate t" and ?m = "mg_store s" and ?step = "w_Steps (t_candidate t) ! i"
  have ok: "workflow_ok n ?m ?w" using cand by (simp add: candidate_ok_def)
  note quiet = good_quiet [OF inv]
  consider "length (w_Steps ?w) \<le> i" | "i < length (w_Steps ?w)" "s_Status ?step = WorkflowStepSkipped"
    | "i < length (w_Steps ?w)" "s_Status ?step \<noteq> WorkflowStepSkipped" "s_RunID ?step = ''''"
    | "i < length (w_Steps ?w)" "s_Status ?step \<noteq> WorkflowStepSkipped" "s_RunID ?step \<noteq> ''''"
    by fastforce
  then show ?thesis
  proof cases
    case 1
    then have done': "allS \<longleftrightarrow> (\<forall>s \<in> set (w_Steps ?w). step_done s)" using all by (auto simp: all_set_conv_all_nth)
    have "candidate_ok n ?m (t_id t) (succeed_workflow now ?w)" if "allS" for now
      using that done' candidate_change [OF cand succeed_ok(2) [OF ok running] succeed_ok(1) [OF ok running]] by simp
    then show ?thesis using 1 st cand running done'
      by (auto simp: refreshSteps_def Let_def task_ok_def succeed_workflow_def intro!: quiet)
  next
    case 2
    then have "step_done ?step" by (simp add: step_done_def)
    then show ?thesis using 2 st cand running done_upto_Suc [OF 2(1)] all
      by (simp add: refreshSteps_def Let_def task_ok_def quiet)
  next
    case 3
    have "step_sound ?m ?step" using ok 3(1) by (simp add: workflow_ok_def)
    then have "\<not> step_done ?step" using 3 by (auto simp: step_sound_def step_done_def)
    then show ?thesis using 3 st cand running done_upto_Suc [OF 3(1)] all
      by (simp add: refreshSteps_def Let_def task_ok_def quiet)
  next
    case 4
    then show ?thesis using read_good [OF inv st cand running all] by simp
  qed
qed

lemma idle_count: "activeStepCount w \<le> 0 \<Longrightarrow> s \<in> set (w_Steps w) \<Longrightarrow> \<not> step_active s"
  by (auto simp: activeStepCount_def filter_empty_conv)

lemma plan_good:
  assumes st: "started m k" and cand: "candidate_ok n m k w" and running: "w_Status w = WorkflowRunning"
    and open_step: "\<exists>s \<in> set (w_Steps w). \<not> step_done s" and n: "n = mc_concurrency cfg"
    and t: "t_candidate t = w"
  shows "pc_ok n m k (t_candidate (reconcile_plan cfg v t)) (t_pc (reconcile_plan cfg v t))"
proof -
  have ok: "workflow_ok n m w" and valid: "workflow_valid w" and dist: "distinct (map s_ID (w_Steps w))"
    using cand by (auto simp: candidate_ok_def workflow_ok_def workflow_valid_def)
  obtain c w' where app: "applyConditions (v_now v) w = (c, w')" by (cases "applyConditions (v_now v) w")
  show ?thesis
  proof (cases c)
    case True
    let ?P = "\<lambda>w. candidate_ok n m k w \<and> w_Status w = WorkflowRunning"
    have "?P (set_step i (skip_step (v_now v) (w_Steps w ! i)) w)"
      if "?P w" "i < length (w_Steps w)" "s_Status (w_Steps w ! i) = WorkflowStepPending"
        "\<forall>d \<in> set (s_DependsOn (w_Steps w ! i)). met (w_Steps w) d" for w i
    proof -
      have ok: "workflow_ok n m w" using that(1) by (simp add: candidate_ok_def)
      have "step_sound m (w_Steps w ! i)" using ok that(2) by (simp add: workflow_ok_def)
      then have "step_sound m (skip_step (v_now v) (w_Steps w ! i))"
        using that(3) by (simp add: step_sound_def skip_step_def step_active_def)
      then show ?thesis
        using candidate_change [of n m k w] pending_step_ok [OF ok _ that(2,3,4), of "skip_step (v_now v) (w_Steps w ! i)"] that(1)
        by (simp add: skip_step_def update_step_def)
    qed
    then have "?P (snd (applyConditions (v_now v) w))"
      using applyConditions_invariant [OF dist, of ?P] cand running by blast
    then show ?thesis using app True st t by (simp add: reconcile_plan_def)
  next
    case False
    then have same: "w' = w" using app applyConditions_same by simp
    show ?thesis
    proof (cases "readyStep w")
      case None
      have "0 < activeStepCount w"
      proof (rule ccontr)
        assume "\<not> 0 < activeStepCount w"
        then have "s_Status s = WorkflowStepPending \<or> step_done s" if "s \<in> set (w_Steps w)" for s
          using that idle_count [of w s] ok running by (auto simp: workflow_ok_def statuses_fit_def)
        then show False using readyStep_exists [OF valid _ open_step] None by blast
      qed
      then show ?thesis using app False same None st t by (simp add: reconcile_plan_def)
    next
      case (Some i)
      note ready = readyStep_Some [OF Some dist]
      then have i: "w_Steps w ! i \<in> set (w_Steps w)" by simp
      obtain input parent where res: "resolveInput w (w_Steps w ! i) = Inr (input, parent)"
        and parent: "parent = '''' \<or> (\<exists>s \<in> set (w_Steps w). s_RunID s = parent)"
        using resolveInput_ok [OF valid i] ready by blast
      have "parent = '''' \<or> get (m_runs m) parent \<noteq> None"
        using parent ok by (auto simp: workflow_ok_def step_sound_def)
      then show ?thesis using app False same Some res st t cand ready running n
        by (auto simp: reconcile_plan_def startable_def)
    qed
  qed
qed

lemma create_good:
  assumes inv: "workflows_ok n (mg_store s)" and runs: "runs_inv (mg_store s)"
    and fresh: "get (m_runs (mg_store s)) (newID ''run'' (v_random v) (v_now v)) = None"
    and pc: "pc_ok n (mg_store s) (t_id t) (t_candidate t) (WpCreate i input parent)"
    and kept: "runs_kept (mg_store s) (mg_store (snd (reconcile_create retry i input parent v t s)))"
  shows "task_good n s (reconcile_create retry i input parent v t s)"
proof -
  let ?w = "t_candidate t"
  let ?run = "step_run retry v ?w (w_Steps ?w ! i) input parent" and ?key = "step_key (w_ID ?w) (s_ID (w_Steps ?w ! i))"
  have "r_RootRunID ?run = ''''" "r_ParentRunID ?run = parent" by (simp_all add: step_run_def zero_run_def)
  then obtain r b m where created: "CreateRun ?run ?key (mg_store s) = Inr ((r, b), m)"
    and r: "r_ID r \<noteq> ''''" "get (m_runs m) (r_ID r) \<noteq> None" and wf: "m_workflows m = m_workflows (mg_store s)"
    using CreateRun_ready [OF runs, of ?run ?key] fresh pc by auto
  have eq: "reconcile_create retry i input parent v t s = (jump (WpQueue i r) t, set_store m s)"
    using created by (simp add: reconcile_create_def)
  have kept': "runs_kept (mg_store s) m" using kept by (simp add: eq)
  note wkept = workflows_kept_refl [OF wf]
  have "pc_ok n m (t_id t) ?w (WpCreate i input parent)" using pc_ok_kept [OF kept' wkept pc] .
  then show ?thesis
    using wkept workflows_ok_kept [OF kept' wf inv] r by (simp add: eq task_good_def task_ok_def)
qed

lemma queue_good:
  assumes inv: "workflows_ok n (mg_store s)" and pc: "pc_ok n (mg_store s) (t_id t) (t_candidate t) (WpQueue i created)"
  shows "task_good n s (reconcile_queue i created t s)"
proof -
  let ?w = "t_candidate t" and ?m = "mg_store s"
  let ?s' = "(w_Steps ?w ! i)\<lparr>s_RunID := r_ID created, s_Status := WorkflowStepQueued\<rparr>"
  have cand: "candidate_ok n ?m (t_id t) ?w" and ready: "startable n ?w i" using pc by auto
  then have ok: "workflow_ok n ?m ?w" and running: "w_Status ?w = WorkflowRunning" and i: "i < length (w_Steps ?w)"
    and pending: "s_Status (w_Steps ?w ! i) = WorkflowStepPending" "\<forall>d \<in> set (s_DependsOn (w_Steps ?w ! i)). met (w_Steps ?w) d"
    by (auto simp: candidate_ok_def startable_def)
  have "step_sound ?m ?s'" using pc by (auto simp: step_sound_def)
  moreover have "update_step (w_Steps ?w ! i) ?s' = ?s'" by (simp add: update_step_def)
  ultimately have "workflow_ok n ?m (set_step i ?s' ?w)" "evolve ?w (set_step i ?s' ?w)"
    using pending_step_ok [OF ok running i pending, of ?s'] ready by (simp_all add: startable_def)
  then have queued: "candidate_ok n ?m (t_id t) (queue_step i created ?w)"
    using candidate_change [OF cand] by (simp add: queue_step_def)
  have "w_Status (queue_step i created ?w) \<noteq> WorkflowPending" using running by (simp add: queue_step_def)
  note stored = good_write [OF inv queued this]
  show ?thesis using pc
    by (auto simp: reconcile_queue_def task_ok_def Let_def intro!: good_quiet [OF inv] stored
        split: sum.split prod.split store_error.split)
qed

lemma listed_running:
  assumes "keyed w_ID (m_workflows m)" and "w \<in> set (ListRunningWorkflows m)"
  shows "started m (w_ID w)"
proof -
  from assms(2) obtain k where "(k, w) \<in> set (m_workflows m)" "w_Status w = WorkflowRunning"
    by (auto simp: ListRunningWorkflows_def ListWorkflows_def)
  moreover have "get (m_workflows m) k = Some w" using calculation assms(1) by (simp add: keyed_def in_set_get)
  moreover have "w_ID w = k" using assms(1) calculation(3) by (rule keyedD)
  ultimately show ?thesis by (auto simp: started_def)
qed

lemma renew_good:
  assumes "workflows_ok n (mg_store s)" and "task_ok n (mg_store s) t"
  shows "task_good n s (renew_tick cfg late v t s)"
  using assms
  by (auto simp: renew_tick_def task_ok_def intro!: good_quiet good_coord split: prod.split option.split)

lemma task_step_good:
  assumes inv: "workflows_ok n (mg_store s)" and keyed: "keyed w_ID (m_workflows (mg_store s))"
    and runs: "runs_inv (mg_store s)" and n: "n = mc_concurrency cfg" and t: "task_ok n (mg_store s) t"
    and fresh: "get (m_runs (mg_store s)) (newID ''run'' (v_random v) (v_now v)) = None"
    and kept: "runs_kept (mg_store s) (mg_store (snd (task_step cfg retry v j t s)))"
    and sched: "\<And>ks x. t_pc t \<noteq> WpScheduleAll ks x"
  shows "task_good n s (task_step cfg retry v j t s)"
proof (cases "t_pc t")
  case WpStart
  then show ?thesis using start_good [OF inv keyed] by (simp add: task_step_def)
next
  case WpCancel
  then show ?thesis using cancel_good [OF inv keyed] by (simp add: task_step_def)
next
  case WpLoad
  then show ?thesis using load_good [OF inv keyed] t by (simp add: task_step_def task_ok_def)
next
  case (WpRefresh i changed allS)
  then show ?thesis using refresh_good [OF inv] t by (simp add: task_step_def task_ok_def)
next
  case WpPlan
  have "pc_ok n (mg_store s) (t_id t) (t_candidate (reconcile_plan cfg v t)) (t_pc (reconcile_plan cfg v t))"
    using t WpPlan by (intro plan_good [OF _ _ _ _ n refl]) (simp_all add: task_ok_def)
  moreover have "t_id (reconcile_plan cfg v t) = t_id t"
    by (simp add: reconcile_plan_def Let_def split: prod.split bool.split option.split sum.split)
  ultimately show ?thesis using WpPlan inv by (simp add: task_step_def good_quiet task_ok_def)
next
  case (WpCreate i input parent)
  then show ?thesis using create_good [OF inv runs fresh] t kept by (simp add: task_step_def task_ok_def)
next
  case (WpQueue i created)
  then show ?thesis using queue_good [OF inv] t by (simp add: task_step_def task_ok_def)
next
  case WpRecover
  then show ?thesis using listed_running [OF keyed] inv
    by (auto simp: task_step_def Manager_Recover_def task_ok_def intro!: good_quiet)
next
  case (WpCancelRuns ks p)
  show ?thesis
  proof (cases ks)
    case (Cons k ks')
    have "runs_kept (mg_store s) (mg_store (cancel_run v k s))" using kept WpCancelRuns Cons by (simp add: task_step_def)
    moreover have wf: "m_workflows (mg_store (cancel_run v k s)) = m_workflows (mg_store s)" by (rule cancel_frame(2))
    ultimately show ?thesis using WpCancelRuns Cons t workflows_ok_kept [OF _ wf inv] workflows_kept_refl [OF wf]
      by (simp add: task_step_def task_good_def task_ok_def cancel_frame(3) pc_ok_kept)
  qed (use WpCancelRuns t inv in \<open>simp add: task_step_def task_ok_def good_quiet\<close>)
next
  case (WpEmit es p)
  show ?thesis
  proof (cases es)
    case (Cons e es')
    let ?s = "workflow_emit v (t_id t) e s"
    have "runs_kept (mg_store s) (mg_store ?s)" by (rule runs_kept_refl [OF emit_frame(2)])
    moreover have wf: "m_workflows (mg_store ?s) = m_workflows (mg_store s)" by (rule emit_frame(3))
    ultimately show ?thesis using WpEmit Cons t workflows_ok_kept [OF _ wf inv] workflows_kept_refl [OF wf]
      by (simp add: task_step_def task_good_def task_ok_def emit_frame(4) pc_ok_kept)
  qed (use WpEmit t inv in \<open>simp add: task_step_def task_ok_def good_quiet\<close>)
next
  case WpAcquire
  then show ?thesis using t inv
    by (auto simp: task_step_def own_acquire_def task_ok_def intro!: good_quiet good_coord split: sum.split prod.split option.split)
next
  case (WpRelease x)
  then show ?thesis using inv
    by (auto simp: task_step_def own_release_def task_ok_def intro!: good_coord split: prod.split)
next
  case (WpEnqueue k)
  then show ?thesis using t inv
    by (auto simp: task_step_def reconcile_enqueue_def task_ok_def task_good_def workflows_kept_refl split: sum.split)
qed (use t inv sched write_good [OF inv] in \<open>auto simp: task_step_def task_ok_def wait_poll_def intro!: good_quiet\<close>)

section \<open>Every step keeps the invariant\<close>

lemma created_ok:
  assumes "Workflow_InitializeForCreate L workflow now = Inr w" and "0 \<le> n"
  shows "workflow_ok n m w"
proof -
  note facts = accepted_valid [OF assms(1)]
  have fresh: "s_Status s = WorkflowStepPending \<and> s_RunID s = ''''" if "s \<in> set (w_Steps w)" for s
    using facts that by (auto simp: list_all_iff step_fresh_def)
  have "filter step_active (w_Steps w) = []" using fresh by (auto simp: filter_empty_conv step_active_def)
  then show ?thesis
    using facts fresh assms(2)
    by (auto simp: workflow_ok_def step_sound_def ordered_def statuses_fit_def activeStepCount_def step_active_def)
qed

lemma create_kept:
  assumes "CreateWorkflow L now workflow m = Inr (w, m')" and "workflows_ok n m" and "0 \<le> n"
  shows "workflows_kept m m'" and "workflows_ok n m'" and "runs_kept m m'"
proof -
  from assms(1) have init: "Workflow_InitializeForCreate L workflow now = Inr w"
    and new: "get (m_workflows m) (w_ID w) = None" and m': "m' = m\<lparr>m_workflows := put (w_ID w) w (m_workflows m)\<rparr>"
    by (auto simp: CreateWorkflow_Inr)
  show kept: "runs_kept m m'" by (simp add: m' runs_kept_refl)
  show "workflows_kept m m'" using new by (auto simp: workflows_kept_def m')
  show "workflows_ok n m'"
    using assms(2) workflow_ok_kept [OF kept] created_ok [OF init assms(3)] by (auto simp: workflows_ok_def m')
qed

lemma manager_invD:
  assumes "manager_inv n s"
  shows "engine_inv (mg_engine s)" and "workflows_ok n (mg_store s)" and "keyed w_ID (m_workflows (mg_store s))"
    and "runs_inv (mg_store s)" and "get (mg_tasks s) i = Some t \<Longrightarrow> task_ok n (mg_store s) t"
  using assms engine_invD(1,3) [of "mg_engine s"]
  by (auto simp: manager_inv_def store_inv_def workflows_inv_def)

lemma inv_after:
  assumes "manager_inv n s" and "engine_inv (mg_engine s')" and "runs_kept (mg_store s) (mg_store s')"
    and "workflows_kept (mg_store s) (mg_store s')" and "workflows_ok n (mg_store s')"
    and "\<And>i t. get (mg_tasks s') i = Some t \<Longrightarrow> get (mg_tasks s) i = Some t \<or> task_ok n (mg_store s') t"
  shows "manager_inv n s' \<and> runs_kept (mg_store s) (mg_store s') \<and> workflows_kept (mg_store s) (mg_store s')"
proof -
  have "task_ok n (mg_store s') t" if "get (mg_tasks s') i = Some t" for i t
    using assms(6) [OF that] task_ok_kept [OF assms(3,4)] manager_invD(5) [OF assms(1)] by blast
  then show ?thesis using assms(2-5) by (simp add: manager_inv_def)
qed

lemma moves_inv:
  assumes "engine_moves L retry resolve s s'" and "engine_inv (mg_engine s)"
  shows "engine_inv (mg_engine s')" and "runs_kept (mg_store s) (mg_store s')"
  using assms engine_step_inv [of L retry resolve "mg_engine s" "[]" "mg_engine s'"] advances_kept
  by (auto simp: runs_kept_refl)

lemma work_inv:
  assumes inv: "manager_inv n s" and n: "n = mc_concurrency cfg"
    and t: "get (mg_tasks s) i = Some t" and j: "get (mg_tasks s) j = None"
    and fresh: "get (m_runs (mg_store s)) (newID ''run'' (v_random v) (v_now v)) = None"
    and step: "task_step cfg retry v j t s = (t', s')" and s'': "s'' = s'\<lparr>mg_tasks := put i t' (mg_tasks s')\<rparr>"
  shows "manager_inv n s'' \<and> runs_kept (mg_store s) (mg_store s'') \<and> workflows_kept (mg_store s) (mg_store s'')"
proof (cases "\<exists>k ks x. t_pc t = WpScheduleAll (k # ks) x")
  case True
  then obtain k ks x where pc: "t_pc t = WpScheduleAll (k # ks) x" by blast
  then have st: "started (mg_store s) k" "pc_ok n (mg_store s) (t_id t) (t_candidate t) (WpScheduleAll ks x)"
    using manager_invD(5) [OF inv t] by (auto simp: task_ok_def)
  have eq: "t' = jump (WpScheduleAll ks x) t" "s' = Manager_schedule j k s" using step pc by (auto simp: task_step_def)
  have "task_ok n (mg_store s) (new_task k WpAcquire True)" using st(1) by (simp add: task_ok_def new_task_def)
  then show ?thesis
    by (intro inv_after [OF inv])
      (use st(2) manager_invD(1,2) [OF inv] in \<open>auto simp: s'' eq Manager_schedule_def task_ok_def runs_kept_refl
        workflows_kept_refl split: if_splits\<close>)
next
  case False
  have moves: "engine_moves L retry resolve s s'" for L resolve
    using task_step_engine [OF fresh, where L = L and retry = retry and resolve = resolve and cfg = cfg and j = j and t = t] step
    by simp
  note base = moves_inv [OF moves manager_invD(1) [OF inv]]
  have "task_good n s (t', s')"
  proof (cases "\<exists>x. t_pc t = WpScheduleAll [] x")
    case True
    then show ?thesis using step manager_invD(2) [OF inv] by (auto simp: task_step_def task_ok_def good_quiet)
  next
    case nil: False
    have "t_pc t \<noteq> WpScheduleAll ks x" for ks x using False nil by (cases ks) auto
    then show ?thesis
      using task_step_good [OF manager_invD(2,3,4) [OF inv] n manager_invD(5) [OF inv t] fresh, of retry j] base(2) step by simp
  qed
  then show ?thesis
    by (intro inv_after [OF inv]) (use base in \<open>auto simp: s'' task_good_def split: if_splits\<close>)
qed

lemma manager_step_inv:
  assumes "manager_step L cfg retry resolve s l s'" and "manager_inv n s" and "n = mc_concurrency cfg" and "0 \<le> n"
  shows "manager_inv n s' \<and> runs_kept (mg_store s) (mg_store s') \<and> workflows_kept (mg_store s) (mg_store s')"
  using assms
proof (induction rule: manager_step.induct)
  case (engine s l e)
  then have inv: "engine_inv e" "runs_kept (mg_store s) (en_store e)"
    using engine_step_inv [OF engine(1) manager_invD(1) [OF engine(3)]] advances_kept by auto
  then show ?case using workflows_ok_kept [OF inv(2) engine(2) manager_invD(2) [OF engine(3)]] engine(2)
    by (intro inv_after [OF engine(3)]) (simp_all add: workflows_kept_refl)
next
  case (create now workflow s w m)
  note kept = create_kept [OF create(1) manager_invD(2) [OF create(2)] create(4)]
  have "engine_step L retry resolve (mg_engine s) [] ((mg_engine s)\<lparr>en_store := m\<rparr>)"
    using engine_step.api [of "mg_engine s" "OpCreateWorkflow now workflow" L retry resolve] create(1) by (simp add: state_of_def)
  then have "engine_inv ((mg_engine s)\<lparr>en_store := m\<rparr>)" using engine_step_inv manager_invD(1) [OF create(2)] by blast
  then show ?case using kept by (intro inv_after [OF create(2)]) simp_all
next
  case (call s i p k)
  then show ?case using manager_invD(1,2) [OF call(3)]
    by (intro inv_after [OF call(3)]) (auto simp: task_ok_def new_task_def runs_kept_refl workflows_kept_refl split: if_splits)
next
  case (work s i t j v t' s')
  then show ?case using work_inv [OF work(5,6,1-4) refl] by simp
next
  case (renew s i t late v t' s')
  have good: "task_good n s (t', s')"
    using renew_good [OF manager_invD(2,5) [OF renew(4)], OF renew(1), of cfg late v] renew(3) by simp
  have "engine_moves L retry resolve s s'"
    using renew(3) by (auto simp: renew_tick_def intro: engine_step.leases split: if_splits prod.splits option.splits)
  note base = moves_inv [OF this manager_invD(1) [OF renew(4)]]
  show ?case by (intro inv_after [OF renew(4)]) (use good base in \<open>auto simp: task_good_def split: if_splits\<close>)
next
  case (finish s i t x)
  then show ?case using manager_invD(1,2) [OF finish(3)]
    by (intro inv_after [OF finish(3)]) (auto simp: runs_kept_refl workflows_kept_refl split: if_splits)
next
  case (shutdown s)
  then show ?case using manager_invD(1,2) [OF shutdown(1)]
    by (intro inv_after [OF shutdown(1)]) (auto simp: runs_kept_refl workflows_kept_refl)
qed

lemma manager_run_inv:
  assumes "manager_run L cfg retry resolve s tr s'" and "manager_inv n s" and "n = mc_concurrency cfg" and "0 \<le> n"
  shows "manager_inv n s' \<and> workflows_kept (mg_store s) (mg_store s')"
  using assms
proof (induction rule: manager_run.induct)
  case (step s tr s1 l s2)
  have "manager_inv n s1" "workflows_kept (mg_store s) (mg_store s1)" using step by auto
  moreover have "manager_inv n s2" "workflows_kept (mg_store s1) (mg_store s2)"
    using manager_step_inv [OF step(2)] calculation(1) step by auto
  ultimately show ?case using workflows_kept_trans by blast
qed (simp add: workflows_kept_refl)

end
