(* ===== verification/Engine_Properties.thy ===== *)
theory Engine_Properties
  imports Engine_System
begin

text \<open>
  What the engine guarantees: every interleaving refines sequences of calls to the repository,
  attempts are counted exactly, a worker always returns, an acknowledged delivery is a settled
  one, waiting times are bounded, and recovery puts every pending Run back.
\<close>

section \<open>Executions of one worker\<close>

lemma engine_run_trans:
  assumes "engine_run L retry resolve s1 tr2 s2" and "engine_run L retry resolve s tr1 s1"
  shows "engine_run L retry resolve s (tr1 @ tr2) s2"
  using assms
proof (induction rule: engine_run.induct)
  case (step s tr s1 l s2)
  then show ?case using engine_run.step by (metis append.assoc)
qed simp

lemma engine_run_one: "engine_step L retry resolve s l s' \<Longrightarrow> engine_run L retry resolve s l s'"
  using engine_run.step [OF engine_run.stay] by fastforce

text \<open>The worker \<open>i\<close> alone, under the given choices of its environment.\<close>

fun drive :: "golib \<Rightarrow> RetryPolicy \<Rightarrow> (Agent \<Rightarrow> string option) \<Rightarrow> nat \<Rightarrow> Env list \<Rightarrow> Engine \<Rightarrow> (string \<times> int) list \<times> Engine" where
  "drive L retry resolve i [] s = ([], s)"
| "drive L retry resolve i (v # vs) s =
     (case get (en_workers s) i of
        None \<Rightarrow> ([], s)
      | Some w \<Rightarrow>
          (case execute_step L retry resolve v i w s of
             ws \<Rightarrow> (case drive L retry resolve i vs (set_worker i ws) of
                     (tr, s') \<Rightarrow> (attempt_label w (fst ws) @ tr, s'))))"

lemma drive_run: "drive L retry resolve i vs s = (tr, s') \<Longrightarrow> engine_run L retry resolve s tr s'"
proof (induction vs arbitrary: s tr)
  case (Cons v vs)
  show ?case
  proof (cases "get (en_workers s) i")
    case None
    then show ?thesis using Cons.prems by (auto intro: engine_run.stay)
  next
    case (Some w)
    let ?ws = "execute_step L retry resolve v i w s"
    obtain tr2 where tr2: "drive L retry resolve i vs (set_worker i ?ws) = (tr2, s')" "tr = attempt_label w (fst ?ws) @ tr2"
      using Cons.prems Some by (auto split: prod.splits)
    show ?thesis unfolding tr2(2)
      by (rule engine_run_trans [OF Cons.IH [OF tr2(1)] engine_run_one [OF engine_step.work [OF Some refl]]])
  qed
qed (auto intro: engine_run.stay)

section \<open>Properties of executions\<close>


lemma engine_inv_start:
  "store_inv (en_store s) \<Longrightarrow> \<forall>k. 0 \<le> fence_of (en_store s) k \<Longrightarrow> en_workers s = [] \<Longrightarrow> engine_inv s"
  by (simp add: engine_inv_def)


definition sample_env :: Env where
  "sample_env = \<lparr> v_now = 62135596800000000020, v_random = None, v_outcome = RtReturn ''out'' None,
     v_deadline = False, v_timer = True \<rparr>"

definition sample_retry :: RetryPolicy where
  "sample_retry = \<lparr> rp_MaxAttempts = 3, rp_InitialBackoff = 100, rp_MaxBackoff = 1000, rp_LeaseTTL = 60,
     rp_AttemptTimeout = 30 \<rparr>"

definition sample_engine_store :: Memory where
  "sample_engine_store = NewMemory\<lparr>m_agents := [(''a'', sample_agent_normal\<lparr>a_CreatedAt := 5, a_UpdatedAt := 5, a_Version := 1\<rparr>)],
     m_runs := [(''r1'', sample_run)]\<rparr>"

definition sample_engine :: Engine where
  "sample_engine = \<lparr> en_store = sample_engine_store, en_bus = NewBus, en_queue = \<lparr> q_jobs = [''r1''], q_size = 4, q_deadLetters = [] \<rparr>,
     en_coord = NewCoordinator, en_active = [], en_workers = [], en_ctxDone = False \<rparr>"

definition sample_busy :: Engine where
  "sample_busy = sample_engine\<lparr>en_queue := \<lparr> q_jobs = [], q_size = 4, q_deadLetters = [] \<rparr>,
     en_workers := [(1, new_worker ''r1'')]\<rparr>"

lemma sample_engine_inv: "store_inv (en_store sample_engine)"
proof -
  let ?ops = "[OpCreateAgent 5 sample_agent, OpCreateRun sample_run '''']"
  have "en_store sample_engine = store_execs sample_lib ?ops NewMemory" by code_simp
  moreover have "ids_fresh sample_lib ?ops NewMemory" by code_simp
  ultimately show ?thesis using execs_store_inv [OF store_inv_new] by metis
qed

lemma sample_engine_fences: "\<forall>k. 0 \<le> fence_of (en_store sample_engine) k" "en_workers sample_engine = []"
  by (simp_all add: sample_engine_def sample_engine_store_def NewMemory_def get_or_def)

lemma sample_delivered: "engine_run L retry resolve sample_engine [] sample_busy"
proof -
  have "get (en_workers sample_engine) (1::nat) = None" and "receive (en_queue sample_engine) =
      Some (''r1'', \<lparr> q_jobs = [], q_size = 4, q_deadLetters = [] \<rparr>)"
    by (simp_all add: sample_engine_def receive_def)
  from engine_run_one [OF engine_step.deliver [OF this]] show ?thesis
    by (simp add: sample_busy_def sample_engine_def)
qed

section \<open>The control flow of execute\<close>

fun exit_of :: "pc \<Rightarrow> run_exit option" where
  "exit_of (PcStopKeeper x) = Some x" | "exit_of (PcUnwatch x) = Some x"
| "exit_of (PcRelease x) = Some x" | "exit_of (PcReturned x) = Some x" | "exit_of _ = None"

text \<open>The places that can follow a place; every call between them is the one of the source.\<close>

fun flows :: "pc \<Rightarrow> pc \<Rightarrow> bool" where
  "flows PcLoad p \<longleftrightarrow> p = PcAcquire \<or> (\<exists>x. p = PcReturned x)"
| "flows PcAcquire p \<longleftrightarrow> p = PcClaim \<or> (\<exists>x. p = PcReturned x)"
| "flows PcClaim p \<longleftrightarrow> p = PcActivate \<or> (\<exists>x. p = PcRelease x)"
| "flows PcActivate p \<longleftrightarrow> p = PcWatch"
| "flows PcWatch p \<longleftrightarrow> p = PcReload"
| "flows PcReload p \<longleftrightarrow> p = PcAgent \<or> (\<exists>x. p = PcStopKeeper x)"
| "flows PcAgent p \<longleftrightarrow> p = PcResolve \<or> (\<exists>e. p = PcDeadLetter e) \<or> (\<exists>x. p = PcStopKeeper x)"
| "flows PcResolve p \<longleftrightarrow> p = PcLease \<or> (\<exists>e. p = PcDeadLetter e) \<or> (\<exists>x. p = PcStopKeeper x)"
| "flows PcLease p \<longleftrightarrow> p = PcCtx \<or> (\<exists>x. p = PcStopKeeper x)"
| "flows PcCtx p \<longleftrightarrow> p = PcBegin \<or> (\<exists>x. p = PcStopKeeper x)"
| "flows PcBegin p \<longleftrightarrow> p = PcExecute \<or> (\<exists>x. p = PcStopKeeper x)"
| "flows PcExecute p \<longleftrightarrow> (\<exists>r. p = PcLeaseAfter r)"
| "flows (PcLeaseAfter r) p \<longleftrightarrow> p = PcParentAfter r \<or> (\<exists>x. p = PcStopKeeper x)"
| "flows (PcParentAfter r) p \<longleftrightarrow> p = PcCtxAfter r \<or> (\<exists>x. p = PcStopKeeper x)"
| "flows (PcCtxAfter r) p \<longleftrightarrow> p = PcOutcome r \<or> (\<exists>x. p = PcStopKeeper x)"
| "flows (PcOutcome r) p \<longleftrightarrow> p = PcWait \<or> (\<exists>e. p = PcDeadLetter e) \<or> (\<exists>x. p = PcStopKeeper x)"
| "flows PcWait p \<longleftrightarrow> p = PcLease \<or> p = PcLeaseWait"
| "flows PcLeaseWait p \<longleftrightarrow> p = PcParentWait \<or> (\<exists>x. p = PcStopKeeper x)"
| "flows PcParentWait p \<longleftrightarrow> (\<exists>x. p = PcStopKeeper x)"
| "flows (PcDeadLetter e) p \<longleftrightarrow> (\<exists>x. p = PcStopKeeper x)"
| "flows (PcStopKeeper x) p \<longleftrightarrow> p = PcUnwatch x"
| "flows (PcUnwatch x) p \<longleftrightarrow> p = PcRelease x"
| "flows (PcRelease x) p \<longleftrightarrow> p = PcReturned x"
| "flows (PcReturned x) p \<longleftrightarrow> p = PcReturned x"

lemma failRun_flow:
  "(\<exists>x. fst (failRun v err w s) = return x w) \<or> fst (failRun v err w s) = goto (PcDeadLetter err) w"
  by (auto simp: failRun_def split: sum.split store_error.split)

lemma lease_check_flow:
  "(\<exists>x. fst (lease_check p v w s) = return x w) \<or> fst (lease_check p v w s) = goto p w"
  by (cases rule: lease_check_cases [of p v w s]) auto

lemma begin_flow:
  "(\<exists>x. wk_pc (fst (attempt_begin v w s)) = PcStopKeeper x)
   \<or> wk_pc (fst (attempt_begin v w s)) = PcExecute
     \<and> (if r_Status (wk_run w) = RunQueued then Run_Start (wk_run w) (v_now v) else Run_Retry (wk_run w))
       = Inr (wk_run (fst (attempt_begin v w s)))"
proof (cases "if r_Status (wk_run w) = RunQueued then Run_Start (wk_run w) (v_now v) else Run_Retry (wk_run w)")
  case (Inr run)
  then show ?thesis unfolding attempt_begin_def Inr by (auto split: sum.split store_error.split)
qed (simp add: attempt_begin_def)

lemma outcome_flow:
  "(\<exists>x. wk_pc (fst (attempt_outcome L retry v result w s)) = PcStopKeeper x)
   \<or> (\<exists>e. wk_pc (fst (attempt_outcome L retry v result w s)) = PcDeadLetter e)
   \<or> wk_pc (fst (attempt_outcome L retry v result w s)) = PcWait
     \<and> r_Attempt (wk_run w) < r_MaxAttempts (wk_run w) \<and> wk_run (fst (attempt_outcome L retry v result w s)) = wk_run w"
proof (cases "x_err result")
  case None
  then show ?thesis by (auto simp: attempt_outcome_def split: sum.split store_error.split)
next
  case (Some err)
  then show ?thesis using failRun_flow [of v err w s] by (auto simp: attempt_outcome_def)
qed

lemma execute_flows: "flows (wk_pc w) (wk_pc (fst (execute_step L retry resolve v i w s)))"
proof (cases "wk_pc w")
  case PcLoad then show ?thesis
    by (auto simp: execute_step_def execute_load_def split: sum.split RunStatus.split)
next
  case PcAcquire then show ?thesis
    by (auto simp: execute_step_def execute_acquire_def split: sum.split prod.split option.split)
next
  case PcClaim then show ?thesis
    by (auto simp: execute_step_def execute_claim_def split: sum.split prod.split store_error.split)
next
  case PcAgent then show ?thesis using failRun_flow [of v "''agent not found: not found''" w s]
    by (auto simp: execute_step_def execute_agent_def split: sum.split)
next
  case PcResolve
  show ?thesis
  proof (cases "resolve (wk_agent w)")
    case (Some err)
    then show ?thesis
      using PcResolve failRun_flow [of v "''resolve runtime for agent '' @ a_ID (wk_agent w) @ '': '' @ err" w s]
      by (auto simp: execute_step_def execute_resolve_def)
  qed (simp add: PcResolve execute_step_def execute_resolve_def)
next
  case PcBegin then show ?thesis using begin_flow [of v w s] by (auto simp: execute_step_def)
next
  case (PcOutcome r) then show ?thesis using outcome_flow [of L retry v r w s] by (auto simp: execute_step_def)
next
  case PcLease then show ?thesis using lease_check_flow [of PcCtx v w s] by (auto simp: execute_step_def)
next
  case (PcLeaseAfter r) then show ?thesis using lease_check_flow [of "PcParentAfter r" v w s]
    by (auto simp: execute_step_def)
next
  case PcLeaseWait then show ?thesis using lease_check_flow [of PcParentWait v w s] by (auto simp: execute_step_def)
next
  case PcReload then show ?thesis by (auto simp: execute_step_def execute_reload_def split: sum.split)
next
  case PcExecute then show ?thesis by (auto simp: execute_step_def attempt_execute_def Let_def split: prod.split)
next
  case (PcDeadLetter e) then show ?thesis by (simp add: execute_step_def dead_letter_def QueueDeadLetter_def)
qed (auto simp: execute_step_def execute_activate_def execute_watch_def attempt_wait_def stop_watch_def
    releaseLease_def split: prod.split)

section \<open>Termination\<close>

text \<open>
  The measure of a worker: the part of \<^verbatim>\<open>execute\<close> it is in, the attempts left, and the place in the
  turn of the loop.
\<close>

definition attempts_left :: "Run \<Rightarrow> nat" where
  "attempts_left r = nat (r_MaxAttempts r - r_Attempt r + 1)"

definition after_begin :: "Run \<Rightarrow> nat" where
  "after_begin r = (if r_Attempt r < r_MaxAttempts r then 2 * attempts_left r + 3 else 1)"

fun remaining :: "pc \<Rightarrow> Run \<Rightarrow> nat \<times> nat \<times> nat" where
  "remaining PcLoad r = (2, 0, 8)" | "remaining PcAcquire r = (2, 0, 7)" | "remaining PcClaim r = (2, 0, 6)"
| "remaining PcActivate r = (2, 0, 5)" | "remaining PcWatch r = (2, 0, 4)" | "remaining PcReload r = (2, 0, 3)"
| "remaining PcAgent r = (2, 0, 2)" | "remaining PcResolve r = (2, 0, 1)"
| "remaining PcLease r = (1, 2 * attempts_left r + 2, 3)"
| "remaining PcCtx r = (1, 2 * attempts_left r + 2, 2)"
| "remaining PcBegin r = (1, 2 * attempts_left r + 2, 1)"
| "remaining PcExecute r = (1, after_begin r, 6)"
| "remaining (PcLeaseAfter x) r = (1, after_begin r, 5)"
| "remaining (PcParentAfter x) r = (1, after_begin r, 4)"
| "remaining (PcCtxAfter x) r = (1, after_begin r, 3)"
| "remaining (PcOutcome x) r = (1, after_begin r, 2)"
| "remaining PcWait r = (1, 2 * attempts_left r + 3, 1)"
| "remaining PcLeaseWait r = (1, 0, 2)" | "remaining PcParentWait r = (1, 0, 1)"
| "remaining (PcDeadLetter e) r = (0, 0, 4)" | "remaining (PcStopKeeper x) r = (0, 0, 3)"
| "remaining (PcUnwatch x) r = (0, 0, 2)" | "remaining (PcRelease x) r = (0, 0, 1)" | "remaining (PcReturned x) r = (0, 0, 0)"

abbreviation fuel_order :: "((nat \<times> nat \<times> nat) \<times> (nat \<times> nat \<times> nat)) set" where
  "fuel_order \<equiv> less_than <*lex*> less_than <*lex*> less_than"

lemma remaining_exit: "exit_of p \<noteq> None \<or> (\<exists>e. p = PcDeadLetter e) \<Longrightarrow> \<exists>n \<le> 4. remaining p r = (0, 0, n)"
  by (cases p) auto

text \<open>Within the loop a step that does not start an attempt keeps the local Run.\<close>

lemma loop_keeps_run:
  assumes "wk_pc w = PcLease \<or> wk_pc w = PcCtx \<or> wk_pc w = PcExecute \<or> (\<exists>r. wk_pc w = PcLeaseAfter r)
    \<or> (\<exists>r. wk_pc w = PcParentAfter r) \<or> (\<exists>r. wk_pc w = PcCtxAfter r) \<or> wk_pc w = PcWait"
  shows "wk_run (fst (execute_step L retry resolve v i w s)) = wk_run w"
proof -
  have "wk_run (fst (lease_check p v w s)) = wk_run w" for p
    by (cases rule: lease_check_cases [of p v w s]) auto
  then show ?thesis using assms
    by (elim disjE exE) (simp_all add: execute_step_def attempt_execute_def attempt_wait_def Let_def split: prod.split)
qed

lemma remaining_decreases:
  assumes "\<nexists>x. wk_pc w = PcReturned x"
  shows "(remaining (wk_pc (fst (execute_step L retry resolve v i w s))) (wk_run (fst (execute_step L retry resolve v i w s))),
      remaining (wk_pc w) (wk_run w)) \<in> fuel_order" (is "(remaining ?p' ?r', _) \<in> _")
proof -
  note flow = execute_flows [of w L retry resolve v i s]
  show ?thesis
  proof (cases "wk_pc w")
    case PcBegin
    then have step: "execute_step L retry resolve v i w s = attempt_begin v w s" by (simp add: execute_step_def)
    from begin_flow [of v w s] show ?thesis
    proof
      assume "wk_pc (fst (attempt_begin v w s)) = PcExecute
        \<and> (if r_Status (wk_run w) = RunQueued then Run_Start (wk_run w) (v_now v) else Run_Retry (wk_run w))
          = Inr (wk_run (fst (attempt_begin v w s)))"
      then have "?p' = PcExecute" "r_Attempt ?r' = r_Attempt (wk_run w) + 1" "r_MaxAttempts ?r' = r_MaxAttempts (wk_run w)"
        unfolding step by (auto simp: Run_Start_Inr Run_Retry_Inr split: if_splits)
      then show ?thesis using PcBegin by (auto simp: after_begin_def attempts_left_def)
    qed (use PcBegin step in auto)
  next
    case (PcOutcome r)
    then have step: "execute_step L retry resolve v i w s = attempt_outcome L retry v r w s" by (simp add: execute_step_def)
    from outcome_flow [of L retry v r w s] show ?thesis unfolding step using PcOutcome
      by (auto simp: after_begin_def attempts_left_def)
  qed (use flow assms loop_keeps_run [of w L retry resolve v i s] in auto)
qed

text \<open>
  C16: Every worker returns. However its steps interleave with those of others, whatever the store,
  the coordinator and the queue hold at each step, and whatever the runtime does, a worker cannot
  take steps forever: after finitely many it has returned.
\<close>

theorem worker_returns:
  assumes "\<And>n. \<exists>v i w s. core w = core (W n) \<and> W (Suc n) = fst (execute_step L retry resolve v i w s)"
  shows "\<exists>n x. wk_pc (W n) = PcReturned x"
proof (rule ccontr)
  assume never: "\<nexists>n x. wk_pc (W n) = PcReturned x"
  let ?f = "\<lambda>n. remaining (wk_pc (W n)) (wk_run (W n))"
  have "(?f (Suc n), ?f n) \<in> fuel_order" for n
  proof -
    obtain v i w s where w: "core w = core (W n)" "W (Suc n) = fst (execute_step L retry resolve v i w s)"
      using assms by blast
    have same: "wk_pc w = wk_pc (W n)" "wk_run w = wk_run (W n)" using w(1) by (simp_all add: core_def)
    show ?thesis using remaining_decreases [of w L retry resolve v i s] never w(2) same by metis
  qed
  moreover have "wf fuel_order" by blast
  ultimately show False unfolding wf_iff_no_infinite_down_chain by (meson)
qed

section \<open>Acknowledged deliveries\<close>

definition settled :: "string \<Rightarrow> Memory \<Rightarrow> bool" where
  "settled k m \<longleftrightarrow> (\<exists>r. get (m_runs m) k = Some r \<and> \<not> run_active r)"

lemma canceled_settled: "UpdateRunFenced run f m = Inl ErrRunCanceled \<Longrightarrow> settled (r_ID run) m"
  by (auto simp: UpdateRunFenced_def settled_def run_active_def split: option.splits if_splits)

lemma written_settled:
  "UpdateRunFenced run f m = Inr m' \<Longrightarrow> \<not> run_active run \<Longrightarrow> settled (r_ID run) m'"
  by (auto simp: UpdateRunFenced_Inr settled_def run_active_def)

lemma failRun_settled:
  assumes "wk_pc (fst (failRun v err w s)) = PcStopKeeper ExitNil"
  shows "settled (r_ID (wk_run w)) (en_store (snd (failRun v err w s)))"
proof (cases "Run_Fail (wk_run w) (Some err) (v_now v)")
  case (Inr run)
  then have run: "r_ID run = r_ID (wk_run w)" by (auto simp: Run_Fail_def split: if_splits)
  show ?thesis
  proof (cases "UpdateRunFenced run (wk_fence w) (en_store s)")
    case (Inl e)
    then have "e = ErrRunCanceled" and "en_store (snd (failRun v err w s)) = en_store s"
      using assms Inr by (auto simp: failRun_def split: store_error.splits)
    then show ?thesis using canceled_settled Inl run by metis
  qed (use assms Inr in \<open>simp add: failRun_def\<close>)
qed (use assms in \<open>simp add: failRun_def\<close>)

lemma claim_settled:
  assumes "wk_pc (fst (execute_claim w s)) = PcRelease ExitNil"
  shows "settled (r_ID (wk_run w)) (en_store (snd (execute_claim w s)))"
proof (cases "ClaimRunExecution (r_ID (wk_run w)) (FencingToken (wk_lease w)) (en_store s)")
  case (Inl e)
  then have "en_store (snd (execute_claim w s)) = en_store s" and "e = ErrRunCanceled \<or> (\<exists>st. e = ErrRunNotExecutable st)"
    using assms by (auto simp: execute_claim_def split: store_error.splits)
  moreover from this(2) have "settled (r_ID (wk_run w)) (en_store s)"
    using Inl by (auto simp: ClaimRunExecution_def settled_def run_active_def Let_def split: option.splits if_splits)
  ultimately show ?thesis by simp
next
  case (Inr r)
  then show ?thesis using assms by (auto simp: execute_claim_def split: prod.splits)
qed

lemma begin_settled:
  assumes "wk_pc (fst (attempt_begin v w s)) = PcStopKeeper ExitNil"
  shows "settled (r_ID (wk_run w)) (en_store (snd (attempt_begin v w s)))"
proof (cases "if r_Status (wk_run w) = RunQueued then Run_Start (wk_run w) (v_now v) else Run_Retry (wk_run w)")
  case (Inr run)
  then have run: "r_ID run = r_ID (wk_run w)" by (auto simp: Run_Start_Inr Run_Retry_Inr split: if_splits)
  show ?thesis
  proof (cases "UpdateRunFenced run (wk_fence w) (en_store s)")
    case (Inl e)
    then have "e = ErrRunCanceled" and "en_store (snd (attempt_begin v w s)) = en_store s"
      using assms unfolding attempt_begin_def Inr by (auto split: store_error.splits)
    then show ?thesis using canceled_settled Inl run by metis
  qed (use assms Inr in \<open>simp add: attempt_begin_def\<close>)
qed (use assms in \<open>simp add: attempt_begin_def\<close>)

lemma outcome_settled:
  assumes "wk_pc (fst (attempt_outcome L retry v result w s)) = PcStopKeeper ExitNil"
  shows "settled (r_ID (wk_run w)) (en_store (snd (attempt_outcome L retry v result w s)))"
proof (cases "x_err result")
  case (Some err)
  then show ?thesis using assms failRun_settled [of v err w s]
    by (auto simp: attempt_outcome_def split: if_splits)
next
  case None
  show ?thesis
  proof (cases "Run_Succeed (wk_run w) (x_output result) (v_now v)")
    case (Inr run)
    then have run: "r_ID run = r_ID (wk_run w)" "\<not> run_active run"
      by (auto simp: Run_Succeed_def run_active_def split: if_splits)
    show ?thesis
    proof (cases "UpdateRunFenced run (wk_fence w) (en_store s)")
      case (Inl e)
      then have "e = ErrRunCanceled" and "en_store (snd (attempt_outcome L retry v result w s)) = en_store s"
        using assms None Inr by (auto simp: attempt_outcome_def split: store_error.splits)
      then show ?thesis using canceled_settled Inl run(1) by metis
    next
      case updated: (Inr m)
      then show ?thesis using None Inr written_settled [OF updated run(2)] run(1) by (simp add: attempt_outcome_def)
    qed
  qed (use assms None in \<open>simp add: attempt_outcome_def\<close>)
qed

lemma load_settled:
  assumes "wk_pc (fst (execute_load v w s)) = PcReturned ExitNil"
  shows "settled (wk_runID w) (en_store (snd (execute_load v w s)))"
proof (cases "GetRun (wk_runID w) (en_store s)")
  case (Inr run)
  then have "get (m_runs (en_store s)) (wk_runID w) = Some run" by (auto simp: GetRun_def split: option.splits)
  then show ?thesis using assms Inr
    by (cases "r_Status run") (auto simp: execute_load_def settled_def run_active_def QueueDeadLetter_def)
qed (use assms in \<open>simp add: execute_load_def\<close>)

lemma ack_step:
  assumes "worker_ok (en_store s) w" and "exit_of (wk_pc w) = None"
    and "exit_of (wk_pc (fst (execute_step L retry resolve v i w s))) = Some ExitNil" (is "exit_of ?p = _")
    and "wk_pc w \<noteq> PcParentWait"
  shows "settled (wk_runID w) (en_store (snd (execute_step L retry resolve v i w s))) \<or> runCtx_done w s"
proof -
  note ID = worker_okD(1) [OF assms(1)]
  note flow = execute_flows [of w L retry resolve v i s]
  note here = execute_step_def [of L retry resolve v i w s]
  have check: "exit_of (wk_pc (fst (lease_check p v w s))) \<noteq> Some ExitNil" if "exit_of p = None" for p
    using that by (auto simp: lease_check_def leaseRenewalError_def split: option.split)
  have fail: "settled (wk_runID w) (en_store (snd (failRun v err w s)))"
    if "exit_of (wk_pc (fst (failRun v err w s))) = Some ExitNil" for err
    using that failRun_flow [of v err w s] failRun_settled [of v err w s] ID by auto
  show ?thesis
  proof (cases "wk_pc w")
    case PcLoad
    then have "?p = PcReturned ExitNil" using flow assms(3) by auto
    then show ?thesis using PcLoad load_settled [of v w s] by (simp add: here)
  next
    case PcClaim
    then have "?p = PcRelease ExitNil" using flow assms(3) by auto
    then show ?thesis using PcClaim claim_settled [of w s] ID by (simp add: here)
  next
    case PcReload
    then show ?thesis using assms(3) ID
      by (auto simp: here execute_reload_def settled_def run_active_def GetRun_def split: sum.splits option.splits if_splits)
  next
    case PcAgent
    then show ?thesis using assms(3) fail by (auto simp: here execute_agent_def split: sum.splits)
  next
    case PcResolve
    then show ?thesis using assms(3) fail by (auto simp: here execute_resolve_def split: option.splits)
  next
    case PcBegin
    then have "?p = PcStopKeeper ExitNil" using flow assms(3) by auto
    then show ?thesis using PcBegin begin_settled [of v w s] ID by (simp add: here)
  next
    case (PcOutcome r)
    then have "?p = PcStopKeeper ExitNil" using flow assms(3) by auto
    then show ?thesis using PcOutcome outcome_settled [of L retry v r w s] ID by (simp add: here)
  next
    case (PcDeadLetter e)
    then have "settled (wk_runID w) (en_store s)" using assms(1) by (auto simp: worker_ok_def settled_def)
    then show ?thesis using PcDeadLetter by (simp add: here dead_letter_def QueueDeadLetter_def)
  next
    case PcAcquire
    then show ?thesis using assms(3) by (auto simp: here execute_acquire_def split: sum.splits prod.splits option.splits)
  qed (use assms check flow in \<open>auto simp: here split: if_splits\<close>)
qed

text \<open>A worker that left the wait because \<^verbatim>\<open>runCtx\<close> was done still finds it done.\<close>

definition waits_ok :: "Engine \<Rightarrow> bool" where
  "waits_ok s \<longleftrightarrow> (\<forall>i w. get (en_workers s) i = Some w \<and> (wk_pc w = PcLeaseWait \<or> wk_pc w = PcParentWait)
     \<longrightarrow> runCtx_done w s)"

lemma waits_own:
  assumes "wk_pc (fst (execute_step L retry resolve v i w s)) = PcLeaseWait
      \<or> wk_pc (fst (execute_step L retry resolve v i w s)) = PcParentWait"
    and "wk_pc w = PcLeaseWait \<or> wk_pc w = PcParentWait \<Longrightarrow> runCtx_done w s"
  shows "runCtx_done (fst (execute_step L retry resolve v i w s)) s"
proof -
  have "wk_pc w = PcWait \<or> wk_pc w = PcLeaseWait"
    using execute_flows [of w L retry resolve v i s] assms(1) by (cases "wk_pc w") auto
  then show ?thesis
  proof
    assume "wk_pc w = PcWait"
    then show ?thesis using assms(1) by (auto simp: execute_step_def attempt_wait_def runCtx_done_def split: if_splits)
  next
    assume pc: "wk_pc w = PcLeaseWait"
    then have "wk_canceled (fst (execute_step L retry resolve v i w s)) = wk_canceled w"
      using lease_check_flow [of PcParentWait v w s] by (auto simp: execute_step_def)
    then show ?thesis using assms(2) pc by (simp add: runCtx_done_def)
  qed
qed

lemma publish_ctx [simp]:
  "en_ctxDone (publishRun v run t msg n s) = en_ctxDone s" "en_ctxDone (engine_publish v k t msg n s) = en_ctxDone s"
  by (simp_all add: publishRun_def engine_publish_def)

lemma failRun_ctx: "en_ctxDone (snd (failRun v err w s)) = en_ctxDone s"
  by (auto simp: failRun_def split: sum.split store_error.split)

lemma execute_ctx: "en_ctxDone (snd (execute_step L retry resolve v i w s)) = en_ctxDone s"
proof -
  have check: "en_ctxDone (snd (lease_check p v w s)) = en_ctxDone s" for p
    by (auto simp: lease_check_def leaseRenewalError_def split: option.split)
  have started: "en_ctxDone (snd (attempt_begin v w s)) = en_ctxDone s"
    by (cases "if r_Status (wk_run w) = RunQueued then Run_Start (wk_run w) (v_now v) else Run_Retry (wk_run w)")
      (auto simp: attempt_begin_def split: sum.split store_error.split)
  show ?thesis
    by (cases "wk_pc w")
      (auto simp: execute_step_def execute_load_def execute_acquire_def execute_claim_def execute_activate_def
        execute_watch_def execute_reload_def execute_agent_def execute_resolve_def attempt_execute_def
        attempt_outcome_def attempt_wait_def dead_letter_def stop_watch_def releaseLease_def Let_def check started failRun_ctx
        QueueDeadLetter_def split: sum.split prod.split option.split RunStatus.split store_error.split)
qed

lemma waits_flags:
  assumes "waits_ok s" and "en_ctxDone s' = en_ctxDone s"
    and "\<And>i w'. get (en_workers s') i = Some w' \<Longrightarrow>
      \<exists>w. get (en_workers s) i = Some w \<and> wk_pc w' = wk_pc w \<and> (wk_canceled w \<longrightarrow> wk_canceled w')"
  shows "waits_ok s'"
  using assms unfolding waits_ok_def runCtx_done_def by metis

lemma waits_set:
  assumes "waits_ok s" and "get (en_workers s) i = Some w" and "wk_pc w' = wk_pc w" and "wk_canceled w \<longrightarrow> wk_canceled w'"
    and "en_workers s1 = en_workers s" and "en_ctxDone s1 = en_ctxDone s"
  shows "waits_ok (set_worker i (w', s1))"
proof (rule waits_flags [OF assms(1)])
  show "\<exists>x. get (en_workers s) j = Some x \<and> wk_pc u = wk_pc x \<and> (wk_canceled x \<longrightarrow> wk_canceled u)"
    if "get (en_workers (set_worker i (w', s1))) j = Some u" for j u
    using that assms(2-5) by (cases "j = i") (simp_all add: set_worker_def)
qed (simp add: set_worker_def assms(6))

lemma waits_step:
  assumes "engine_step L retry resolve s l s'" and "engine_inv s" and "waits_ok s"
  shows "waits_ok s'"
  using assms
proof (induction rule: engine_step.induct)
  case (deliver s i k q)
  then show ?case by (auto simp: waits_ok_def runCtx_done_def new_worker_def split: if_splits)
next
  case (work s i w v ws)
  have "en_workers (snd ws) = en_workers s"
    using execute_step_ok [OF engine_invD(5) [OF work(3,1)] engine_invD(2,4) [OF work(3)], of L retry resolve v i] work(2)
    by (simp add: step_ok_def)
  moreover have "en_ctxDone (snd ws) = en_ctxDone s" using execute_ctx work(2) by metis
  ultimately show ?case
    using work waits_own [of L retry resolve v i w s] unfolding waits_ok_def
    by (auto simp: set_worker_def runCtx_done_def split: if_splits)
next
  case (keeper s i w late v ws)
  have "wk_pc (fst ws) = wk_pc w" "wk_canceled w \<longrightarrow> wk_canceled (fst ws)" "en_workers (snd ws) = en_workers s"
    "en_ctxDone (snd ws) = en_ctxDone s"
    using keeper(3) by (auto simp: keeper_tick_def split: prod.splits option.splits)
  from waits_set [OF keeper(5,1) this] show ?case by simp
next
  case (poll s i w)
  show ?case by (rule waits_set [OF poll(4,1)]) (auto simp: watch_poll_def split: sum.split)
next
  case (event s i w ws)
  have "wk_pc (fst ws) = wk_pc w" "wk_canceled w \<longrightarrow> wk_canceled (fst ws)" "en_workers (snd ws) = en_workers s"
    "en_ctxDone (snd ws) = en_ctxDone s"
    using event(3) by (auto simp: watch_event_def split: prod.splits option.splits)
  from waits_set [OF event(5,1) this] show ?case by simp
next
  case (cancel v k s run s')
  show ?case
    by (rule waits_flags [OF cancel(3)])
      (use cancel(1) in \<open>auto simp: Engine_Cancel_def cancel_worker_def publishRun_def Let_def
        split: sum.splits prod.splits option.splits if_splits\<close>)
next
  case (enqueue k s s')
  then show ?case by (auto simp: waits_ok_def runCtx_done_def Engine_Enqueue_def split: sum.splits)
next
  case (finish s i w x)
  then show ?case by (auto simp: waits_ok_def runCtx_done_def split: if_splits)
qed (auto simp: waits_ok_def runCtx_done_def)

lemma waits_run: "engine_run L retry resolve s tr s' \<Longrightarrow> engine_inv s \<Longrightarrow> waits_ok s \<Longrightarrow> waits_ok s'"
proof (induction rule: engine_run.induct)
  case (step s tr s1 l s2)
  then show ?case using waits_step engine_run_counts by blast
qed

text \<open>
  C14: A delivery is acknowledged only when it is settled. Whenever in any interleaving a worker
  decides to return \<^verbatim>\<open>nil\<close>, so that the message is not redelivered, the stored Run has ended, or the
  worker's own context was cancelled: by a cancellation of the Run, by the loss of its lease, or by
  the shutdown of the process.
\<close>

theorem acknowledged_settled:
  assumes "store_inv (en_store s)" and "\<forall>k. 0 \<le> fence_of (en_store s) k" and "en_workers s = []"
    and "engine_run L retry resolve s tr s'" and "get (en_workers s') i = Some w"
    and "exit_of (wk_pc w) = None" and "execute_step L retry resolve v i w s' = (w', s'')"
    and "exit_of (wk_pc w') = Some ExitNil"
  shows "(\<exists>r. get (m_runs (en_store s'')) (wk_runID w) = Some r \<and> \<not> run_active r)
    \<or> wk_canceled w \<or> en_ctxDone s'"
proof -
  have start: "engine_inv s" "waits_ok s"
    using engine_inv_start [OF assms(1-3)] assms(3) by (simp_all add: waits_ok_def)
  have inv: "engine_inv s'" using engine_run_counts [OF assms(4) start(1)] by blast
  show ?thesis
  proof (cases "wk_pc w = PcParentWait")
    case True
    then show ?thesis using waits_run [OF assms(4) start] assms(5) by (auto simp: waits_ok_def runCtx_done_def)
  next
    case False
    then show ?thesis
      using ack_step [OF engine_invD(5) [OF inv assms(5)] assms(6), of L retry resolve v i] assms(7,8)
      by (auto simp: settled_def runCtx_done_def)
  qed
qed

section \<open>Waiting times\<close>

lemma go_div_two: "0 \<le> m \<Longrightarrow> go_div m 2 = m div 2"
  by (cases "m = 0") (simp_all add: go_div_def)

lemma backoff_double:
  assumes "0 \<le> b" and "b < m div 2" and "m \<le> max_int64"
  shows "wrap64 (b * 2) = b * 2" and "b * 2 \<le> m"
proof -
  show "b * 2 \<le> m" using assms(2) by simp
  then show "wrap64 (b * 2) = b * 2" using assms(1,3) by (intro wrap64_id) (auto simp: min_int64_def)
qed

lemma backoff_loop_bounds:
  assumes "0 \<le> m" and "m \<le> max_int64" and "0 \<le> b"
  shows "0 \<le> backoff_loop m b n \<and> backoff_loop m b n \<le> m \<and> min (b * 2 ^ n) m \<le> backoff_loop m b n
    \<and> (backoff_loop m b n = m \<or> backoff_loop m b n = b * 2 ^ n)"
  using assms(3)
proof (induction n arbitrary: b)
  case (Suc n)
  show ?case
  proof (cases "m div 2 \<le> b")
    case True
    then show ?thesis using assms(1) by (simp add: go_div_two)
  next
    case False
    then have "wrap64 (b * 2) = b * 2" using backoff_double(1) [of b m] Suc.prems assms(2) by simp
    then show ?thesis using False Suc.IH [of "b * 2"] Suc.prems assms(1) by (simp add: go_div_two ac_simps)
  qed
qed (use assms(1) in auto)

lemma backoff_loop_mono:
  assumes "0 \<le> m" and "m \<le> max_int64"
  shows "0 \<le> b \<Longrightarrow> b \<le> c \<Longrightarrow> backoff_loop m b n \<le> backoff_loop m c n"
proof (induction n arbitrary: b c)
  case (Suc n)
  show ?case
  proof (cases "m div 2 \<le> c")
    case True
    then show ?thesis using backoff_loop_bounds [OF assms Suc.prems(1), of "Suc n"] assms(1) by (simp add: go_div_two)
  next
    case False
    then have "wrap64 (b * 2) = b * 2" "wrap64 (c * 2) = c * 2"
      using backoff_double(1) [of b m] backoff_double(1) [of c m] Suc.prems assms(2) by simp_all
    then show ?thesis using False Suc.IH [of "b * 2" "c * 2"] Suc.prems assms(1) by (simp add: go_div_two)
  qed
qed auto

lemma backoff_loop_Suc:
  assumes "0 \<le> m" and "m \<le> max_int64" and "0 \<le> b"
  shows "backoff_loop m b n \<le> backoff_loop m b (Suc n)"
proof (cases "m div 2 \<le> b")
  case True
  then show ?thesis using backoff_loop_bounds [OF assms, of n] assms(1) by (simp add: go_div_two)
next
  case False
  then have "wrap64 (b * 2) = b * 2" using backoff_double(1) [of b m] assms(2,3) by simp
  then show ?thesis using False backoff_loop_mono [OF assms(1,2), of b "b * 2" n] assms(1,3) by (simp add: go_div_two)
qed

text \<open>
  C36: Backoff. For every policy with non-negative 64-bit durations the wait before the next attempt
  never exceeds the maximum, is the initial wait doubled for each attempt or else the maximum,
  never shrinks from one attempt to the next, and no doubling overflows.
\<close>

theorem backoff_bounded:
  assumes "0 \<le> rp_InitialBackoff retry" and "0 \<le> rp_MaxBackoff retry" and "rp_MaxBackoff retry \<le> max_int64"
  shows "0 \<le> backoff retry n \<and> backoff retry n \<le> rp_MaxBackoff retry
    \<and> (backoff retry n = rp_MaxBackoff retry \<or> backoff retry n = rp_InitialBackoff retry * 2 ^ nat (n - 1))
    \<and> min (rp_InitialBackoff retry * 2 ^ nat (n - 1)) (rp_MaxBackoff retry) \<le> backoff retry n
    \<and> backoff retry n \<le> backoff retry (n + 1)"
proof -
  have "nat (n + 1 - 1) = nat (n - 1) \<or> nat (n + 1 - 1) = Suc (nat (n - 1))" by auto
  then have "backoff retry n \<le> backoff retry (n + 1)"
    using backoff_loop_Suc [OF assms(2,3,1), of "nat (n - 1)"] unfolding backoff_def by auto
  then show ?thesis
    using backoff_loop_bounds [OF assms(2,3,1), of "nat (n - 1)"] unfolding backoff_def by simp
qed

theorem backoff_bounded_witness:
  "0 \<le> backoff sample_retry 3 \<and> backoff sample_retry 3 \<le> 1000 \<and> backoff sample_retry 3 = 400
   \<and> backoff sample_retry 3 \<le> backoff sample_retry (3 + 1)"
proof -
  have "backoff sample_retry 3 = 400" by (simp add: backoff_def sample_retry_def numeral_eq_Suc go_div_def wrap64_def)
  then show ?thesis using backoff_bounded [of sample_retry 3] by (simp add: sample_retry_def max_int64_def)
qed

section \<open>Recovery\<close>

definition lease_free :: "string \<Rightarrow> time \<Rightarrow> Coordinator \<Rightarrow> bool" where
  "lease_free k now c \<longleftrightarrow>
     (case get (co_locks c) (lease_key k) of None \<Rightarrow> True | Some lock \<Rightarrow> \<not> now < l_expiresAt lock)"

lemma Acquire_None:
  "Acquire False (lease_key k) ttl now c = Inr (None, c') \<Longrightarrow> c' = c \<and> \<not> lease_free k now c"
  by (auto simp: Acquire_def lease_free_def Let_def split: if_splits option.splits)

lemma Acquire_Release_frame:
  assumes "Acquire False (lease_key k) ttl now c = Inr (Some lease, c')" and "j \<noteq> k"
  shows "lease_free j now (snd (Release lease c')) \<longleftrightarrow> lease_free j now c"
  using assms by (auto simp: Acquire_def Release_def lease_free_def Let_def split: if_splits option.splits)

lemma Engine_Enqueue_Inr:
  "Engine_Enqueue k s = Inr s' \<Longrightarrow> set (q_jobs (en_queue s')) = insert k (set (q_jobs (en_queue s)))
     \<and> en_store s' = en_store s \<and> en_coord s' = en_coord s"
  by (auto simp: Engine_Enqueue_def Enqueue_def split: if_splits sum.splits)

lemma recover_one_cases:
  assumes "recover_one retry now p s = (None, s')"
  obtains (queued) "p_Status p = RunQueued" "Engine_Enqueue (p_ID p) s = Inr s'"
    | (other) "p_Status p \<noteq> RunQueued" "s' = s" "p_Status p = RunRunning \<longrightarrow> \<not> lease_free (p_ID p) now (en_coord s)"
    | (recov) lease c b m where "p_Status p = RunRunning"
        "Acquire False (lease_key (p_ID p)) (rp_LeaseTTL retry) now (en_coord s) = Inr (Some lease, c)"
        "RecoverRun (p_ID p) (FencingToken lease) (en_store s) = Inr (b, m)"
        "en_store s' = m" "en_coord s' = snd (Release lease c)" "set (q_jobs (en_queue s)) \<subseteq> set (q_jobs (en_queue s'))"
        "b \<longrightarrow> p_ID p \<in> set (q_jobs (en_queue s'))"
proof (cases "p_Status p = RunQueued \<or> p_Status p \<noteq> RunRunning")
  case True
  then show thesis using assms queued other by (auto simp: recover_one_def split: if_splits sum.splits)
next
  case running: False
  show thesis
  proof (cases "Acquire False (lease_key (p_ID p)) (rp_LeaseTTL retry) now (en_coord s)")
    case (Inr r)
    obtain l c where r: "r = (l, c)" by (cases r)
    show thesis
    proof (cases l)
      case None
      have "c = en_coord s \<and> \<not> lease_free (p_ID p) now (en_coord s)" using Acquire_None Inr r None by blast
      then show thesis using other running assms Inr r None by (simp add: recover_one_def)
    next
      case (Some lease)
      let ?s1 = "s\<lparr>en_coord := snd (Release lease c)\<rparr>"
      show thesis
      proof (cases "RecoverRun (p_ID p) (FencingToken lease) (en_store s)")
        case (Inl e)
        then show thesis using assms running Inr r Some by (simp add: recover_one_def)
      next
        case rec: (Inr bm)
        obtain b m where bm: "bm = (b, m)" by (cases bm)
        have "if b then Engine_Enqueue (p_ID p) (?s1\<lparr>en_store := m\<rparr>) = Inr s' else s' = ?s1\<lparr>en_store := m\<rparr>"
          using assms running Inr r Some rec bm by (auto simp: recover_one_def Let_def split: sum.splits)
        then have "en_store s' = m" "en_coord s' = snd (Release lease c)" "set (q_jobs (en_queue s)) \<subseteq> set (q_jobs (en_queue s'))"
          "b \<longrightarrow> p_ID p \<in> set (q_jobs (en_queue s'))"
          using Engine_Enqueue_Inr [of "p_ID p" "?s1\<lparr>en_store := m\<rparr>" s'] by (auto split: if_splits)
        then show thesis using recov running Inr r Some rec bm by blast
      qed
    qed
  qed (use assms running in \<open>simp add: recover_one_def\<close>)
qed

text \<open>One turn of the loop touches the Run it is about, and only that one.\<close>

lemma recover_one_facts:
  assumes "recover_one retry now p s = (None, s')"
  shows "set (q_jobs (en_queue s)) \<subseteq> set (q_jobs (en_queue s'))
    \<and> (\<forall>j. j \<noteq> p_ID p \<longrightarrow> get (m_runs (en_store s')) j = get (m_runs (en_store s)) j
          \<and> (lease_free j now (en_coord s') \<longleftrightarrow> lease_free j now (en_coord s)))
    \<and> (p_Status p = RunQueued \<longrightarrow> p_ID p \<in> set (q_jobs (en_queue s')) \<and> en_store s' = en_store s)
    \<and> (\<forall>r. p_Status p = RunRunning \<and> lease_free (p_ID p) now (en_coord s) \<and>
      get (m_runs (en_store s)) (p_ID p) = Some r \<and> r_Status r = RunRunning \<longrightarrow>
      get (m_runs (en_store s')) (p_ID p) = Some (recovered r) \<and> p_ID p \<in> set (q_jobs (en_queue s')))"
proof (cases rule: recover_one_cases [OF assms])
  case 1
  then show ?thesis using Engine_Enqueue_Inr [OF 1(2)] by auto
next
  case 2
  then show ?thesis by blast
next
  case (3 lease c b m)
  have "lease_free j now (en_coord s') \<longleftrightarrow> lease_free j now (en_coord s)" if "j \<noteq> p_ID p" for j
    using Acquire_Release_frame [OF 3(2) that] 3(5) by simp
  moreover have "get (m_runs (en_store s')) j = get (m_runs (en_store s)) j" if "j \<noteq> p_ID p" for j
    using 3(3,4) that by (auto simp: RecoverRun_Inr)
  moreover have "get (m_runs (en_store s')) (p_ID p) = Some (recovered r) \<and> p_ID p \<in> set (q_jobs (en_queue s'))"
    if "get (m_runs (en_store s)) (p_ID p) = Some r" "r_Status r = RunRunning" for r
    using 3(3,4,7) that by (auto simp: RecoverRun_Inr)
  ultimately show ?thesis using 3(1,6) by simp
qed

lemma recover_loop_facts:
  assumes "recover_loop retry now ps s = (None, s')" and "distinct (map p_ID ps)"
    and "\<And>p. p \<in> set ps \<Longrightarrow> get (m_runs (en_store s)) (p_ID p) = Some (run p) \<and> r_Status (run p) = p_Status p"
  shows "set (q_jobs (en_queue s)) \<subseteq> set (q_jobs (en_queue s'))
    \<and> (\<forall>j. j \<notin> p_ID ` set ps \<longrightarrow> get (m_runs (en_store s')) j = get (m_runs (en_store s)) j)
    \<and> (\<forall>p \<in> set ps. p_Status p = RunQueued \<longrightarrow>
         p_ID p \<in> set (q_jobs (en_queue s')) \<and> get (m_runs (en_store s')) (p_ID p) = Some (run p))
    \<and> (\<forall>p \<in> set ps. p_Status p = RunRunning \<and> lease_free (p_ID p) now (en_coord s) \<longrightarrow>
         p_ID p \<in> set (q_jobs (en_queue s')) \<and> get (m_runs (en_store s')) (p_ID p) = Some (recovered (run p)))"
  using assms
proof (induction ps arbitrary: s)
  case (Cons p ps)
  obtain s1 where one: "recover_one retry now p s = (None, s1)" and rest: "recover_loop retry now ps s1 = (None, s')"
    using Cons.prems(1) by (auto split: prod.splits option.splits)
  note f = recover_one_facts [OF one]
  have frame: "get (m_runs (en_store s1)) j = get (m_runs (en_store s)) j"
    "lease_free j now (en_coord s1) \<longleftrightarrow> lease_free j now (en_coord s)" if "j \<noteq> p_ID p" for j
    using f that by blast+
  have notin: "p_ID p \<notin> p_ID ` set ps" and dist: "distinct (map p_ID ps)" using Cons.prems(2) by simp_all
  have other: "p_ID q \<noteq> p_ID p" if "q \<in> set ps" for q
  proof
    assume "p_ID q = p_ID p"
    then have "p_ID p \<in> p_ID ` set ps" using that by (intro rev_image_eqI [of q]) simp_all
    then show False using notin by contradiction
  qed
  have "get (m_runs (en_store s1)) (p_ID q) = Some (run q) \<and> r_Status (run q) = p_Status q" if "q \<in> set ps" for q
    using frame(1) [OF other [OF that]] Cons.prems(3) [of q] that by simp
  note IH = Cons.IH [OF rest dist this]
  have p: "get (m_runs (en_store s)) (p_ID p) = Some (run p)" "r_Status (run p) = p_Status p"
    using Cons.prems(3) [of p] by simp_all
  have pfin: "get (m_runs (en_store s')) (p_ID p) = get (m_runs (en_store s1)) (p_ID p)"
    using IH notin by blast
  have jobs: "set (q_jobs (en_queue s)) \<subseteq> set (q_jobs (en_queue s1))" "set (q_jobs (en_queue s1)) \<subseteq> set (q_jobs (en_queue s'))"
    using f IH by blast+
  have queued: "p_ID p \<in> set (q_jobs (en_queue s')) \<and> get (m_runs (en_store s')) (p_ID p) = Some (run p)"
    if "p_Status p = RunQueued"
    using f that pfin p(1) jobs(2) by (metis subsetD)
  have running: "p_ID p \<in> set (q_jobs (en_queue s')) \<and> get (m_runs (en_store s')) (p_ID p) = Some (recovered (run p))"
    if "p_Status p = RunRunning" "lease_free (p_ID p) now (en_coord s)"
    using f that pfin p jobs(2) by (metis subsetD)
  have rest_running: "p_ID q \<in> set (q_jobs (en_queue s')) \<and> get (m_runs (en_store s')) (p_ID q) = Some (recovered (run q))"
    if "q \<in> set ps" "p_Status q = RunRunning" "lease_free (p_ID q) now (en_coord s)" for q
    using IH that frame(2) [OF other [OF that(1)]] by blast
  have unchanged: "get (m_runs (en_store s')) j = get (m_runs (en_store s)) j" if "j \<notin> p_ID ` set (p # ps)" for j
    using IH frame(1) [of j] that by simp
  show ?case using jobs queued running rest_running unchanged IH by auto
qed simp

lemma pending_runs:
  assumes "keyed r_ID (m_runs m)"
  shows "distinct (map p_ID (ListPendingRuns m))"
    and "p \<in> set (ListPendingRuns m) \<longleftrightarrow>
      (\<exists>r. get (m_runs m) (p_ID p) = Some r \<and> r_Status r = p_Status p \<and> run_active r)"
proof -
  let ?ps = "map (\<lambda>(runID, run). \<lparr> p_ID = runID, p_Status = r_Status run \<rparr>)
      (filter (\<lambda>(_, run). r_Status run = RunQueued \<or> r_Status run = RunRunning) (m_runs m))"
  have kd: "keys_distinct (m_runs m)" using assms by (simp add: keyed_def)
  have ids: "map p_ID ?ps = map fst (filter (\<lambda>(_, run). r_Status run = RunQueued \<or> r_Status run = RunRunning) (m_runs m))"
    by auto
  have "distinct (map p_ID ?ps)" unfolding ids using kd by (simp add: keys_distinct_def distinct_map_filter)
  moreover have "mset (map p_ID (ListPendingRuns m)) = mset (map p_ID ?ps)"
    unfolding ListPendingRuns_def mset_map [of p_ID] mset_sort_by ..
  ultimately show "distinct (map p_ID (ListPendingRuns m))" using mset_eq_imp_distinct_iff by blast
  have "p \<in> set ?ps \<longleftrightarrow> (\<exists>r. (p_ID p, r) \<in> set (m_runs m) \<and> r_Status r = p_Status p \<and> run_active r)"
    by (cases p) (auto simp: run_active_def image_iff)
  then show "p \<in> set (ListPendingRuns m) \<longleftrightarrow>
      (\<exists>r. get (m_runs m) (p_ID p) = Some r \<and> r_Status r = p_Status p \<and> run_active r)"
    using in_set_get [OF kd] get_Some_set unfolding ListPendingRuns_def by auto
qed

text \<open>
  C35: Recovery loses no Run. After a successful recovery at start-up every stored Run that was queued,
  or was left running by a worker whose lease is gone, is queued in the store with its interrupted
  attempt taken back and waits in the queue; Runs that have ended are untouched.
\<close>

theorem recovery_requeues:
  assumes "store_inv (en_store s)" and "Engine_Recover retry now s = (None, s')"
    and "get (m_runs (en_store s)) k = Some r"
  shows "(r_Status r = RunQueued \<longrightarrow> k \<in> set (q_jobs (en_queue s')) \<and> get (m_runs (en_store s')) k = Some r)
    \<and> (r_Status r = RunRunning \<and> lease_free k now (en_coord s) \<longrightarrow>
         k \<in> set (q_jobs (en_queue s')) \<and> (\<exists>r'. get (m_runs (en_store s')) k = Some r' \<and> r_Status r' = RunQueued
           \<and> r_Attempt r' = (if 0 < r_Attempt r then r_Attempt r - 1 else r_Attempt r)))
    \<and> (\<not> run_active r \<longrightarrow> get (m_runs (en_store s')) k = Some r)"
proof -
  have keyed: "keyed r_ID (m_runs (en_store s))" using assms(1) by (simp add: store_inv_def runs_inv_def)
  let ?run = "\<lambda>p. the (get (m_runs (en_store s)) (p_ID p))" and ?ps = "ListPendingRuns (en_store s)"
  note pending = pending_runs [OF keyed]
  have loop: "recover_loop retry now ?ps s = (None, s')" using assms(2) by (simp add: Engine_Recover_def)
  have stored: "get (m_runs (en_store s)) (p_ID p) = Some (?run p) \<and> r_Status (?run p) = p_Status p" if "p \<in> set ?ps" for p
    using pending(2) [of p] that by auto
  note facts = recover_loop_facts [OF loop pending(1) stored]
  let ?p = "\<lparr> p_ID = k, p_Status = r_Status r \<rparr>"
  have member: "?p \<in> set ?ps \<longleftrightarrow> run_active r" using pending(2) [of ?p] assms(3) by simp
  have notin: "k \<notin> p_ID ` set ?ps" if "\<not> run_active r" using pending(2) that assms(3) by auto
  have queued: "k \<in> set (q_jobs (en_queue s')) \<and> get (m_runs (en_store s')) k = Some r" if "r_Status r = RunQueued"
  proof -
    have "?p \<in> set ?ps" using member that by (simp add: run_active_def)
    from bspec [OF conjunct1 [OF conjunct2 [OF conjunct2 [OF facts]]] this] show ?thesis using that assms(3) by simp
  qed
  have running: "k \<in> set (q_jobs (en_queue s')) \<and> get (m_runs (en_store s')) k = Some (recovered r)"
    if "r_Status r = RunRunning" "lease_free k now (en_coord s)"
  proof -
    have "?p \<in> set ?ps" using member that by (simp add: run_active_def)
    from bspec [OF conjunct2 [OF conjunct2 [OF conjunct2 [OF facts]]] this] show ?thesis using that assms(3) by simp
  qed
  have "get (m_runs (en_store s')) k = Some r" if "\<not> run_active r"
    using spec [OF conjunct1 [OF conjunct2 [OF facts]], of k] notin [OF that] assms(3) by simp
  then show ?thesis using queued running by (auto simp: recovered_def)
qed

definition sample_crashed :: Engine where
  "sample_crashed = sample_engine\<lparr>en_store := sample_engine_store\<lparr>m_runs := [(''r1'', sample_started)], m_runFences := [(''r1'', 4)]\<rparr>,
     en_queue := NewQueue 4\<rparr>"

lemma sample_crashed_inv: "store_inv (en_store sample_crashed)"
proof -
  let ?ops = "[OpClaimRunExecution ''r1'' 4, OpUpdateRunFenced sample_started 4]"
  have "en_store sample_crashed = store_execs sample_lib ?ops (en_store sample_engine)" by code_simp
  then show ?thesis using execs_store_inv [OF sample_engine_inv, of sample_lib ?ops] by simp
qed

lemma sample_recovered: "Engine_Recover sample_retry 50 sample_crashed = (None, snd (Engine_Recover sample_retry 50 sample_crashed))"
  by code_simp

theorem recovery_requeues_witness:
  "''r1'' \<in> set (q_jobs (en_queue (snd (Engine_Recover sample_retry 50 sample_crashed))))"
proof -
  have "get (m_runs (en_store sample_crashed)) ''r1'' = Some sample_started" and "r_Status sample_started = RunRunning"
    and "lease_free ''r1'' 50 (en_coord sample_crashed)"
    by (simp_all add: sample_crashed_def sample_engine_store_def sample_started_def lease_free_def sample_engine_def NewCoordinator_def)
  then show ?thesis using recovery_requeues [OF sample_crashed_inv sample_recovered] by blast
qed

section \<open>Concrete executions\<close>

abbreviation sample_drive :: "nat \<Rightarrow> (string \<times> int) list \<times> Engine" where
  "sample_drive n \<equiv> drive sample_lib sample_retry (\<lambda>_. None) 1 (replicate n sample_env) sample_busy"

lemma sample_drive_run: "engine_run sample_lib sample_retry (\<lambda>_. None) sample_engine (fst (sample_drive n)) (snd (sample_drive n))"
  using engine_run_trans [OF drive_run [of sample_lib sample_retry "\<lambda>_. None" 1 "replicate n sample_env" sample_busy] sample_delivered]
  by simp

definition sample_outcome :: Engine where
  "sample_outcome = snd (sample_drive 15)"

definition sample_worker :: Worker where
  "sample_worker = the (get (en_workers sample_outcome) 1)"

lemma sample_outcome_facts:
  "fst (sample_drive 15) = [(''r1'', 1)]
   \<and> get (en_workers sample_outcome) 1 \<noteq> None
   \<and> exit_of (wk_pc sample_worker) = None \<and> wk_runID sample_worker = ''r1''
   \<and> exit_of (wk_pc (fst (execute_step sample_lib sample_retry (\<lambda>_. None) sample_env 1 sample_worker sample_outcome))) = Some ExitNil
   \<and> \<not> wk_canceled sample_worker \<and> \<not> en_ctxDone sample_outcome"
  by code_simp



theorem worker_returns_witness:
  "\<exists>n x. wk_pc (((\<lambda>w. fst (execute_step sample_lib sample_retry (\<lambda>_. None) sample_env 1 w sample_busy)) ^^ n)
     (new_worker ''r1'')) = PcReturned x"
  by (rule worker_returns) auto

theorem acknowledged_settled_witness:
  "\<exists>r. get (m_runs (en_store (snd (execute_step sample_lib sample_retry (\<lambda>_. None) sample_env 1 sample_worker sample_outcome)))) ''r1''
     = Some r \<and> \<not> run_active r"
proof -
  let ?step = "execute_step sample_lib sample_retry (\<lambda>_. None) sample_env 1 sample_worker sample_outcome"
  note facts = sample_outcome_facts
  have w: "get (en_workers sample_outcome) 1 = Some sample_worker" using facts by (auto simp: sample_worker_def)
  have run: "engine_run sample_lib sample_retry (\<lambda>_. None) sample_engine (fst (sample_drive 15)) sample_outcome"
    using sample_drive_run [of 15] unfolding sample_outcome_def .
  have exits: "exit_of (wk_pc sample_worker) = None" "exit_of (wk_pc (fst ?step)) = Some ExitNil"
    and quiet: "\<not> wk_canceled sample_worker" "\<not> en_ctxDone sample_outcome" "wk_runID sample_worker = ''r1''"
    using facts by blast+
  show ?thesis
    using acknowledged_settled [OF sample_engine_inv sample_engine_fences run w exits(1) surjective_pairing exits(2)] quiet
    by simp
qed

section \<open>Corner cases\<close>

text \<open>
  A Run whose worker died during its last attempt is stored as running with its attempts used up.
  Each later delivery is refused with an error and changes nothing, so the Run stays as it is until
  the recovery at the next start of a worker process takes the attempt back.
\<close>

lemma exhausted_attempt_refused:
  assumes "r_Status (wk_run w) = RunRunning" and "1 \<le> r_MaxAttempts (wk_run w)"
    and "r_MaxAttempts (wk_run w) \<le> r_Attempt (wk_run w)"
  shows "attempt_begin v w s = (return (ExitErr (RunTransition (RunAttemptsExhausted (r_MaxAttempts (wk_run w))))) w, s)"
  using assms by (simp add: attempt_begin_def Run_Retry_def)

text \<open>
  The check of the keeper and the check of the context are separate: a lease lost between them, or a
  shutdown, makes \<^verbatim>\<open>execute\<close> return \<^verbatim>\<open>nil\<close>, so that the delivery counts as processed although the
  Run has not ended. The checks after an attempt report the shutdown as an error instead.
\<close>

lemma lost_lease_acknowledged:
  assumes "wk_pc w = PcCtx" and "wk_canceled w \<or> en_ctxDone s"
  shows "execute_step L retry resolve v i w s = (return ExitNil w, s)"
  using assms by (simp add: execute_step_def runCtx_done_def)

end
