(* ===== verification/Workflow_Properties.thy ===== *)
theory Workflow_Properties
  imports Workflow_System Engine_Properties
begin

text \<open>
  What the invariant of the workflow system gives: the properties of the scheduler in every
  interleaving of its tasks with the engine and the API, and evaluated executions of it.
\<close>

section \<open>From a fresh process\<close>

text \<open>A process that has just started: an empty store, no worker and no task.\<close>

definition fresh_manager :: "Manager \<Rightarrow> bool" where
  "fresh_manager s \<longleftrightarrow> mg_store s = NewMemory \<and> en_workers (mg_engine s) = [] \<and> mg_tasks s = []"

lemma fresh_inv: "fresh_manager s \<Longrightarrow> manager_inv n s"
  using store_inv_new
  by (simp add: fresh_manager_def manager_inv_def engine_inv_def workflows_ok_def NewMemory_def get_or_def)

lemma NewManager_concurrency: "mc_concurrency (NewManager c ttl) = max 1 c"
  by (simp add: NewManager_def Let_def)

lemma reachable_inv:
  assumes "fresh_manager s" and "manager_run L (NewManager c ttl) retry resolve s tr s'"
  shows "manager_inv (max 1 c) s'"
  using manager_run_inv [OF assms(2) fresh_inv [OF assms(1)], of "max 1 c"] NewManager_concurrency [of c ttl]
  by simp

lemma reachable_workflow:
  assumes "fresh_manager s" and "manager_run L (NewManager c ttl) retry resolve s tr s'"
    and "get (m_workflows (mg_store s')) k = Some w"
  shows "workflow_ok (max 1 c) (mg_store s') w"
  using manager_invD(2) [OF reachable_inv [OF assms(1,2)]] assms(3) by (simp add: workflows_ok_def)

text \<open>A run of the manager is a run of its engine.\<close>

lemma manager_step_engine:
  assumes "manager_step L cfg retry resolve s l s'"
  shows "mg_engine s' = mg_engine s \<and> l = [] \<or> engine_step L retry resolve (mg_engine s) l (mg_engine s')"
  using assms
proof (induction rule: manager_step.induct)
  case (create now workflow s w m)
  then show ?case
    using engine_step.api [of "mg_engine s" "OpCreateWorkflow now workflow" L retry resolve] by (simp add: state_of_def)
next
  case (work s i t j v t' s')
  then show ?case
    using task_step_engine [OF work(3), where L = L and retry = retry and resolve = resolve and cfg = cfg and j = j and t = t] by simp
next
  case (renew s i t late v t' s')
  then show ?case by (auto simp: renew_tick_def intro: engine_step.leases split: if_splits prod.splits option.splits)
qed simp_all

lemma manager_run_engine:
  "manager_run L cfg retry resolve s tr s' \<Longrightarrow> engine_run L retry resolve (mg_engine s) tr (mg_engine s')"
proof (induction rule: manager_run.induct)
  case (step s tr s1 l s2)
  then show ?case using manager_step_engine [OF step(2)] engine_run.step by fastforce
qed (rule engine_run.stay)

section \<open>Properties\<close>

text \<open>
  C4: The order of a workflow. In every interleaving of schedulers (also of several that believe to own
  the same workflow), cancellations, workers and API calls, every stored workflow respects its
  dependencies: a step has been given a Run, or was skipped, only after every step it depends on has
  succeeded or was skipped; a step counts as succeeded, with its output, only when its stored Run
  succeeded with that output; and a workflow counts as succeeded only when all its steps are
  done.
\<close>

theorem workflow_steps_ordered:
  assumes "fresh_manager s" and "manager_run L (NewManager c ttl) retry resolve s tr s'"
    and "get (m_workflows (mg_store s')) k = Some w" and "step \<in> set (w_Steps w)"
  shows "(s_RunID step \<noteq> '''' \<or> s_Status step = WorkflowStepSkipped \<longrightarrow>
           (\<forall>d \<in> set (s_DependsOn step). \<exists>dep \<in> set (w_Steps w). s_ID dep = d \<and> step_done dep))
       \<and> (s_Status step = WorkflowStepSucceeded \<longrightarrow>
           (\<exists>run. GetRun (s_RunID step) (mg_store s') = Inr run \<and> r_Status run = RunSucceeded \<and> s_Output step = r_Output run))
       \<and> (w_Status w = WorkflowSucceeded \<longrightarrow> step_done step)"
proof -
  have ok: "workflow_ok (max 1 c) (mg_store s') w" by (rule reachable_workflow [OF assms(1-3)])
  have "\<forall>d \<in> set (s_DependsOn step). \<exists>dep \<in> set (w_Steps w). s_ID dep = d \<and> step_done dep"
    if "s_RunID step \<noteq> '''' \<or> s_Status step = WorkflowStepSkipped"
    using ok assms(4) that unfolding workflow_ok_def ordered_def met_def by blast
  moreover have "\<exists>run. GetRun (s_RunID step) (mg_store s') = Inr run \<and> r_Status run = RunSucceeded \<and> s_Output step = r_Output run"
    if "s_Status step = WorkflowStepSucceeded"
  proof -
    have "step_sound (mg_store s') step" using ok assms(4) by (simp add: workflow_ok_def)
    then show ?thesis using that by (auto simp: step_sound_def GetRun_def)
  qed
  moreover have "step_done step" if "w_Status w = WorkflowSucceeded"
    using ok assms(4) that by (simp add: workflow_ok_def statuses_fit_def)
  ultimately show ?thesis by blast
qed

text \<open>
  C33: The limit on parallel steps. In every interleaving no stored workflow has more steps queued or
  running than the configured concurrency (at least one), even while schedulers overlap.
\<close>

theorem workflow_concurrency_bounded:
  assumes "fresh_manager s" and "manager_run L (NewManager c ttl) retry resolve s tr s'"
    and "get (m_workflows (mg_store s')) k = Some w"
  shows "activeStepCount w \<le> max 1 c"
  using reachable_workflow [OF assms] by (simp add: workflow_ok_def)

text \<open>
  C15: Nothing is undone. Whatever happens after a state of the system, a stored workflow keeps its
  definition, every step keeps the Run it was given (so no step is ever started twice), a step that
  is done stays done with its output, and a workflow that has ended is never changed again.
\<close>

theorem workflow_progress_kept:
  assumes "fresh_manager s0" and "manager_run L (NewManager c ttl) retry resolve s0 tr s"
    and "manager_run L (NewManager c ttl) retry resolve s tr' s'" and "get (m_workflows (mg_store s)) k = Some w"
  shows "\<exists>w'. get (m_workflows (mg_store s')) k = Some w' \<and> same_definition w w'
    \<and> (Workflow_IsTerminal w \<longrightarrow> w' = w)
    \<and> (\<forall>i < length (w_Steps w).
         (s_RunID (w_Steps w ! i) \<noteq> '''' \<longrightarrow> s_RunID (w_Steps w' ! i) = s_RunID (w_Steps w ! i))
       \<and> (step_done (w_Steps w ! i) \<longrightarrow> s_Status (w_Steps w' ! i) = s_Status (w_Steps w ! i)
            \<and> s_Output (w_Steps w' ! i) = s_Output (w_Steps w ! i)))"
proof -
  have "workflows_kept (mg_store s) (mg_store s')"
    using manager_run_inv [OF assms(3) reachable_inv [OF assms(1,2)]] NewManager_concurrency by simp
  then obtain w' where "get (m_workflows (mg_store s')) k = Some w'" "progress w w'"
    using assms(4) by (auto simp: workflows_kept_def)
  then show ?thesis
    by (intro exI [of _ w']) (auto simp: progress_def step_progress_def list_all2_conv_all_nth)
qed

text \<open>
  C13: The scheduler never gives up on a workflow. In every reachable state no task is about to fail a
  workflow because no step is ready, an input cannot be resolved or a Run cannot be created; so a
  stored workflow has failed only if one of its steps failed with its Run. And a scheduler that
  plans while no step is active always finds something to do: it records skipped steps or
  creates the Run of a step.
\<close>

theorem workflow_never_stuck:
  assumes "fresh_manager s" and "manager_run L (NewManager c ttl) retry resolve s tr s'"
  shows "(\<forall>i t cause. get (mg_tasks s') i = Some t \<longrightarrow> t_pc t \<noteq> WpFail cause)
    \<and> (\<forall>k w. get (m_workflows (mg_store s')) k = Some w \<and> w_Status w = WorkflowFailed \<longrightarrow>
         (\<exists>step \<in> set (w_Steps w). s_Status step = WorkflowStepFailed
            \<and> (\<exists>run. GetRun (s_RunID step) (mg_store s') = Inr run \<and> r_Status run = RunFailed)))
    \<and> (\<forall>i t v. get (mg_tasks s') i = Some t \<and> t_pc t = WpPlan \<and> activeStepCount (t_candidate t) = 0 \<longrightarrow>
         t_pc (reconcile_plan (NewManager c ttl) v t) = WpUpdate
       \<or> (\<exists>index input parent. t_pc (reconcile_plan (NewManager c ttl) v t) = WpCreate index input parent))"
proof (intro conjI allI impI)
  note inv = reachable_inv [OF assms]
  fix i t cause
  assume "get (mg_tasks s') i = Some t"
  then have "task_ok (max 1 c) (mg_store s') t" by (rule manager_invD(5) [OF inv])
  then show "t_pc t \<noteq> WpFail cause" by (auto simp: task_ok_def)
next
  fix k w
  assume w: "get (m_workflows (mg_store s')) k = Some w \<and> w_Status w = WorkflowFailed"
  then have ok: "workflow_ok (max 1 c) (mg_store s') w" using reachable_workflow [OF assms] by blast
  then obtain step where step: "step \<in> set (w_Steps w)" "s_Status step = WorkflowStepFailed"
    using w by (auto simp: workflow_ok_def statuses_fit_def)
  moreover have "step_sound (mg_store s') step" using ok step(1) by (simp add: workflow_ok_def)
  ultimately show "\<exists>step \<in> set (w_Steps w). s_Status step = WorkflowStepFailed
      \<and> (\<exists>run. GetRun (s_RunID step) (mg_store s') = Inr run \<and> r_Status run = RunFailed)"
    by (auto simp: step_sound_def GetRun_def intro!: bexI [of _ step])
next
  note inv = reachable_inv [OF assms]
  fix i t v
  let ?n = "max 1 c" and ?t = "reconcile_plan (NewManager c ttl) v t"
  assume t: "get (mg_tasks s') i = Some t \<and> t_pc t = WpPlan \<and> activeStepCount (t_candidate t) = 0"
  then have "task_ok ?n (mg_store s') t" using manager_invD(5) [OF inv] by blast
  then have "pc_ok ?n (mg_store s') (t_id t) (t_candidate ?t) (t_pc ?t)"
    using t by (intro plan_good) (auto simp: task_ok_def NewManager_concurrency)
  then show "t_pc ?t = WpUpdate \<or> (\<exists>index input parent. t_pc ?t = WpCreate index input parent)"
    using t applyConditions_same [of "v_now v" "t_candidate t"]
    by (auto simp: reconcile_plan_def Let_def NewManager_concurrency
        split: prod.splits bool.splits option.splits sum.splits if_splits)
qed

text \<open>
  C34: Aggregated inputs can be taken apart again. For a step of a valid workflow that is ready and has
  several sources, the input it is given is a JSON array from which a parser recovers exactly the
  values of the sources, in the order of \<^verbatim>\<open>input_from\<close>, when these are valid UTF-8.
\<close>

theorem aggregated_input_roundtrip:
  assumes "workflow_valid w" and "step \<in> set (w_Steps w)" and "1 < length (s_InputFrom step)"
    and "\<forall>d \<in> set (s_DependsOn step). met (w_Steps w) d"
    and "\<forall>src \<in> set (s_InputFrom step). utf8_valid (source_value w src)"
  shows "\<exists>input parent. resolveInput w step = Inr (input, parent)
    \<and> parse_array input = Some (map (source_value w) (s_InputFrom step))"
proof -
  obtain a b rest where src: "s_InputFrom step = a # b # rest"
    using assms(3) by (cases "s_InputFrom step" rule: json_elements.cases) auto
  obtain parent where "resolveInput w step = Inr (json_Marshal (map (source_value w) (s_InputFrom step)), parent)"
    using resolveInput_ok [OF assms(1,2,4)] by (auto simp: src)
  then show ?thesis using parse_Marshal [of "map (source_value w) (s_InputFrom step)"] assms(5) by auto
qed

section \<open>Concrete runs\<close>

text \<open>Tasks stepped one after the other, each with its environment and the name of a task it may start.\<close>

fun manager_drive :: "ManagerConfig \<Rightarrow> RetryPolicy \<Rightarrow> (nat \<times> nat \<times> Env) list \<Rightarrow> Manager \<Rightarrow> Manager option" where
  "manager_drive cfg retry [] s = Some s"
| "manager_drive cfg retry ((i, j, v) # rest) s =
     (case get (mg_tasks s) i of
        None \<Rightarrow> None
      | Some t \<Rightarrow>
          if get (mg_tasks s) j = None \<and> get (m_runs (mg_store s)) (newID ''run'' (v_random v) (v_now v)) = None then
            (case task_step cfg retry v j t s of
               (t', s') \<Rightarrow> manager_drive cfg retry rest (s'\<lparr>mg_tasks := put i t' (mg_tasks s')\<rparr>))
          else None)"

lemma manager_run_append:
  "manager_run L cfg retry resolve s1 tr' s2 \<Longrightarrow> manager_run L cfg retry resolve s tr s1 \<Longrightarrow>
     manager_run L cfg retry resolve s (tr @ tr') s2"
proof (induction rule: manager_run.induct)
  case (step s1 tr' s2 l s3)
  then show ?case using manager_run.step [of L cfg retry resolve s "tr @ tr'" s2 l s3] by simp
qed simp

lemma manager_run_single: "manager_step L cfg retry resolve s l s' \<Longrightarrow> manager_run L cfg retry resolve s l s'"
  using manager_run.step [OF manager_run.stay] by fastforce

lemma manager_drive_run: "manager_drive cfg retry acts s = Some s' \<Longrightarrow> manager_run L cfg retry resolve s [] s'"
proof (induction acts arbitrary: s)
  case (Cons a acts)
  obtain i j v where a: "a = (i, j, v)" by (cases a)
  obtain t t' s1 where t: "get (mg_tasks s) i = Some t" "get (mg_tasks s) j = None"
      "get (m_runs (mg_store s)) (newID ''run'' (v_random v) (v_now v)) = None" "task_step cfg retry v j t s = (t', s1)"
    and rest: "manager_drive cfg retry acts (s1\<lparr>mg_tasks := put i t' (mg_tasks s1)\<rparr>) = Some s'"
    using Cons.prems a by (auto split: option.splits if_splits prod.splits)
  show ?case
    using manager_run_append [OF Cons.IH [OF rest] manager_run_single [OF manager_step.work [OF t]]] by simp
qed (simp add: manager_run.stay)

definition manager_env :: "nat \<Rightarrow> Env" where
  "manager_env n = sample_env\<lparr>v_random := Some (replicate n (CHR ''x''))\<rparr>"

definition sample_config :: ManagerConfig where
  "sample_config = NewManager 2 30"

definition sample_boot :: Manager where
  "sample_boot = \<lparr> mg_engine = \<lparr> en_store = NewMemory, en_bus = NewBus, en_queue = NewQueue 4,
       en_coord = \<lparr> co_locks = [], co_next = 0 \<rparr>, en_active = [], en_workers = [], en_ctxDone = False \<rparr>,
     mg_active = [], mg_tasks = [], mg_ctxDone = False \<rparr>"

text \<open>
  A workflow of two steps is created and started. Its scheduler skips the first step, whose condition
  does not hold, and gives the second, which depends on it, a Run.
\<close>

definition sample_branch :: Workflow where
  "sample_branch = sample_workflow\<lparr>w_Input := ''no'', w_Steps :=
     [(sample_step ''a'' [] [])\<lparr>s_Condition := Some \<lparr> c_Source = ''workflow'', c_Operator = ''equals'', c_Value = ''yes'' \<rparr>\<rparr>,
      sample_step ''b'' [''a''] []]\<rparr>"

definition sample_agents :: Memory where
  "sample_agents = store_exec sample_lib (OpCreateAgent 5 sample_agent) NewMemory"

definition sample_flows :: Memory where
  "sample_flows = store_exec sample_lib (OpCreateWorkflow 7 sample_branch) sample_agents"

definition sample_called :: Manager where
  "sample_called = (set_store sample_flows sample_boot)
     \<lparr>mg_tasks := [(0, new_task ''w1'' WpStart False)]\<rparr>"

definition sample_acts :: "(nat \<times> nat \<times> Env) list" where
  "sample_acts = map (\<lambda>n. (0, 1, manager_env n)) [0..<5] @ map (\<lambda>n. (1, 2, manager_env n)) [0..<15]"

definition sample_more :: "(nat \<times> nat \<times> Env) list" where
  "sample_more = map (\<lambda>n. (1, 2, manager_env n)) [0..<3]"

definition sample_planning :: Manager where
  "sample_planning = the (manager_drive sample_config sample_retry sample_acts sample_called)"

definition sample_queued :: Manager where
  "sample_queued = the (manager_drive sample_config sample_retry sample_more sample_planning)"

lemma sample_fresh: "fresh_manager sample_boot"
  by (simp add: fresh_manager_def sample_boot_def)

lemma sample_flows_created:
  "CreateWorkflow sample_lib 7 sample_branch sample_agents = Inr (sample_branch, sample_flows)"
  by code_simp

lemma sample_call_run: "manager_run sample_lib sample_config sample_retry resolve sample_boot [] sample_called"
proof -
  let ?s = "set_store sample_agents sample_boot"
  have "api_op (mg_store sample_boot) (OpCreateAgent 5 sample_agent)" by simp
  then have "engine_step sample_lib sample_retry resolve (mg_engine sample_boot) [] (mg_engine ?s)"
    using engine_step.api [of "mg_engine sample_boot" "OpCreateAgent 5 sample_agent" sample_lib]
    by (simp add: sample_agents_def sample_boot_def)
  moreover have "m_workflows (mg_store ?s) = m_workflows (mg_store sample_boot)" by code_simp
  ultimately have "manager_step sample_lib sample_config sample_retry resolve sample_boot [] ?s"
    using manager_step.engine [of sample_lib sample_retry resolve sample_boot "[]" "mg_engine ?s"]
    by (simp add: set_store_def)
  note first = manager_run_single [OF this]
  let ?c = "set_store sample_flows sample_boot"
  have "manager_step sample_lib sample_config sample_retry resolve ?s [] (set_store sample_flows ?s)"
    using sample_flows_created by (intro manager_step.create) (simp add: set_store_def)
  also have "set_store sample_flows ?s = ?c" by (simp add: set_store_def)
  finally have "manager_step sample_lib sample_config sample_retry resolve ?s [] ?c" .
  note second = manager_run_append [OF manager_run_single [OF this] first]
  have "manager_step sample_lib sample_config sample_retry resolve ?c [] sample_called"
    using manager_step.call [of ?c 0 WpStart sample_lib sample_config sample_retry resolve "''w1''"]
    by (simp add: sample_called_def sample_boot_def set_store_def)
  from manager_run_append [OF manager_run_single [OF this] second] show ?thesis by simp
qed

text \<open>What is looked at in a state: the steps of the workflow, and where its scheduler is.\<close>

definition flow_view :: "Manager \<Rightarrow> (string \<times> string list \<times> WorkflowStepStatus \<times> string) list" where
  "flow_view s = (case get (m_workflows (mg_store s)) ''w1'' of
     None \<Rightarrow> []
   | Some w \<Rightarrow> map (\<lambda>step. (s_ID step, s_DependsOn step, s_Status step, s_RunID step)) (w_Steps w))"

definition planning :: "nat \<Rightarrow> Manager \<Rightarrow> bool" where
  "planning i s \<longleftrightarrow> (case get (mg_tasks s) i of
     None \<Rightarrow> False | Some t \<Rightarrow> t_pc t = WpPlan \<and> activeStepCount (t_candidate t) = 0)"

lemma flow_viewD:
  assumes "flow_view s = view" "view \<noteq> []"
  obtains w where "get (m_workflows (mg_store s)) ''w1'' = Some w"
    "map (\<lambda>step. (s_ID step, s_DependsOn step, s_Status step, s_RunID step)) (w_Steps w) = view"
  using assms by (auto simp: flow_view_def split: option.splits)

lemma manager_drive_append:
  "manager_drive cfg retry (xs @ ys) s = (case manager_drive cfg retry xs s of None \<Rightarrow> None | Some s' \<Rightarrow> manager_drive cfg retry ys s')"
  by (induction xs arbitrary: s) (auto split: option.split prod.split)

lemma sample_planning_view:
  "map_option (\<lambda>s. (flow_view s, planning 1 s)) (manager_drive sample_config sample_retry sample_acts sample_called)
     = Some ([(''a'', [], WorkflowStepSkipped, ''''), (''b'', [''a''], WorkflowStepPending, '''')], True)"
  by code_simp

lemma sample_queued_view:
  "map_option flow_view (manager_drive sample_config sample_retry (sample_acts @ sample_more) sample_called)
     = Some [(''a'', [], WorkflowStepSkipped, ''''), (''b'', [''a''], WorkflowStepQueued, ''run_x'')]"
  by code_simp

lemma sample_drives:
  "manager_drive sample_config sample_retry sample_acts sample_called = Some sample_planning"
  "manager_drive sample_config sample_retry sample_more sample_planning = Some sample_queued"
  using sample_planning_view sample_queued_view
  by (auto simp: sample_planning_def sample_queued_def manager_drive_append)

lemma sample_views:
  "flow_view sample_planning = [(''a'', [], WorkflowStepSkipped, ''''), (''b'', [''a''], WorkflowStepPending, '''')]"
  "planning 1 sample_planning"
  "flow_view sample_queued = [(''a'', [], WorkflowStepSkipped, ''''), (''b'', [''a''], WorkflowStepQueued, ''run_x'')]"
  using sample_planning_view sample_queued_view by (simp_all add: manager_drive_append sample_drives)

lemma sample_runs:
  "manager_run sample_lib (NewManager 2 30) sample_retry resolve sample_boot [] sample_planning"
  "manager_run sample_lib (NewManager 2 30) sample_retry resolve sample_planning [] sample_queued"
  "manager_run sample_lib (NewManager 2 30) sample_retry resolve sample_boot [] sample_queued"
proof -
  show plan: "manager_run sample_lib (NewManager 2 30) sample_retry resolve sample_boot [] sample_planning"
    using manager_run_append [OF manager_drive_run [OF sample_drives(1)] sample_call_run] by (simp add: sample_config_def)
  show more: "manager_run sample_lib (NewManager 2 30) sample_retry resolve sample_planning [] sample_queued"
    using manager_drive_run [OF sample_drives(2)] by (simp add: sample_config_def)
  show "manager_run sample_lib (NewManager 2 30) sample_retry resolve sample_boot [] sample_queued"
    using manager_run_append [OF more plan] by simp
qed


text \<open>The second step has its Run, and the theorem gives that the first is done.\<close>

theorem workflow_steps_ordered_witness:
  "\<exists>w step. get (m_workflows (mg_store sample_queued)) ''w1'' = Some w \<and> step \<in> set (w_Steps w)
     \<and> s_RunID step = ''run_x'' \<and> s_DependsOn step = [''a'']
     \<and> (\<exists>dep \<in> set (w_Steps w). s_ID dep = ''a'' \<and> step_done dep)"
proof -
  obtain w where w: "get (m_workflows (mg_store sample_queued)) ''w1'' = Some w"
      "map (\<lambda>step. (s_ID step, s_DependsOn step, s_Status step, s_RunID step)) (w_Steps w)
       = [(''a'', [], WorkflowStepSkipped, ''''), (''b'', [''a''], WorkflowStepQueued, ''run_x'')]"
    using flow_viewD [OF sample_views(3)] by blast
  then have "\<exists>step \<in> set (w_Steps w). s_RunID step = ''run_x'' \<and> s_DependsOn step = [''a'']" by auto
  then obtain step where step: "step \<in> set (w_Steps w)" "s_RunID step = ''run_x''" "s_DependsOn step = [''a'']" by blast
  from workflow_steps_ordered [OF sample_fresh sample_runs(3) w(1) step(1)] step
  have "\<exists>dep \<in> set (w_Steps w). s_ID dep = ''a'' \<and> step_done dep" by simp
  with w(1) step show ?thesis by blast
qed

theorem workflow_concurrency_bounded_witness:
  "\<exists>w. get (m_workflows (mg_store sample_queued)) ''w1'' = Some w \<and> activeStepCount w \<le> 2"
proof -
  obtain w where w: "get (m_workflows (mg_store sample_queued)) ''w1'' = Some w"
    using flow_viewD [OF sample_views(3)] by blast
  from workflow_concurrency_bounded [OF sample_fresh sample_runs(3) w] w show ?thesis by simp
qed

text \<open>The first step is skipped while the second has no Run yet, and is still skipped once it has.\<close>

theorem workflow_progress_kept_witness:
  "\<exists>w w'. get (m_workflows (mg_store sample_planning)) ''w1'' = Some w \<and> get (m_workflows (mg_store sample_queued)) ''w1'' = Some w'
     \<and> same_definition w w' \<and> s_Status (w_Steps w ! 0) = WorkflowStepSkipped \<and> s_Status (w_Steps w' ! 0) = WorkflowStepSkipped"
proof -
  obtain w where w: "get (m_workflows (mg_store sample_planning)) ''w1'' = Some w"
      "map (\<lambda>step. (s_ID step, s_DependsOn step, s_Status step, s_RunID step)) (w_Steps w)
       = [(''a'', [], WorkflowStepSkipped, ''''), (''b'', [''a''], WorkflowStepPending, '''')]"
    using flow_viewD [OF sample_views(1)] by blast
  then have "s_Status (w_Steps w ! 0) = WorkflowStepSkipped" "0 < length (w_Steps w)" by auto
  moreover from this have "step_done (w_Steps w ! 0)" by (simp add: step_done_def)
  moreover note workflow_progress_kept [OF sample_fresh sample_runs(1,2) w(1)]
  ultimately show ?thesis using w(1) by metis
qed

text \<open>The scheduler is planning, with no step active.\<close>

theorem workflow_never_stuck_witness:
  "\<exists>t. get (mg_tasks sample_planning) 1 = Some t
     \<and> (t_pc (reconcile_plan (NewManager 2 30) (manager_env 0) t) = WpUpdate
      \<or> (\<exists>index input parent. t_pc (reconcile_plan (NewManager 2 30) (manager_env 0) t) = WpCreate index input parent))"
proof -
  obtain t where "get (mg_tasks sample_planning) 1 = Some t" "t_pc t = WpPlan" "activeStepCount (t_candidate t) = 0"
    using sample_views(2) by (auto simp: planning_def split: option.splits)
  with workflow_never_stuck [OF sample_fresh sample_runs(1)] show ?thesis by blast
qed

text \<open>The diamond when both its arms are done: the last step gets their outputs, one with a quote and one with a line break.\<close>

definition sample_joining :: Workflow where
  "sample_joining = sample_workflow\<lparr>w_Status := WorkflowRunning, w_Steps := map (\<lambda>step.
     if s_ID step = ''join'' then step
     else step\<lparr>s_Status := WorkflowStepSucceeded, s_RunID := ''run_'' @ s_ID step,
       s_Output := (if s_ID step = ''l'' then [CHR 0x22, CHR ''x''] else [CHR ''y'', CHR 0x0A])\<rparr>) sample_diamond\<rparr>"

definition sample_join :: WorkflowStep where
  "sample_join = sample_step ''join'' [''l'', ''r''] [''l'', ''r'']"

lemma sample_joining_ready:
  "same_definition sample_workflow sample_joining"
  "sample_join \<in> set (w_Steps sample_joining)" "1 < length (s_InputFrom sample_join)"
  "\<forall>d \<in> set (s_DependsOn sample_join). met (w_Steps sample_joining) d"
  "\<forall>src \<in> set (s_InputFrom sample_join). utf8_valid (source_value sample_joining src)"
  by code_simp+

theorem aggregated_input_roundtrip_witness:
  "\<exists>input parent. resolveInput sample_joining sample_join = Inr (input, parent)
     \<and> parse_array input = Some [[CHR 0x22, CHR ''x''], [CHR ''y'', CHR 0x0A]]"
proof -
  have "workflow_valid sample_joining"
    using same_definition_valid [OF sample_joining_ready(1)] accepted_valid [OF sample_workflow_accepted] by simp
  from aggregated_input_roundtrip [OF this sample_joining_ready(2-5)]
  have "\<exists>input parent. resolveInput sample_joining sample_join = Inr (input, parent)
     \<and> parse_array input = Some (map (source_value sample_joining) (s_InputFrom sample_join))" .
  moreover have "map (source_value sample_joining) (s_InputFrom sample_join) = [[CHR 0x22, CHR ''x''], [CHR ''y'', CHR 0x0A]]"
    by code_simp
  ultimately show ?thesis by simp
qed

end
