(* ===== verification/Protocol.thy ===== *)
theory Protocol
  imports Json_Strings
begin

text \<open>
  \<^verbatim>\<open>internal/protocol/version.go\<close> and \<^verbatim>\<open>internal/protocol/v1/types.go\<close>: the messages exchanged with
  remote Agents, their validation, and the bytes of a request. Error values keep what callers
  distinguish; their texts are left out.
\<close>

section \<open>Versions\<close>

definition Version1 :: string where "Version1 = ''1''"
definition HeaderVersion :: string where "HeaderVersion = ''Agent-Protocol-Version''"
definition HeaderEffectIdempotency :: string where "HeaderEffectIdempotency = ''Agent-Effect-Idempotency-Key''"
definition CodeUnsupportedVersion :: string where "CodeUnsupportedVersion = ''unsupported_protocol_version''"
definition CodeEffectIdempotency :: string where "CodeEffectIdempotency = ''effect_idempotency_not_acknowledged''"

definition supportedVersions :: "string list" where
  "supportedVersions = [Version1]"

datatype message_error =
    UnsupportedVersionError string "string list"
  | RunIDRequired
  | AgentIDRequired
  | AttemptTooSmall
  | IdempotencyKeyRequired
  | SucceededWithError
  | FailedWithoutError
  | FailedWithOutput
  | UnsupportedStatus string
  | ErrorCodeRequired
  | ErrorMessageRequired

definition ValidateVersion :: "string \<Rightarrow> message_error option" where
  "ValidateVersion version =
     (if version \<in> set supportedVersions then None else Some (UnsupportedVersionError version supportedVersions))"

section \<open>Requests\<close>

record RunRequest =
  rq_ProtocolVersion :: string
  rq_RunID :: string
  rq_AgentID :: string
  rq_Attempt :: int
  rq_IdempotencyKey :: string
  rq_EffectIdempotencyKey :: string
  rq_Input :: string

definition RunRequest_Validate :: "RunRequest \<Rightarrow> message_error option" where
  "RunRequest_Validate r =
     (case ValidateVersion (rq_ProtocolVersion r) of
        Some e \<Rightarrow> Some e
      | None \<Rightarrow>
          if TrimSpace (rq_RunID r) = '''' then Some RunIDRequired
          else if TrimSpace (rq_AgentID r) = '''' then Some AgentIDRequired
          else if rq_Attempt r < 1 then Some AttemptTooSmall
          else if TrimSpace (rq_IdempotencyKey r) = '''' then Some IdempotencyKeyRequired
          else None)"

definition AttemptIdempotencyKey :: "string \<Rightarrow> int \<Rightarrow> string" where
  "AttemptIdempotencyKey runID attempt = runID @ '':'' @ Itoa attempt"

definition EffectIdempotencyKey :: "string \<Rightarrow> string" where
  "EffectIdempotencyKey runID = runID"

text \<open>\<^verbatim>\<open>json.Marshal\<close> of a request; the effect key is omitted when it is empty.\<close>

definition json_field :: "string \<Rightarrow> string \<Rightarrow> string" where
  "json_field name encoded = json_string name @ '':'' @ encoded"

fun json_fields :: "string list \<Rightarrow> string" where
  "json_fields [] = ''''"
| "json_fields [f] = f"
| "json_fields (f # rest) = f @ '','' @ json_fields rest"

definition RunRequest_Marshal :: "RunRequest \<Rightarrow> string" where
  "RunRequest_Marshal r =
     ''{'' @ json_fields (
       [json_field ''protocol_version'' (json_string (rq_ProtocolVersion r)),
        json_field ''run_id'' (json_string (rq_RunID r)),
        json_field ''agent_id'' (json_string (rq_AgentID r)),
        json_field ''attempt'' (Itoa (rq_Attempt r)),
        json_field ''idempotency_key'' (json_string (rq_IdempotencyKey r))]
       @ (if rq_EffectIdempotencyKey r = '''' then []
          else [json_field ''effect_idempotency_key'' (json_string (rq_EffectIdempotencyKey r))])
       @ [json_field ''input'' (json_string (rq_Input r))]) @ ''}''"

section \<open>Responses\<close>

definition StatusSucceeded :: string where "StatusSucceeded = ''succeeded''"
definition StatusFailed :: string where "StatusFailed = ''failed''"

record RunError =
  er_Code :: string
  er_Message :: string
  er_Retryable :: bool

definition RunError_Validate :: "RunError \<Rightarrow> message_error option" where
  "RunError_Validate e =
     (if TrimSpace (er_Code e) = '''' then Some ErrorCodeRequired
      else if TrimSpace (er_Message e) = '''' then Some ErrorMessageRequired
      else None)"

record RunResponse =
  rs_ProtocolVersion :: string
  rs_RunID :: string
  rs_Status :: string
  rs_Output :: string
  rs_Error :: "RunError option"
  rs_EffectIdempotencyKey :: string

definition RunResponse_Validate :: "RunResponse \<Rightarrow> message_error option" where
  "RunResponse_Validate r =
     (case ValidateVersion (rs_ProtocolVersion r) of
        Some e \<Rightarrow> Some e
      | None \<Rightarrow>
          if TrimSpace (rs_RunID r) = '''' then Some RunIDRequired
          else if rs_Status r = StatusSucceeded then
            (if rs_Error r \<noteq> None then Some SucceededWithError else None)
          else if rs_Status r = StatusFailed then
            (case rs_Error r of
               None \<Rightarrow> Some FailedWithoutError
             | Some e \<Rightarrow> if rs_Output r \<noteq> '''' then Some FailedWithOutput else RunError_Validate e)
          else Some (UnsupportedStatus (rs_Status r)))"

fun join_with :: "string \<Rightarrow> string list \<Rightarrow> string" where
  "join_with sep [] = ''''"
| "join_with sep [s] = s"
| "join_with sep (s # rest) = s @ sep @ join_with sep rest"

definition UnsupportedVersionResponse :: "string \<Rightarrow> RunResponse" where
  "UnsupportedVersionResponse runID =
     \<lparr> rs_ProtocolVersion = Version1, rs_RunID = runID, rs_Status = StatusFailed, rs_Output = '''',
       rs_Error = Some \<lparr> er_Code = CodeUnsupportedVersion,
         er_Message = ''unsupported protocol version; supported versions: '' @ join_with '', '' supportedVersions,
         er_Retryable = False \<rparr>,
       rs_EffectIdempotencyKey = '''' \<rparr>"

section \<open>Lemmas\<close>

lemma RunResponse_valid_cases:
  assumes "RunResponse_Validate r = None"
  shows "rs_ProtocolVersion r = Version1"
    and "(rs_Status r = StatusSucceeded \<and> rs_Error r = None)
       \<or> (rs_Status r = StatusFailed \<and> rs_Output r = '''' \<and> (\<exists>e. rs_Error r = Some e \<and> RunError_Validate e = None))"
  using assms
  by (auto simp: RunResponse_Validate_def ValidateVersion_def supportedVersions_def split: option.splits if_splits)

text \<open>The answer an Agent gives to a version it does not know is itself a valid message.\<close>

lemma UnsupportedVersionResponse_valid:
  assumes "TrimSpace runID \<noteq> ''''"
  shows "RunResponse_Validate (UnsupportedVersionResponse runID) = None"
proof -
  have "ValidateVersion Version1 = None" by code_simp
  moreover have "RunError_Validate (the (rs_Error (UnsupportedVersionResponse []))) = None" by code_simp
  moreover have "StatusFailed \<noteq> StatusSucceeded" by code_simp
  ultimately show ?thesis using assms by (simp add: RunResponse_Validate_def UnsupportedVersionResponse_def)
qed

text \<open>Attempts of Runs have keys of their own: the attempt is what follows the last colon.\<close>

lemma AttemptIdempotencyKey_inj:
  assumes "0 \<le> attempt" and "0 \<le> attempt'"
  shows "AttemptIdempotencyKey runID attempt = AttemptIdempotencyKey runID' attempt' \<longleftrightarrow> runID = runID' \<and> attempt = attempt'"
proof -
  have colon: "CHR '':'' \<notin> set (Itoa a)" if "0 \<le> a" for a
    using that nat_digits_numeric [of "CHR '':''" "nat a"] by (auto simp: Itoa_def numeric_def char_between)
  have split: "xs = xs' \<and> ys = ys'" if "xs @ CHR '':'' # ys = xs' @ CHR '':'' # ys'" "CHR '':'' \<notin> set ys" "CHR '':'' \<notin> set ys'"
    for xs xs' ys ys' :: string
  proof -
    have "rev ys @ CHR '':'' # rev xs = rev ys' @ CHR '':'' # rev xs'" using that(1) by (metis rev_append rev.simps(2) append.assoc append_Cons append_Nil)
    then have "takeWhile (\<lambda>c. c \<noteq> CHR '':'') (rev ys @ CHR '':'' # rev xs) = takeWhile (\<lambda>c. c \<noteq> CHR '':'') (rev ys' @ CHR '':'' # rev xs')"
      by (rule arg_cong)
    moreover have "takeWhile (\<lambda>c. c \<noteq> CHR '':'') (rev zs @ CHR '':'' # t) = rev zs" if "CHR '':'' \<notin> set zs" for zs t :: string
      using that by (subst takeWhile_append2) auto
    ultimately have "rev ys = rev ys'" using that(2,3) by simp
    then show ?thesis using that(1) by simp
  qed
  show ?thesis
    using split [of runID "Itoa attempt" runID' "Itoa attempt'"] colon [OF assms(1)] colon [OF assms(2)]
    by (auto simp: AttemptIdempotencyKey_def Itoa_inj)
qed

end
