(* ===== verification/Runtime_Auth.thy ===== *)
theory Runtime_Auth
  imports Domain_Agent
begin

text \<open>
  \<^verbatim>\<open>internal/runtime/auth.go\<close>: credentials for outbound requests to Agents, providers and tool servers.
  The configuration holds references to secrets; the secret itself is read again for every request.
  The environment, the file system and the decoded configuration are arguments.
\<close>

section \<open>Header fields\<close>

definition token_char :: "char \<Rightarrow> bool" where
  "token_char c \<longleftrightarrow> lower_alpha c \<or> upper_alpha c \<or> numeric c \<or>
     c \<in> set [CHR ''!'', CHR ''#'', CHR ''$'', CHR ''%'', CHR ''&'', CHR 0x27, CHR ''*'', CHR ''+'', CHR ''-'', CHR ''.'',
              CHR ''^'', CHR ''_'', CHR 0x60, CHR ''|'', CHR ''~'']"

definition upper_char :: "char \<Rightarrow> char" where
  "upper_char c = (if lower_alpha c then char_of (of_char c - 32 :: nat) else c)"

fun canonical_loop :: "bool \<Rightarrow> string \<Rightarrow> string" where
  "canonical_loop upper [] = []"
| "canonical_loop upper (c # rest) = (if upper then upper_char c else lower_char c) # canonical_loop (c = CHR ''-'') rest"

text \<open>\<^verbatim>\<open>http.CanonicalHeaderKey\<close> and \<^verbatim>\<open>Header.Set\<close>.\<close>

definition CanonicalHeaderKey :: "string \<Rightarrow> string" where
  "CanonicalHeaderKey name = (if list_all token_char name then canonical_loop True name else name)"

definition header_set :: "string \<Rightarrow> string \<Rightarrow> (string, string) gomap \<Rightarrow> (string, string) gomap" where
  "header_set name value headers = put (CanonicalHeaderKey name) value headers"

definition header_get :: "(string, string) gomap \<Rightarrow> string \<Rightarrow> string" where
  "header_get headers name = get_or '''' headers (CanonicalHeaderKey name)"

section \<open>Secrets\<close>

definition AuthBearer :: string where "AuthBearer = ''bearer''"
definition AuthAPIKey :: string where "AuthAPIKey = ''api_key''"

record authReference =
  ar_Type :: string
  ar_SecretEnv :: string
  ar_SecretFile :: string
  ar_Header :: string

record agentCredential =
  ac_scheme :: string
  ac_header :: string
  ac_reference :: string

datatype agent_auth_error =
    ProviderRequired
  | InvalidReferences
  | BlankAgentID
  | SecretSourceCount string
  | SecretFileNotAbsolute string
  | SecretUnavailable string
  | SecretInvalid string
  | BearerCustomHeader
  | InvalidKeyHeader string
  | UnsupportedScheme string

definition validSecret :: "string \<Rightarrow> string option" where
  "validSecret secret = (if secret = '''' \<or> ContainsAny secret [CHR 0x0D, CHR 0x0A] then None else Some secret)"

definition maxSecretFileBytes :: nat where
  "maxSecretFileBytes = 64 * 1024"

definition TrimRight :: "string \<Rightarrow> string \<Rightarrow> string" where
  "TrimRight s cutset = rev (dropWhile (\<lambda>c. c \<in> set cutset) (rev s))"

text \<open>
  The provider for \<^verbatim>\<open>env:\<close> and \<^verbatim>\<open>file:\<close> references, in a context that is done or not; a file that
  cannot be read is \<^const>\<open>None\<close>.
\<close>

definition EnvironmentFileSecret ::
  "(string \<Rightarrow> string option) option \<Rightarrow> (string \<Rightarrow> string option) \<Rightarrow> bool \<Rightarrow> string \<Rightarrow> string option" where
  "EnvironmentFileSecret lookup read_file ctxDone reference =
     (if ctxDone then None
      else if HasPrefix reference ''env:'' then
        (case lookup of
           None \<Rightarrow> None
         | Some lookup \<Rightarrow> (case lookup (TrimPrefix reference ''env:'') of None \<Rightarrow> None | Some secret \<Rightarrow> validSecret secret))
      else if HasPrefix reference ''file:'' then
        (let path = TrimPrefix reference ''file:'' in
         if \<not> HasPrefix path ''/'' then None
         else case read_file path of
           None \<Rightarrow> None
         | Some content \<Rightarrow>
             let payload = take (maxSecretFileBytes + 1) content in
             if maxSecretFileBytes < length payload then None
             else validSecret (TrimRight payload [CHR 0x0D, CHR 0x0A]))
      else None)"

section \<open>Configuration\<close>

definition reserved_headers :: "string list" where
  "reserved_headers = [''authorization'', ''host'', ''content-length'', ''content-type'', ''accept'', ''accept-encoding'',
     ''idempotency-key'', ''connection'', ''transfer-encoding'']"

definition safeCredentialHeader :: "golib \<Rightarrow> string \<Rightarrow> bool" where
  "safeCredentialHeader L name \<longleftrightarrow> name \<noteq> '''' \<and> list_all token_char name \<and> lower L name \<notin> set reserved_headers"

definition read_credential ::
  "golib \<Rightarrow> (string \<Rightarrow> string) \<Rightarrow> (string \<Rightarrow> string option) \<Rightarrow> string \<Rightarrow> authReference \<Rightarrow> agent_auth_error + agentCredential" where
  "read_credential L clean provider agentID ref =
     (let secretEnv = TrimSpace (ar_SecretEnv ref); secretFile = TrimSpace (ar_SecretFile ref) in
      if agentID = '''' then Inl BlankAgentID
      else if (secretEnv = '''') = (secretFile = '''') then Inl (SecretSourceCount agentID)
      else if secretFile \<noteq> '''' \<and> \<not> HasPrefix secretFile ''/'' then Inl (SecretFileNotAbsolute agentID)
      else let referenceKey = (if secretFile \<noteq> '''' then ''file:'' @ clean secretFile else ''env:'' @ secretEnv) in
        case provider referenceKey of
          None \<Rightarrow> Inl (SecretUnavailable agentID)
        | Some initialSecret \<Rightarrow>
            if validSecret initialSecret = None then Inl (SecretInvalid agentID)
            else if ar_Type ref = AuthBearer then
              (if ar_Header ref \<noteq> '''' then Inl BearerCustomHeader
               else Inr \<lparr> ac_scheme = AuthBearer, ac_header = ''Authorization'', ac_reference = referenceKey \<rparr>)
            else if ar_Type ref = AuthAPIKey then
              (let name = TrimSpace (ar_Header ref); name = (if name = '''' then ''X-API-Key'' else name) in
               if \<not> safeCredentialHeader L name then Inl (InvalidKeyHeader agentID)
               else Inr \<lparr> ac_scheme = AuthAPIKey, ac_header = name, ac_reference = referenceKey \<rparr>)
            else Inl (UnsupportedScheme agentID))"

fun read_credentials ::
  "golib \<Rightarrow> (string \<Rightarrow> string) \<Rightarrow> (string \<Rightarrow> string option) \<Rightarrow> (string, agentCredential) gomap \<Rightarrow> (string \<times> authReference) list
     \<Rightarrow> agent_auth_error + (string, agentCredential) gomap" where
  "read_credentials L clean provider credentials [] = Inr credentials"
| "read_credentials L clean provider credentials ((raw, ref) # rest) =
     (let agentID = TrimSpace raw in
      case read_credential L clean provider agentID ref of
        Inl e \<Rightarrow> Inl e
      | Inr resolved \<Rightarrow> read_credentials L clean provider (put agentID resolved credentials) rest)"

definition NewReloadingAuthenticator ::
  "golib \<Rightarrow> (string \<Rightarrow> string) \<Rightarrow> (string \<Rightarrow> (string \<times> authReference) list option) \<Rightarrow> string \<Rightarrow> (string \<Rightarrow> string option) option
     \<Rightarrow> agent_auth_error + (string, agentCredential) gomap" where
  "NewReloadingAuthenticator L clean decode raw provider =
     (if TrimSpace raw = '''' then Inr []
      else case provider of
        None \<Rightarrow> Inl ProviderRequired
      | Some provider \<Rightarrow>
          (case decode raw of
             None \<Rightarrow> Inl InvalidReferences
           | Some references \<Rightarrow> read_credentials L clean provider [] references))"

section \<open>Authentication of a request\<close>

definition Authenticate ::
  "(string, agentCredential) gomap \<Rightarrow> (string \<Rightarrow> string option) \<Rightarrow> string \<Rightarrow> (string, string) gomap
     \<Rightarrow> agent_auth_error + (string, string) gomap" where
  "Authenticate credentials provider agentID headers =
     (case get credentials agentID of
        None \<Rightarrow> Inr headers
      | Some credential \<Rightarrow>
          (case provider (ac_reference credential) of
             None \<Rightarrow> Inl (SecretUnavailable agentID)
           | Some value \<Rightarrow>
               (case validSecret value of
                  None \<Rightarrow> Inl (SecretInvalid agentID)
                | Some value \<Rightarrow>
                    Inr (header_set (ac_header credential)
                      (if ac_scheme credential = AuthBearer then ''Bearer '' @ value else value) headers))))"

section \<open>Lemmas\<close>

lemma token_ascii: "token_char c \<Longrightarrow> is_ascii c"
  by (auto simp: token_char_def lower_alpha_def upper_alpha_def numeric_def is_ascii_def char_between)

lemma lower_upper_char: "lower_char (upper_char c) = lower_char c"
proof (cases "lower_alpha c")
  case True
  then have "97 \<le> (of_char c :: nat)" "(of_char c :: nat) \<le> 122" by (auto simp: lower_alpha_def char_between)
  then show ?thesis by (auto simp: upper_char_def lower_char_def True char_between of_char_mod_256)
qed (simp add: upper_char_def)

lemma lower_canonical: "map lower_char (CanonicalHeaderKey name) = map lower_char name"
proof -
  have "map lower_char (canonical_loop upper name) = map lower_char name" for upper
    by (induction name arbitrary: upper) (auto simp: lower_upper_char)
  then show ?thesis by (simp add: CanonicalHeaderKey_def)
qed

definition credential_ok :: "golib \<Rightarrow> agentCredential \<Rightarrow> bool" where
  "credential_ok L c \<longleftrightarrow>
     (ac_scheme c = AuthBearer \<and> ac_header c = ''Authorization'') \<or> (ac_scheme c = AuthAPIKey \<and> safeCredentialHeader L (ac_header c))"

lemma read_credential_ok: "read_credential L clean provider agentID ref = Inr c \<Longrightarrow> credential_ok L c"
  by (auto simp: read_credential_def credential_ok_def Let_def split: if_splits option.splits)

lemma read_credentials_ok:
  assumes "read_credentials L clean provider creds refs = Inr creds'" and "\<forall>k c. get creds k = Some c \<longrightarrow> credential_ok L c"
  shows "\<forall>k c. get creds' k = Some c \<longrightarrow> credential_ok L c"
  using assms
proof (induction refs arbitrary: creds)
  case (Cons entry rest)
  obtain raw ref where entry: "entry = (raw, ref)" by (cases entry)
  obtain c where c: "read_credential L clean provider (TrimSpace raw) ref = Inr c"
      "read_credentials L clean provider (put (TrimSpace raw) c creds) rest = Inr creds'"
    using Cons.prems(1) entry by (auto simp: Let_def split: sum.splits)
  have "\<forall>k c'. get (put (TrimSpace raw) c creds) k = Some c' \<longrightarrow> credential_ok L c'"
    using read_credential_ok [OF c(1)] Cons.prems(2) by simp
  then show ?case by (rule Cons.IH [OF c(2)])
qed simp

lemma NewReloadingAuthenticator_ok:
  assumes "NewReloadingAuthenticator L clean decode raw provider = Inr credentials" and "get credentials k = Some c"
  shows "credential_ok L c"
proof -
  obtain provider refs where "read_credentials L clean provider [] refs = Inr credentials"
    using assms by (auto simp: NewReloadingAuthenticator_def split: if_splits option.splits)
  from read_credentials_ok [OF this] assms(2) show ?thesis by simp
qed

text \<open>A credential never lands in a field the client itself sets.\<close>

lemma credential_not_reserved:
  assumes "credential_ok L c" and "name \<in> set reserved_headers" and "name \<noteq> ''authorization''"
  shows "CanonicalHeaderKey (ac_header c) \<noteq> CanonicalHeaderKey name"
proof
  assume "CanonicalHeaderKey (ac_header c) = CanonicalHeaderKey name"
  then have eq: "map lower_char (ac_header c) = map lower_char name" by (metis lower_canonical)
  have plain: "map lower_char name = name" using assms(2) unfolding reserved_headers_def by (auto simp: lower_char_def)
  from assms(1) show False unfolding credential_ok_def
  proof
    assume "ac_scheme c = AuthBearer \<and> ac_header c = ''Authorization''"
    moreover have "map lower_char ''Authorization'' = ''authorization''" by code_simp
    ultimately have "map lower_char (ac_header c) = ''authorization''" by simp
    then show False using eq plain assms(3) by simp
  next
    assume "ac_scheme c = AuthAPIKey \<and> safeCredentialHeader L (ac_header c)"
    then have tokens: "list_all token_char (ac_header c)" and safe: "lower L (ac_header c) \<notin> set reserved_headers"
      by (auto simp: safeCredentialHeader_def)
    then have "lower L (ac_header c) = map lower_char (ac_header c)"
      using token_ascii by (auto simp: ToLower_def list_all_iff)
    then show False using safe eq plain assms(2) by simp
  qed
qed

lemma Authenticate_cases:
  assumes "Authenticate credentials current agentID headers = Inr headers'"
  obtains "get credentials agentID = None" "headers' = headers"
  | c secret where "get credentials agentID = Some c" "current (ac_reference c) = Some secret" "validSecret secret = Some secret"
      "headers' = header_set (ac_header c) (if ac_scheme c = AuthBearer then ''Bearer '' @ secret else secret) headers"
  using assms by (auto simp: Authenticate_def validSecret_def split: option.splits if_splits)

lemma Authenticate_reserved:
  assumes "NewReloadingAuthenticator L clean decode raw provider = Inr credentials"
    and "Authenticate credentials current agentID headers = Inr headers'"
    and "name \<in> set reserved_headers" and "name \<noteq> ''authorization''"
  shows "header_get headers' name = header_get headers name"
  using assms(2)
proof (cases rule: Authenticate_cases)
  case (2 c secret)
  then show ?thesis
    using credential_not_reserved [OF NewReloadingAuthenticator_ok [OF assms(1) 2(1)] assms(3,4)]
    by (auto simp: header_set_def header_get_def get_or_put)
qed simp

section \<open>Properties\<close>


definition sample_agent_references :: "(string \<times> authReference) list" where
  "sample_agent_references = [(''a'', \<lparr> ar_Type = ''api_key'', ar_SecretEnv = ''KEY'', ar_SecretFile = '''', ar_Header = '' X-Token '' \<rparr>)]"

definition sample_agent_credentials :: "(string, agentCredential) gomap" where
  "sample_agent_credentials = [(''a'', \<lparr> ac_scheme = ''api_key'', ac_header = ''X-Token'', ac_reference = ''env:KEY'' \<rparr>)]"

lemma sample_agent_authenticator:
  "NewReloadingAuthenticator sample_lib id (\<lambda>_. Some sample_agent_references) ''{}''
     (Some (EnvironmentFileSecret (Some (\<lambda>_. Some ''old'')) (\<lambda>_. None) False)) = Inr sample_agent_credentials"
  by code_simp

lemma sample_agent_request:
  "Authenticate sample_agent_credentials (EnvironmentFileSecret (Some (\<lambda>_. Some ''new'')) (\<lambda>_. None) False) ''a''
     [(''Content-Type'', ''application/json'')] = Inr [(''Content-Type'', ''application/json''), (''X-Token'', ''new'')]"
  by code_simp


end
