(* ===== verification/Runtime_Http.thy ===== *)
theory Runtime_Http
  imports Protocol Net_Policy Runtime_Auth
begin

text \<open>
  \<^verbatim>\<open>internal/runtime\<close>: the registry of runtimes (\<^verbatim>\<open>resolver.go\<close>, \<^verbatim>\<open>runtime.go\<close>) and the HTTP runtime
  (\<^verbatim>\<open>http.go\<close>), which executes an attempt of a Run on a remote Agent. What the HTTP client returns for a
  request, and what the JSON decoder makes of a body, are arguments. Error values keep their kind,
  code, status and cause; their texts are left out.
\<close>

section \<open>The registry\<close>

definition DemoRuntime :: string where "DemoRuntime = ''demo''"

datatype registry_error = RuntimeNameRequired | ImplementationRequired string | ErrUnknownRuntime string

definition NewRuntimeRegistry :: "'rt option \<Rightarrow> (string, 'rt) gomap" where
  "NewRuntimeRegistry demo = (case demo of None \<Rightarrow> [] | Some d \<Rightarrow> put DemoRuntime d [])"

definition normalizeRuntimeName :: "golib \<Rightarrow> string \<Rightarrow> string" where
  "normalizeRuntimeName L name = lower_trim L name"

definition Runtime_Register :: "golib \<Rightarrow> string \<Rightarrow> 'rt option \<Rightarrow> (string, 'rt) gomap \<Rightarrow> registry_error + (string, 'rt) gomap" where
  "Runtime_Register L name implementation runtimes =
     (let name = normalizeRuntimeName L name in
      if name = '''' then Inl RuntimeNameRequired
      else case implementation of
        None \<Rightarrow> Inl (ImplementationRequired name)
      | Some i \<Rightarrow> Inr (put name i runtimes))"

definition Runtime_Resolve :: "golib \<Rightarrow> Agent \<Rightarrow> (string, 'rt) gomap \<Rightarrow> registry_error + 'rt" where
  "Runtime_Resolve L agent runtimes =
     (let name = normalizeRuntimeName L (a_Runtime agent); name = (if name = '''' then DemoRuntime else name) in
      case get runtimes name of
        None \<Rightarrow> Inl (ErrUnknownRuntime name)
      | Some i \<Rightarrow> Inr i)"

lemma Resolve_registered:
  assumes "Runtime_Register L name (Some i) runtimes = Inr runtimes'"
  shows "Runtime_Resolve L (agent\<lparr>a_Runtime := name\<rparr>) runtimes' = Inr i"
    "normalizeRuntimeName L (a_Runtime other) \<notin> {'''', normalizeRuntimeName L name} \<Longrightarrow>
       Runtime_Resolve L other runtimes' = Runtime_Resolve L other runtimes"
  using assms by (auto simp: Runtime_Register_def Runtime_Resolve_def Let_def split: if_splits)

section \<open>Data\<close>

record ExecutionRequest =
  xr_RunID :: string
  xr_Agent :: Agent
  xr_Attempt :: int
  xr_Input :: string

definition HTTPProtocol :: string where "HTTPProtocol = ''http''"

datatype HTTPErrorKind = HTTPErrorTemporary | HTTPErrorPermanent | HTTPErrorTimeout | HTTPErrorProtocol | HTTPErrorCanceled

datatype url_error =
    UnparsableEndpoint
  | EndpointScheme
  | EndpointDenied denial
  | EndpointNotAbsolute
  | EndpointCredentials
  | EndpointQuery
  | UnjoinablePath

datatype protocol_problem =
    NotHTTPAgent
  | RequestTooLarge
  | UnsupportedEncoding string
  | ResponseTooLarge
  | EmptyResponse
  | ResponseContentType
  | UndecodableResponse
  | RunIDMismatch string

text \<open>An error of the HTTP client or of reading a body, by the questions asked about it.\<close>

record transport_error =
  te_Canceled :: bool
  te_Deadline :: bool
  te_Policy :: bool
  te_Timeout :: bool

datatype http_cause =
    CauseURL url_error
  | CauseMessage message_error
  | CauseProtocol protocol_problem
  | CauseRequest
  | CauseAuthentication
  | CauseCanceled
  | CausePolicy
  | CauseTransport transport_error
  | CauseStatus
  | CauseEffectKey string string
  | CauseAgent string

record HTTPError =
  he_Kind :: HTTPErrorKind
  he_StatusCode :: int
  he_Code :: string
  he_Err :: http_cause

definition http_error :: "HTTPErrorKind \<Rightarrow> http_cause \<Rightarrow> HTTPError" where
  "http_error kind cause = \<lparr> he_Kind = kind, he_StatusCode = 0, he_Code = '''', he_Err = cause \<rparr>"

definition protocolError :: "protocol_problem \<Rightarrow> HTTPError" where
  "protocolError p = http_error HTTPErrorProtocol (CauseProtocol p)"

definition HTTPError_Unwrap :: "HTTPError \<Rightarrow> http_cause option" where
  "HTTPError_Unwrap e = (if he_Kind e = HTTPErrorTimeout then None else Some (he_Err e))"

definition HTTPError_Retryable :: "HTTPError \<Rightarrow> bool" where
  "HTTPError_Retryable e \<longleftrightarrow> he_Kind e = HTTPErrorTemporary \<or> he_Kind e = HTTPErrorTimeout"

record HttpRequest =
  hq_Method :: string
  hq_URL :: string
  hq_Header :: "(string, string) gomap"
  hq_Body :: string

text \<open>The body of a response is what reading it gives.\<close>

record HttpResponse =
  hr_StatusCode :: int
  hr_Header :: "(string, string) gomap"
  hr_Body :: "transport_error + string"

record HTTPRuntime =
  ht_maxRequestBytes :: int
  ht_maxResponseBytes :: int
  ht_policy :: HTTPPolicy
  ht_credentials :: "(string, agentCredential) gomap"

definition DefaultMaxRequestBytes :: int where "DefaultMaxRequestBytes = 1048576"
definition DefaultMaxResponseBytes :: int where "DefaultMaxResponseBytes = 1048576"

text \<open>An authenticator without credentials does what \<^verbatim>\<open>NoAuthentication\<close> does.\<close>

definition newHTTPRuntime ::
  "golib \<Rightarrow> int \<Rightarrow> int \<Rightarrow> HTTPPolicy \<Rightarrow> (string, agentCredential) gomap option \<Rightarrow> policy_error + HTTPRuntime" where
  "newHTTPRuntime L maxRequest maxResponse policy authenticator =
     (let maxRequest = (if maxRequest \<le> 0 then DefaultMaxRequestBytes else maxRequest);
          maxResponse = (if maxResponse \<le> 0 then DefaultMaxResponseBytes else maxResponse) in
      case normalizeHTTPPolicy L policy of
        Inl e \<Rightarrow> Inl e
      | Inr policy \<Rightarrow> Inr \<lparr> ht_maxRequestBytes = maxRequest, ht_maxResponseBytes = maxResponse, ht_policy = policy,
          ht_credentials = (case authenticator of None \<Rightarrow> [] | Some a \<Rightarrow> a) \<rparr>)"

section \<open>Errors\<close>

definition statusError :: "int \<Rightarrow> HTTPError" where
  "statusError statusCode =
     \<lparr> he_Kind = (if statusCode = 408 \<or> statusCode = 429 \<or> statusCode \<ge> 500 then HTTPErrorTemporary else HTTPErrorPermanent),
       he_StatusCode = statusCode, he_Code = '''', he_Err = CauseStatus \<rparr>"

datatype ctx_err = CtxNone | CtxCanceled | CtxDeadline

definition classifyTransportError :: "ctx_err \<Rightarrow> transport_error \<Rightarrow> HTTPError" where
  "classifyTransportError ctx err =
     (if ctx = CtxCanceled \<or> te_Canceled err then http_error HTTPErrorCanceled CauseCanceled
      else if ctx = CtxDeadline \<or> te_Deadline err then http_error HTTPErrorTimeout (CauseTransport err)
      else if te_Policy err then http_error HTTPErrorPermanent CausePolicy
      else if te_Timeout err then http_error HTTPErrorTimeout (CauseTransport err)
      else http_error HTTPErrorTemporary (CauseTransport err))"

section \<open>Execution\<close>

definition remoteExecutionURL :: "golib \<Rightarrow> netlib \<Rightarrow> string \<Rightarrow> HTTPPolicy \<Rightarrow> url_error + string" where
  "remoteExecutionURL L N endpoint policy =
     (case lib_url_Parse L (TrimSpace endpoint) of
        None \<Rightarrow> Inl UnparsableEndpoint
      | Some parsed \<Rightarrow>
          let parsed = parsed\<lparr>u_Scheme := lower L (u_Scheme parsed)\<rparr> in
          if u_Scheme parsed \<noteq> ''http'' \<and> u_Scheme parsed \<noteq> ''https'' then Inl EndpointScheme
          else if po_RequireHTTPS policy \<and> u_Scheme parsed \<noteq> ''https'' then Inl (EndpointDenied HTTPSRequired)
          else if u_Host parsed = '''' then Inl EndpointNotAbsolute
          else if u_User parsed \<noteq> None then Inl EndpointCredentials
          else if u_RawQuery parsed \<noteq> '''' \<or> u_Fragment parsed \<noteq> '''' then Inl EndpointQuery
          else case validateHost L N policy (net_Hostname N parsed) of
            Some d \<Rightarrow> Inl (EndpointDenied d)
          | None \<Rightarrow>
              (case lib_url_JoinPath L parsed ''v1/runs'' of
                 None \<Rightarrow> Inl UnjoinablePath
               | Some joined \<Rightarrow> Inr joined))"

definition wire_request :: "ExecutionRequest \<Rightarrow> RunRequest" where
  "wire_request request =
     \<lparr> rq_ProtocolVersion = Version1, rq_RunID = xr_RunID request, rq_AgentID = a_ID (xr_Agent request),
       rq_Attempt = xr_Attempt request,
       rq_IdempotencyKey = AttemptIdempotencyKey (xr_RunID request) (xr_Attempt request),
       rq_EffectIdempotencyKey = EffectIdempotencyKey (xr_RunID request), rq_Input = xr_Input request \<rparr>"

definition request_headers :: "RunRequest \<Rightarrow> (string, string) gomap" where
  "request_headers wire =
     header_set HeaderVersion Version1
     (header_set HeaderEffectIdempotency (rq_EffectIdempotencyKey wire)
     (header_set ''Idempotency-Key'' (rq_IdempotencyKey wire)
     (header_set ''Accept-Encoding'' ''identity''
     (header_set ''Accept'' ''application/json''
     (header_set ''Content-Type'' ''application/json'' [])))))"

text \<open>
  \<^verbatim>\<open>Execute\<close> up to the request it sends, and from the response on.
\<close>

definition build_request ::
  "golib \<Rightarrow> netlib \<Rightarrow> HTTPRuntime \<Rightarrow> (string \<Rightarrow> string option) \<Rightarrow> ExecutionRequest \<Rightarrow> HTTPError + HttpRequest" where
  "build_request L N h provider request =
     (if lower_trim L (a_Protocol (xr_Agent request)) \<noteq> HTTPProtocol then Inl (protocolError NotHTTPAgent)
      else case remoteExecutionURL L N (a_Endpoint (xr_Agent request)) (ht_policy h) of
        Inl e \<Rightarrow> Inl (http_error HTTPErrorPermanent (CauseURL e))
      | Inr executionURL \<Rightarrow>
          let wire = wire_request request in
          (case RunRequest_Validate wire of
             Some e \<Rightarrow> Inl (http_error HTTPErrorProtocol (CauseMessage e))
           | None \<Rightarrow>
               let payload = RunRequest_Marshal wire in
               if int (length payload) > ht_maxRequestBytes h then Inl (protocolError RequestTooLarge)
               else if lib_url_Parse L executionURL = None then Inl (http_error HTTPErrorPermanent CauseRequest)
               else (case Authenticate (ht_credentials h) provider (a_ID (xr_Agent request)) (request_headers wire) of
                  Inl _ \<Rightarrow> Inl (http_error HTTPErrorPermanent CauseAuthentication)
                | Inr headers \<Rightarrow>
                    Inr \<lparr> hq_Method = ''POST'', hq_URL = executionURL, hq_Header = headers, hq_Body = payload \<rparr>)))"

definition reported_error :: "RunError \<Rightarrow> HTTPError" where
  "reported_error err = \<lparr> he_Kind = (if er_Retryable err then HTTPErrorTemporary else HTTPErrorPermanent), he_StatusCode = 0,
     he_Code = er_Code err, he_Err = CauseAgent (er_Message err) \<rparr>"

definition accept_message :: "ExecutionRequest \<Rightarrow> RunResponse \<Rightarrow> HTTPError + string" where
  "accept_message request wire =
      (case RunResponse_Validate wire of
         Some e \<Rightarrow> Inl \<lparr> he_Kind = HTTPErrorProtocol, he_StatusCode = 0,
           he_Code = (case e of UnsupportedVersionError _ _ \<Rightarrow> CodeUnsupportedVersion | _ \<Rightarrow> ''''),
           he_Err = CauseMessage e \<rparr>
       | None \<Rightarrow>
           if rs_RunID wire \<noteq> xr_RunID request then Inl (protocolError (RunIDMismatch (rs_RunID wire)))
           else if a_EffectIdempotency (xr_Agent request) = EffectIdempotencyRequired
               \<and> rs_EffectIdempotencyKey wire \<noteq> EffectIdempotencyKey (xr_RunID request)
             then Inl \<lparr> he_Kind = HTTPErrorProtocol, he_StatusCode = 0, he_Code = CodeEffectIdempotency,
                    he_Err = CauseEffectKey (rs_EffectIdempotencyKey wire) (EffectIdempotencyKey (xr_RunID request)) \<rparr>
           else if rs_Status wire = StatusFailed then
             Inl (reported_error (the (rs_Error wire)))
           else Inr (rs_Output wire))"

definition read_response ::
  "golib \<Rightarrow> netlib \<Rightarrow> HTTPRuntime \<Rightarrow> (string \<Rightarrow> RunResponse option) \<Rightarrow> ctx_err \<Rightarrow> ExecutionRequest \<Rightarrow> HttpResponse \<Rightarrow> HTTPError + string" where
  "read_response L N h decode ctx request response =
     (let encoding = lower_trim L (header_get (hr_Header response) ''Content-Encoding'') in
      if encoding \<noteq> '''' \<and> encoding \<noteq> ''identity'' then Inl (protocolError (UnsupportedEncoding encoding))
      else case hr_Body response of
        Inl err \<Rightarrow> Inl (classifyTransportError ctx err)
      | Inr body \<Rightarrow>
          let payload = take (nat (ht_maxResponseBytes h + 1)) body in
          if int (length payload) > ht_maxResponseBytes h then Inl (protocolError ResponseTooLarge)
          else if hr_StatusCode response \<noteq> 200 then Inl (statusError (hr_StatusCode response))
          else if length (TrimSpace payload) = 0 then Inl (protocolError EmptyResponse)
          else if net_ParseMediaType N (header_get (hr_Header response) ''Content-Type'') \<noteq> Some ''application/json''
            then Inl (protocolError ResponseContentType)
          else case decode payload of
            None \<Rightarrow> Inl (protocolError UndecodableResponse)
          | Some wire \<Rightarrow> accept_message request wire)"

definition HTTP_Execute ::
  "golib \<Rightarrow> netlib \<Rightarrow> HTTPRuntime \<Rightarrow> (string \<Rightarrow> string option) \<Rightarrow> (HttpRequest \<Rightarrow> transport_error + HttpResponse)
     \<Rightarrow> (string \<Rightarrow> RunResponse option) \<Rightarrow> ctx_err \<Rightarrow> ExecutionRequest \<Rightarrow> HttpRequest option \<times> (HTTPError + string)" where
  "HTTP_Execute L N h provider do decode ctx request =
     (case build_request L N h provider request of
        Inl e \<Rightarrow> (None, Inl e)
      | Inr httpRequest \<Rightarrow>
          (Some httpRequest,
           case do httpRequest of
             Inl err \<Rightarrow> Inl (classifyTransportError ctx err)
           | Inr response \<Rightarrow> read_response L N h decode ctx request response))"

section \<open>Lemmas\<close>

lemma limited_body:
  assumes "int (length (take (nat (n + 1)) body)) \<le> n"
  shows "take (nat (n + 1)) body = body" "int (length body) \<le> n"
  using assms by (cases "length body \<le> nat (n + 1)"; simp; linarith)+

lemma build_request_Inr:
  assumes "build_request L N h provider request = Inr req"
  shows "remoteExecutionURL L N (a_Endpoint (xr_Agent request)) (ht_policy h) = Inr (hq_URL req)"
    "hq_Method req = ''POST''" "hq_Body req = RunRequest_Marshal (wire_request request)"
    "int (length (hq_Body req)) \<le> ht_maxRequestBytes h"
    "Authenticate (ht_credentials h) provider (a_ID (xr_Agent request)) (request_headers (wire_request request)) = Inr (hq_Header req)"
    "RunRequest_Validate (wire_request request) = None"
  using assms by (auto simp: build_request_def Let_def split: if_splits sum.splits option.splits)

lemma build_request_Inl: "build_request L N h provider request = Inl e \<Longrightarrow> \<not> HTTPError_Retryable e \<and> he_Kind e \<noteq> HTTPErrorCanceled"
  by (auto simp: build_request_def Let_def protocolError_def http_error_def HTTPError_Retryable_def split: if_splits sum.splits option.splits)

text \<open>Whoever is behind the URL: it was checked against the policy.\<close>

lemma remoteExecutionURL_checked:
  assumes "remoteExecutionURL L N endpoint policy = Inr url"
  obtains parsed where "lib_url_JoinPath L parsed ''v1/runs'' = Some url" "u_Scheme parsed \<in> {''http'', ''https''}"
    "po_RequireHTTPS policy \<Longrightarrow> u_Scheme parsed = ''https''" "u_User parsed = None"
    "validateHost L N policy (net_Hostname N parsed) = None"
proof -
  obtain raw where raw: "lib_url_Parse L (TrimSpace endpoint) = Some raw"
    using assms by (auto simp: remoteExecutionURL_def split: option.splits)
  let ?p = "raw\<lparr>u_Scheme := lower L (u_Scheme raw)\<rparr>"
  show thesis
    by (rule that [of ?p])
      (use assms raw in \<open>auto simp: remoteExecutionURL_def Let_def split: if_splits option.splits\<close>)
qed

lemma read_response_Inr:
  assumes "read_response L N h decode ctx request response = Inr output"
  obtains body wire where "hr_Body response = Inr body" "int (length body) \<le> ht_maxResponseBytes h" "hr_StatusCode response = 200"
    "decode body = Some wire" "RunResponse_Validate wire = None" "rs_RunID wire = xr_RunID request" "rs_Status wire = StatusSucceeded"
    "rs_Output wire = output"
    "a_EffectIdempotency (xr_Agent request) = EffectIdempotencyRequired \<Longrightarrow> rs_EffectIdempotencyKey wire = xr_RunID request"
proof -
  obtain body where body: "hr_Body response = Inr body"
    using assms by (auto simp: read_response_def Let_def split: if_splits sum.splits)
  let ?p = "take (nat (ht_maxResponseBytes h + 1)) body"
  have "int (length ?p) \<le> ht_maxResponseBytes h"
    using assms body by (auto simp: read_response_def Let_def split: if_splits)
  note p = limited_body [OF this]
  obtain wire where wire: "decode body = Some wire" "RunResponse_Validate wire = None"
    using assms body p by (auto simp: read_response_def accept_message_def Let_def split: if_splits option.splits)
  then have "rs_Status wire = StatusSucceeded \<or> rs_Status wire = StatusFailed" using RunResponse_valid_cases(2) by blast
  then show thesis
    by (intro that [of body wire])
      (use assms body p wire in \<open>auto simp: read_response_def accept_message_def Let_def EffectIdempotencyKey_def split: if_splits\<close>)
qed

lemma request_headers_key: "header_get (request_headers wire) ''idempotency-key'' = rq_IdempotencyKey wire"
proof -
  have "CanonicalHeaderKey ''idempotency-key'' = CanonicalHeaderKey ''Idempotency-Key''"
    "CanonicalHeaderKey HeaderVersion \<noteq> CanonicalHeaderKey ''Idempotency-Key''"
    "CanonicalHeaderKey HeaderEffectIdempotency \<noteq> CanonicalHeaderKey ''Idempotency-Key''" by code_simp+
  then show ?thesis by (simp add: request_headers_def header_get_def header_set_def get_or_put)
qed

text \<open>The transport broke down before the response, or while its body was read.\<close>

definition broken_transport :: "golib \<Rightarrow> (HttpRequest \<Rightarrow> transport_error + HttpResponse) \<Rightarrow> HttpRequest \<Rightarrow> transport_error \<Rightarrow> bool" where
  "broken_transport L do req err \<longleftrightarrow> do req = Inl err \<or>
     (\<exists>response. do req = Inr response \<and> hr_Body response = Inl err
        \<and> lower_trim L (header_get (hr_Header response) ''Content-Encoding'') \<in> {'''', ''identity''})"

text \<open>What a refused answer can be.\<close>

definition is_protocol_error :: "HTTPError \<Rightarrow> bool" where
  "is_protocol_error e \<longleftrightarrow> he_Kind e = HTTPErrorProtocol \<and> he_StatusCode e = 0 \<and> (\<nexists>m. he_Err e = CauseAgent m)"

lemma protocolError_is [simp]: "is_protocol_error (protocolError p)"
  by (simp add: is_protocol_error_def protocolError_def http_error_def)

lemma accept_message_Inl:
  assumes "accept_message request wire = Inl e"
  shows "is_protocol_error e \<or> (\<exists>err. rs_Error wire = Some err \<and> e = reported_error err)"
proof (cases "RunResponse_Validate wire")
  case None
  then have "\<exists>err. rs_Error wire = Some err" if "rs_Status wire = StatusFailed"
    using RunResponse_valid_cases(2) [OF None] that by (auto simp: StatusSucceeded_def StatusFailed_def)
  then show ?thesis
    using assms None
    by (auto simp: accept_message_def is_protocol_error_def protocolError_def http_error_def split: if_splits)
qed (use assms in \<open>auto simp: accept_message_def is_protocol_error_def\<close>)

lemma read_response_Inl:
  assumes "read_response L N h decode ctx request response = Inl e"
  shows "(\<exists>err. hr_Body response = Inl err \<and> e = classifyTransportError ctx err
           \<and> lower_trim L (header_get (hr_Header response) ''Content-Encoding'') \<in> {'''', ''identity''})
       \<or> (\<exists>body. hr_Body response = Inr body \<and> e = statusError (hr_StatusCode response))
       \<or> (\<exists>body wire err. hr_Body response = Inr body \<and> decode body = Some wire \<and> rs_Error wire = Some err \<and> e = reported_error err)
       \<or> (is_protocol_error e \<and> (\<forall>err. hr_Body response = Inl err \<longrightarrow>
            lower_trim L (header_get (hr_Header response) ''Content-Encoding'') \<notin> {'''', ''identity''}))"
proof (cases "hr_Body response")
  case (Inl err)
  then show ?thesis using assms by (auto simp: read_response_def Let_def split: if_splits)
next
  case (Inr body)
  let ?p = "take (nat (ht_maxResponseBytes h + 1)) body"
  show ?thesis
  proof (cases "int (length ?p) \<le> ht_maxResponseBytes h")
    case True
    then have "?p = body" by (rule limited_body)
    then show ?thesis
      using assms Inr True accept_message_Inl [of request _ e]
      by (auto simp: read_response_def Let_def split: if_splits option.splits)
  qed (use assms Inr in \<open>auto simp: read_response_def Let_def split: if_splits\<close>)
qed

section \<open>Properties\<close>

text \<open>
  C19: What a remote Agent's output is worth. When an attempt on a remote Agent succeeds, exactly one
  request was sent: to a URL below the Agent's endpoint that the network policy admits, carrying the
  message of this Run and attempt within the size limit, with the key of the attempt as
  \<^verbatim>\<open>Idempotency-Key\<close> whatever credentials are configured. It was answered with status 200 by a message of
  the supported version within the size limit, for this Run, with status succeeded and this
  output, which acknowledges the effect key when the Agent is registered with required effect
  idempotency.
\<close>

theorem remote_result_sound:
  assumes "HTTP_Execute L N h provider do decode ctx request = (sent, Inr output)"
    and "NewReloadingAuthenticator L clean parse raw initial = Inr (ht_credentials h)"
  shows "\<exists>req parsed response body wire. sent = Some req \<and> do req = Inr response
    \<and> lib_url_JoinPath L parsed ''v1/runs'' = Some (hq_URL req) \<and> validateHost L N (ht_policy h) (net_Hostname N parsed) = None
    \<and> (po_RequireHTTPS (ht_policy h) \<longrightarrow> u_Scheme parsed = ''https'')
    \<and> hq_Body req = RunRequest_Marshal (wire_request request) \<and> int (length (hq_Body req)) \<le> ht_maxRequestBytes h
    \<and> header_get (hq_Header req) ''idempotency-key'' = AttemptIdempotencyKey (xr_RunID request) (xr_Attempt request)
    \<and> hr_StatusCode response = 200 \<and> hr_Body response = Inr body \<and> int (length body) \<le> ht_maxResponseBytes h
    \<and> decode body = Some wire \<and> rs_ProtocolVersion wire = Version1 \<and> rs_RunID wire = xr_RunID request
    \<and> rs_Status wire = StatusSucceeded \<and> rs_Error wire = None \<and> rs_Output wire = output
    \<and> (a_EffectIdempotency (xr_Agent request) = EffectIdempotencyRequired \<longrightarrow> rs_EffectIdempotencyKey wire = xr_RunID request)"
proof -
  obtain req response where req: "build_request L N h provider request = Inr req" "sent = Some req" "do req = Inr response"
    and read: "read_response L N h decode ctx request response = Inr output"
    using assms(1) by (auto simp: HTTP_Execute_def split: sum.splits)
  note built = build_request_Inr [OF req(1)]
  obtain parsed where parsed: "lib_url_JoinPath L parsed ''v1/runs'' = Some (hq_URL req)"
      "validateHost L N (ht_policy h) (net_Hostname N parsed) = None" "po_RequireHTTPS (ht_policy h) \<Longrightarrow> u_Scheme parsed = ''https''"
    using remoteExecutionURL_checked [OF built(1)] by metis
  have "header_get (hq_Header req) ''idempotency-key'' = header_get (request_headers (wire_request request)) ''idempotency-key''"
    by (rule Authenticate_reserved [OF assms(2) built(5)]) (simp_all add: reserved_headers_def)
  moreover have "header_get (request_headers wire) ''idempotency-key'' = rq_IdempotencyKey wire" for wire
    by (rule request_headers_key)
  ultimately have key: "header_get (hq_Header req) ''idempotency-key'' = AttemptIdempotencyKey (xr_RunID request) (xr_Attempt request)"
    by (simp add: wire_request_def)
  from read obtain body wire where wire: "hr_Body response = Inr body" "int (length body) \<le> ht_maxResponseBytes h"
      "hr_StatusCode response = 200" "decode body = Some wire" "RunResponse_Validate wire = None" "rs_RunID wire = xr_RunID request"
      "rs_Status wire = StatusSucceeded" "rs_Output wire = output"
      "a_EffectIdempotency (xr_Agent request) = EffectIdempotencyRequired \<Longrightarrow> rs_EffectIdempotencyKey wire = xr_RunID request"
    by (rule read_response_Inr) blast
  moreover have "rs_ProtocolVersion wire = Version1" "rs_Error wire = None"
    using RunResponse_valid_cases [OF wire(5)] wire(7) by (auto simp: StatusSucceeded_def StatusFailed_def)
  ultimately show ?thesis using req parsed built(3,4) key by blast
qed

text \<open>
  C20: How failures of a remote attempt are classified. An error is retryable exactly when a request
  was sent and one of these happened: the transport failed, or timed out, for another reason than
  a cancellation or the network policy; the status was 408, 429 or at least 500; or the Agent itself
  answered with a failure it marks as retryable. Anything detected before sending is not retryable,
  and only a cancellation of the context or of the request is reported as one.
\<close>

theorem remote_errors_classified:
  assumes "HTTP_Execute L N h provider do decode ctx request = (sent, Inl e)"
  shows "(HTTPError_Retryable e \<longleftrightarrow> (\<exists>req. sent = Some req \<and>
           ((\<exists>err. broken_transport L do req err \<and> ctx \<noteq> CtxCanceled \<and> \<not> te_Canceled err
               \<and> (te_Policy err \<longrightarrow> ctx = CtxDeadline \<or> te_Deadline err))
          \<or> (\<exists>response. do req = Inr response \<and> he_StatusCode e = hr_StatusCode response \<and> he_Err e = CauseStatus
               \<and> (hr_StatusCode response = 408 \<or> hr_StatusCode response = 429 \<or> 500 \<le> hr_StatusCode response))
          \<or> (\<exists>response body wire err. do req = Inr response \<and> hr_Body response = Inr body \<and> decode body = Some wire
               \<and> rs_Error wire = Some err \<and> er_Retryable err \<and> e = reported_error err))))
       \<and> (he_Kind e = HTTPErrorCanceled \<longleftrightarrow>
           (\<exists>req err. sent = Some req \<and> broken_transport L do req err \<and> (ctx = CtxCanceled \<or> te_Canceled err)))"
proof (cases "build_request L N h provider request")
  case (Inl e')
  then show ?thesis using assms build_request_Inl [OF Inl] by (auto simp: HTTP_Execute_def)
next
  case (Inr req)
  note shapes = classifyTransportError_def http_error_def statusError_def reported_error_def is_protocol_error_def HTTPError_Retryable_def
  show ?thesis
  proof (cases "do req")
    case (Inl err)
    then have "sent = Some req" "e = classifyTransportError ctx err" "broken_transport L do req err' \<longleftrightarrow> err' = err" for err'
      using assms Inr by (auto simp: HTTP_Execute_def broken_transport_def)
    then show ?thesis using Inl by (auto simp: shapes)
  next
    case (Inr response)
    then have sent: "sent = Some req" "read_response L N h decode ctx request response = Inl e"
      using assms \<open>build_request L N h provider request = Inr req\<close> by (auto simp: HTTP_Execute_def)
    have brk: "broken_transport L do req err \<longleftrightarrow> hr_Body response = Inl err
        \<and> lower_trim L (header_get (hr_Header response) ''Content-Encoding'') \<in> {'''', ''identity''}" for err
      by (simp add: broken_transport_def Inr)
    consider (broken) err where "broken_transport L do req err" "e = classifyTransportError ctx err"
      | (status) body where "hr_Body response = Inr body" "e = statusError (hr_StatusCode response)"
      | (agent) body wire err where "hr_Body response = Inr body" "decode body = Some wire" "rs_Error wire = Some err" "e = reported_error err"
      | (protocol) "is_protocol_error e" "\<nexists>err. broken_transport L do req err"
      using read_response_Inl [OF sent(2)] unfolding brk by blast
    then show ?thesis
    proof cases
      case broken
      then have "broken_transport L do req err' \<longleftrightarrow> err' = err" for err' by (auto simp: brk)
      then show ?thesis using broken Inr sent(1) by (auto simp: shapes)
    next
      case status
      then show ?thesis using Inr sent(1) by (auto simp: brk shapes)
    next
      case agent
      then show ?thesis using Inr sent(1) by (auto simp: brk shapes)
    next
      case protocol
      then show ?thesis using Inr sent(1) by (auto simp: shapes)
    qed
  qed
qed

text \<open>An Agent that succeeds, and the same Agent when it is overloaded.\<close>

definition sample_remote :: Agent where
  "sample_remote = sample_agent\<lparr>a_Runtime := ''remote'', a_Protocol := '' HTTP '', a_EffectIdempotency := ''required''\<rparr>"

definition sample_attempt :: ExecutionRequest where
  "sample_attempt = \<lparr> xr_RunID = ''r'', xr_Agent = sample_remote, xr_Attempt = 2, xr_Input = ''in'' \<rparr>"

definition sample_runtime :: HTTPRuntime where
  "sample_runtime = \<lparr> ht_maxRequestBytes = 500, ht_maxResponseBytes = 10, ht_policy = DefaultHTTPPolicy,
     ht_credentials = sample_agent_credentials \<rparr>"

definition sample_answer :: "int \<Rightarrow> HttpResponse" where
  "sample_answer status = \<lparr> hr_StatusCode = status, hr_Header = [(''Content-Type'', ''application/json'')], hr_Body = Inr ''{}'' \<rparr>"

definition sample_wire :: RunResponse where
  "sample_wire = \<lparr> rs_ProtocolVersion = ''1'', rs_RunID = ''r'', rs_Status = ''succeeded'', rs_Output = ''out'', rs_Error = None,
     rs_EffectIdempotencyKey = ''r'' \<rparr>"

definition sample_exchange :: "int \<Rightarrow> HttpRequest option \<times> (HTTPError + string)" where
  "sample_exchange status = HTTP_Execute sample_lib sample_net sample_runtime (\<lambda>_. Some ''new'')
     (\<lambda>_. Inr (sample_answer status)) (\<lambda>_. Some sample_wire) CtxNone sample_attempt"

theorem remote_result_sound_witness:
  "\<exists>req. fst (sample_exchange 200) = Some req \<and> header_get (hq_Header req) ''idempotency-key'' = ''r:2''"
proof -
  have "snd (sample_exchange 200) = Inr ''out''" by code_simp
  then have run: "HTTP_Execute sample_lib sample_net sample_runtime (\<lambda>_. Some ''new'')
     (\<lambda>_. Inr (sample_answer 200)) (\<lambda>_. Some sample_wire) CtxNone sample_attempt = (fst (sample_exchange 200), Inr ''out'')"
    by (simp add: sample_exchange_def prod_eq_iff)
  have creds: "NewReloadingAuthenticator sample_lib id (\<lambda>_. Some sample_agent_references) ''{}''
     (Some (EnvironmentFileSecret (Some (\<lambda>_. Some ''old'')) (\<lambda>_. None) False)) = Inr (ht_credentials sample_runtime)"
    using sample_agent_authenticator by (simp add: sample_runtime_def)
  have "AttemptIdempotencyKey (xr_RunID sample_attempt) (xr_Attempt sample_attempt) = ''r:2''" by code_simp
  with remote_result_sound [OF run creds] show ?thesis by auto
qed

theorem remote_errors_classified_witness:
  "\<exists>e. snd (sample_exchange 503) = Inl e \<and> HTTPError_Retryable e"
proof -
  have e: "snd (sample_exchange 503) = Inl (statusError 503)" by code_simp
  then have run: "HTTP_Execute sample_lib sample_net sample_runtime (\<lambda>_. Some ''new'')
     (\<lambda>_. Inr (sample_answer 503)) (\<lambda>_. Some sample_wire) CtxNone sample_attempt = (fst (sample_exchange 503), Inl (statusError 503))"
    by (simp add: sample_exchange_def prod_eq_iff)
  have "fst (sample_exchange 503) \<noteq> None" by code_simp
  then obtain req where "fst (sample_exchange 503) = Some req" by blast
  moreover have "he_StatusCode (statusError 503) = hr_StatusCode (sample_answer 503)" "he_Err (statusError 503) = CauseStatus"
    "500 \<le> hr_StatusCode (sample_answer 503)" by (simp_all add: statusError_def sample_answer_def)
  ultimately have "HTTPError_Retryable (statusError 503)" using remote_errors_classified [OF run] by blast
  with e show ?thesis by blast
qed

end
