(* ===== verification/Llm_Provider.thy ===== *)
theory Llm_Provider
  imports Runtime_Http
begin

text \<open>
  \<^verbatim>\<open>internal/llm\<close> and \<^verbatim>\<open>internal/runtime/llm.go\<close>: the registry of providers, the client for providers
  compatible with the OpenAI chat API, and the runtime that executes an attempt with a provider.
\<close>

section \<open>The registry of providers\<close>

datatype llm_error = ProtocolRequired | ProviderMissing string | ErrUnknownProvider string

definition Provider_Register :: "golib \<Rightarrow> string \<Rightarrow> 'p option \<Rightarrow> (string, 'p) gomap \<Rightarrow> llm_error + (string, 'p) gomap" where
  "Provider_Register L protocol provider providers =
     (let protocol = lower_trim L protocol in
      if protocol = '''' then Inl ProtocolRequired
      else case provider of
        None \<Rightarrow> Inl (ProviderMissing protocol)
      | Some p \<Rightarrow> Inr (put protocol p providers))"

definition Provider_Resolve :: "golib \<Rightarrow> string \<Rightarrow> (string, 'p) gomap \<Rightarrow> llm_error + 'p" where
  "Provider_Resolve L protocol providers =
     (let protocol = lower_trim L protocol in
      case get providers protocol of None \<Rightarrow> Inl (ErrUnknownProvider protocol) | Some p \<Rightarrow> Inr p)"

lemma Provider_Resolve_registered:
  assumes "Provider_Register L protocol (Some p) providers = Inr providers'"
  shows "Provider_Resolve L other providers' =
    (if lower_trim L other = lower_trim L protocol then Inr p else Provider_Resolve L other providers)"
  using assms by (auto simp: Provider_Register_def Provider_Resolve_def Let_def split: if_splits)

section \<open>The chat client\<close>

text \<open>A message that quotes an error of the standard library is left empty.\<close>

record Usage =
  us_InputTokens :: int
  us_OutputTokens :: int
  us_TotalTokens :: int

record CompletionResult =
  cm_Output :: string
  cm_Usage :: Usage

datatype provider_cause =
    CauseInvalid string
  | CauseEndpoint
  | CauseCredential
  | CauseContext ctx_err
  | CauseIO transport_error

record ProviderError =
  pe_StatusCode :: int
  pe_Code :: string
  pe_Retry :: bool
  pe_Err :: provider_cause

definition permanentError :: "string \<Rightarrow> string \<Rightarrow> ProviderError" where
  "permanentError code message = \<lparr> pe_StatusCode = 0, pe_Code = code, pe_Retry = False, pe_Err = CauseInvalid message \<rparr>"

record OpenAICompatible =
  oa_maxRequestBytes :: int
  oa_maxResponseBytes :: int
  oa_credentials :: "(string, agentCredential) gomap"

definition NewOpenAICompatible :: "int \<Rightarrow> int \<Rightarrow> (string, agentCredential) gomap option \<Rightarrow> OpenAICompatible" where
  "NewOpenAICompatible maxRequestBytes maxResponseBytes authenticator =
     \<lparr> oa_maxRequestBytes = (if maxRequestBytes \<le> 0 then DefaultMaxResponseBytes else maxRequestBytes),
       oa_maxResponseBytes = (if maxResponseBytes \<le> 0 then DefaultMaxResponseBytes else maxResponseBytes),
       oa_credentials = (case authenticator of None \<Rightarrow> [] | Some a \<Rightarrow> a) \<rparr>"

text \<open>The decoded response: the contents of the choices, the token counts, and the error if there is one.\<close>

record chatResponse =
  ct_Choices :: "string list"
  ct_PromptTokens :: int
  ct_CompletionTokens :: int
  ct_TotalTokens :: int
  ct_Error :: "(string \<times> string) option"  \<comment> \<open>message and code\<close>

definition chatCompletionsURL :: "golib \<Rightarrow> netlib \<Rightarrow> string \<Rightarrow> string option" where
  "chatCompletionsURL L N endpoint =
     (case lib_url_Parse L (TrimSpace endpoint) of
        None \<Rightarrow> None
      | Some parsed \<Rightarrow>
          if u_Scheme parsed = '''' \<or> u_Host parsed = '''' then None
          else let parsed = parsed\<lparr>u_Scheme := lower L (u_Scheme parsed)\<rparr> in
            if u_Scheme parsed \<noteq> ''http'' \<and> u_Scheme parsed \<noteq> ''https'' then None
            else if u_RawQuery parsed \<noteq> '''' \<or> u_Fragment parsed \<noteq> '''' then None
            else if u_User parsed \<noteq> None then None
            else let path = TrimRight (u_Path parsed) ''/'';
                     path = path @ (if HasSuffix path ''/v1'' then ''/chat/completions'' else ''/v1/chat/completions'')
                 in Some (net_URL_String N (parsed\<lparr>u_Path := path\<rparr>)))"

definition chat_message :: "string \<Rightarrow> string \<Rightarrow> string" where
  "chat_message role content =
     ''{'' @ json_fields [json_field ''role'' (json_string role), json_field ''content'' (json_string content)] @ ''}''"

definition chat_Marshal :: "string \<Rightarrow> string list \<Rightarrow> string" where
  "chat_Marshal model messages =
     ''{'' @ json_fields [json_field ''model'' (json_string model), json_field ''messages'' (''['' @ json_fields messages @ '']'')] @ ''}''"

definition chat_request :: "golib \<Rightarrow> netlib \<Rightarrow> OpenAICompatible \<Rightarrow> (string \<Rightarrow> string option) \<Rightarrow> ExecutionRequest \<Rightarrow> ProviderError + HttpRequest" where
  "chat_request L N p provider request =
     (let agent = xr_Agent request in
      if TrimSpace (xr_RunID request) = '''' \<or> TrimSpace (a_ID agent) = ''''
        then Inl (permanentError ''invalid_request'' ''Run ID and Agent ID are required'')
      else if TrimSpace (a_Model agent) = '''' then Inl (permanentError ''model_required'' ''Agent model is required'')
      else case chatCompletionsURL L N (a_Endpoint agent) of
        None \<Rightarrow> Inl \<lparr> pe_StatusCode = 0, pe_Code = ''invalid_endpoint'', pe_Retry = False, pe_Err = CauseEndpoint \<rparr>
      | Some endpoint \<Rightarrow>
          let systemPrompt = TrimSpace (a_SystemPrompt agent);
              messages = (if systemPrompt \<noteq> '''' then [chat_message ''system'' systemPrompt] else [])
                @ [chat_message ''user'' (xr_Input request)];
              payload = chat_Marshal (a_Model agent) messages in
          if int (length payload) > oa_maxRequestBytes p
            then Inl (permanentError ''request_too_large'' (''request exceeds '' @ Itoa (oa_maxRequestBytes p) @ '' bytes''))
          else if lib_url_Parse L endpoint = None then Inl (permanentError ''invalid_request'' '''')
          else let headers =
                  header_set ''Idempotency-Key'' (xr_RunID request @ '':'' @ Itoa (xr_Attempt request))
                  (header_set ''Accept-Encoding'' ''identity''
                  (header_set ''Accept'' ''application/json''
                  (header_set ''Content-Type'' ''application/json'' []))) in
            (case Authenticate (oa_credentials p) provider (a_ID agent) headers of
               Inl _ \<Rightarrow> Inl \<lparr> pe_StatusCode = 0, pe_Code = ''authentication_failed'', pe_Retry = False, pe_Err = CauseCredential \<rparr>
             | Inr headers \<Rightarrow> Inr \<lparr> hq_Method = ''POST'', hq_URL = endpoint, hq_Header = headers, hq_Body = payload \<rparr>))"

definition chat_status_error :: "netlib \<Rightarrow> (string \<Rightarrow> chatResponse option) \<Rightarrow> int \<Rightarrow> string \<Rightarrow> ProviderError" where
  "chat_status_error N decode status body =
     (let (message, code) = (case decode body of None \<Rightarrow> ('''', '''') | Some d \<Rightarrow> (case ct_Error d of None \<Rightarrow> ('''', '''') | Some e \<Rightarrow> e)) in
      \<lparr> pe_StatusCode = status, pe_Code = (if TrimSpace code \<noteq> '''' then code else ''http_error''),
        pe_Retry = (status = 429 \<or> status \<ge> 500),
        pe_Err = CauseInvalid (if TrimSpace message \<noteq> '''' then message else net_StatusText N status) \<rparr>)"

definition chat_answer :: "golib \<Rightarrow> netlib \<Rightarrow> OpenAICompatible \<Rightarrow> (string \<Rightarrow> chatResponse option) \<Rightarrow> HttpResponse \<Rightarrow> ProviderError + CompletionResult" where
  "chat_answer L N p decode response =
     (let encoding = lower_trim L (header_get (hr_Header response) ''Content-Encoding'') in
      if encoding \<noteq> '''' \<and> encoding \<noteq> ''identity''
        then Inl (permanentError ''invalid_response'' ''compressed responses are not supported'')
      else case hr_Body response of
        Inl err \<Rightarrow> Inl \<lparr> pe_StatusCode = 0, pe_Code = ''read_error'', pe_Retry = True, pe_Err = CauseIO err \<rparr>
      | Inr content \<Rightarrow>
          let body = take (nat (oa_maxResponseBytes p + 1)) content in
          if int (length body) > oa_maxResponseBytes p
            then Inl (permanentError ''response_too_large'' (''response exceeds '' @ Itoa (oa_maxResponseBytes p) @ '' bytes''))
          else if hr_StatusCode response < 200 \<or> 300 \<le> hr_StatusCode response
            then Inl (chat_status_error N decode (hr_StatusCode response) body)
          else if net_ParseMediaType N (header_get (hr_Header response) ''Content-Type'') \<noteq> Some ''application/json''
            then Inl (permanentError ''invalid_content_type'' ''response Content-Type must be application/json'')
          else if length (TrimSpace body) = 0 then Inl (permanentError ''invalid_json'' ''response must contain valid JSON'')
          else case decode body of
            None \<Rightarrow> Inl (permanentError ''invalid_json'' ''response must contain valid JSON'')
          | Some decoded \<Rightarrow>
              (case ct_Choices decoded of
                 [] \<Rightarrow> Inl (permanentError ''empty_completion'' ''response has no assistant content'')
               | content # _ \<Rightarrow>
                   if TrimSpace content = '''' then Inl (permanentError ''empty_completion'' ''response has no assistant content'')
                   else Inr \<lparr> cm_Output = content, cm_Usage = \<lparr> us_InputTokens = ct_PromptTokens decoded,
                     us_OutputTokens = ct_CompletionTokens decoded, us_TotalTokens = ct_TotalTokens decoded \<rparr> \<rparr>))"

definition Complete ::
  "golib \<Rightarrow> netlib \<Rightarrow> OpenAICompatible \<Rightarrow> (string \<Rightarrow> string option) \<Rightarrow> (HttpRequest \<Rightarrow> transport_error + HttpResponse)
     \<Rightarrow> (string \<Rightarrow> chatResponse option) \<Rightarrow> ctx_err \<Rightarrow> ExecutionRequest \<Rightarrow> ProviderError + CompletionResult" where
  "Complete L N p provider do decode ctx request =
     (case chat_request L N p provider request of
        Inl e \<Rightarrow> Inl e
      | Inr httpRequest \<Rightarrow>
          (case do httpRequest of
             Inl err \<Rightarrow>
               if ctx \<noteq> CtxNone
               then Inl \<lparr> pe_StatusCode = 0, pe_Code = ''canceled'', pe_Retry = (ctx = CtxDeadline), pe_Err = CauseContext ctx \<rparr>
               else Inl \<lparr> pe_StatusCode = 0, pe_Code = ''transport_error'', pe_Retry = True, pe_Err = CauseIO err \<rparr>
           | Inr response \<Rightarrow> chat_answer L N p decode response))"

section \<open>The runtime\<close>

datatype llm_runtime_error = ModelRequired string | UnknownProvider llm_error | CompletionFailed ProviderError

definition LLM_Execute ::
  "golib \<Rightarrow> (string, ExecutionRequest \<Rightarrow> ProviderError + CompletionResult) gomap \<Rightarrow> ExecutionRequest \<Rightarrow> llm_runtime_error + string" where
  "LLM_Execute L providers request =
     (if TrimSpace (a_Model (xr_Agent request)) = '''' then Inl (ModelRequired (a_ID (xr_Agent request)))
      else case Provider_Resolve L (a_Protocol (xr_Agent request)) providers of
        Inl e \<Rightarrow> Inl (UnknownProvider e)
      | Inr complete \<Rightarrow>
          (case complete request of
             Inl e \<Rightarrow> Inl (CompletionFailed e)
           | Inr result \<Rightarrow> Inr (cm_Output result)))"

section \<open>Lemmas\<close>

lemma chat_request_Inr:
  assumes "chat_request L N p provider request = Inr req"
  shows "chatCompletionsURL L N (a_Endpoint (xr_Agent request)) = Some (hq_URL req)" "hq_Method req = ''POST''"
    "int (length (hq_Body req)) \<le> oa_maxRequestBytes p" "TrimSpace (a_Model (xr_Agent request)) \<noteq> ''''"
  using assms by (auto simp: chat_request_def Let_def split: if_splits option.splits sum.splits)

text \<open>An output is the first choice of a decoded body within the limits, and is not blank.\<close>

lemma Complete_Inr:
  assumes "Complete L N p provider do decode ctx request = Inr result"
  obtains req response body decoded rest where "chat_request L N p provider request = Inr req" "do req = Inr response"
    "hr_Body response = Inr body" "int (length body) \<le> oa_maxResponseBytes p"
    "200 \<le> hr_StatusCode response" "hr_StatusCode response < 300" "decode body = Some decoded"
    "ct_Choices decoded = cm_Output result # rest" "TrimSpace (cm_Output result) \<noteq> ''''"
proof -
  obtain req response where req: "chat_request L N p provider request = Inr req" "do req = Inr response"
      "chat_answer L N p decode response = Inr result"
    using assms by (auto simp: Complete_def split: sum.splits if_splits)
  obtain body where body: "hr_Body response = Inr body"
    using req(3) by (auto simp: chat_answer_def Let_def split: if_splits sum.splits)
  have "int (length (take (nat (oa_maxResponseBytes p + 1)) body)) \<le> oa_maxResponseBytes p"
    using req(3) body by (auto simp: chat_answer_def Let_def split: if_splits)
  note whole = limited_body [OF this]
  have ok: "200 \<le> hr_StatusCode response" "hr_StatusCode response < 300"
    using req(3) body whole(1) by (auto simp: chat_answer_def Let_def split: if_splits)
  obtain decoded where "decode body = Some decoded"
    using req(3) body whole(1) by (auto simp: chat_answer_def Let_def split: if_splits option.splits)
  moreover from this obtain rest where "ct_Choices decoded = cm_Output result # rest" "TrimSpace (cm_Output result) \<noteq> ''''"
    using req(3) body whole(1) by (auto simp: chat_answer_def Let_def split: if_splits list.splits)
  ultimately show thesis using that req(1,2) body whole(2) ok by blast
qed

end
