(* ===== verification/Store_Cached.thy ===== *)
theory Store_Cached
  imports Store_System
begin

text \<open>
  \<^verbatim>\<open>internal/store/cached.go\<close>: the repository behind a cache of Agents and Runs. The cache is a map from
  keys to values that may lose entries at any time (they expire) and whose calls may fail, which is
  logged and otherwise ignored: each operation takes the outcome of its cache calls. The methods that
  only call the inner repository are \<^verbatim>\<open>Cached_other\<close>.
\<close>

section \<open>The cache\<close>

datatype cache_value = CachedAgent Agent | CachedRun Run

definition agentKey :: "string \<Rightarrow> string" where "agentKey ident = ''agentmesh:agent:'' @ ident"
definition runKey :: "string \<Rightarrow> string" where "runKey ident = ''agentmesh:run:'' @ ident"

record Cached =
  cd_inner :: Memory
  cd_cache :: "(string, cache_value) gomap"

text \<open>Whether the calls of the cache succeed.\<close>

record cache_luck =
  cl_get :: bool
  cl_set :: bool
  cl_delete :: bool

definition NewCached :: "Memory \<Rightarrow> Cached" where
  "NewCached inner = \<lparr> cd_inner = inner, cd_cache = [] \<rparr>"

definition cached_set :: "cache_luck \<Rightarrow> string \<Rightarrow> cache_value \<Rightarrow> Cached \<Rightarrow> Cached" where
  "cached_set luck key value c = (if cl_set luck then c\<lparr>cd_cache := put key value (cd_cache c)\<rparr> else c)"

definition cached_delete :: "cache_luck \<Rightarrow> string \<Rightarrow> Cached \<Rightarrow> Cached" where
  "cached_delete luck key c = (if cl_delete luck then c\<lparr>cd_cache := del key (cd_cache c)\<rparr> else c)"

definition cache_expire :: "string \<Rightarrow> Cached \<Rightarrow> Cached" where
  "cache_expire key c = c\<lparr>cd_cache := del key (cd_cache c)\<rparr>"

section \<open>Agents\<close>

definition Cached_CreateAgent :: "golib \<Rightarrow> cache_luck \<Rightarrow> time \<Rightarrow> Agent \<Rightarrow> Cached \<Rightarrow> (store_error + Agent) \<times> Cached" where
  "Cached_CreateAgent L luck now agent c =
     (case CreateAgent L now agent (cd_inner c) of
        Inl e \<Rightarrow> (Inl e, c)
      | Inr (created, m) \<Rightarrow>
          (Inr created, cached_set luck (agentKey (a_ID created)) (CachedAgent created) (c\<lparr>cd_inner := m\<rparr>)))"

definition Cached_GetAgent :: "cache_luck \<Rightarrow> string \<Rightarrow> Cached \<Rightarrow> (store_error + Agent) \<times> Cached" where
  "Cached_GetAgent luck ident c =
     (case (if cl_get luck then get (cd_cache c) (agentKey ident) else None) of
        Some (CachedAgent agent) \<Rightarrow>
          if a_Version agent \<ge> 1 then (Inr agent, c)
          else (case GetAgent ident (cd_inner c) of
             Inl e \<Rightarrow> (Inl e, c)
           | Inr agent \<Rightarrow> (Inr agent, cached_set luck (agentKey ident) (CachedAgent agent) c))
      | _ \<Rightarrow>
          (case GetAgent ident (cd_inner c) of
             Inl e \<Rightarrow> (Inl e, c)
           | Inr agent \<Rightarrow> (Inr agent, cached_set luck (agentKey ident) (CachedAgent agent) c)))"

definition Cached_UpdateAgent :: "golib \<Rightarrow> cache_luck \<Rightarrow> time \<Rightarrow> Agent \<Rightarrow> int \<Rightarrow> Cached \<Rightarrow> (store_error + Agent) \<times> Cached" where
  "Cached_UpdateAgent L luck now agent expectedVersion c =
     (case UpdateAgent L now agent expectedVersion (cd_inner c) of
        Inl e \<Rightarrow> (Inl e, if e = ErrConflict \<or> e = ErrNotFound then cached_delete luck (agentKey (a_ID agent)) c else c)
      | Inr (updated, m) \<Rightarrow>
          (Inr updated, cached_set luck (agentKey (a_ID updated)) (CachedAgent updated) (c\<lparr>cd_inner := m\<rparr>)))"

definition Cached_DeleteAgent :: "cache_luck \<Rightarrow> string \<Rightarrow> int \<Rightarrow> Cached \<Rightarrow> store_error option \<times> Cached" where
  "Cached_DeleteAgent luck ident expectedVersion c =
     (case DeleteAgent ident expectedVersion (cd_inner c) of
        Inl e \<Rightarrow> (Some e, if e = ErrConflict \<or> e = ErrNotFound then cached_delete luck (agentKey ident) c else c)
      | Inr m \<Rightarrow> (None, cached_delete luck (agentKey ident) (c\<lparr>cd_inner := m\<rparr>)))"

section \<open>Runs\<close>

definition cache_created :: "cache_luck \<Rightarrow> Cached \<Rightarrow> store_error + ((Run \<times> bool) \<times> Memory) \<Rightarrow> (store_error + Run \<times> bool) \<times> Cached" where
  "cache_created luck c result =
     (case result of
        Inl e \<Rightarrow> (Inl e, c)
      | Inr ((created, isNew), m) \<Rightarrow>
          (Inr (created, isNew), cached_set luck (runKey (r_ID created)) (CachedRun created) (c\<lparr>cd_inner := m\<rparr>)))"

definition Cached_CreateRun :: "cache_luck \<Rightarrow> Run \<Rightarrow> string \<Rightarrow> Cached \<Rightarrow> (store_error + Run \<times> bool) \<times> Cached" where
  "Cached_CreateRun luck run idempotencyKey c = cache_created luck c (CreateRun run idempotencyKey (cd_inner c))"

definition Cached_CreateChildRun :: "cache_luck \<Rightarrow> Run \<Rightarrow> string \<Rightarrow> int \<Rightarrow> Cached \<Rightarrow> (store_error + Run \<times> bool) \<times> Cached" where
  "Cached_CreateChildRun luck run idempotencyKey maxChildren c =
     cache_created luck c (CreateChildRun run idempotencyKey maxChildren (cd_inner c))"

text \<open>Reading a Run: from the cache, or from the inner repository and then into the cache.\<close>

definition read_inner :: "string \<Rightarrow> Cached \<Rightarrow> store_error + Run" where
  "read_inner ident c = GetRun ident (cd_inner c)"

definition cache_read :: "cache_luck \<Rightarrow> string \<Rightarrow> store_error + Run \<Rightarrow> Cached \<Rightarrow> Cached" where
  "cache_read luck ident result c =
     (case result of Inl _ \<Rightarrow> c | Inr run \<Rightarrow> cached_set luck (runKey ident) (CachedRun run) c)"

definition Cached_GetRun :: "cache_luck \<Rightarrow> string \<Rightarrow> Cached \<Rightarrow> (store_error + Run) \<times> Cached" where
  "Cached_GetRun luck ident c =
     (case (if cl_get luck then get (cd_cache c) (runKey ident) else None) of
        Some (CachedRun run) \<Rightarrow> (Inr run, c)
      | _ \<Rightarrow> (read_inner ident c, cache_read luck ident (read_inner ident c) c))"

definition cache_updated :: "cache_luck \<Rightarrow> Run \<Rightarrow> Cached \<Rightarrow> store_error + Memory \<Rightarrow> store_error option \<times> Cached" where
  "cache_updated luck run c result =
     (case result of
        Inl e \<Rightarrow> (Some e, if e = ErrRunCanceled \<or> e = ErrStaleExecution then cached_delete luck (runKey (r_ID run)) c else c)
      | Inr m \<Rightarrow> (None, cached_set luck (runKey (r_ID run)) (CachedRun run) (c\<lparr>cd_inner := m\<rparr>)))"

definition Cached_UpdateRun :: "cache_luck \<Rightarrow> Run \<Rightarrow> Cached \<Rightarrow> store_error option \<times> Cached" where
  "Cached_UpdateRun luck run c = cache_updated luck run c (UpdateRun run (cd_inner c))"

definition Cached_UpdateRunFenced :: "cache_luck \<Rightarrow> Run \<Rightarrow> int \<Rightarrow> Cached \<Rightarrow> store_error option \<times> Cached" where
  "Cached_UpdateRunFenced luck run fence c = cache_updated luck run c (UpdateRunFenced run fence (cd_inner c))"

definition Cached_ClaimRunExecution :: "cache_luck \<Rightarrow> string \<Rightarrow> int \<Rightarrow> Cached \<Rightarrow> (store_error + int) \<times> Cached" where
  "Cached_ClaimRunExecution luck ident minimumFence c =
     (case ClaimRunExecution ident minimumFence (cd_inner c) of
        Inl e \<Rightarrow> (Inl e, cached_delete luck (runKey ident) c)
      | Inr (fence, m) \<Rightarrow> (Inr fence, c\<lparr>cd_inner := m\<rparr>))"

text \<open>A refused cancellation also returns the stored Run, which is cached.\<close>

definition Cached_CancelRun :: "cache_luck \<Rightarrow> string \<Rightarrow> time \<Rightarrow> Cached \<Rightarrow> (store_error + Run) \<times> Cached" where
  "Cached_CancelRun luck ident at c =
     (case CancelRun ident at (cd_inner c) of
        Inl e \<Rightarrow> (Inl e,
          case get (m_runs (cd_inner c)) ident of
            Some run \<Rightarrow> if r_ID run \<noteq> '''' then cached_set luck (runKey (r_ID run)) (CachedRun run) c else c
          | None \<Rightarrow> c)
      | Inr (run, m) \<Rightarrow>
          (Inr run, if r_ID run \<noteq> '''' then cached_set luck (runKey (r_ID run)) (CachedRun run) (c\<lparr>cd_inner := m\<rparr>)
                    else c\<lparr>cd_inner := m\<rparr>))"

definition Cached_RecoverRun :: "cache_luck \<Rightarrow> string \<Rightarrow> int \<Rightarrow> Cached \<Rightarrow> (store_error + bool) \<times> Cached" where
  "Cached_RecoverRun luck ident minimumFence c =
     (case RecoverRun ident minimumFence (cd_inner c) of
        Inl e \<Rightarrow> (Inl e, c)
      | Inr (changed, m) \<Rightarrow>
          (Inr changed, if changed then cached_delete luck (runKey ident) (c\<lparr>cd_inner := m\<rparr>) else c\<lparr>cd_inner := m\<rparr>))"

text \<open>The methods that only pass through.\<close>

definition Cached_other :: "golib \<Rightarrow> store_op \<Rightarrow> Cached \<Rightarrow> Cached" where
  "Cached_other L op c = c\<lparr>cd_inner := store_exec L op (cd_inner c)\<rparr>"

section \<open>Sequences of operations\<close>

datatype cached_op = CachedWrite store_op | CachedReadAgent string | CachedReadRun string | CacheExpires string

fun cached_exec :: "golib \<Rightarrow> cache_luck \<Rightarrow> cached_op \<Rightarrow> Cached \<Rightarrow> Cached" where
  "cached_exec L luck (CachedWrite (OpCreateAgent now agent)) c = snd (Cached_CreateAgent L luck now agent c)"
| "cached_exec L luck (CachedWrite (OpUpdateAgent now agent v)) c = snd (Cached_UpdateAgent L luck now agent v c)"
| "cached_exec L luck (CachedWrite (OpDeleteAgent k v)) c = snd (Cached_DeleteAgent luck k v c)"
| "cached_exec L luck (CachedWrite (OpCreateRun run key)) c = snd (Cached_CreateRun luck run key c)"
| "cached_exec L luck (CachedWrite (OpCreateChildRun run key n)) c = snd (Cached_CreateChildRun luck run key n c)"
| "cached_exec L luck (CachedWrite (OpUpdateRun run)) c = snd (Cached_UpdateRun luck run c)"
| "cached_exec L luck (CachedWrite (OpUpdateRunFenced run f)) c = snd (Cached_UpdateRunFenced luck run f c)"
| "cached_exec L luck (CachedWrite (OpClaimRunExecution k f)) c = snd (Cached_ClaimRunExecution luck k f c)"
| "cached_exec L luck (CachedWrite (OpCancelRun k at)) c = snd (Cached_CancelRun luck k at c)"
| "cached_exec L luck (CachedWrite (OpRecoverRun k f)) c = snd (Cached_RecoverRun luck k f c)"
| "cached_exec L luck (CachedWrite op) c = Cached_other L op c"
| "cached_exec L luck (CachedReadAgent k) c = snd (Cached_GetAgent luck k c)"
| "cached_exec L luck (CachedReadRun k) c = snd (Cached_GetRun luck k c)"
| "cached_exec L luck (CacheExpires key) c = cache_expire key c"

fun cached_execs :: "golib \<Rightarrow> (cache_luck \<times> cached_op) list \<Rightarrow> Cached \<Rightarrow> Cached" where
  "cached_execs L [] c = c"
| "cached_execs L ((luck, op) # ops) c = cached_execs L ops (cached_exec L luck op c)"

section \<open>The inner repository\<close>

text \<open>What the cache does never shows in the inner repository: it performs the operations themselves.\<close>

fun inner_op :: "cached_op \<Rightarrow> store_op list" where
  "inner_op (CachedWrite op) = [op]"
| "inner_op _ = []"

definition inner_ops :: "(cache_luck \<times> cached_op) list \<Rightarrow> store_op list" where
  "inner_ops ops = concat (map (inner_op \<circ> snd) ops)"

lemma inner_cached [simp]:
  "cd_inner (cached_set luck key v c) = cd_inner c" "cd_inner (cached_delete luck key c) = cd_inner c"
  "cd_inner (cache_expire key c) = cd_inner c" "cd_inner (cache_read luck k r c) = cd_inner c"
  by (simp_all add: cached_set_def cached_delete_def cache_expire_def cache_read_def split: sum.splits)

lemmas cached_ops = Cached_CreateAgent_def Cached_UpdateAgent_def Cached_DeleteAgent_def Cached_CreateRun_def
  Cached_CreateChildRun_def cache_created_def Cached_UpdateRun_def Cached_UpdateRunFenced_def cache_updated_def
  Cached_ClaimRunExecution_def Cached_CancelRun_def Cached_RecoverRun_def

lemma cached_exec_inner: "cd_inner (cached_exec L luck op c) = store_execs L (inner_op op) (cd_inner c)"
proof (cases op)
  case (CachedWrite w)
  then show ?thesis
    by (cases w) (auto simp: cached_ops Cached_other_def state_of_def state_of'_def split: sum.splits option.splits prod.splits)
next
  case (CachedReadAgent k)
  then show ?thesis by (auto simp: Cached_GetAgent_def split: option.splits sum.splits cache_value.splits)
next
  case (CachedReadRun k)
  then show ?thesis by (auto simp: Cached_GetRun_def split: option.splits cache_value.splits)
qed simp

lemma cached_execs_inner: "cd_inner (cached_execs L ops c) = store_execs L (inner_ops ops) (cd_inner c)"
proof (induction ops arbitrary: c)
  case (Cons x ops)
  then show ?case by (cases x) (simp add: inner_ops_def cached_exec_inner execs_append)
qed (simp add: inner_ops_def)

section \<open>Coherence\<close>

text \<open>What the inner repository has under a key of the cache.\<close>

definition stored :: "Memory \<Rightarrow> string \<Rightarrow> cache_value option" where
  "stored m key =
     (if HasPrefix key (agentKey '''') then map_option CachedAgent (get (m_agents m) (drop (length (agentKey '''')) key))
      else if HasPrefix key (runKey '''') then map_option CachedRun (get (m_runs m) (drop (length (runKey '''')) key))
      else None)"

lemma stored_agent: "stored m (agentKey k) = map_option CachedAgent (get (m_agents m) k)"
  by (simp add: stored_def agentKey_def)

lemma stored_run: "stored m (runKey k) = map_option CachedRun (get (m_runs m) k)"
  by (simp add: stored_def agentKey_def runKey_def)

lemma stored_agents_put:
  "key \<noteq> agentKey k \<Longrightarrow> stored (m\<lparr>m_agents := put k a ags\<rparr>) key = stored (m\<lparr>m_agents := ags\<rparr>) key"
  "key \<noteq> agentKey k \<Longrightarrow> stored (m\<lparr>m_agents := del k ags\<rparr>) key = stored (m\<lparr>m_agents := ags\<rparr>) key"
  by (auto simp: stored_def agentKey_def prefix_def)

lemma stored_runs_put:
  "key \<noteq> runKey k \<Longrightarrow> m_agents m' = m_agents m \<Longrightarrow> m_runs m' = put k r (m_runs m) \<Longrightarrow> stored m' key = stored m key"
  by (auto simp: stored_def agentKey_def runKey_def prefix_def)

lemma stored_same: "m_agents m' = m_agents m \<Longrightarrow> m_runs m' = m_runs m \<Longrightarrow> stored m' = stored m"
  by (simp add: stored_def fun_eq_iff)

text \<open>
  The contract of a cache, for whoever keeps it in step with a repository: what is found after an entry is
  set or removed. An entry that is set must be what the repository then has.
\<close>

locale cache =
  fixes find :: "'c \<Rightarrow> string \<Rightarrow> 'v option" and store :: "string \<Rightarrow> 'v \<Rightarrow> 'c \<Rightarrow> 'c" and remove :: "string \<Rightarrow> 'c \<Rightarrow> 'c"
  assumes find_store: "find (store k v c) k' = (if k' = k then Some v else find c k')"
    and find_remove: "find (remove k c) k' = (if k' = k then None else find c k')"
begin

definition agrees :: "(string \<Rightarrow> 'v option) \<Rightarrow> 'c \<Rightarrow> bool" where
  "agrees f c \<longleftrightarrow> (\<forall>k v. find c k = Some v \<longrightarrow> f k = Some v)"

lemma agrees_store:
  assumes "agrees f c" and "\<And>k'. k' \<noteq> k \<Longrightarrow> f' k' = f k'" and "f' k = Some v"
  shows "agrees f' (store k v c)"
  using assms by (auto simp: agrees_def find_store)

lemma agrees_remove:
  assumes "agrees f c" and "\<And>k'. k' \<noteq> k \<Longrightarrow> f' k' = f k'"
  shows "agrees f' (remove k c)"
  using assms by (auto simp: agrees_def find_remove split: if_splits)

lemma agrees_find: "agrees f c \<Longrightarrow> find c k = Some v \<Longrightarrow> f k = Some v"
  by (simp add: agrees_def)

end

interpretation mapped: cache get put del
  by unfold_locales auto

definition coherent :: "Cached \<Rightarrow> bool" where
  "coherent c \<longleftrightarrow> mapped.agrees (stored (cd_inner c)) (cd_cache c)"

text \<open>A caller that updates a Run gives back the lineage it has read.\<close>

fun lineage_given :: "Memory \<Rightarrow> cached_op \<Rightarrow> bool" where
  "lineage_given m (CachedWrite (OpUpdateRun run)) \<longleftrightarrow>
     (case get (m_runs m) (r_ID run) of None \<Rightarrow> True | Some existing \<Rightarrow> keep_lineage existing run = run)"
| "lineage_given m (CachedWrite (OpUpdateRunFenced run f)) \<longleftrightarrow>
     (case get (m_runs m) (r_ID run) of None \<Rightarrow> True | Some existing \<Rightarrow> keep_lineage existing run = run)"
| "lineage_given m _ \<longleftrightarrow> True"

definition works :: "cache_luck \<Rightarrow> bool" where
  "works luck \<longleftrightarrow> cl_set luck \<and> cl_delete luck"

lemma coherent_set:
  assumes "coherent c" and "works luck" and "\<And>k'. k' \<noteq> key \<Longrightarrow> stored m' k' = stored (cd_inner c) k'" and "stored m' key = Some v"
  shows "coherent (cached_set luck key v (c\<lparr>cd_inner := m'\<rparr>))"
  using mapped.agrees_store [OF assms(1) [unfolded coherent_def] assms(3,4)] assms(2)
  by (simp add: coherent_def cached_set_def works_def)

lemma coherent_delete:
  assumes "coherent c" and "works luck" and "\<And>k'. k' \<noteq> key \<Longrightarrow> stored m' k' = stored (cd_inner c) k'"
  shows "coherent (cached_delete luck key (c\<lparr>cd_inner := m'\<rparr>))"
  using mapped.agrees_remove [OF assms(1) [unfolded coherent_def] assms(3)] assms(2)
  by (simp add: coherent_def cached_delete_def works_def)

lemma coherent_keep: "coherent c \<Longrightarrow> stored m' = stored (cd_inner c) \<Longrightarrow> coherent (c\<lparr>cd_inner := m'\<rparr>)"
  by (simp add: coherent_def)

lemma coherent_here:
  assumes "coherent c" and "works luck"
  shows "stored (cd_inner c) key = Some v \<Longrightarrow> coherent (cached_set luck key v c)"
    "coherent (cached_delete luck key c)"
  using coherent_set [OF assms, of key "cd_inner c"] coherent_delete [OF assms, of key "cd_inner c"] by simp_all

lemma coherent_CreateAgent:
  assumes "coherent c" and "works luck"
  shows "coherent (snd (Cached_CreateAgent L luck now agent c))"
proof (cases "CreateAgent L now agent (cd_inner c)")
  case (Inr x)
  obtain created m where x: "x = (created, m)" by (cases x)
  have m: "m = (cd_inner c)\<lparr>m_agents := put (a_ID created) created (m_agents (cd_inner c))\<rparr>"
    using Inr x by (auto simp: CreateAgent_def split: sum.splits if_splits)
  show ?thesis
    using Inr x m by (auto simp: Cached_CreateAgent_def stored_agent stored_agents_put intro!: coherent_set assms)
qed (simp add: Cached_CreateAgent_def assms)

lemma coherent_UpdateAgent:
  assumes "coherent c" and "works luck"
  shows "coherent (snd (Cached_UpdateAgent L luck now agent v c))"
proof (cases "UpdateAgent L now agent v (cd_inner c)")
  case (Inl e)
  then show ?thesis using assms by (auto simp: Cached_UpdateAgent_def intro: coherent_here)
next
  case (Inr x)
  obtain updated m where x: "x = (updated, m)" by (cases x)
  have m: "m = (cd_inner c)\<lparr>m_agents := put (a_ID updated) updated (m_agents (cd_inner c))\<rparr>"
    using Inr x by (auto simp: UpdateAgent_def Let_def split: sum.splits option.splits if_splits)
  show ?thesis
    using Inr x m by (auto simp: Cached_UpdateAgent_def stored_agent stored_agents_put intro!: coherent_set assms)
qed

lemma coherent_DeleteAgent:
  assumes "coherent c" and "works luck"
  shows "coherent (snd (Cached_DeleteAgent luck k v c))"
proof (cases "DeleteAgent k v (cd_inner c)")
  case (Inl e)
  then show ?thesis using assms by (auto simp: Cached_DeleteAgent_def intro: coherent_here)
next
  case (Inr m)
  then have m: "m = (cd_inner c)\<lparr>m_agents := del k (m_agents (cd_inner c))\<rparr>"
    by (auto simp: DeleteAgent_def split: option.splits if_splits)
  show ?thesis
    using Inr m by (auto simp: Cached_DeleteAgent_def stored_agents_put intro!: coherent_delete assms)
qed

text \<open>A Run that creation returns is stored under its identifier; nothing else changes.\<close>

lemma created_stored:
  assumes "runs_inv m" and "createRunLocked run key m = Inr ((created, isNew), m')"
  shows "get (m_runs m') (r_ID created) = Some created" "m_agents m' = m_agents m"
    "m_runs m' = m_runs m \<or> m_runs m' = put (r_ID created) created (m_runs m)"
proof -
  have "get (m_runs m') (r_ID created) = Some created \<and> m_agents m' = m_agents m
    \<and> (m_runs m' = m_runs m \<or> m_runs m' = put (r_ID created) created (m_runs m))"
  proof (cases "if key \<noteq> '''' then get (m_idempotencyKeys m) key else None")
    case (Some k)
    then have "get (m_idempotencyKeys m) key = Some k" by (simp split: if_splits)
    then obtain r where r: "get (m_runs m) k = Some r" using assms(1) unfolding runs_inv_def by blast
    moreover have "r_ID r = k" using assms(1) keyedD [OF _ r] by (simp add: runs_inv_def)
    ultimately show ?thesis using assms(2) Some by (auto simp: createRunLocked_def get_or_def)
  next
    case None
    then show ?thesis
      using assms(2) by (auto simp: createRunLocked_def store_run_def Let_def split: option.splits if_splits sum.splits)
  qed
  then show "get (m_runs m') (r_ID created) = Some created" "m_agents m' = m_agents m"
    "m_runs m' = m_runs m \<or> m_runs m' = put (r_ID created) created (m_runs m)" by blast+
qed

lemma coherent_created:
  assumes "coherent c" and "works luck" and "runs_inv (cd_inner c)"
    and "\<And>x. result = Inr x \<Longrightarrow> createRunLocked run key (cd_inner c) = Inr x"
  shows "coherent (snd (cache_created luck c result))"
proof (cases result)
  case (Inr x)
  obtain created isNew m where x: "x = ((created, isNew), m)" by (cases x) auto
  note facts = created_stored [OF assms(3) assms(4) [OF Inr, unfolded x]]
  have "stored m k' = stored (cd_inner c) k'" if "k' \<noteq> runKey (r_ID created)" for k'
    using facts(2,3) stored_runs_put [OF that facts(2)] stored_same [OF facts(2)] by metis
  then show ?thesis
    using Inr x facts(1) by (auto simp: cache_created_def stored_run intro!: coherent_set assms(1,2))
qed (simp add: cache_created_def assms(1))

lemma coherent_CreateRun:
  assumes "coherent c" and "works luck" and "runs_inv (cd_inner c)"
  shows "coherent (snd (Cached_CreateRun luck run key c))" "coherent (snd (Cached_CreateChildRun luck run key n c))"
proof -
  show "coherent (snd (Cached_CreateRun luck run key c))"
    unfolding Cached_CreateRun_def by (rule coherent_created [OF assms, of _ run key]) (simp add: CreateRun_def)
  have "createRunLocked run key (cd_inner c) = Inr x" if "CreateChildRun run key n (cd_inner c) = Inr x" for x
    using that by (auto simp: CreateChildRun_def createRunLocked_def split: if_splits option.splits)
  then show "coherent (snd (Cached_CreateChildRun luck run key n c))"
    unfolding Cached_CreateChildRun_def by (rule coherent_created [OF assms])
qed

lemma coherent_updated:
  assumes "coherent c" and "works luck"
    and "\<And>m. result = Inr m \<Longrightarrow> m_agents m = m_agents (cd_inner c) \<and> m_runs m = put (r_ID run) run (m_runs (cd_inner c))"
  shows "coherent (snd (cache_updated luck run c result))"
proof (cases result)
  case (Inl e)
  then show ?thesis using assms(1,2) by (auto simp: cache_updated_def intro: coherent_here)
next
  case (Inr m)
  note m = assms(3) [OF Inr]
  then show ?thesis
    using Inr by (auto simp: cache_updated_def stored_run intro!: coherent_set stored_runs_put assms(1,2))
qed

lemma coherent_UpdateRun:
  assumes "coherent c" and "works luck"
  shows "lineage_given (cd_inner c) (CachedWrite (OpUpdateRun run)) \<Longrightarrow> coherent (snd (Cached_UpdateRun luck run c))"
    "lineage_given (cd_inner c) (CachedWrite (OpUpdateRunFenced run f)) \<Longrightarrow> coherent (snd (Cached_UpdateRunFenced luck run f c))"
proof -
  show "coherent (snd (Cached_UpdateRun luck run c))" if "lineage_given (cd_inner c) (CachedWrite (OpUpdateRun run))"
    unfolding Cached_UpdateRun_def
    by (rule coherent_updated [OF assms]) (use that in \<open>auto simp: UpdateRun_def split: option.splits if_splits\<close>)
  show "coherent (snd (Cached_UpdateRunFenced luck run f c))" if "lineage_given (cd_inner c) (CachedWrite (OpUpdateRunFenced run f))"
    unfolding Cached_UpdateRunFenced_def
    by (rule coherent_updated [OF assms]) (use that in \<open>auto simp: UpdateRunFenced_def split: option.splits if_splits\<close>)
qed

lemma coherent_ClaimRunExecution:
  assumes "coherent c" and "works luck"
  shows "coherent (snd (Cached_ClaimRunExecution luck k f c))"
proof (cases "ClaimRunExecution k f (cd_inner c)")
  case (Inl e)
  then show ?thesis using assms by (simp add: Cached_ClaimRunExecution_def coherent_here)
next
  case (Inr x)
  then have "m_agents (snd x) = m_agents (cd_inner c)" "m_runs (snd x) = m_runs (cd_inner c)"
    by (auto simp: ClaimRunExecution_def Let_def split: option.splits if_splits)
  then have "stored (snd x) = stored (cd_inner c)" by (rule stored_same)
  then show ?thesis
    using Inr coherent_keep [OF assms(1), of "snd x"] by (auto simp: Cached_ClaimRunExecution_def split: prod.splits)
qed

lemma coherent_CancelRun:
  assumes "coherent c" and "works luck" and "runs_inv (cd_inner c)"
  shows "coherent (snd (Cached_CancelRun luck k at c))"
proof (cases "CancelRun k at (cd_inner c)")
  case (Inl e)
  have "get (m_runs (cd_inner c)) (r_ID run) = Some run" if "get (m_runs (cd_inner c)) k = Some run" for run
    using that assms(3) keyedD [of r_ID "m_runs (cd_inner c)" k run] by (simp add: runs_inv_def)
  then show ?thesis
    using Inl assms(1,2) by (auto simp: Cached_CancelRun_def stored_run split: option.splits intro: coherent_here(1))
next
  case (Inr x)
  obtain run m where x: "x = (run, m)" by (cases x)
  obtain old where old: "get (m_runs (cd_inner c)) k = Some old" "Run_Cancel old at = Inr run"
    and m: "m = (cd_inner c)\<lparr>m_runs := put k run (m_runs (cd_inner c))\<rparr>"
    using Inr x by (auto simp: CancelRun_def split: option.splits sum.splits)
  have "r_ID run = r_ID old" using old(2) by (auto simp: Run_Cancel_def Let_def split: if_splits)
  then have run: "r_ID run = k" "k \<noteq> ''''"
    using assms(3) old(1) keyedD [of r_ID "m_runs (cd_inner c)" k old] by (auto simp: runs_inv_def)
  have "coherent (cached_set luck (runKey k) (CachedRun run) (c\<lparr>cd_inner := m\<rparr>))"
    by (rule coherent_set [OF assms(1,2)]) (auto simp: m stored_run intro: stored_runs_put)
  then show ?thesis using Inr x run by (simp add: Cached_CancelRun_def)
qed

lemma coherent_RecoverRun:
  assumes "coherent c" and "works luck"
  shows "coherent (snd (Cached_RecoverRun luck k f c))"
proof (cases "RecoverRun k f (cd_inner c)")
  case (Inr x)
  obtain changed m where x: "x = (changed, m)" by (cases x)
  have m: "m_agents m = m_agents (cd_inner c)" "\<not> changed \<Longrightarrow> m = cd_inner c" "changed \<Longrightarrow> \<exists>r. m_runs m = put k r (m_runs (cd_inner c))"
    using Inr x by (auto simp: RecoverRun_def Let_def split: option.splits if_splits)
  have "coherent (cached_delete luck (runKey k) (c\<lparr>cd_inner := m\<rparr>))" if changed
    using m(3) [OF that] stored_runs_put [OF _ m(1)] by (intro coherent_delete [OF assms]) blast
  then show ?thesis using Inr x m(2) assms(1) by (auto simp: Cached_RecoverRun_def)
qed (simp add: Cached_RecoverRun_def assms(1))

text \<open>Reads give what is stored, and cache nothing else.\<close>

lemma coherent_find:
  assumes "coherent c"
  shows "get (cd_cache c) (runKey k) = Some v \<Longrightarrow> \<exists>run. v = CachedRun run \<and> get (m_runs (cd_inner c)) k = Some run"
    "get (cd_cache c) (agentKey k) = Some v \<Longrightarrow> \<exists>agent. v = CachedAgent agent \<and> get (m_agents (cd_inner c)) k = Some agent"
  using mapped.agrees_find [OF assms [unfolded coherent_def], of "runKey k" v]
    mapped.agrees_find [OF assms [unfolded coherent_def], of "agentKey k" v]
  by (auto simp: stored_run stored_agent)

lemma reads_exact:
  assumes "coherent c"
  shows "fst (Cached_GetRun luck k c) = GetRun k (cd_inner c)" "fst (Cached_GetAgent luck k c) = GetAgent k (cd_inner c)"
  using coherent_find [OF assms, of k]
  by (auto simp: Cached_GetRun_def Cached_GetAgent_def GetRun_def GetAgent_def read_inner_def split: option.splits cache_value.splits)

lemma coherent_reads:
  assumes "coherent c" and "works luck"
  shows "coherent (snd (Cached_GetRun luck k c))" "coherent (snd (Cached_GetAgent luck k c))"
proof -
  have "coherent (cache_read luck k (read_inner k c) c)"
    by (auto simp: cache_read_def read_inner_def GetRun_def stored_run intro!: coherent_here(1) assms split: option.splits sum.splits)
  then show "coherent (snd (Cached_GetRun luck k c))"
    using assms(1) by (auto simp: Cached_GetRun_def split: option.splits cache_value.splits)
  have "coherent (cached_set luck (agentKey k) (CachedAgent a) c)" if "GetAgent k (cd_inner c) = Inr a" for a
    using that by (auto simp: GetAgent_def stored_agent intro!: coherent_here(1) assms split: option.splits)
  then show "coherent (snd (Cached_GetAgent luck k c))"
    using assms(1) by (auto simp: Cached_GetAgent_def split: option.splits cache_value.splits sum.splits)
qed

lemma coherent_expire: "coherent c \<Longrightarrow> coherent (cache_expire key c)"
  using mapped.agrees_remove [of "stored (cd_inner c)" "cd_cache c" key] by (simp add: coherent_def cache_expire_def)

lemma stored_untouched:
  assumes "\<not> touches_runs op" and "\<forall>now a. op \<noteq> OpCreateAgent now a" and "\<forall>now a v. op \<noteq> OpUpdateAgent now a v"
    and "\<forall>k v. op \<noteq> OpDeleteAgent k v"
  shows "stored (store_exec L op m) = stored m"
  using exec_runs_frame [OF assms(1)] exec_agents_frame [OF assms(2-4)] by (intro stored_same) auto

lemma coherent_exec:
  assumes "coherent c" and "works luck" and "runs_inv (cd_inner c)" and "lineage_given (cd_inner c) op"
  shows "coherent (cached_exec L luck op c)"
proof (cases op)
  case (CachedWrite w)
  show ?thesis
  proof (cases "touches_runs w \<or> (\<exists>now a. w = OpCreateAgent now a) \<or> (\<exists>now a v. w = OpUpdateAgent now a v) \<or> (\<exists>k v. w = OpDeleteAgent k v)")
    case True
    then show ?thesis
      using assms(4) unfolding CachedWrite
      by (cases w) (simp_all add: assms(1-3) coherent_CreateAgent coherent_UpdateAgent coherent_DeleteAgent coherent_CreateRun
          coherent_UpdateRun coherent_ClaimRunExecution coherent_CancelRun coherent_RecoverRun)
  next
    case False
    then have "coherent (Cached_other L w c)"
      unfolding Cached_other_def using stored_untouched [of w L "cd_inner c"] by (intro coherent_keep assms(1)) blast
    then show ?thesis using False unfolding CachedWrite by (cases w) simp_all
  qed
qed (simp_all add: assms coherent_reads coherent_expire)

text \<open>Along a sequence of operations: fresh identifiers, given lineages, and a cache whose writes succeed.\<close>

fun well_used :: "golib \<Rightarrow> (cache_luck \<times> cached_op) list \<Rightarrow> Cached \<Rightarrow> bool" where
  "well_used L [] c \<longleftrightarrow> True"
| "well_used L ((luck, op) # ops) c \<longleftrightarrow> works luck \<and> lineage_given (cd_inner c) op \<and> list_all (op_fresh (cd_inner c)) (inner_op op)
     \<and> well_used L ops (cached_exec L luck op c)"

lemma coherent_execs:
  assumes "coherent c" and "store_inv (cd_inner c)" and "well_used L ops c"
  shows "coherent (cached_execs L ops c)"
  using assms
proof (induction ops arbitrary: c)
  case (Cons x ops)
  obtain luck op where x: "x = (luck, op)" by (cases x)
  have "coherent (cached_exec L luck op c)"
    using Cons.prems x by (auto simp: store_inv_def intro: coherent_exec)
  moreover have "store_inv (store_execs L (inner_op op) (cd_inner c))"
    by (cases op) (use Cons.prems x in \<open>auto intro: exec_store_inv\<close>)
  then have "store_inv (cd_inner (cached_exec L luck op c))" by (simp only: cached_exec_inner)
  ultimately show ?case using Cons x by simp
qed simp

section \<open>Properties\<close>

text \<open>
  C25: The cache is invisible. Starting with an empty cache over a consistent repository, after any sequence
  of operations and reads, with entries expiring at any time and cache reads failing at any time,
  the inner repository is what it would be without the cache, and reading an Agent or a Run through the
  cache gives exactly what the repository has. This holds when operations do not overlap,
  cache writes and deletions succeed, and an update of a Run carries the lineage it was read with.
\<close>

theorem cached_store_transparent:
  assumes "store_inv m" and "well_used L ops (NewCached m)" and "c = cached_execs L ops (NewCached m)"
  shows "cd_inner c = store_execs L (inner_ops ops) m
    \<and> fst (Cached_GetRun luck k c) = GetRun k (store_execs L (inner_ops ops) m)
    \<and> fst (Cached_GetAgent luck k c) = GetAgent k (store_execs L (inner_ops ops) m)"
proof -
  have "coherent (NewCached m)" by (simp add: NewCached_def coherent_def mapped.agrees_def)
  then have "coherent c" unfolding assms(3) by (rule coherent_execs) (use assms(1,2) in \<open>simp_all add: NewCached_def\<close>)
  moreover have "cd_inner c = store_execs L (inner_ops ops) m" unfolding assms(3) by (simp add: cached_execs_inner NewCached_def)
  ultimately show ?thesis using reads_exact by metis
qed

definition sample_luck :: cache_luck where
  "sample_luck = \<lparr> cl_get = True, cl_set = True, cl_delete = True \<rparr>"

text \<open>A Run is created, read, cancelled, and its entry expires.\<close>

definition sample_cached_ops :: "(cache_luck \<times> cached_op) list" where
  "sample_cached_ops = map (Pair sample_luck)
     [CachedWrite (OpCreateAgent 5 sample_agent), CachedWrite (OpCreateRun (zero_run\<lparr>r_ID := ''r'', r_AgentID := ''a''\<rparr>) ''''),
      CachedReadRun ''r'', CachedWrite (OpCancelRun ''r'' 9), CacheExpires (agentKey ''a'')]"

theorem cached_store_transparent_witness:
  "fst (Cached_GetRun sample_luck ''r'' (cached_execs sample_lib sample_cached_ops (NewCached NewMemory)))
     = GetRun ''r'' (store_execs sample_lib (inner_ops sample_cached_ops) NewMemory)"
proof -
  have "well_used sample_lib sample_cached_ops (NewCached NewMemory)" by code_simp
  from cached_store_transparent [OF store_inv_new this refl, of sample_luck "''r''"] show ?thesis by blast
qed

text \<open>
  Overlapping operations are another matter. A reader that misses the cache and reads a queued Run, is overtaken
  by a cancellation, and only then writes what it has read to the cache, leaves the Run queued in the
  cache until the entry expires.
\<close>

definition sample_cached :: Cached where
  "sample_cached = NewCached (store_exec sample_lib (OpCreateRun (zero_run\<lparr>r_ID := ''r'', r_AgentID := ''a''\<rparr>) '''') NewMemory)"

lemma overtaken_read_leaves_stale_entry:
  "let seen = read_inner ''r'' sample_cached;
       c = cache_read sample_luck ''r'' seen (snd (Cached_CancelRun sample_luck ''r'' 9 sample_cached)) in
   fst (Cached_GetRun sample_luck ''r'' c) = seen \<and> GetRun ''r'' (cd_inner c) \<noteq> seen"
  by code_simp

text \<open>So does an update whose cache write fails: the entry of the previous version is not removed.\<close>

lemma failed_cache_write_leaves_stale_entry:
  "let c = snd (Cached_GetRun sample_luck ''r'' sample_cached);
       c' = snd (Cached_CancelRun (sample_luck\<lparr>cl_set := False\<rparr>) ''r'' 9 c) in
   fst (Cached_GetRun sample_luck ''r'' c') \<noteq> GetRun ''r'' (cd_inner c')"
  by code_simp

end
