(* ===== verification/Programs.thy ===== *)
theory Programs
  imports Prelude
begin

text \<open>
  Handlers of requests as programs of atomic steps. The store, the queue, the event bus and the other
  services each take a lock for the time of one call, so a handler is a sequence of such calls, and
  anything may happen between two of them. A program is either an answer or one call with what
  follows from its result; it is served with a list of disturbances, one before each call.
\<close>

datatype ('s, 'r) prog = Respond 'r | Atom "'s \<Rightarrow> 's" "'s \<Rightarrow> ('s, 'r) prog"

text \<open>A call that only reads, and one that also changes the state.\<close>

definition ask :: "('s \<Rightarrow> 'a) \<Rightarrow> ('a \<Rightarrow> ('s, 'r) prog) \<Rightarrow> ('s, 'r) prog" where
  "ask f k = Atom (\<lambda>s. s) (\<lambda>s. k (f s))"

definition act :: "('s \<Rightarrow> 'a \<times> 's) \<Rightarrow> ('a \<Rightarrow> ('s, 'r) prog) \<Rightarrow> ('s, 'r) prog" where
  "act f k = Atom (\<lambda>s. snd (f s)) (\<lambda>s. k (fst (f s)))"

definition disturb :: "('s \<Rightarrow> 's) list \<Rightarrow> 's \<Rightarrow> 's" where
  "disturb envs s = (case envs of [] \<Rightarrow> s | g # _ \<Rightarrow> g s)"

text \<open>The calls made, each with the state before and after it, the answer and the state at the end.\<close>

primrec served :: "('s, 'r) prog \<Rightarrow> ('s \<Rightarrow> 's) list \<Rightarrow> 's \<Rightarrow> ('s \<times> 's) list \<times> 'r \<times> 's" where
  "served (Respond r) envs s = ([], r, s)"
| "served (Atom effect cont) envs s =
     (let s1 = disturb envs s; rest = served (cont s1) (tl envs) (effect s1) in
      ((s1, effect s1) # fst rest, snd rest))"

definition answer :: "('s, 'r) prog \<Rightarrow> ('s \<Rightarrow> 's) list \<Rightarrow> 's \<Rightarrow> 'r" where
  "answer p envs s = fst (snd (served p envs s))"

definition final :: "('s, 'r) prog \<Rightarrow> ('s \<Rightarrow> 's) list \<Rightarrow> 's \<Rightarrow> 's" where
  "final p envs s = snd (snd (served p envs s))"

definition calls :: "('s, 'r) prog \<Rightarrow> ('s \<Rightarrow> 's) list \<Rightarrow> 's \<Rightarrow> ('s \<times> 's) list" where
  "calls p envs s = fst (served p envs s)"

lemma served_Respond [simp]: "answer (Respond r) envs s = r" "final (Respond r) envs s = s" "calls (Respond r) envs s = []"
  by (simp_all add: answer_def final_def calls_def)

lemma served_ask [simp]:
  "answer (ask f k) envs s = answer (k (f (disturb envs s))) (tl envs) (disturb envs s)"
  "final (ask f k) envs s = final (k (f (disturb envs s))) (tl envs) (disturb envs s)"
  "calls (ask f k) envs s = (disturb envs s, disturb envs s) # calls (k (f (disturb envs s))) (tl envs) (disturb envs s)"
  by (simp_all add: answer_def final_def calls_def ask_def Let_def)

lemma served_act [simp]:
  "answer (act f k) envs s = answer (k (fst (f (disturb envs s)))) (tl envs) (snd (f (disturb envs s)))"
  "final (act f k) envs s = final (k (fst (f (disturb envs s)))) (tl envs) (snd (f (disturb envs s)))"
  "calls (act f k) envs s = (disturb envs s, snd (f (disturb envs s)))
     # calls (k (fst (f (disturb envs s)))) (tl envs) (snd (f (disturb envs s)))"
  by (simp_all add: answer_def final_def calls_def act_def Let_def)

text \<open>One program after another.\<close>

primrec chain :: "('s, 'r) prog \<Rightarrow> ('r \<Rightarrow> ('s, 'q) prog) \<Rightarrow> ('s, 'q) prog" where
  "chain (Respond r) k = k r"
| "chain (Atom effect cont) k = Atom effect (\<lambda>s. chain (cont s) k)"

lemma served_chain:
  "calls (chain p k) envs s = calls p envs s @ calls (k (answer p envs s)) (drop (length (calls p envs s)) envs) (final p envs s)
 \<and> answer (chain p k) envs s = answer (k (answer p envs s)) (drop (length (calls p envs s)) envs) (final p envs s)
 \<and> final (chain p k) envs s = final (k (answer p envs s)) (drop (length (calls p envs s)) envs) (final p envs s)"
proof (induction p arbitrary: envs s)
  case (Atom effect cont)
  show ?case using Atom.IH [OF rangeI, of "disturb envs s" "tl envs" "effect (disturb envs s)"]
    by (simp add: answer_def final_def calls_def Let_def drop_Suc)
qed simp

section \<open>Guarantees\<close>

text \<open>Every call of the program, from whatever state it is made, is a step of the relation.\<close>

primrec guarantees :: "('s \<Rightarrow> 's \<Rightarrow> bool) \<Rightarrow> ('s, 'r) prog \<Rightarrow> bool" where
  "guarantees R (Respond r) \<longleftrightarrow> True"
| "guarantees R (Atom effect cont) \<longleftrightarrow> (\<forall>s. R s (effect s) \<and> guarantees R (cont s))"

lemma guarantees_ask: "(\<And>s. R s s) \<Longrightarrow> (\<And>x. guarantees R (k x)) \<Longrightarrow> guarantees R (ask f k)"
  by (simp add: ask_def)

lemma guarantees_act: "(\<And>s. R s (snd (f s))) \<Longrightarrow> (\<And>x. guarantees R (k x)) \<Longrightarrow> guarantees R (act f k)"
  by (simp add: act_def)

lemma guarantees_Respond: "guarantees R (Respond r)"
  by simp

lemma guarantees_chain: "guarantees R p \<Longrightarrow> (\<And>r. guarantees R (k r)) \<Longrightarrow> guarantees R (chain p k)"
  by (induction p) auto

lemma guarantees_calls: "guarantees R p \<Longrightarrow> (s1, s2) \<in> set (calls p envs s) \<Longrightarrow> R s1 s2"
proof (induction p arbitrary: envs s)
  case (Atom effect cont)
  let ?s = "disturb envs s"
  from Atom.prems(2) consider "s1 = ?s" "s2 = effect ?s" | "(s1, s2) \<in> set (calls (cont ?s) (tl envs) (effect ?s))"
    by (auto simp: calls_def Let_def)
  then show ?case using Atom.IH [OF rangeI] Atom.prems(1) by cases simp_all
qed simp

text \<open>
  A program that makes one call that is a step of the relation only before something is used up (a fresh
  identifier, say): every call before that is one, and every call after it is one in any case.
\<close>

primrec careful :: "('s \<Rightarrow> bool) \<Rightarrow> ('s \<Rightarrow> 's \<Rightarrow> bool) \<Rightarrow> ('s, 'r) prog \<Rightarrow> bool" where
  "careful F R (Respond r) \<longleftrightarrow> True"
| "careful F R (Atom effect cont) \<longleftrightarrow>
     (\<forall>s. F s \<longrightarrow> R s (effect s) \<and> (if F (effect s) then careful F R (cont s) else guarantees R (cont s)))"

lemma guarantees_careful: "guarantees R p \<Longrightarrow> careful F R p"
  by (induction p) simp_all

lemma careful_ask: "(\<And>s. R s s) \<Longrightarrow> (\<And>x. careful F R (k x)) \<Longrightarrow> careful F R (ask f k)"
  by (simp add: ask_def)

lemma careful_act: "(\<And>s. F s \<Longrightarrow> R s (snd (f s))) \<Longrightarrow> (\<And>x. guarantees R (k x)) \<Longrightarrow> careful F R (act f k)"
  by (simp add: act_def guarantees_careful)

lemma careful_chain: "careful F R p \<Longrightarrow> (\<And>r. guarantees R (k r)) \<Longrightarrow> careful F R (chain p k)"
  by (induction p) (simp_all add: guarantees_careful guarantees_chain)

text \<open>What disturbances may do.\<close>

definition keep_to :: "('s \<Rightarrow> 's \<Rightarrow> bool) \<Rightarrow> ('s \<Rightarrow> 's) list \<Rightarrow> bool" where
  "keep_to R envs \<longleftrightarrow> (\<forall>g \<in> set envs. \<forall>s. R s (g s))"

lemma keep_to_tl: "keep_to R envs \<Longrightarrow> keep_to R (tl envs)"
  by (cases envs) (simp_all add: keep_to_def)

lemma keep_to_mono: "keep_to R envs \<Longrightarrow> (\<And>s s'. R s s' \<Longrightarrow> Q s s') \<Longrightarrow> keep_to Q envs"
  by (simp add: keep_to_def)

text \<open>
  Rely and guarantee: where the disturbances and the calls of the program keep to a relation that is
  reflexive and transitive, so does the whole.
\<close>

locale rely =
  fixes R :: "'s \<Rightarrow> 's \<Rightarrow> bool"
  assumes R_refl: "R s s" and R_trans: "R s1 s2 \<Longrightarrow> R s2 s3 \<Longrightarrow> R s1 s3"
begin

lemma disturb_related: "keep_to R envs \<Longrightarrow> R s (disturb envs s)"
  by (cases envs) (simp_all add: keep_to_def disturb_def R_refl)

lemma final_related:
  assumes "guarantees R p" and "keep_to R envs"
  shows "R s (final p envs s)"
  using assms
proof (induction p arbitrary: envs s)
  case (Atom effect cont)
  let ?s = "disturb envs s"
  have tail: "final (Atom effect cont) envs s = final (cont ?s) (tl envs) (effect ?s)" by (simp add: final_def Let_def)
  have "R (effect ?s) (final (cont ?s) (tl envs) (effect ?s))"
    using Atom.prems(1) by (intro Atom.IH [OF rangeI] keep_to_tl [OF Atom.prems(2)]) simp
  moreover have "R ?s (effect ?s)" using Atom.prems(1) by simp
  ultimately show ?case unfolding tail using disturb_related [OF Atom.prems(2), of s] by (blast intro: R_trans)
qed (simp add: R_refl)

lemma careful_related:
  assumes "careful F R p" and "keep_to (\<lambda>s s'. R s s' \<and> (F s \<longrightarrow> F s')) envs" and "F s"
  shows "R s (final p envs s)"
  using assms
proof (induction p arbitrary: envs s)
  case (Atom effect cont)
  let ?s = "disturb envs s"
  have related: "R s ?s" "F ?s"
    using Atom.prems(2,3) by (cases envs; simp add: keep_to_def disturb_def R_refl)+
  have tail: "final (Atom effect cont) envs s = final (cont ?s) (tl envs) (effect ?s)" by (simp add: final_def Let_def)
  have first: "R ?s (effect ?s)" using Atom.prems(1) related(2) by simp
  have "R (effect ?s) (final (cont ?s) (tl envs) (effect ?s))"
  proof (cases "F (effect ?s)")
    case True
    then show ?thesis using Atom.prems(1) related(2) by (intro Atom.IH [OF rangeI] keep_to_tl [OF Atom.prems(2)]) simp_all
  next
    case False
    have "keep_to R (tl envs)" using keep_to_mono [OF keep_to_tl [OF Atom.prems(2)], of R] by simp
    then show ?thesis using False Atom.prems(1) related(2) by (intro final_related) simp_all
  qed
  then show ?case unfolding tail using first related(1) by (blast intro: R_trans)
qed (simp add: R_refl)

end

end
