(* ===== verification/Metrics.thy ===== *)
theory Metrics
  imports Store_Runs Strconv "HOL-Library.Word"
begin

text \<open>
  The registry of \<^verbatim>\<open>internal/metrics/metrics.go\<close>: counters of HTTP requests, Run events and routing decisions, and
  the text page that exposes them with gauges computed from the stored Runs. The counters are 64-bit
  words. The sum of request durations is a floating-point number; the page takes its text as an argument.
\<close>

section \<open>Counters\<close>

type_synonym counters = "(string, 64 word) gomap"

record Registry =
  mt_httpRequests :: counters
  mt_runEvents :: counters
  mt_routingDecisions :: counters

definition NewRegistry :: Registry where
  "NewRegistry = \<lparr> mt_httpRequests = [], mt_runEvents = [], mt_routingDecisions = [] \<rparr>"

definition bump :: "string \<Rightarrow> counters \<Rightarrow> counters" where
  "bump key counters = put key (get_or 0 counters key + 1) counters"

text \<open>\<^verbatim>\<open>statusRecorder\<close> keeps the first status a handler writes; a handler that writes none has answered 200.\<close>

definition recorded_status :: "int list \<Rightarrow> int" where
  "recorded_status written = (case dropWhile (\<lambda>status. status = 0) written of [] \<Rightarrow> 200 | status # _ \<Rightarrow> status)"

definition bounded_method :: "string \<Rightarrow> string" where
  "bounded_method rmethod = (if rmethod \<in> set [''GET'', ''POST'', ''PUT'', ''DELETE'', ''PATCH'', ''HEAD''] then rmethod else ''OTHER'')"

definition HTTPMiddleware :: "string \<Rightarrow> int list \<Rightarrow> Registry \<Rightarrow> Registry" where
  "HTTPMiddleware rmethod written r =
     r\<lparr>mt_httpRequests := bump (bounded_method rmethod @ '':'' @ Itoa (recorded_status written)) (mt_httpRequests r)\<rparr>"

definition run_event_types :: "string list" where
  "run_event_types = [''run.queued'', ''run.started'', ''run.retrying'', ''run.attempt_timed_out'', ''run.succeeded'', ''run.failed'',
     ''run.canceled'', ''run.lease_lost'', ''run.recovered'', ''run.child_queued'', ''run.agent_call_queued'']"

definition knownRunEvent :: "string \<Rightarrow> bool" where
  "knownRunEvent event \<longleftrightarrow> event \<in> set run_event_types"

definition ObserveRunEvent :: "string \<Rightarrow> Registry \<Rightarrow> Registry" where
  "ObserveRunEvent eventType r =
     (if \<not> knownRunEvent eventType then r else r\<lparr>mt_runEvents := bump eventType (mt_runEvents r)\<rparr>)"

definition bounded_strategy :: "string \<Rightarrow> string" where
  "bounded_strategy strategy =
     (if strategy \<noteq> ''healthy-load-priority-created-at-id'' \<and> strategy \<noteq> ''unknown-fallback-load-priority-created-at-id'' then ''other''
      else strategy)"

definition ObserveRouting :: "string \<Rightarrow> Registry \<Rightarrow> Registry" where
  "ObserveRouting strategy r = r\<lparr>mt_routingDecisions := bump (bounded_strategy strategy) (mt_routingDecisions r)\<rparr>"

section \<open>The page\<close>

text \<open>\<^verbatim>\<open>%q\<close> of the labels, which hold no character that needs an escape; a line ends in a newline.\<close>

definition quoted :: "string \<Rightarrow> string" where
  "quoted s = CHR 0x22 # s @ [CHR 0x22]"

definition line :: "string list \<Rightarrow> string" where
  "line parts = concat parts @ [CHR 0x0A]"

definition metric_help :: "string \<Rightarrow> string \<Rightarrow> string \<Rightarrow> string" where
  "metric_help name help kind = line [''# HELP '', name, '' '', help] @ line [''# TYPE '', name, '' '', kind]"

definition writeCounterMap :: "string \<Rightarrow> string \<Rightarrow> counters \<Rightarrow> (string \<Rightarrow> string) \<Rightarrow> string" where
  "writeCounterMap name help counters labels =
     metric_help name help ''counter''
     @ concat (map (\<lambda>key. line [name, ''{'', labels key, ''} '', Itoa (uint (get_or 0 counters key))])
         (sort_by (<) (map fst counters)))"

definition run_status_text :: "RunStatus \<Rightarrow> string" where
  "run_status_text status = (case status of RunQueued \<Rightarrow> ''queued'' | RunRunning \<Rightarrow> ''running'' | RunSucceeded \<Rightarrow> ''succeeded''
     | RunFailed \<Rightarrow> ''failed'' | RunCanceled \<Rightarrow> ''canceled'')"

definition run_statuses :: "RunStatus list" where
  "run_statuses = [RunQueued, RunRunning, RunSucceeded, RunFailed, RunCanceled]"

text \<open>The loop over the listed Runs, from a map that has each status at zero.\<close>

primrec count_statuses :: "(RunStatus, int) gomap \<Rightarrow> Run list \<Rightarrow> (RunStatus, int) gomap" where
  "count_statuses statuses [] = statuses"
| "count_statuses statuses (run # runs) =
     count_statuses (put (r_Status run) (get_or 0 statuses (r_Status run) + 1) statuses) runs"

definition statuses_of :: "Run list \<Rightarrow> (RunStatus, int) gomap" where
  "statuses_of runs = count_statuses (map (\<lambda>status. (status, 0)) run_statuses) runs"

definition http_labels :: "string \<Rightarrow> string" where
  "http_labels key =
     concat [''method='', quoted (takeWhile (\<lambda>c. c \<noteq> CHR '':'') key), '',status='', quoted (drop 1 (dropWhile (\<lambda>c. c \<noteq> CHR '':'') key))]"

definition WritePrometheus :: "string \<Rightarrow> Memory \<Rightarrow> Registry \<Rightarrow> string" where
  "WritePrometheus httpDuration m r =
     (let statuses = statuses_of (ListRuns m); count = (\<lambda>status. Itoa (get_or 0 statuses status)) in
      metric_help ''agentmesh_runs'' ''Current persisted Runs by status.'' ''gauge''
      @ concat (map (\<lambda>status. line [''agentmesh_runs{status='', quoted (run_status_text status), ''} '', count status]) run_statuses)
      @ metric_help ''agentmesh_queue_depth'' ''Persisted queued Runs.'' ''gauge'' @ line [''agentmesh_queue_depth '', count RunQueued]
      @ writeCounterMap ''agentmesh_http_requests_total'' ''HTTP requests by bounded method and status.'' (mt_httpRequests r) http_labels
      @ metric_help ''agentmesh_http_request_duration_seconds'' ''HTTP request duration sum.'' ''summary''
      @ line [''agentmesh_http_request_duration_seconds_sum '', httpDuration]
      @ line [''agentmesh_http_request_duration_seconds_count '', Itoa (uint (sum_list (map snd (mt_httpRequests r))))]
      @ writeCounterMap ''agentmesh_run_events_total'' ''Run lifecycle events by bounded type.'' (mt_runEvents r)
          (\<lambda>key. ''type='' @ quoted key)
      @ writeCounterMap ''agentmesh_routing_decisions_total'' ''Automatic routing decisions by bounded strategy.'' (mt_routingDecisions r)
          (\<lambda>key. ''strategy='' @ quoted key))"

section \<open>Counting\<close>

text \<open>A counter holds the number of times its key was seen, modulo \<open>2 ^ 64\<close>.\<close>

lemma get_or_bump: "get_or 0 (bump key counters) k = (if k = key then get_or 0 counters k + 1 else get_or 0 counters k)"
  by (simp add: bump_def get_or_def)

lemma bump_counts: "get_or 0 (fold bump keys counters) k = get_or 0 counters k + of_nat (count_list keys k)"
  by (induction keys arbitrary: counters) (simp_all add: get_or_bump)

lemma bump_keys: "fst ` set (bump key counters) = insert key (fst ` set counters)"
  by (simp add: bump_def dom_update)

lemma bump_all_keys: "fst ` set (fold bump keys counters) = set keys \<union> fst ` set counters"
  by (induction keys arbitrary: counters) (simp_all add: bump_keys)

lemma bump_all_distinct: "keys_distinct counters \<Longrightarrow> keys_distinct (fold bump keys counters)"
  by (induction keys arbitrary: counters) (simp_all add: bump_def)

text \<open>What the registry sees: an answered request, a published event, a routing decision.\<close>

datatype observation = SeenRequest string "int list" | SeenEvent string | SeenRouting string

primrec observe :: "observation \<Rightarrow> Registry \<Rightarrow> Registry" where
  "observe (SeenRequest rmethod written) r = HTTPMiddleware rmethod written r"
| "observe (SeenEvent eventType) r = ObserveRunEvent eventType r"
| "observe (SeenRouting strategy) r = ObserveRouting strategy r"

fun request_key :: "observation \<Rightarrow> string list" where
  "request_key (SeenRequest rmethod written) = [bounded_method rmethod @ '':'' @ Itoa (recorded_status written)]"
| "request_key _ = []"

fun event_key :: "observation \<Rightarrow> string list" where
  "event_key (SeenEvent eventType) = (if knownRunEvent eventType then [eventType] else [])"
| "event_key _ = []"

fun routing_key :: "observation \<Rightarrow> string list" where
  "routing_key (SeenRouting strategy) = [bounded_strategy strategy]"
| "routing_key _ = []"

lemma observe_all:
  "mt_httpRequests (fold observe obs r) = fold bump (concat (map request_key obs)) (mt_httpRequests r)"
  "mt_runEvents (fold observe obs r) = fold bump (concat (map event_key obs)) (mt_runEvents r)"
  "mt_routingDecisions (fold observe obs r) = fold bump (concat (map routing_key obs)) (mt_routingDecisions r)"
proof (induction obs arbitrary: r)
  case (Cons o1 obs)
  { case 1 show ?case using Cons(1) by (cases o1) (simp_all add: HTTPMiddleware_def ObserveRunEvent_def ObserveRouting_def) }
  { case 2 show ?case using Cons(2) by (cases o1) (simp_all add: HTTPMiddleware_def ObserveRunEvent_def ObserveRouting_def) }
  { case 3 show ?case using Cons(3) by (cases o1) (simp_all add: HTTPMiddleware_def ObserveRunEvent_def ObserveRouting_def) }
qed simp_all

abbreviation strategies :: "string set" where
  "strategies \<equiv> {''healthy-load-priority-created-at-id'', ''unknown-fallback-load-priority-created-at-id'', ''other''}"

abbreviation request_methods :: "string set" where
  "request_methods \<equiv> {''GET'', ''POST'', ''PUT'', ''DELETE'', ''PATCH'', ''HEAD'', ''OTHER''}"

lemma keys_bounded:
  "set (event_key ob) \<subseteq> set run_event_types" "set (routing_key ob) \<subseteq> strategies"
  "key \<in> set (request_key ob) \<Longrightarrow> \<exists>status. key \<in> (\<lambda>m. m @ '':'' @ Itoa status) ` request_methods"
  by (cases ob; auto simp: knownRunEvent_def bounded_strategy_def bounded_method_def)+

lemma few_keys:
  assumes "keys_distinct counters" and "fst ` set counters \<subseteq> K" and "finite K"
  shows "length counters \<le> card K"
  using assms card_mono [of K "fst ` set counters"] distinct_card [of "map fst counters"] by (simp add: keys_distinct_def)

text \<open>The gauges.\<close>

lemma count_statuses_eq:
  "get_or 0 (count_statuses statuses runs) st = get_or 0 statuses st + int (length (filter (\<lambda>run. r_Status run = st) runs))"
  by (induction runs arbitrary: statuses) (simp_all add: get_or_def)

lemma statuses_exact: "get_or 0 (statuses_of runs) st = int (length (filter (\<lambda>run. r_Status run = st) runs))"
proof -
  have "get_or 0 (map (\<lambda>status. (status, 0)) run_statuses) st = (0::int)"
    by (cases st) (simp_all add: run_statuses_def get_or_def)
  then show ?thesis by (simp add: statuses_of_def count_statuses_eq)
qed

lemma statuses_total: "(\<Sum>st \<leftarrow> run_statuses. get_or 0 (statuses_of runs) st) = int (length runs)"
proof (induction runs)
  case (Cons run runs)
  then show ?case by (cases "r_Status run") (simp_all add: statuses_exact run_statuses_def)
qed (simp add: statuses_exact run_statuses_def)

text \<open>
  The page is bounded and exact. However many requests, events and routing decisions there were, and whatever
  method, event type and strategy they carried, the counters have at most eleven event types, three
  strategies and seven methods; each counter holds how often its key was seen, modulo \<open>2 ^ 64\<close>; and the Run gauges
  add up to the number of stored Runs.
\<close>

theorem metrics_bounded_exact:
  assumes "r = fold observe obs NewRegistry"
  shows "length (mt_runEvents r) \<le> 11 \<and> length (mt_routingDecisions r) \<le> 3
    \<and> (\<forall>key \<in> fst ` set (mt_httpRequests r). \<exists>status. key \<in> (\<lambda>m. m @ '':'' @ Itoa status) ` request_methods)
    \<and> get_or 0 (mt_httpRequests r) k = of_nat (count_list (concat (map request_key obs)) k)
    \<and> get_or 0 (mt_runEvents r) k = of_nat (count_list (concat (map event_key obs)) k)
    \<and> get_or 0 (mt_routingDecisions r) k = of_nat (count_list (concat (map routing_key obs)) k)
    \<and> (\<Sum>st \<leftarrow> run_statuses. get_or 0 (statuses_of (ListRuns m)) st) = int (length (m_runs m))"
proof -
  have r: "mt_httpRequests r = fold bump (concat (map request_key obs)) []" "mt_runEvents r = fold bump (concat (map event_key obs)) []"
      "mt_routingDecisions r = fold bump (concat (map routing_key obs)) []"
    by (simp_all add: assms observe_all NewRegistry_def)
  have distinct: "keys_distinct (fold bump keys [])" for keys by (rule bump_all_distinct) (simp add: keys_distinct_def)
  have keys: "fst ` set (mt_runEvents r) \<subseteq> set run_event_types" "fst ` set (mt_routingDecisions r) \<subseteq> strategies"
    by (simp_all only: r bump_all_keys set_concat set_map image_image Un_subset_iff UN_subset_iff keys_bounded image_empty list.set empty_subsetI ball_triv simp_thms)
  have "length (mt_runEvents r) \<le> card (set run_event_types)" using few_keys [OF _ keys(1)] distinct r by simp
  also have "\<dots> \<le> 11" using card_length [of run_event_types] by (simp add: run_event_types_def)
  finally have "length (mt_runEvents r) \<le> 11" .
  moreover have "length (mt_routingDecisions r) \<le> 3" using few_keys [OF _ keys(2)] distinct r by simp
  moreover have "\<forall>key \<in> fst ` set (mt_httpRequests r). \<exists>status. key \<in> (\<lambda>m. m @ '':'' @ Itoa status) ` request_methods"
    using keys_bounded(3) by (simp add: r bump_all_keys)
  moreover have "get_or 0 (fold bump keys []) k = (of_nat (count_list keys k) :: 64 word)" for keys
    using bump_counts [of keys "[]" k] by (simp add: get_or_def [of _ "[]"])
  moreover have "(\<Sum>st \<leftarrow> run_statuses. get_or 0 (statuses_of (ListRuns m)) st) = int (length (m_runs m))"
    by (simp add: statuses_total ListRuns_def)
  ultimately show ?thesis by (simp only: r simp_thms)
qed

end
