(* ===== verification/Mcp.thy ===== *)
theory Mcp
  imports Runtime_Http
begin

text \<open>
  \<^verbatim>\<open>internal/mcp\<close>: the registry of tool servers with their policies (\<^verbatim>\<open>registry.go\<close>), the JSON-RPC client
  (\<^verbatim>\<open>client.go\<close>) and the gateway in front of them (\<^verbatim>\<open>gateway.go\<close>). Tool arguments are the JSON text
  \<^verbatim>\<open>json.Marshal\<close> gives for them, or nothing for a nil map. The HTTP client and the JSON decoders are arguments.
\<close>

section \<open>Servers and policies\<close>

definition ProtocolVersion :: string where "ProtocolVersion = ''2026-07-28''"

record ToolServer =
  ms_ID :: string
  ms_Endpoint :: string
  ms_AllowedTools :: "string list"
  ms_DeniedTools :: "string list"
  ms_ApprovalRequiredTools :: "string list"
  ms_Timeout :: duration

record ServerView =
  vw_ID :: string
  vw_Endpoint :: string
  vw_AllowedTools :: "string list"
  vw_DeniedTools :: "string list"
  vw_ApprovalRequiredTools :: "string list"
  vw_TimeoutMS :: int

definition Server_View :: "ToolServer \<Rightarrow> ServerView" where
  "Server_View s = \<lparr> vw_ID = ms_ID s, vw_Endpoint = ms_Endpoint s, vw_AllowedTools = ms_AllowedTools s,
     vw_DeniedTools = ms_DeniedTools s, vw_ApprovalRequiredTools = ms_ApprovalRequiredTools s,
     vw_TimeoutMS = Milliseconds (ms_Timeout s) \<rparr>"

definition Server_RequiresApproval :: "ToolServer \<Rightarrow> string \<Rightarrow> bool" where
  "Server_RequiresApproval s tool = list_ex (\<lambda>required. required = tool) (ms_ApprovalRequiredTools s)"

definition Server_Allows :: "ToolServer \<Rightarrow> string \<Rightarrow> bool" where
  "Server_Allows s tool =
     (if list_ex (\<lambda>denied. denied = tool) (ms_DeniedTools s) then False
      else if ms_AllowedTools s = [] then True
      else list_ex (\<lambda>allowed. allowed = tool) (ms_AllowedTools s))"

definition validName :: "string \<Rightarrow> bool" where
  "validName value \<longleftrightarrow> 1 \<le> length value \<and> length value \<le> 128 \<and>
     list_all (\<lambda>c. lower_alpha c \<or> upper_alpha c \<or> numeric c \<or> c \<in> set ''._-'') value"

datatype mcp_config_error =
    BadServerID
  | BadServerEndpoint string
  | BadServerTimeout string
  | BadToolName string
  | DuplicateServer string
  | BadServersJSON
  | TrailingServersJSON

fun normalizeToolNames :: "string list \<Rightarrow> string list \<Rightarrow> mcp_config_error + string list" where
  "normalizeToolNames result [] = Inr result"
| "normalizeToolNames result (raw # rest) =
     (let value = TrimSpace raw in
      if \<not> validName value then Inl (BadToolName value)
      else normalizeToolNames (if value \<in> set result then result else result @ [value]) rest)"

definition validateServer :: "golib \<Rightarrow> ToolServer \<Rightarrow> mcp_config_error + ToolServer" where
  "validateServer L s =
     (let s = s\<lparr>ms_ID := TrimSpace (ms_ID s), ms_Endpoint := TrimSpace (ms_Endpoint s)\<rparr> in
      if ms_ID s = '''' \<or> length (ms_ID s) > 128 \<or> \<not> validName (ms_ID s) then Inl BadServerID
      else if (case lib_url_Parse L (ms_Endpoint s) of
                 None \<Rightarrow> True
               | Some u \<Rightarrow> u_Host u = '''' \<or> (u_Scheme u \<noteq> ''http'' \<and> u_Scheme u \<noteq> ''https'') \<or> u_User u \<noteq> None
                   \<or> u_RawQuery u \<noteq> '''' \<or> u_Fragment u \<noteq> '''')
        then Inl (BadServerEndpoint (ms_ID s))
      else if ms_Timeout s \<le> 0 then Inl (BadServerTimeout (ms_ID s))
      else case normalizeToolNames [] (ms_AllowedTools s) of
        Inl e \<Rightarrow> Inl e
      | Inr allowed \<Rightarrow>
          (case normalizeToolNames [] (ms_DeniedTools s) of
             Inl e \<Rightarrow> Inl e
           | Inr denied \<Rightarrow>
               (case normalizeToolNames [] (ms_ApprovalRequiredTools s) of
                  Inl e \<Rightarrow> Inl e
                | Inr required \<Rightarrow> Inr (s\<lparr>ms_AllowedTools := allowed, ms_DeniedTools := denied, ms_ApprovalRequiredTools := required\<rparr>))))"

type_synonym tool_registry = "(string, ToolServer) gomap"

definition Registry_Register :: "golib \<Rightarrow> ToolServer \<Rightarrow> tool_registry \<Rightarrow> mcp_config_error + tool_registry" where
  "Registry_Register L server servers =
     (case validateServer L server of
        Inl e \<Rightarrow> Inl e
      | Inr server \<Rightarrow>
          if get servers (ms_ID server) \<noteq> None then Inl (DuplicateServer (ms_ID server))
          else Inr (put (ms_ID server) server servers))"

definition Registry_Get :: "string \<Rightarrow> tool_registry \<Rightarrow> ToolServer option" where
  "Registry_Get serverID servers = get servers (TrimSpace serverID)"

definition Registry_List :: "tool_registry \<Rightarrow> ServerView list" where
  "Registry_List servers = map Server_View (sort_by (\<lambda>a b. ms_ID a < ms_ID b) (map snd servers))"

record serverConfig =
  sc_server :: ToolServer
  sc_Timeout :: string

datatype decoded_servers = ServersMalformed | ServersTrailing | ServersDecoded "serverConfig list"

text \<open>The loop of \<^verbatim>\<open>ParseRegistry\<close>; \<^verbatim>\<open>time.ParseDuration\<close> is an argument.\<close>

fun register_servers ::
  "golib \<Rightarrow> (string \<Rightarrow> duration option) \<Rightarrow> duration \<Rightarrow> tool_registry \<Rightarrow> serverConfig list \<Rightarrow> mcp_config_error + tool_registry" where
  "register_servers L parse defaultTimeout servers [] = Inr servers"
| "register_servers L parse defaultTimeout servers (config # rest) =
     (case (if TrimSpace (sc_Timeout config) \<noteq> '''' then
              (case parse (sc_Timeout config) of Some d \<Rightarrow> if d \<le> 0 then None else Some d | None \<Rightarrow> None)
            else Some defaultTimeout) of
        None \<Rightarrow> Inl (BadServerTimeout (ms_ID (sc_server config)))
      | Some timeout \<Rightarrow>
          (case Registry_Register L ((sc_server config)\<lparr>ms_Timeout := timeout\<rparr>) servers of
             Inl e \<Rightarrow> Inl e
           | Inr servers \<Rightarrow> register_servers L parse defaultTimeout servers rest))"

definition ParseRegistry ::
  "golib \<Rightarrow> (string \<Rightarrow> duration option) \<Rightarrow> (string \<Rightarrow> decoded_servers) \<Rightarrow> string \<Rightarrow> duration \<Rightarrow> mcp_config_error + tool_registry" where
  "ParseRegistry L parse decode raw defaultTimeout =
     (if TrimSpace raw = '''' then Inr []
      else case decode raw of
        ServersMalformed \<Rightarrow> Inl BadServersJSON
      | ServersTrailing \<Rightarrow> Inl TrailingServersJSON
      | ServersDecoded configs \<Rightarrow> register_servers L parse defaultTimeout [] configs)"

section \<open>The client\<close>

datatype mcp_error =
    ErrServerNotFound string
  | ErrToolDenied
  | InvalidToolName string
  | McpRequestTooLarge
  | McpRequestInvalid
  | McpAuthenticationFailed
  | ErrMcpTimeout
  | McpTransport transport_error
  | McpProtocol string
  | McpHTTPStatus int
  | McpRPCError int string

record McpClient =
  mcl_maxRequestBytes :: int
  mcl_maxResponseBytes :: int
  mcl_credentials :: "(string, agentCredential) gomap option"
  mcl_sequence :: int

definition NewMcpClient :: "int \<Rightarrow> int \<Rightarrow> (string, agentCredential) gomap option \<Rightarrow> McpClient" where
  "NewMcpClient maxRequestBytes maxResponseBytes authenticator =
     \<lparr> mcl_maxRequestBytes = (if maxRequestBytes \<le> 0 then 1048576 else maxRequestBytes),
       mcl_maxResponseBytes = (if maxResponseBytes \<le> 0 then 1048576 else maxResponseBytes),
       mcl_credentials = authenticator, mcl_sequence = 0 \<rparr>"

text \<open>\<^verbatim>\<open>json.Marshal\<close> writes the keys of a map in order.\<close>

definition json_map :: "string list \<Rightarrow> string" where
  "json_map entries = ''{'' @ json_fields entries @ ''}''"

definition requestMeta :: string where
  "requestMeta = json_map
     [json_field ''io.modelcontextprotocol/clientCapabilities'' (json_map []),
      json_field ''io.modelcontextprotocol/clientInfo''
        (json_map [json_field ''name'' (json_string ''agentmesh''), json_field ''version'' (json_string ''1'')]),
      json_field ''io.modelcontextprotocol/protocolVersion'' (json_string ProtocolVersion)]"

definition rpc_Marshal :: "int \<Rightarrow> string \<Rightarrow> string \<Rightarrow> string" where
  "rpc_Marshal reqID rpcMethod params = json_map
     [json_field ''jsonrpc'' (json_string ''2.0''), json_field ''id'' (Itoa reqID), json_field ''method'' (json_string rpcMethod),
      json_field ''params'' params]"

record rpcResponse =
  rpc_JSONRPC :: string
  rpc_ID :: string
  rpc_Result :: string
  rpc_Error :: "(int \<times> string) option"

text \<open>
  The outside world during a call: the current secrets, what the HTTP client gives for a request, whether the
  deadline of the call has passed when the client gives up, and the decoders of an envelope and of a result.
\<close>

record 'r ToolEnv =
  tv_secret :: "string \<Rightarrow> string option"
  tv_do :: "HttpRequest \<Rightarrow> transport_error + HttpResponse"
  tv_timedOut :: bool
  tv_envelope :: "string \<Rightarrow> rpcResponse option"
  tv_result :: "string \<Rightarrow> 'r option"

definition mcp_headers :: "string \<Rightarrow> string \<Rightarrow> (string, string) gomap" where
  "mcp_headers rpcMethod name =
     (let headers =
        header_set ''Mcp-Method'' rpcMethod
        (header_set ''MCP-Protocol-Version'' ProtocolVersion
        (header_set ''Accept-Encoding'' ''identity''
        (header_set ''Accept'' ''application/json, text/event-stream''
        (header_set ''Content-Type'' ''application/json'' [])))) in
      if name \<noteq> '''' then header_set ''Mcp-Name'' name headers else headers)"

definition mcp_answer ::
  "golib \<Rightarrow> netlib \<Rightarrow> 'r ToolEnv \<Rightarrow> McpClient \<Rightarrow> int \<Rightarrow> HttpResponse \<Rightarrow> mcp_error + 'r" where
  "mcp_answer L N v c reqID response =
     (let encoding = lower_trim L (header_get (hr_Header response) ''Content-Encoding'') in
      if encoding \<noteq> '''' \<and> encoding \<noteq> ''identity'' then Inl (McpProtocol ''compressed responses are not supported'')
      else case hr_Body response of
        Inl err \<Rightarrow> Inl (McpTransport err)
      | Inr content \<Rightarrow>
          let body = take (nat (mcl_maxResponseBytes c + 1)) content in
          if int (length body) > mcl_maxResponseBytes c then Inl (McpProtocol ''response too large'')
          else if hr_StatusCode response < 200 \<or> 300 \<le> hr_StatusCode response then Inl (McpHTTPStatus (hr_StatusCode response))
          else if net_ParseMediaType N (header_get (hr_Header response) ''Content-Type'') \<noteq> Some ''application/json''
            then Inl (McpProtocol ''only application/json responses are supported'')
          else case tv_envelope v body of
            None \<Rightarrow> Inl (McpProtocol ''undecodable response'')
          | Some envelope \<Rightarrow>
              if rpc_JSONRPC envelope \<noteq> ''2.0'' \<or> TrimSpace (rpc_ID envelope) \<noteq> Itoa reqID
                then Inl (McpProtocol ''JSON-RPC version or response ID mismatch'')
              else case rpc_Error envelope of
                Some (code, message) \<Rightarrow> Inl (McpRPCError code message)
              | None \<Rightarrow>
                  if rpc_Result envelope = '''' \<or> rpc_Result envelope = ''null'' then Inl (McpProtocol ''missing result'')
                  else case tv_result v (rpc_Result envelope) of
                    None \<Rightarrow> Inl (McpProtocol ''undecodable result'')
                  | Some result \<Rightarrow> Inr result)"

text \<open>
  \<^verbatim>\<open>call\<close> gives the advanced sequence number (64 bits, unsigned), the request sent and the outcome.
\<close>

definition mcp_call ::
  "golib \<Rightarrow> netlib \<Rightarrow> 'r ToolEnv \<Rightarrow> ToolServer \<Rightarrow> string \<Rightarrow> string \<Rightarrow> string \<Rightarrow> McpClient
     \<Rightarrow> McpClient \<times> HttpRequest option \<times> (mcp_error + 'r)" where
  "mcp_call L N v server rpcMethod name params c =
     (let reqID = (mcl_sequence c + 1) mod 2 ^ 64; c = c\<lparr>mcl_sequence := reqID\<rparr>;
          payload = rpc_Marshal reqID rpcMethod params in
      if int (length payload) > mcl_maxRequestBytes c then (c, None, Inl McpRequestTooLarge)
      else if lib_url_Parse L (ms_Endpoint server) = None then (c, None, Inl McpRequestInvalid)
      else case (case mcl_credentials c of
                   None \<Rightarrow> Inr (mcp_headers rpcMethod name)
                 | Some credentials \<Rightarrow> Authenticate credentials (tv_secret v) (''mcp:'' @ ms_ID server) (mcp_headers rpcMethod name)) of
        Inl _ \<Rightarrow> (c, None, Inl McpAuthenticationFailed)
      | Inr headers \<Rightarrow>
          let request = \<lparr> hq_Method = ''POST'', hq_URL = ms_Endpoint server, hq_Header = headers, hq_Body = payload \<rparr> in
          (c, Some request,
           case tv_do v request of
             Inl err \<Rightarrow> Inl (if tv_timedOut v then ErrMcpTimeout else McpTransport err)
           | Inr response \<Rightarrow> mcp_answer L N v c reqID response))"

record ToolList =
  tl_Tools :: "string list"  \<comment> \<open>the names of the tools\<close>
  tl_NextCursor :: string

fun filter_tools :: "ToolServer \<Rightarrow> string list \<Rightarrow> mcp_error + string list" where
  "filter_tools server [] = Inr []"
| "filter_tools server (tool # rest) =
     (if \<not> validName tool then Inl (McpProtocol ''invalid tool name'')
      else case filter_tools server rest of
        Inl e \<Rightarrow> Inl e
      | Inr tools \<Rightarrow> Inr (if Server_Allows server tool then tool # tools else tools))"

definition Client_ListTools ::
  "golib \<Rightarrow> netlib \<Rightarrow> ToolList ToolEnv \<Rightarrow> ToolServer \<Rightarrow> string \<Rightarrow> McpClient
     \<Rightarrow> McpClient \<times> HttpRequest option \<times> (mcp_error + ToolList)" where
  "Client_ListTools L N v server rawCursor c =
     (let cursor = TrimSpace rawCursor;
          params = json_map (json_field ''_meta'' requestMeta
            # (if cursor \<noteq> '''' then [json_field ''cursor'' (json_string cursor)] else [])) in
      case mcp_call L N v server ''tools/list'' '''' params c of
        (c, sent, Inl e) \<Rightarrow> (c, sent, Inl e)
      | (c, sent, Inr result) \<Rightarrow>
          (c, sent, case filter_tools server (tl_Tools result) of
             Inl e \<Rightarrow> Inl e
           | Inr tools \<Rightarrow> Inr (result\<lparr>tl_Tools := tools\<rparr>)))"

definition Client_CallTool ::
  "golib \<Rightarrow> netlib \<Rightarrow> 'r ToolEnv \<Rightarrow> ToolServer \<Rightarrow> string \<Rightarrow> string option \<Rightarrow> McpClient
     \<Rightarrow> McpClient \<times> HttpRequest option \<times> (mcp_error + 'r)" where
  "Client_CallTool L N v server rawName arguments c =
     (let name = TrimSpace rawName in
      if \<not> validName name then (c, None, Inl (InvalidToolName name))
      else if \<not> Server_Allows server name then (c, None, Inl ErrToolDenied)
      else let params = json_map [json_field ''_meta'' requestMeta,
                 json_field ''arguments'' (case arguments of None \<Rightarrow> ''{}'' | Some a \<Rightarrow> a),
                 json_field ''name'' (json_string name)] in
        mcp_call L N v server ''tools/call'' name params c)"

section \<open>The gateway\<close>

definition Gateway_RequiresApproval :: "tool_registry \<Rightarrow> string \<Rightarrow> string \<Rightarrow> mcp_error + bool" where
  "Gateway_RequiresApproval servers serverID name =
     (case Registry_Get serverID servers of
        None \<Rightarrow> Inl (ErrServerNotFound serverID)
      | Some server \<Rightarrow>
          if \<not> validName name \<or> \<not> Server_Allows server name then Inl ErrToolDenied
          else Inr (Server_RequiresApproval server name))"

definition Gateway_ListTools ::
  "golib \<Rightarrow> netlib \<Rightarrow> ToolList ToolEnv \<Rightarrow> tool_registry \<Rightarrow> string \<Rightarrow> string \<Rightarrow> McpClient
     \<Rightarrow> McpClient \<times> HttpRequest option \<times> (mcp_error + ToolList)" where
  "Gateway_ListTools L N v servers serverID cursor c =
     (case Registry_Get serverID servers of
        None \<Rightarrow> (c, None, Inl (ErrServerNotFound serverID))
      | Some server \<Rightarrow> Client_ListTools L N v server cursor c)"

definition Gateway_CallTool ::
  "golib \<Rightarrow> netlib \<Rightarrow> 'r ToolEnv \<Rightarrow> tool_registry \<Rightarrow> string \<Rightarrow> string \<Rightarrow> string option \<Rightarrow> McpClient
     \<Rightarrow> McpClient \<times> HttpRequest option \<times> (mcp_error + 'r)" where
  "Gateway_CallTool L N v servers serverID name arguments c =
     (case Registry_Get serverID servers of
        None \<Rightarrow> (c, None, Inl (ErrServerNotFound serverID))
      | Some server \<Rightarrow> Client_CallTool L N v server name arguments c)"

section \<open>Lemmas\<close>

lemma Server_Allows_iff:
  "Server_Allows s tool \<longleftrightarrow> tool \<notin> set (ms_DeniedTools s) \<and> (ms_AllowedTools s = [] \<or> tool \<in> set (ms_AllowedTools s))"
  by (auto simp: Server_Allows_def list_ex_iff)

lemma filter_tools_eq: "filter_tools server tools = Inr tools' \<Longrightarrow> tools' = filter (Server_Allows server) tools \<and> list_all validName tools"
  by (induction tools arbitrary: tools') (auto split: sum.splits if_splits)

end
