(* ===== verification/Api_Auth.thy ===== *)
theory Api_Auth
  imports Prelude
begin

text \<open>
  \<^verbatim>\<open>internal/apiauth/auth.go\<close>: identities, the configuration of bearer tokens, and the middleware that
  authenticates and authorises API requests. What the JSON decoder makes of the configuration is an
  argument; its entries come in the order in which Go happens to range over the map.
\<close>

section \<open>Requests\<close>

text \<open>An HTTP request, as far as the handlers read it; headers and query values by name.\<close>

record Request =
  q_Method :: string
  q_Path :: string
  q_Header :: "(string, string) gomap"
  q_Query :: "(string, string) gomap"
  q_Body :: string

definition header :: "Request \<Rightarrow> string \<Rightarrow> string" where
  "header r name = get_or '''' (q_Header r) name"

definition query :: "Request \<Rightarrow> string \<Rightarrow> string" where
  "query r name = get_or '''' (q_Query r) name"

section \<open>Identities\<close>

definition RoleReader :: string where "RoleReader = ''reader''"
definition RoleOperator :: string where "RoleOperator = ''operator''"
definition RoleAdmin :: string where "RoleAdmin = ''admin''"
definition RoleAgent :: string where "RoleAgent = ''agent''"

lemmas roles = RoleReader_def RoleOperator_def RoleAdmin_def RoleAgent_def

record Identity =
  i_Subject :: string
  i_Roles :: "string list"
  i_AgentID :: string

definition HasAny :: "Identity \<Rightarrow> string list \<Rightarrow> bool" where
  "HasAny i required = list_ex (\<lambda>actual. actual \<in> set required) (i_Roles i)"

lemma HasAny_iff: "HasAny i required \<longleftrightarrow> (\<exists>role \<in> set (i_Roles i). role \<in> set required)"
  by (simp add: HasAny_def list_ex_iff)

record credential =
  cr_identity :: Identity
  cr_hash :: string

record reference =
  rf_SecretEnv :: string
  rf_Roles :: "string list"
  rf_AgentID :: string

section \<open>Configuration\<close>

datatype decoded_config = ConfigMalformed | ConfigTrailing | ConfigReferences "(string \<times> reference) list"

datatype auth_error =
    LookupRequired
  | MalformedJSON
  | TrailingJSON
  | ReferenceIncomplete
  | UnsupportedRole string
  | AgentRoleMismatch string
  | TokenUnavailable string
  | DuplicateToken

fun add_roles :: "golib \<Rightarrow> string \<Rightarrow> string list \<Rightarrow> string list \<Rightarrow> auth_error + string list" where
  "add_roles L subject roles [] = Inr roles"
| "add_roles L subject roles (raw # rest) =
     (let role = lower_trim L raw in
      if role \<noteq> RoleReader \<and> role \<noteq> RoleOperator \<and> role \<noteq> RoleAdmin \<and> role \<noteq> RoleAgent then Inl (UnsupportedRole subject)
      else add_roles L subject (if role \<in> set roles then roles else roles @ [role]) rest)"

definition read_reference ::
  "golib \<Rightarrow> (string \<Rightarrow> string option) \<Rightarrow> string \<times> reference \<Rightarrow> auth_error + (Identity \<times> string)" where
  "read_reference L lookup entry =
     (case entry of (subject, ref) \<Rightarrow>
      let subject = TrimSpace subject; secretEnv = TrimSpace (rf_SecretEnv ref) in
      if subject = '''' \<or> secretEnv = '''' \<or> rf_Roles ref = [] then Inl ReferenceIncomplete
      else case add_roles L subject [] (rf_Roles ref) of
        Inl e \<Rightarrow> Inl e
      | Inr roles \<Rightarrow>
          let identity = \<lparr> i_Subject = subject, i_Roles = roles, i_AgentID = TrimSpace (rf_AgentID ref) \<rparr> in
          if HasAny identity [RoleAgent] \<noteq> (i_AgentID identity \<noteq> '''') then Inl (AgentRoleMismatch subject)
          else case lookup secretEnv of
            None \<Rightarrow> Inl (TokenUnavailable subject)
          | Some token \<Rightarrow>
              if TrimSpace token = '''' \<or> ContainsAny token [CHR 0x0D, CHR 0x0A] then Inl (TokenUnavailable subject)
              else Inr (identity, token))"

fun add_credentials ::
  "golib \<Rightarrow> (string \<Rightarrow> string option) \<Rightarrow> credential list \<Rightarrow> (string \<times> reference) list \<Rightarrow> auth_error + credential list" where
  "add_credentials L lookup credentials [] = Inr credentials"
| "add_credentials L lookup credentials (entry # rest) =
     (case read_reference L lookup entry of
        Inl e \<Rightarrow> Inl e
      | Inr (identity, token) \<Rightarrow>
          let digest = lib_sha256_hex L token in
          if digest \<in> set (map cr_hash credentials) then Inl DuplicateToken
          else add_credentials L lookup (credentials @ [\<lparr> cr_identity = identity, cr_hash = digest \<rparr>]) rest)"

definition NewAuthenticator ::
  "golib \<Rightarrow> (string \<Rightarrow> decoded_config) \<Rightarrow> string \<Rightarrow> (string \<Rightarrow> string option) option \<Rightarrow> auth_error + credential list" where
  "NewAuthenticator L decode raw lookup =
     (if TrimSpace raw = '''' then Inr []
      else case lookup of
        None \<Rightarrow> Inl LookupRequired
      | Some lookup \<Rightarrow>
          (case decode raw of
             ConfigMalformed \<Rightarrow> Inl MalformedJSON
           | ConfigTrailing \<Rightarrow> Inl TrailingJSON
           | ConfigReferences references \<Rightarrow> add_credentials L lookup [] references))"

definition auth_Enabled :: "credential list \<Rightarrow> bool" where
  "auth_Enabled credentials \<longleftrightarrow> 0 < length credentials"

section \<open>The middleware\<close>

definition bearer_prefix :: string where
  "bearer_prefix = ''Bearer ''"

definition authenticate :: "golib \<Rightarrow> credential list \<Rightarrow> string \<Rightarrow> Identity option" where
  "authenticate L credentials hdr =
     (if \<not> HasPrefix hdr bearer_prefix \<or> length hdr = length bearer_prefix then None
      else let digest = lib_sha256_hex L (drop (length bearer_prefix) hdr) in
        map_option cr_identity (find (\<lambda>candidate. digest = cr_hash candidate) credentials))"

definition authorized :: "Identity \<Rightarrow> Request \<Rightarrow> bool" where
  "authorized identity r =
     (if q_Method r = ''POST'' \<and> HasPrefix (q_Path r) ''/api/v1/approvals/''
         \<and> (HasSuffix (q_Path r) ''/approve'' \<or> HasSuffix (q_Path r) ''/reject'') then HasAny identity [RoleAdmin]
      else if q_Method r = ''POST'' \<and> HasSuffix (q_Path r) ''/children'' then HasAny identity [RoleAgent]
      else if q_Path r = ''/api/v1/audit-events'' then HasAny identity [RoleAdmin]
      else if q_Method r = ''GET'' \<or> q_Method r = ''HEAD'' then HasAny identity [RoleReader, RoleOperator, RoleAdmin]
      else HasAny identity [RoleOperator, RoleAdmin])"

datatype auth_decision = Unauthorized | Forbidden | Admitted "Identity option"

definition auth_Middleware :: "golib \<Rightarrow> credential list \<Rightarrow> Request \<Rightarrow> auth_decision" where
  "auth_Middleware L credentials r =
     (if \<not> auth_Enabled credentials then Admitted None
      else if q_Path r = ''/healthz'' \<or> q_Path r = ''/readyz'' then Admitted None
      else case authenticate L credentials (header r ''Authorization'') of
        None \<Rightarrow> Unauthorized
      | Some identity \<Rightarrow>
          if \<not> authorized identity r then Forbidden else Admitted (Some identity))"

section \<open>What a configuration gives\<close>

text \<open>A credential that some entry of the configuration stands for, with the token it was read from.\<close>

definition grants :: "golib \<Rightarrow> (string \<Rightarrow> string option) \<Rightarrow> (string \<times> reference) list \<Rightarrow> Identity \<Rightarrow> string \<Rightarrow> bool" where
  "grants L lookup refs identity token \<longleftrightarrow> (\<exists>entry \<in> set refs. read_reference L lookup entry = Inr (identity, token))"

lemma add_roles_known:
  assumes "add_roles L subject roles raw = Inr roles'" and "set roles \<subseteq> {RoleReader, RoleOperator, RoleAdmin, RoleAgent}"
  shows "set roles' \<subseteq> {RoleReader, RoleOperator, RoleAdmin, RoleAgent}"
  using assms
proof (induction raw arbitrary: roles)
  case (Cons r rest)
  let ?role = "lower_trim L r"
  have known: "?role \<in> {RoleReader, RoleOperator, RoleAdmin, RoleAgent}"
    using Cons.prems(1) by (auto simp: Let_def split: if_splits)
  then have "add_roles L subject (if ?role \<in> set roles then roles else roles @ [?role]) rest = Inr roles'"
    using Cons.prems(1) by (auto simp: Let_def split: if_splits)
  then show ?case using Cons.IH known Cons.prems(2) by (auto split: if_splits)
qed simp

lemma read_reference_ok:
  assumes "read_reference L lookup entry = Inr (identity, token)"
  shows "i_Subject identity \<noteq> ''''" "set (i_Roles identity) \<subseteq> {RoleReader, RoleOperator, RoleAdmin, RoleAgent}"
    "HasAny identity [RoleAgent] \<longleftrightarrow> i_AgentID identity \<noteq> ''''"
    "lookup (TrimSpace (rf_SecretEnv (snd entry))) = Some token" "token \<noteq> ''''"
  using assms
  by (auto simp: read_reference_def Let_def dest!: add_roles_known split: prod.splits if_splits sum.splits option.splits)

lemma grants_ok:
  assumes "grants L lookup refs i token"
  shows "token \<noteq> ''''" "HasAny i [RoleAgent] \<longleftrightarrow> i_AgentID i \<noteq> ''''"
  using assms read_reference_ok(3,5) unfolding grants_def by blast+

lemma add_credentials_ok:
  assumes "add_credentials L lookup cs refs = Inr cs'" and "distinct (map cr_hash cs)"
  shows "distinct (map cr_hash cs')"
    "set cs' = set cs \<union> {\<lparr> cr_identity = identity, cr_hash = lib_sha256_hex L token \<rparr> | identity token. grants L lookup refs identity token}"
proof -
  have "distinct (map cr_hash cs') \<and> set cs' = set cs \<union>
      {\<lparr> cr_identity = identity, cr_hash = lib_sha256_hex L token \<rparr> | identity token. grants L lookup refs identity token}"
    using assms
  proof (induction refs arbitrary: cs)
    case (Cons entry rest)
    obtain identity token where read: "read_reference L lookup entry = Inr (identity, token)"
      using Cons.prems(1) by (auto split: sum.splits)
    let ?c = "\<lparr> cr_identity = identity, cr_hash = lib_sha256_hex L token \<rparr>"
    have new: "lib_sha256_hex L token \<notin> cr_hash ` set cs"
      and rest: "add_credentials L lookup (cs @ [?c]) rest = Inr cs'"
      using Cons.prems(1) read by (auto simp: Let_def split: if_splits)
    have IH: "distinct (map cr_hash cs') \<and> set cs' = set (cs @ [?c]) \<union>
        {\<lparr> cr_identity = identity, cr_hash = lib_sha256_hex L token \<rparr> | identity token. grants L lookup rest identity token}"
      using Cons.IH [OF rest] new Cons.prems(2) by auto
    have "grants L lookup (entry # rest) i t \<longleftrightarrow> (i = identity \<and> t = token) \<or> grants L lookup rest i t" for i t
      using read by (auto simp: grants_def)
    then show ?case using IH by auto
  qed (simp add: grants_def)
  then show "distinct (map cr_hash cs')"
    "set cs' = set cs \<union> {\<lparr> cr_identity = identity, cr_hash = lib_sha256_hex L token \<rparr> | identity token. grants L lookup refs identity token}"
    by blast+
qed

lemma credentials_of:
  assumes "NewAuthenticator L decode raw (Some lookup) = Inr credentials" and "decode raw = ConfigReferences refs"
    and "credentials \<noteq> []"
  shows "distinct (map cr_hash credentials)"
    "c \<in> set credentials \<longleftrightarrow> (\<exists>token. cr_hash c = lib_sha256_hex L token \<and> grants L lookup refs (cr_identity c) token)"
proof -
  have "TrimSpace raw \<noteq> ''''" using assms(1,3) by (auto simp: NewAuthenticator_def)
  then have "add_credentials L lookup [] refs = Inr credentials"
    using assms(1,2) by (simp add: NewAuthenticator_def)
  note ok = add_credentials_ok [OF this]
  show "distinct (map cr_hash credentials)" using ok(1) by simp
  show "c \<in> set credentials \<longleftrightarrow> (\<exists>token. cr_hash c = lib_sha256_hex L token \<and> grants L lookup refs (cr_identity c) token)"
    using ok(2) by (cases c) auto
qed

text \<open>No configured token other than the presented one has its digest.\<close>

definition no_collision :: "golib \<Rightarrow> (string \<Rightarrow> string option) \<Rightarrow> (string \<times> reference) list \<Rightarrow> string \<Rightarrow> bool" where
  "no_collision L lookup refs presented \<longleftrightarrow>
     (\<forall>i t. grants L lookup refs i t \<and> lib_sha256_hex L t = lib_sha256_hex L presented \<longrightarrow> t = presented)"

lemma find_hash:
  assumes "distinct (map f xs)" and "x \<in> set xs"
  shows "find (\<lambda>c. f x = f c) xs = Some x"
  using assms by (induction xs) (auto simp: image_iff)

lemma find_in: "find P xs = Some c \<Longrightarrow> c \<in> set xs \<and> P c"
  by (induction xs) (auto split: if_splits)

lemma authenticate_iff:
  assumes "NewAuthenticator L decode raw (Some lookup) = Inr credentials" and "decode raw = ConfigReferences refs"
    and "credentials \<noteq> []" and "no_collision L lookup refs presented"
  shows "authenticate L credentials (''Bearer '' @ presented) = Some i \<longleftrightarrow> grants L lookup refs i presented"
proof -
  note cs = credentials_of [OF assms(1-3)]
  let ?find = "find (\<lambda>c. lib_sha256_hex L presented = cr_hash c) credentials"
  have "map_option cr_identity ?find = Some i \<longleftrightarrow> grants L lookup refs i presented"
  proof
    assume "map_option cr_identity ?find = Some i"
    then obtain c where c: "c \<in> set credentials" "lib_sha256_hex L presented = cr_hash c" "cr_identity c = i"
      by (auto dest: find_in)
    then obtain t where "cr_hash c = lib_sha256_hex L t" "grants L lookup refs i t" using cs(2) by blast
    with c(2) assms(4) show "grants L lookup refs i presented" by (metis no_collision_def)
  next
    let ?c = "\<lparr> cr_identity = i, cr_hash = lib_sha256_hex L presented \<rparr>"
    assume "grants L lookup refs i presented"
    then have "?c \<in> set credentials" by (auto simp: cs(2))
    from find_hash [OF cs(1) this] show "map_option cr_identity ?find = Some i" by simp
  qed
  moreover note grants_ok(1) [of L lookup refs i presented]
  ultimately show ?thesis by (auto simp: authenticate_def bearer_prefix_def Let_def)
qed

lemma authorized_roles:
  assumes "authorized i r"
  shows "q_Path r = ''/api/v1/audit-events'' \<Longrightarrow> RoleAdmin \<in> set (i_Roles i)"
    "q_Method r = ''POST'' \<Longrightarrow> q_Path r = ''/api/v1/approvals/'' @ k @ ''/approve'' \<Longrightarrow> RoleAdmin \<in> set (i_Roles i)"
    "q_Method r = ''POST'' \<Longrightarrow> q_Path r = ''/api/v1/approvals/'' @ k @ ''/reject'' \<Longrightarrow> RoleAdmin \<in> set (i_Roles i)"
    "q_Method r = ''POST'' \<Longrightarrow> q_Path r = ''/api/v1/runs/'' @ k @ ''/children'' \<Longrightarrow> HasAny i [RoleAgent]"
    "q_Method r \<noteq> ''GET'' \<Longrightarrow> q_Method r \<noteq> ''HEAD'' \<Longrightarrow> \<not> HasSuffix (q_Path r) ''/children'' \<Longrightarrow>
       RoleOperator \<in> set (i_Roles i) \<or> RoleAdmin \<in> set (i_Roles i)"
proof -
  show "RoleAdmin \<in> set (i_Roles i)" if "q_Path r = ''/api/v1/audit-events''"
    using assms that by (simp add: authorized_def HasAny_iff suffix_def split: if_splits)
  show "RoleAdmin \<in> set (i_Roles i)" if "q_Method r = ''POST''" "q_Path r = ''/api/v1/approvals/'' @ k @ ''/approve''"
    using assms that by (simp add: authorized_def HasAny_iff suffix_def)
  show "RoleAdmin \<in> set (i_Roles i)" if "q_Method r = ''POST''" "q_Path r = ''/api/v1/approvals/'' @ k @ ''/reject''"
    using assms that by (simp add: authorized_def HasAny_iff suffix_def)
  show "HasAny i [RoleAgent]" if "q_Method r = ''POST''" "q_Path r = ''/api/v1/runs/'' @ k @ ''/children''"
    using assms that by (simp add: authorized_def suffix_def)
  show "RoleOperator \<in> set (i_Roles i) \<or> RoleAdmin \<in> set (i_Roles i)"
    if "q_Method r \<noteq> ''GET''" "q_Method r \<noteq> ''HEAD''" "\<not> HasSuffix (q_Path r) ''/children''"
    using assms that by (auto simp: authorized_def HasAny_iff split: if_splits)
qed

section \<open>Properties\<close>


text \<open>A reader and an Agent; the reader lists Runs.\<close>

definition sample_references :: "(string \<times> reference) list" where
  "sample_references =
     [('' ana '', \<lparr> rf_SecretEnv = ''ANA'', rf_Roles = [''Reader''], rf_AgentID = '''' \<rparr>),
      (''bot'', \<lparr> rf_SecretEnv = ''BOT'', rf_Roles = [''agent'', ''agent''], rf_AgentID = ''a'' \<rparr>)]"

definition sample_secrets :: "string \<Rightarrow> string option" where
  "sample_secrets name = (if name = ''ANA'' then Some ''t1'' else if name = ''BOT'' then Some ''t2'' else None)"

definition sample_credentials :: "credential list" where
  "sample_credentials =
     [\<lparr> cr_identity = \<lparr> i_Subject = ''ana'', i_Roles = [RoleReader], i_AgentID = '''' \<rparr>, cr_hash = ''t1'' \<rparr>,
      \<lparr> cr_identity = \<lparr> i_Subject = ''bot'', i_Roles = [RoleAgent], i_AgentID = ''a'' \<rparr>, cr_hash = ''t2'' \<rparr>]"

definition sample_call :: Request where
  "sample_call = \<lparr> q_Method = ''POST'', q_Path = ''/api/v1/runs/r1/children'', q_Header = [(''Authorization'', ''Bearer t2'')],
     q_Query = [], q_Body = '''' \<rparr>"

lemma sample_authenticator:
  "NewAuthenticator sample_lib (\<lambda>_. ConfigReferences sample_references) ''{}'' (Some sample_secrets) = Inr sample_credentials"
  by code_simp


end
