(* ===== verification/Api_State.thy ===== *)
theory Api_State
  imports Programs Strconv Metrics Engine_System Router Workflow_Plan Mcp Api_Auth
begin

text \<open>
  What the handlers of \<^verbatim>\<open>internal/httpapi/server.go\<close> share: the services they call as one state, the
  request with its context, answers, and the small helpers for entity tags, query values and
  request identifiers. A handler is a program of \<^verbatim>\<open>Programs\<close> with one step per call of a service.
\<close>

section \<open>State\<close>

text \<open>
  The services behind the API; without a health service the API has the \<^verbatim>\<open>agenthealth.Noop\<close> registry.
  \<^verbatim>\<open>sv_sent\<close> collects the requests sent to tool servers.
\<close>

record Server =
  sv_engine :: Engine
  sv_health :: "HealthService option"
  sv_client :: McpClient
  sv_sent :: "HttpRequest list"

text \<open>What is fixed when the server starts.\<close>

record ServerConfig =
  ss_maxAttempts :: int
  ss_agentCallMaxDepth :: int
  ss_agentCallMaxChildren :: int
  ss_authenticator :: "credential list option"
  ss_auditRetention :: duration
  ss_auditMaxEvents :: int
  ss_tools :: "tool_registry option"
  ss_approvalTTL :: duration
  ss_approvalRetention :: duration
  ss_instanceID :: string

text \<open>
  \<^verbatim>\<open>NewWithInstanceID\<close> gives the defaults, \<^verbatim>\<open>maxAttempts\<close> is the engine's; a setter ignores a limit that is not positive.
\<close>

definition NewWithInstanceID :: "int \<Rightarrow> string \<Rightarrow> ServerConfig" where
  "NewWithInstanceID maxAttempts instanceID =
     \<lparr> ss_maxAttempts = maxAttempts, ss_agentCallMaxDepth = 8, ss_agentCallMaxChildren = 16, ss_authenticator = None,
       ss_auditRetention = 90 * 24 * Hour, ss_auditMaxEvents = 100000, ss_tools = None, ss_approvalTTL = 15 * Minute,
       ss_approvalRetention = 30 * 24 * Hour, ss_instanceID = instanceID \<rparr>"

definition SetAgentCallLimits :: "int \<Rightarrow> int \<Rightarrow> ServerConfig \<Rightarrow> ServerConfig" where
  "SetAgentCallLimits maxDepth maxChildren cfg =
     (let cfg = (if 0 < maxDepth then cfg\<lparr>ss_agentCallMaxDepth := maxDepth\<rparr> else cfg)
      in if 0 < maxChildren then cfg\<lparr>ss_agentCallMaxChildren := maxChildren\<rparr> else cfg)"

definition SetAPISecurity :: "credential list option \<Rightarrow> duration \<Rightarrow> int \<Rightarrow> ServerConfig \<Rightarrow> ServerConfig" where
  "SetAPISecurity authenticator auditRetention auditMaxEvents cfg =
     (let cfg = cfg\<lparr>ss_authenticator := authenticator\<rparr>;
          cfg = (if 0 < auditRetention then cfg\<lparr>ss_auditRetention := auditRetention\<rparr> else cfg)
      in if 0 < auditMaxEvents then cfg\<lparr>ss_auditMaxEvents := auditMaxEvents\<rparr> else cfg)"

definition SetToolGateway :: "tool_registry option \<Rightarrow> ServerConfig \<Rightarrow> ServerConfig" where
  "SetToolGateway gateway cfg = cfg\<lparr>ss_tools := gateway\<rparr>"

definition SetApprovalPolicy :: "duration \<Rightarrow> duration \<Rightarrow> ServerConfig \<Rightarrow> ServerConfig" where
  "SetApprovalPolicy ttl retention cfg =
     (let cfg = (if 0 < ttl then cfg\<lparr>ss_approvalTTL := ttl\<rparr> else cfg)
      in if 0 < retention then cfg\<lparr>ss_approvalRetention := retention\<rparr> else cfg)"

text \<open>So the limits of a server are positive, whatever the setters are called with.\<close>

definition limits_positive :: "ServerConfig \<Rightarrow> bool" where
  "limits_positive cfg \<longleftrightarrow> 0 < ss_agentCallMaxDepth cfg \<and> 0 < ss_agentCallMaxChildren cfg \<and> 0 < ss_auditRetention cfg
     \<and> 0 < ss_auditMaxEvents cfg \<and> 0 < ss_approvalTTL cfg \<and> 0 < ss_approvalRetention cfg"

lemma limits_positive_kept:
  "limits_positive (NewWithInstanceID n instanceID)"
  "limits_positive cfg \<Longrightarrow> limits_positive (SetAgentCallLimits depth children cfg)"
  "limits_positive cfg \<Longrightarrow> limits_positive (SetAPISecurity authenticator retention events cfg)"
  "limits_positive cfg \<Longrightarrow> limits_positive (SetToolGateway gateway cfg)"
  "limits_positive cfg \<Longrightarrow> limits_positive (SetApprovalPolicy ttl retention' cfg)"
  by (simp_all add: limits_positive_def NewWithInstanceID_def SetAgentCallLimits_def SetAPISecurity_def SetToolGateway_def
      SetApprovalPolicy_def Let_def)

text \<open>
  The context of one request: the readings of the clock and the random identifiers in the order the
  handler asks for them, whether the client has gone when a Run is enqueued (and which ready branch is then
  taken), the identity and request identifier the middleware has put in, whether the dependencies answer, the metrics
  registry if there is one, and the tool servers.
\<close>

record RequestEnv =
  rv_clock :: "nat \<Rightarrow> time"
  rv_random :: "nat \<Rightarrow> string option"
  rv_ctxDone :: bool
  rv_pick :: bool
  rv_identity :: "Identity option"
  rv_requestID :: string
  rv_ready :: bool
  rv_metrics :: "(string \<times> Registry) option"
  rv_call :: "string ToolEnv"
  rv_list :: "ToolList ToolEnv"

abbreviation sv_store :: "Server \<Rightarrow> Memory" where
  "sv_store s \<equiv> en_store (sv_engine s)"

definition with_store :: "Memory \<Rightarrow> Server \<Rightarrow> Server" where
  "with_store m s = s\<lparr>sv_engine := (sv_engine s)\<lparr>en_store := m\<rparr>\<rparr>"

section \<open>Answers\<close>

datatype api_cause =
    CauseJSON
  | CauseAgent agent_error
  | CauseDiscovery discovery_error
  | CauseRouter router_error
  | CauseRun run_error
  | CauseWorkflow workflow_error
  | CauseApproval approval_error
  | CauseStore store_error
  | CauseQueue queue_error
  | CauseText string

datatype api_body =
    NoBody
  | ErrorText string
  | ErrorOf api_cause
  | AgentBody Agent
  | SearchBody SearchResult
  | HealthBody HealthState
  | RunBody Run
  | RunsBody "Run list"
  | WorkflowBody Workflow
  | WorkflowsBody "Workflow list"
  | ApprovalBody Approval
  | ApprovalsBody "Approval list"
  | AuditBody "AuditEvent list"
  | ServersBody "ServerView list"
  | ToolsBody ToolList
  | ResultBody string
  | StatusBody string
  | PageBody string
  | StreamBody

record Response =
  re_Status :: int
  re_Header :: "(string, string) gomap"
  re_Body :: api_body

type_synonym handler = "(Server, Response) prog"

definition writeJSON :: "(string, string) gomap \<Rightarrow> int \<Rightarrow> api_body \<Rightarrow> Response" where
  "writeJSON headers status body =
     \<lparr> re_Status = status, re_Header = put ''Content-Type'' ''application/json'' headers, re_Body = body \<rparr>"

definition writeError :: "int \<Rightarrow> string \<Rightarrow> Response" where
  "writeError status message = writeJSON [] status (ErrorText message)"

definition writeErr :: "int \<Rightarrow> api_cause \<Rightarrow> Response" where
  "writeErr status cause = writeJSON [] status (ErrorOf cause)"

abbreviation replies :: "int \<Rightarrow> api_body \<Rightarrow> handler" where
  "replies status body \<equiv> Respond (writeJSON [] status body)"

abbreviation refuses :: "int \<Rightarrow> string \<Rightarrow> handler" where
  "refuses status message \<equiv> Respond (writeError status message)"

abbreviation rejects :: "int \<Rightarrow> api_cause \<Rightarrow> handler" where
  "rejects status cause \<equiv> Respond (writeErr status cause)"

section \<open>Calls\<close>

definition store_read :: "(Memory \<Rightarrow> 'a) \<Rightarrow> Server \<Rightarrow> 'a" where
  "store_read f s = f (sv_store s)"

definition store_call :: "(Memory \<Rightarrow> store_error + ('a \<times> Memory)) \<Rightarrow> Server \<Rightarrow> (store_error + 'a) \<times> Server" where
  "store_call f s = (case f (sv_store s) of Inl e \<Rightarrow> (Inl e, s) | Inr (x, m) \<Rightarrow> (Inr x, with_store m s))"

definition store_write :: "(Memory \<Rightarrow> store_error + Memory) \<Rightarrow> Server \<Rightarrow> store_error option \<times> Server" where
  "store_write f s = (case f (sv_store s) of Inl e \<Rightarrow> (Some e, s) | Inr m \<Rightarrow> (None, with_store m s))"

text \<open>The calls of the health registry; \<^verbatim>\<open>agenthealth.Noop\<close> ignores them and knows no state.\<close>

definition health_call :: "(HealthService \<Rightarrow> HealthService) \<Rightarrow> Server \<Rightarrow> unit \<times> Server" where
  "health_call f s = ((), s\<lparr>sv_health := map_option f (sv_health s)\<rparr>)"

definition health_state :: "string \<Rightarrow> Server \<Rightarrow> HealthState" where
  "health_state agentID s = (case sv_health s of None \<Rightarrow> unknown_state agentID | Some h \<Rightarrow> Health_State agentID h)"

definition health_status :: "Server \<Rightarrow> string \<Rightarrow> string" where
  "health_status s agentID = hs_Status (health_state agentID s)"

text \<open>Publication on the event bus, and the queue as the request's context allows.\<close>

definition publish_call :: "time \<Rightarrow> string option \<Rightarrow> RunEvent \<Rightarrow> Server \<Rightarrow> unit \<times> Server" where
  "publish_call now random event s =
     ((), s\<lparr>sv_engine := (sv_engine s)\<lparr>en_bus := Publish now random event (en_bus (sv_engine s))\<rparr>\<rparr>)"

definition enqueue_call :: "RequestEnv \<Rightarrow> string \<Rightarrow> Server \<Rightarrow> queue_error option \<times> Server" where
  "enqueue_call v runID s =
     (case Enqueue (rv_ctxDone v) (rv_pick v) runID (en_queue (sv_engine s)) of
        Inl e \<Rightarrow> (Some e, s)
      | Inr q \<Rightarrow> (None, s\<lparr>sv_engine := (sv_engine s)\<lparr>en_queue := q\<rparr>\<rparr>))"

definition run_event :: "Run \<Rightarrow> string \<Rightarrow> string \<Rightarrow> string \<Rightarrow> string \<Rightarrow> int \<Rightarrow> time \<Rightarrow> RunEvent" where
  "run_event run runID childRunID eventType message attempt now =
     \<lparr> e_ID = '''', e_RunID = runID, e_ChildRunID = childRunID, e_ParentRunID = r_ParentRunID run, e_RootRunID = r_RootRunID run,
       e_Type = eventType, e_Message = message, e_Attempt = attempt, e_Timestamp = now \<rparr>"

section \<open>Entity tags and query values\<close>

definition setAgentETag :: "int \<Rightarrow> (string, string) gomap" where
  "setAgentETag version = [(''ETag'', CHR 0x22 # Itoa version @ [CHR 0x22])]"

datatype etag_error = IfMatchRequired | IfMatchNotStrong | IfMatchNotPositive

definition etag_text :: "etag_error \<Rightarrow> string" where
  "etag_text e =
     (case e of
        IfMatchRequired \<Rightarrow> ''If-Match is required for Agent mutations''
      | IfMatchNotStrong \<Rightarrow> ''If-Match must use a strong numeric ETag''
      | IfMatchNotPositive \<Rightarrow> ''If-Match must contain a positive numeric Agent version'')"

definition agentExpectedVersion :: "Request \<Rightarrow> etag_error + int" where
  "agentExpectedVersion r =
     (let value = TrimSpace (header r ''If-Match'') in
      if value = '''' then Inl IfMatchRequired
      else if HasPrefix value ''W/'' \<or> length value < 3 \<or> hd value \<noteq> CHR 0x22 \<or> last value \<noteq> CHR 0x22 then Inl IfMatchNotStrong
      else case ParseInt (butlast (tl value)) of
        None \<Rightarrow> Inl IfMatchNotPositive
      | Some version \<Rightarrow> if version < 1 then Inl IfMatchNotPositive else Inr version)"

definition queryNonNegativeInt :: "string \<Rightarrow> int option" where
  "queryNonNegativeInt raw =
     (let value = TrimSpace raw in
      if value = '''' then Some 0
      else case Atoi value of None \<Rightarrow> None | Some parsed \<Rightarrow> if parsed < 0 then None else Some parsed)"

definition agentDiscoveryQuery :: "golib \<Rightarrow> Request \<Rightarrow> string + Query" where
  "agentDiscoveryQuery L r =
     (let health = lower_trim L (query r ''health''); status = lower_trim L (query r ''status'') in
      if health \<noteq> '''' \<and> status \<noteq> '''' \<and> health \<noteq> status then Inl ''health and status filters conflict''
      else let health = (if health = '''' then status else health) in
        case queryNonNegativeInt (query r ''limit'') of
          None \<Rightarrow> Inl ''limit must be a non-negative integer''
        | Some limit \<Rightarrow>
            (case queryNonNegativeInt (query r ''offset'') of
               None \<Rightarrow> Inl ''offset must be a non-negative integer''
             | Some offset \<Rightarrow>
                 Inr \<lparr> qy_Capability = query r ''capability'', qy_Runtime = query r ''runtime'', qy_Protocol = query r ''protocol'',
                       qy_Health = health, qy_Limit = limit, qy_Offset = offset \<rparr>))"

section \<open>Request identifiers\<close>

definition request_id_char :: "char \<Rightarrow> bool" where
  "request_id_char c \<longleftrightarrow> lower_alpha c \<or> upper_alpha c \<or> numeric c \<or> c \<in> set ''-_.:''"

definition normalizedRequestID :: "string option \<Rightarrow> time \<Rightarrow> string \<Rightarrow> string" where
  "normalizedRequestID random now raw =
     (let value = TrimSpace raw in
      if value = '''' \<or> 128 < length value then newID ''req'' random now
      else if list_all request_id_char value then value else newID ''req'' random now)"

end
