(* ===== verification/Api_Agents.thy ===== *)
theory Api_Agents
  imports Api_State
begin

text \<open>
  The handlers on Agents: creation, reading, update and deletion under an entity tag, health and
  discovery.
\<close>

section \<open>Handlers\<close>

record createAgentRequest =
  ca_Name :: string
  ca_SystemPrompt :: string
  ca_Runtime :: string
  ca_Protocol :: string
  ca_Endpoint :: string
  ca_Model :: string
  ca_Capabilities :: "string list"
  ca_EffectIdempotency :: string
  ca_MaxConcurrency :: int
  ca_Priority :: int

definition requested_agent :: "string \<Rightarrow> createAgentRequest \<Rightarrow> Agent" where
  "requested_agent agentID q = \<lparr> a_ID = agentID, a_Name = ca_Name q, a_SystemPrompt = ca_SystemPrompt q, a_Runtime = ca_Runtime q,
     a_Protocol = ca_Protocol q, a_Endpoint = ca_Endpoint q, a_Model = ca_Model q, a_Capabilities = ca_Capabilities q,
     a_EffectIdempotency = ca_EffectIdempotency q, a_MaxConcurrency = ca_MaxConcurrency q, a_Priority = ca_Priority q,
     a_CreatedAt = 0, a_UpdatedAt = 0, a_Version = 0 \<rparr>"

definition createAgent :: "golib \<Rightarrow> RequestEnv \<Rightarrow> createAgentRequest option \<Rightarrow> handler" where
  "createAgent L v decoded =
     (case decoded of
        None \<Rightarrow> rejects 400 CauseJSON
      | Some request \<Rightarrow>
          let agent = (requested_agent (newID ''agt'' (rv_random v 0) (rv_clock v 0)) request)\<lparr>a_CreatedAt := rv_clock v 1\<rparr> in
          case NormalizeAndValidate L agent of
            Inl e \<Rightarrow> rejects 400 (CauseAgent e)
          | Inr agent \<Rightarrow>
              act (store_call (CreateAgent L (rv_clock v 2) agent)) (\<lambda>result.
              case result of
                Inl _ \<Rightarrow> refuses 500 ''could not create agent''
              | Inr created \<Rightarrow>
                  act (health_call (Health_Refresh created)) (\<lambda>_.
                  Respond (writeJSON (setAgentETag (a_Version created)) 201 (AgentBody created)))))"

definition load_agent :: "string \<Rightarrow> (Agent \<Rightarrow> handler) \<Rightarrow> handler" where
  "load_agent agentID k =
     ask (store_read (GetAgent agentID)) (\<lambda>result.
     case result of
       Inl ErrNotFound \<Rightarrow> refuses 404 ''agent not found''
     | Inl _ \<Rightarrow> refuses 500 ''could not load agent''
     | Inr agent \<Rightarrow> k agent)"

definition getAgentHealth :: "string \<Rightarrow> handler" where
  "getAgentHealth agentID =
     load_agent agentID (\<lambda>agent.
     ask (health_state (a_ID agent)) (\<lambda>state.
     act (health_call (Health_Refresh agent)) (\<lambda>_.
     replies 200 (HealthBody state))))"

definition listAgents :: "golib \<Rightarrow> Request \<Rightarrow> handler" where
  "listAgents L r =
     (case agentDiscoveryQuery L r of
        Inl message \<Rightarrow> refuses 400 message
      | Inr qy \<Rightarrow>
          ask (\<lambda>s. Search L (health_status s) (sv_store s) qy) (\<lambda>result.
          case result of
            Inl (ErrSearch _) \<Rightarrow> refuses 500 ''could not discover agents''
          | Inl e \<Rightarrow> rejects 400 (CauseDiscovery e)
          | Inr found \<Rightarrow> replies 200 (SearchBody found)))"

definition getAgent :: "string \<Rightarrow> handler" where
  "getAgent agentID =
     load_agent agentID (\<lambda>agent.
     Respond (writeJSON (setAgentETag (a_Version agent)) 200 (AgentBody agent)))"

definition updateAgent :: "golib \<Rightarrow> RequestEnv \<Rightarrow> Request \<Rightarrow> string \<Rightarrow> createAgentRequest option \<Rightarrow> handler" where
  "updateAgent L v r agentID decoded =
     load_agent agentID (\<lambda>_.
     case agentExpectedVersion r of
       Inl e \<Rightarrow> refuses 400 (etag_text e)
     | Inr expectedVersion \<Rightarrow>
         (case decoded of
            None \<Rightarrow> rejects 400 CauseJSON
          | Some request \<Rightarrow>
              (case NormalizeAndValidate L (requested_agent agentID request) of
                 Inl e \<Rightarrow> rejects 400 (CauseAgent e)
               | Inr agent \<Rightarrow>
                   act (store_call (UpdateAgent L (rv_clock v 0) agent expectedVersion)) (\<lambda>result.
                   case result of
                     Inl ErrNotFound \<Rightarrow> refuses 404 ''agent not found''
                   | Inl ErrConflict \<Rightarrow> refuses 409 ''agent was modified concurrently''
                   | Inl _ \<Rightarrow> refuses 500 ''could not update agent''
                   | Inr updated \<Rightarrow>
                       act (health_call (Health_Forget (a_ID updated))) (\<lambda>_.
                       act (health_call (Health_Refresh updated)) (\<lambda>_.
                       Respond (writeJSON (setAgentETag (a_Version updated)) 200 (AgentBody updated))))))))"

definition deleteAgent :: "Request \<Rightarrow> string \<Rightarrow> handler" where
  "deleteAgent r agentID =
     load_agent agentID (\<lambda>_.
     case agentExpectedVersion r of
       Inl e \<Rightarrow> refuses 400 (etag_text e)
     | Inr expectedVersion \<Rightarrow>
         act (store_write (DeleteAgent agentID expectedVersion)) (\<lambda>result.
         case result of
           Some ErrNotFound \<Rightarrow> refuses 404 ''agent not found''
         | Some ErrConflict \<Rightarrow> refuses 409 ''agent was modified concurrently''
         | Some ErrAgentInUse \<Rightarrow> refuses 409 ''agent has dependent runs and cannot be deleted''
         | Some _ \<Rightarrow> refuses 500 ''could not delete agent''
         | None \<Rightarrow>
             act (health_call (Health_Forget agentID)) (\<lambda>_.
             Respond \<lparr> re_Status = 204, re_Header = [], re_Body = NoBody \<rparr>)))"

end
