(* ===== verification/Api_Runs.thy ===== *)
theory Api_Runs
  imports Api_State
begin

text \<open>
  The handlers on Runs: submission with idempotency keys, Agent-to-Agent calls, reading and
  cancellation.
\<close>

section \<open>Submission\<close>

record createRunRequest =
  cq_AgentID :: string
  cq_ParentRunID :: string
  cq_RequiredCapabilities :: "string list"
  cq_Input :: string

definition writeRunReplay :: "Run \<Rightarrow> createRunRequest \<Rightarrow> bool \<Rightarrow> Response" where
  "writeRunReplay existing request routed =
     (let requestChanged = (r_Input existing \<noteq> cq_Input request \<or> r_ParentRunID existing \<noteq> cq_ParentRunID request
            \<or> r_RequiredCapabilities existing \<noteq> cq_RequiredCapabilities request);
          requestChanged = (if routed then requestChanged else requestChanged \<or> r_AgentID existing \<noteq> cq_AgentID request) in
      if requestChanged then writeError 409 ''Idempotency-Key was already used with a different request''
      else writeJSON [(''Idempotency-Replayed'', ''true'')] 200 (RunBody existing))"

text \<open>
  The part both ways to create a Run share: which Agent is to do it, by routing over one snapshot of
  the store or by name.
\<close>

definition routing_error :: "router_error \<Rightarrow> Response" where
  "routing_error e =
     (case e of
        ErrNoCandidate \<Rightarrow> writeErr 422 (CauseRouter e)
      | ErrNoCapacity \<Rightarrow> writeErr 429 (CauseRouter e)
      | _ \<Rightarrow> writeError 500 ''could not route Agent call'')"

definition run_routing_error :: "router_error \<Rightarrow> Response" where
  "run_routing_error e =
     (case e of
        ErrNoRequirements \<Rightarrow> writeErr 400 (CauseRouter e)
      | ErrBadRequirement _ \<Rightarrow> writeErr 400 (CauseRouter e)
      | ErrNoCandidate \<Rightarrow> writeErr 422 (CauseRouter e)
      | ErrNoCapacity \<Rightarrow> writeErr 429 (CauseRouter e)
      | _ \<Rightarrow> writeError 500 ''could not route run'')"

definition choose_agent ::
  "golib \<Rightarrow> (router_error \<Rightarrow> Response) \<Rightarrow> createRunRequest \<Rightarrow> (createRunRequest \<Rightarrow> handler) \<Rightarrow> handler" where
  "choose_agent L refused request k =
     (if cq_AgentID request = '''' then
        ask (\<lambda>s. store_route L (health_status s) (sv_store s) (cq_RequiredCapabilities request)) (\<lambda>result.
        case result of
          Inl e \<Rightarrow> Respond (refused e)
        | Inr decision \<Rightarrow> k (request\<lparr>cq_AgentID := a_ID (d_Agent decision), cq_RequiredCapabilities := d_RequiredCapabilities decision\<rparr>))
      else
        ask (store_read (GetAgent (cq_AgentID request))) (\<lambda>result.
        case result of
          Inl ErrNotFound \<Rightarrow> refuses 404 ''agent not found''
        | Inl _ \<Rightarrow> refuses 500 ''could not load agent''
        | Inr _ \<Rightarrow> k request))"

text \<open>The checks on a request before anything is read.\<close>

definition check_request :: "golib \<Rightarrow> createRunRequest \<Rightarrow> Response + createRunRequest" where
  "check_request L request =
     (if cq_Input request = '''' then Inl (writeError 400 ''input is required'')
      else if cq_AgentID request \<noteq> '''' \<and> cq_RequiredCapabilities request \<noteq> [] then
        Inl (writeError 400 ''agent_id and required_capabilities are mutually exclusive'')
      else if cq_AgentID request = '''' \<and> cq_RequiredCapabilities request = [] then
        Inl (writeError 400 ''agent_id or required_capabilities is required'')
      else if cq_AgentID request = '''' then
        (case NormalizeRequirements L (cq_RequiredCapabilities request) of
           Inl e \<Rightarrow> Inl (writeErr 400 (CauseRouter e))
         | Inr normalized \<Rightarrow> Inr (request\<lparr>cq_RequiredCapabilities := normalized\<rparr>))
      else Inr request)"

definition queued_run :: "ServerConfig \<Rightarrow> RequestEnv \<Rightarrow> string \<Rightarrow> createRunRequest \<Rightarrow> Run" where
  "queued_run cfg v requestID request = zero_run\<lparr> r_ID := newID ''run'' (rv_random v 0) (rv_clock v 0), r_AgentID := cq_AgentID request,
     r_ParentRunID := cq_ParentRunID request, r_RequiredCapabilities := cq_RequiredCapabilities request, r_Input := cq_Input request,
     r_Status := RunQueued, r_MaxAttempts := ss_maxAttempts cfg, r_RequestID := requestID, r_CreatedAt := rv_clock v 1 \<rparr>"

definition queue_text :: "queue_error \<Rightarrow> string" where
  "queue_text e = (case e of QueueContextDone \<Rightarrow> ''context canceled'' | ErrFull \<Rightarrow> ''run queue is full''
     | DeadLetterCauseRequired \<Rightarrow> ''dead-letter cause is required'')"

definition submit_enqueue :: "RequestEnv \<Rightarrow> Run \<Rightarrow> handler" where
  "submit_enqueue v run =
     act (enqueue_call v (r_ID run)) (\<lambda>result.
     case result of
       None \<Rightarrow> replies 202 (RunBody run)
     | Some e \<Rightarrow>
         (case Run_Fail run (Some (queue_text e)) (rv_clock v 4) of
            Inl _ \<Rightarrow> refuses 500 ''could not fail run''
          | Inr failed \<Rightarrow>
              act (store_write (UpdateRun failed)) (\<lambda>result.
              case result of
                Some _ \<Rightarrow> refuses 500 ''could not update run''
              | None \<Rightarrow>
                  act (publish_call (rv_clock v 5) (rv_random v 3)
                    (run_event failed (r_ID failed) '''' ''run.failed'' (queue_text e) (r_Attempt failed) (rv_clock v 5))) (\<lambda>_.
                  rejects 503 (CauseQueue e)))))"

definition submit_run :: "RequestEnv \<Rightarrow> Run \<Rightarrow> handler" where
  "submit_run v run =
     act (publish_call (rv_clock v 2) (rv_random v 1)
       (run_event run (r_ID run) '''' ''run.queued'' ''run queued'' (r_Attempt run) (rv_clock v 2))) (\<lambda>_.
     if r_ParentRunID run \<noteq> '''' then
       act (publish_call (rv_clock v 3) (rv_random v 2)
         (run_event run (r_ParentRunID run) (r_ID run) ''run.child_queued'' ''child Run queued'' 0 (rv_clock v 3))) (\<lambda>_.
       submit_enqueue v run)
     else submit_enqueue v run)"

definition create_run :: "ServerConfig \<Rightarrow> RequestEnv \<Rightarrow> string \<Rightarrow> bool \<Rightarrow> Run \<Rightarrow> createRunRequest \<Rightarrow> handler" where
  "create_run cfg v key routed parentRun request =
     (let run = queued_run cfg v (rv_requestID v) request in
      case (if cq_ParentRunID request \<noteq> '''' then Run_AttachTo run parentRun else Inr run) of
        Inl e \<Rightarrow> rejects 400 (CauseRun e)
      | Inr run \<Rightarrow>
          act (store_call (CreateRun run key)) (\<lambda>result.
          case result of
            Inl _ \<Rightarrow> refuses 500 ''could not create run''
          | Inr (created, isNew) \<Rightarrow>
              if \<not> isNew then Respond (writeRunReplay created request routed) else submit_run v created))"

definition load_parent :: "createRunRequest \<Rightarrow> (Run \<Rightarrow> handler) \<Rightarrow> handler" where
  "load_parent request k =
     (if cq_ParentRunID request = '''' then k zero_run
      else
        ask (store_read (GetRun (cq_ParentRunID request))) (\<lambda>result.
        case result of
          Inl ErrNotFound \<Rightarrow> refuses 404 ''parent Run not found''
        | Inl _ \<Rightarrow> refuses 500 ''could not load parent Run''
        | Inr parentRun \<Rightarrow> k parentRun))"

definition createRun :: "golib \<Rightarrow> ServerConfig \<Rightarrow> RequestEnv \<Rightarrow> Request \<Rightarrow> createRunRequest option \<Rightarrow> handler" where
  "createRun L cfg v r decoded =
     (case decoded of
        None \<Rightarrow> rejects 400 CauseJSON
      | Some request \<Rightarrow>
          let request = request\<lparr>cq_AgentID := TrimSpace (cq_AgentID request), cq_ParentRunID := TrimSpace (cq_ParentRunID request),
                cq_Input := TrimSpace (cq_Input request)\<rparr>;
              routed = (cq_AgentID request = '''') in
          case check_request L request of
            Inl response \<Rightarrow> Respond response
          | Inr request \<Rightarrow>
              let key = TrimSpace (header r ''Idempotency-Key'');
                  fresh = load_parent request (\<lambda>parentRun. choose_agent L run_routing_error request (create_run cfg v key routed parentRun)) in
              if 128 < length key then refuses 400 ''Idempotency-Key must be at most 128 characters''
              else if key = '''' then fresh
              else
                ask (store_read (GetRunByIdempotencyKey key)) (\<lambda>result.
                case result of
                  Inr existing \<Rightarrow> Respond (writeRunReplay existing request routed)
                | Inl ErrNotFound \<Rightarrow> fresh
                | Inl _ \<Rightarrow> refuses 500 ''could not check idempotency key''))"

section \<open>Agent-to-Agent calls\<close>

text \<open>
  The walk up the lineage, over one snapshot of the store: \<^verbatim>\<open>None\<close> outside stands for a walk that does not
  end, \<^verbatim>\<open>None\<close> inside for the two errors.
\<close>

partial_function (option) ancestry_loop ::
  "Memory \<Rightarrow> int \<Rightarrow> string list \<Rightarrow> string list \<Rightarrow> Run \<Rightarrow> (int \<times> string list) option option" where
  "ancestry_loop m depth agents seenRuns current =
     (if r_ParentRunID current = '''' then Some (Some (depth, agents))
      else if r_ParentRunID current \<in> set seenRuns then Some None
      else case get (m_runs m) (r_ParentRunID current) of
        None \<Rightarrow> Some None
      | Some ancestor \<Rightarrow>
          ancestry_loop m (depth + 1) (r_AgentID ancestor # agents) (r_ID ancestor # seenRuns) ancestor)"

declare ancestry_loop.simps [code]

definition agentCallAncestry :: "Run \<Rightarrow> Memory \<Rightarrow> (int \<times> string list) option option" where
  "agentCallAncestry parent m = ancestry_loop m 1 [r_AgentID parent] [r_ID parent] parent"

text \<open>The three events of \<^verbatim>\<open>publishAgentChildRun\<close>.\<close>

definition publishAgentChildRun :: "RequestEnv \<Rightarrow> Run \<Rightarrow> Run \<Rightarrow> handler \<Rightarrow> handler" where
  "publishAgentChildRun v parent child k =
     (let now = rv_clock v 2; on_parent = child\<lparr>r_ParentRunID := r_ID parent\<rparr> in
      act (publish_call now (rv_random v 1) (run_event child (r_ID child) '''' ''run.queued'' ''run queued'' 0 now)) (\<lambda>_.
      act (publish_call now (rv_random v 2) (run_event on_parent (r_ID parent) (r_ID child) ''run.child_queued'' ''child Run queued'' 0 now)) (\<lambda>_.
      act (publish_call now (rv_random v 3) (run_event on_parent (r_ID parent) (r_ID child) ''run.agent_call_queued''
        ''Agent-to-Agent call queued through AgentMesh'' 0 now)) (\<lambda>_.
      k))))"

definition call_enqueue :: "RequestEnv \<Rightarrow> Run \<Rightarrow> handler" where
  "call_enqueue v created =
     act (enqueue_call v (r_ID created)) (\<lambda>result.
     case result of
       None \<Rightarrow> replies 202 (RunBody created)
     | Some e \<Rightarrow>
         (case Run_Fail created (Some (queue_text e)) (rv_clock v 3) of
            Inl _ \<Rightarrow> rejects 503 (CauseQueue e)
          | Inr failed \<Rightarrow> act (store_write (UpdateRun failed)) (\<lambda>_. rejects 503 (CauseQueue e))))"

definition create_child :: "ServerConfig \<Rightarrow> RequestEnv \<Rightarrow> string \<Rightarrow> Run \<Rightarrow> string list \<Rightarrow> createRunRequest \<Rightarrow> handler" where
  "create_child cfg v storeKey parent ancestorAgents request =
     (if cq_AgentID request \<in> set ancestorAgents then refuses 422 ''Agent call would repeat an Agent in its ancestry''
      else
        let requestID = (if r_RequestID parent = '''' then rv_requestID v else r_RequestID parent) in
        case Run_AttachTo (queued_run cfg v requestID (request\<lparr>cq_ParentRunID := r_ID parent\<rparr>)) parent of
          Inl e \<Rightarrow> rejects 400 (CauseRun e)
        | Inr run \<Rightarrow>
            act (store_call (CreateChildRun run storeKey (ss_agentCallMaxChildren cfg))) (\<lambda>result.
            case result of
              Inl ErrChildRunLimit \<Rightarrow> refuses 429 ''parent Run Agent-call fan-out limit reached''
            | Inl _ \<Rightarrow> refuses 500 ''could not create Agent child Run''
            | Inr (created, isNew) \<Rightarrow>
                if \<not> isNew then Respond (writeJSON [(''Idempotency-Replayed'', ''true'')] 200 (RunBody created))
                else publishAgentChildRun v parent created (call_enqueue v created)))"

definition replay_call :: "Run \<Rightarrow> Run \<Rightarrow> createRunRequest \<Rightarrow> Response" where
  "replay_call parent existing request =
     (if r_ParentRunID existing \<noteq> r_ID parent \<or> r_Input existing \<noteq> cq_Input request
        \<or> (cq_AgentID request \<noteq> '''' \<and> r_AgentID existing \<noteq> cq_AgentID request)
        \<or> (cq_AgentID request = '''' \<and> r_RequiredCapabilities existing \<noteq> cq_RequiredCapabilities request)
      then writeError 409 ''Idempotency-Key was already used with a different Agent call''
      else writeJSON [(''Idempotency-Replayed'', ''true'')] 200 (RunBody existing))"

definition new_call :: "golib \<Rightarrow> ServerConfig \<Rightarrow> RequestEnv \<Rightarrow> string \<Rightarrow> Run \<Rightarrow> createRunRequest \<Rightarrow> handler" where
  "new_call L cfg v storeKey parent request =
     (if r_Status parent \<noteq> RunRunning then refuses 409 ''Agent-to-Agent calls require a running parent Run''
      else
        ask (store_read (agentCallAncestry parent)) (\<lambda>result.
        case result of
          Some (Some (depth, ancestorAgents)) \<Rightarrow>
            if ss_agentCallMaxDepth cfg < depth then refuses 422 ''Agent call maximum depth exceeded''
            else choose_agent L routing_error request (create_child cfg v storeKey parent ancestorAgents)
        | _ \<Rightarrow> refuses 500 ''could not validate Agent call ancestry''))"

definition caller_agent :: "ServerConfig \<Rightarrow> RequestEnv \<Rightarrow> Request \<Rightarrow> string option" where
  "caller_agent cfg v r =
     (case ss_authenticator cfg of
        Some credentials \<Rightarrow>
          if auth_Enabled credentials then
            (case rv_identity v of
               None \<Rightarrow> None
             | Some identity \<Rightarrow> if HasAny identity [RoleAgent] then Some (i_AgentID identity) else None)
          else Some (TrimSpace (header r ''X-AgentMesh-Caller-Agent-ID''))
      | None \<Rightarrow> Some (TrimSpace (header r ''X-AgentMesh-Caller-Agent-ID'')))"

definition call_request :: "golib \<Rightarrow> createRunRequest \<Rightarrow> Response + createRunRequest" where
  "call_request L request =
     (let request = request\<lparr>cq_AgentID := TrimSpace (cq_AgentID request), cq_Input := TrimSpace (cq_Input request)\<rparr> in
      if cq_ParentRunID request \<noteq> '''' then Inl (writeError 400 ''parent_run_id is derived from the URL'')
      else check_request L request)"

definition createAgentChildRun ::
  "golib \<Rightarrow> ServerConfig \<Rightarrow> RequestEnv \<Rightarrow> Request \<Rightarrow> string \<Rightarrow> createRunRequest option \<Rightarrow> handler" where
  "createAgentChildRun L cfg v r parentID decoded =
     ask (store_read (GetRun parentID)) (\<lambda>result.
     case result of
       Inl ErrNotFound \<Rightarrow> refuses 404 ''parent Run not found''
     | Inl _ \<Rightarrow> refuses 500 ''could not load parent Run''
     | Inr parent \<Rightarrow>
         (case caller_agent cfg v r of
            None \<Rightarrow> refuses 403 ''authenticated Agent identity is required''
          | Some callerAgentID \<Rightarrow>
              let key = TrimSpace (header r ''Idempotency-Key''); storeKey = ''agent-call:'' @ r_ID parent @ '':'' @ key in
              if callerAgentID = '''' \<or> callerAgentID \<noteq> r_AgentID parent then refuses 403 ''caller Agent does not own the parent Run''
              else if key = '''' then refuses 400 ''Idempotency-Key is required for Agent-to-Agent calls''
              else if 128 < length key then refuses 400 ''Idempotency-Key must be at most 128 characters''
              else case decoded of
                None \<Rightarrow> rejects 400 CauseJSON
              | Some request \<Rightarrow>
                  (case call_request L request of
                     Inl response \<Rightarrow> Respond response
                   | Inr request \<Rightarrow>
                       ask (store_read (GetRunByIdempotencyKey storeKey)) (\<lambda>result.
                       case result of
                         Inr existing \<Rightarrow> Respond (replay_call parent existing request)
                       | Inl ErrNotFound \<Rightarrow> new_call L cfg v storeKey parent request
                       | Inl _ \<Rightarrow> refuses 500 ''could not check Agent call idempotency''))))"

section \<open>Reading and cancelling\<close>

definition getRun :: "string \<Rightarrow> handler" where
  "getRun runID =
     ask (store_read (GetRun runID)) (\<lambda>result.
     case result of
       Inl ErrNotFound \<Rightarrow> refuses 404 ''run not found''
     | Inl _ \<Rightarrow> refuses 500 ''could not load run''
     | Inr run \<Rightarrow> replies 200 (RunBody run))"

definition listRuns :: handler where
  "listRuns = ask (store_read ListRuns) (\<lambda>runs. replies 200 (RunsBody runs))"

definition listChildRuns :: "string \<Rightarrow> handler" where
  "listChildRuns runID =
     ask (store_read (ListChildRuns runID)) (\<lambda>result.
     case result of
       Inl ErrNotFound \<Rightarrow> refuses 404 ''Run not found''
     | Inl _ \<Rightarrow> refuses 500 ''could not list child Runs''
     | Inr children \<Rightarrow> replies 200 (RunsBody children))"

definition cancel_env :: "RequestEnv \<Rightarrow> Env" where
  "cancel_env v = \<lparr> v_now = rv_clock v 0, v_random = rv_random v 0, v_outcome = RtReturn '''' None, v_deadline = False, v_timer = False \<rparr>"

definition cancel_call :: "RequestEnv \<Rightarrow> string \<Rightarrow> Server \<Rightarrow> (store_error + Run) \<times> Server" where
  "cancel_call v runID s =
     (case Engine_Cancel (cancel_env v) runID (sv_engine s) of
        Inl e \<Rightarrow> (Inl e, s)
      | Inr (run, e) \<Rightarrow> (Inr run, s\<lparr>sv_engine := e\<rparr>))"

definition cancelRun :: "RequestEnv \<Rightarrow> string \<Rightarrow> handler" where
  "cancelRun v runID =
     act (cancel_call v runID) (\<lambda>result.
     case result of
       Inl ErrNotFound \<Rightarrow> refuses 404 ''run not found''
     | Inl (ErrRun e) \<Rightarrow> rejects 409 (CauseRun e)
     | Inl _ \<Rightarrow> refuses 500 ''could not cancel run''
     | Inr run \<Rightarrow> replies 200 (RunBody run))"

end
