(* ===== verification/Api_Tools.thy ===== *)
theory Api_Tools
  imports Api_State
begin

text \<open>
  The handlers on tools and approvals. The arguments of a call are a decoded JSON object, here by
  its canonical encoding; a missing object is \<^verbatim>\<open>None\<close>.
\<close>

section \<open>Errors\<close>

definition writeToolError :: "mcp_error \<Rightarrow> Response" where
  "writeToolError e =
     (case e of
        ErrServerNotFound _ \<Rightarrow> writeError 404 ''MCP server not found''
      | ErrToolDenied \<Rightarrow> writeError 403 ''MCP tool denied by policy''
      | ErrMcpTimeout \<Rightarrow> writeError 504 ''MCP tool request timed out''
      | _ \<Rightarrow> writeError 502 ''MCP server request failed'')"

definition writeApprovalError :: "store_error \<Rightarrow> Response" where
  "writeApprovalError e =
     (case e of
        ErrNotFound \<Rightarrow> writeError 404 ''approval not found''
      | ErrApprovalExpired \<Rightarrow> writeError 410 ''approval expired''
      | ErrApprovalMismatch \<Rightarrow> writeError 409 ''approval does not match tool call''
      | ErrApprovalNotPending \<Rightarrow> writeErr 409 (CauseStore e)
      | ErrApprovalNotApproved \<Rightarrow> writeErr 409 (CauseStore e)
      | _ \<Rightarrow> writeError 500 ''approval operation failed'')"

definition canonicalToolArguments :: "string option \<Rightarrow> string" where
  "canonicalToolArguments arguments = (case arguments of None \<Rightarrow> ''{}'' | Some encoded \<Rightarrow> encoded)"

definition approvalActor :: "RequestEnv \<Rightarrow> string" where
  "approvalActor v =
     (case rv_identity v of
        None \<Rightarrow> ''anonymous''
      | Some identity \<Rightarrow> if TrimSpace (i_Subject identity) \<noteq> '''' then i_Subject identity else ''anonymous'')"

section \<open>Tools\<close>

definition listToolServers :: "ServerConfig \<Rightarrow> handler" where
  "listToolServers cfg = replies 200 (ServersBody (case ss_tools cfg of None \<Rightarrow> [] | Some servers \<Rightarrow> Registry_List servers))"

text \<open>A call through the gateway; what it sends is recorded.\<close>

definition gateway_call ::
  "(McpClient \<Rightarrow> McpClient \<times> HttpRequest option \<times> (mcp_error + 'a)) \<Rightarrow> Server \<Rightarrow> (mcp_error + 'a) \<times> Server" where
  "gateway_call f s =
     (case f (sv_client s) of (c, sent, result) \<Rightarrow>
        (result, s\<lparr>sv_client := c, sv_sent := sv_sent s @ (case sent of None \<Rightarrow> [] | Some request \<Rightarrow> [request])\<rparr>))"

definition listTools :: "golib \<Rightarrow> netlib \<Rightarrow> ServerConfig \<Rightarrow> RequestEnv \<Rightarrow> Request \<Rightarrow> handler" where
  "listTools L N cfg v r =
     (case ss_tools cfg of
        None \<Rightarrow> refuses 503 ''MCP tool gateway is unavailable''
      | Some servers \<Rightarrow>
          let serverID = TrimSpace (query r ''server_id'') in
          if serverID = '''' then refuses 400 ''server_id is required''
          else
            act (gateway_call (Gateway_ListTools L N (rv_list v) servers serverID (query r ''cursor''))) (\<lambda>result.
            case result of
              Inl e \<Rightarrow> Respond (writeToolError e)
            | Inr tools \<Rightarrow> replies 200 (ToolsBody tools)))"

record callToolRequest =
  ct_ServerID :: string
  ct_Name :: string
  ct_Arguments :: "string option"
  ct_ApprovalID :: string

definition tool_call :: "golib \<Rightarrow> netlib \<Rightarrow> RequestEnv \<Rightarrow> tool_registry \<Rightarrow> callToolRequest \<Rightarrow> handler" where
  "tool_call L N v servers request =
     act (gateway_call (Gateway_CallTool L N (rv_call v) servers (ct_ServerID request) (ct_Name request) (ct_Arguments request))) (\<lambda>result.
     case result of
       Inl e \<Rightarrow> Respond (writeToolError e)
     | Inr output \<Rightarrow> replies 200 (ResultBody output))"

definition call_hash :: "golib \<Rightarrow> callToolRequest \<Rightarrow> string" where
  "call_hash L request =
     ApprovalArgumentsHash L (ct_ServerID request) (ct_Name request) (canonicalToolArguments (ct_Arguments request))"

definition callTool :: "golib \<Rightarrow> netlib \<Rightarrow> ServerConfig \<Rightarrow> RequestEnv \<Rightarrow> callToolRequest option \<Rightarrow> handler" where
  "callTool L N cfg v decoded =
     (case ss_tools cfg of
        None \<Rightarrow> refuses 503 ''MCP tool gateway is unavailable''
      | Some servers \<Rightarrow>
          (case decoded of
             None \<Rightarrow> rejects 400 CauseJSON
           | Some request \<Rightarrow>
               if TrimSpace (ct_ServerID request) = '''' \<or> TrimSpace (ct_Name request) = '''' then refuses 400 ''server_id and name are required''
               else case Gateway_RequiresApproval servers (ct_ServerID request) (ct_Name request) of
                 Inl e \<Rightarrow> Respond (writeToolError e)
               | Inr requiresApproval \<Rightarrow>
                   let approvalID = TrimSpace (ct_ApprovalID request) in
                   if requiresApproval \<and> approvalID = '''' then refuses 428 ''approved approval_id is required for this tool''
                   else if approvalID \<noteq> '''' then
                     act (store_call (ConsumeApproval approvalID (ct_ServerID request) (ct_Name request) (call_hash L request) (rv_clock v 0))) (\<lambda>result.
                     case result of
                       Inl e \<Rightarrow> Respond (writeApprovalError e)
                     | Inr _ \<Rightarrow> tool_call L N v servers request)
                   else tool_call L N v servers request))"

section \<open>Approvals\<close>

record createApprovalRequest =
  cp_ServerID :: string
  cp_ToolName :: string
  cp_Arguments :: "string option"
  cp_Reason :: string

definition requested_approval :: "RequestEnv \<Rightarrow> createApprovalRequest \<Rightarrow> Approval" where
  "requested_approval v request = \<lparr> ap_ID = newID ''apr'' (rv_random v 0) (rv_clock v 0), ap_ServerID = TrimSpace (cp_ServerID request),
     ap_ToolName = TrimSpace (cp_ToolName request), ap_Arguments = canonicalToolArguments (cp_Arguments request), ap_ArgumentsHash = '''',
     ap_Reason = TrimSpace (cp_Reason request), ap_Status = ApprovalPending, ap_RequestedBy = approvalActor v, ap_DecidedBy = '''',
     ap_CreatedAt = 0, ap_ExpiresAt = 0, ap_DecidedAt = None, ap_ConsumedAt = None, ap_Version = 0 \<rparr>"

definition createApproval :: "golib \<Rightarrow> ServerConfig \<Rightarrow> RequestEnv \<Rightarrow> createApprovalRequest option \<Rightarrow> handler" where
  "createApproval L cfg v decoded =
     (case ss_tools cfg of
        None \<Rightarrow> refuses 503 ''MCP tool gateway is unavailable''
      | Some servers \<Rightarrow>
          (case decoded of
             None \<Rightarrow> rejects 400 CauseJSON
           | Some request \<Rightarrow>
               (case Gateway_RequiresApproval servers (TrimSpace (cp_ServerID request)) (TrimSpace (cp_ToolName request)) of
                  Inl e \<Rightarrow> Respond (writeToolError e)
                | Inr required \<Rightarrow>
                    if \<not> required then refuses 400 ''tool does not require approval''
                    else case Approval_Initialize L (requested_approval v request) (rv_clock v 1) (ss_approvalTTL cfg) of
                      Inl e \<Rightarrow> rejects 400 (CauseApproval e)
                    | Inr approval \<Rightarrow>
                        act (store_call (CreateApproval (rv_clock v 2) approval (ss_approvalRetention cfg))) (\<lambda>result.
                        case result of
                          Inl _ \<Rightarrow> refuses 500 ''could not create approval''
                        | Inr created \<Rightarrow> replies 201 (ApprovalBody created)))))"

definition approval_status :: "string \<Rightarrow> ApprovalStatus option option" where
  "approval_status status =
     (if status = '''' then Some None
      else if status = ''pending'' then Some (Some ApprovalPending)
      else if status = ''approved'' then Some (Some ApprovalApproved)
      else if status = ''rejected'' then Some (Some ApprovalRejected)
      else if status = ''consumed'' then Some (Some ApprovalConsumed) else None)"

definition listApprovals :: "Request \<Rightarrow> handler" where
  "listApprovals r =
     (case approval_status (TrimSpace (query r ''status'')) of
        None \<Rightarrow> refuses 400 ''invalid approval status''
      | Some status \<Rightarrow>
          let raw = query r ''limit'';
              limit = (if raw = '''' then Some 100
                       else case Atoi raw of None \<Rightarrow> None | Some parsed \<Rightarrow> if parsed < 1 \<or> 200 < parsed then None else Some parsed) in
          case limit of
            None \<Rightarrow> refuses 400 ''limit must be between 1 and 200''
          | Some limit \<Rightarrow> ask (store_read (ListApprovals status limit)) (\<lambda>approvals. replies 200 (ApprovalsBody approvals)))"

definition getApproval :: "string \<Rightarrow> handler" where
  "getApproval approvalID =
     ask (store_read (GetApproval approvalID)) (\<lambda>result.
     case result of
       Inl ErrNotFound \<Rightarrow> refuses 404 ''approval not found''
     | Inl _ \<Rightarrow> refuses 500 ''could not load approval''
     | Inr approval \<Rightarrow> replies 200 (ApprovalBody approval))"

definition decideApproval :: "RequestEnv \<Rightarrow> string \<Rightarrow> bool \<Rightarrow> handler" where
  "decideApproval v approvalID approve =
     act (store_call (DecideApproval approvalID approve (approvalActor v) (rv_clock v 0))) (\<lambda>result.
     case result of
       Inl e \<Rightarrow> Respond (writeApprovalError e)
     | Inr approval \<Rightarrow> replies 200 (ApprovalBody approval))"

end
