(* ===== verification/Api_Workflows.thy ===== *)
theory Api_Workflows
  imports Api_State Workflow_Manager
begin

text \<open>
  The handlers on workflows and the event streams. Starting and cancelling a workflow are tasks of
  the workflow manager; the handlers turn the outcome of the task into an answer, \<^const>\<open>None\<close> when the server
  has no workflow manager. The calls of the task itself are modelled in \<^verbatim>\<open>Workflow_Manager\<close>; for a handler they are among
  the things that happen between its own calls.
\<close>

section \<open>Creation\<close>

record createWorkflowStepRequest =
  cs_ID :: string
  cs_AgentID :: string
  cs_Input :: string
  cs_InputFrom :: "string list"
  cs_InputAggregation :: string
  cs_DependsOn :: "string list"
  cs_Condition :: "WorkflowCondition option"

record createWorkflowRequest =
  cw_Input :: string
  cw_Steps :: "createWorkflowStepRequest list"

definition requested_step :: "createWorkflowStepRequest \<Rightarrow> WorkflowStep" where
  "requested_step q = \<lparr> s_ID = cs_ID q, s_WorkflowID = '''', s_AgentID = cs_AgentID q, s_Input = cs_Input q, s_InputFrom = cs_InputFrom q,
     s_InputAggregation = cs_InputAggregation q, s_DependsOn = cs_DependsOn q, s_Condition = cs_Condition q,
     s_Status = WorkflowStepPending, s_RunID = '''', s_Output = '''', s_Error = '''', s_CreatedAt = 0, s_StartedAt = None, s_CompletedAt = None \<rparr>"

definition requested_workflow :: "string \<Rightarrow> createWorkflowRequest \<Rightarrow> Workflow" where
  "requested_workflow workflowID q = zero_workflow\<lparr>w_ID := workflowID, w_Input := cw_Input q, w_Steps := map requested_step (cw_Steps q)\<rparr>"

fun check_agents :: "WorkflowStep list \<Rightarrow> handler \<Rightarrow> handler" where
  "check_agents [] k = k"
| "check_agents (step # rest) k =
     ask (store_read (GetAgent (s_AgentID step))) (\<lambda>result.
     case result of
       Inl ErrNotFound \<Rightarrow> refuses 404 (''agent '' @ s_AgentID step @ '' not found'')
     | Inl _ \<Rightarrow> refuses 500 ''could not validate workflow agents''
     | Inr _ \<Rightarrow> check_agents rest k)"

definition createWorkflow :: "golib \<Rightarrow> RequestEnv \<Rightarrow> createWorkflowRequest option \<Rightarrow> handler" where
  "createWorkflow L v decoded =
     (case decoded of
        None \<Rightarrow> rejects 400 CauseJSON
      | Some request \<Rightarrow>
          (case Workflow_InitializeForCreate L (requested_workflow (newID ''wf'' (rv_random v 0) (rv_clock v 0)) request) (rv_clock v 1) of
             Inl e \<Rightarrow> rejects 400 (CauseWorkflow e)
           | Inr workflow \<Rightarrow>
               check_agents (w_Steps workflow)
                 (act (store_call (CreateWorkflow L (rv_clock v 2) workflow)) (\<lambda>result.
                  case result of
                    Inl _ \<Rightarrow> refuses 500 ''could not create workflow''
                  | Inr created \<Rightarrow> replies 201 (WorkflowBody created)))))"

section \<open>Reading\<close>

definition getWorkflow :: "string \<Rightarrow> handler" where
  "getWorkflow workflowID =
     ask (store_read (GetWorkflow workflowID)) (\<lambda>result.
     case result of
       Inl ErrNotFound \<Rightarrow> refuses 404 ''workflow not found''
     | Inl _ \<Rightarrow> refuses 500 ''could not load workflow''
     | Inr workflow \<Rightarrow> replies 200 (WorkflowBody workflow))"

definition listWorkflows :: handler where
  "listWorkflows = ask (store_read ListWorkflows) (\<lambda>workflows. replies 200 (WorkflowsBody workflows))"

section \<open>Starting and cancelling\<close>

definition task_text :: "task_error \<Rightarrow> api_cause" where
  "task_text e = (case e of TaskStore e \<Rightarrow> CauseStore e | _ \<Rightarrow> CauseText ''workflow'')"

definition startWorkflow :: "task_exit option \<Rightarrow> Response" where
  "startWorkflow outcome =
     (case outcome of
        None \<Rightarrow> writeError 503 ''workflow execution is unavailable''
      | Some outcome \<Rightarrow>
          (case outcome of
             TaskWorkflow workflow \<Rightarrow> writeJSON [] 202 (WorkflowBody workflow)
           | TaskErr (TaskStore ErrNotFound) \<Rightarrow> writeError 404 ''workflow not found''
           | TaskErr (TaskStore ErrConflict) \<Rightarrow> writeErr 409 (CauseStore ErrConflict)
           | TaskErr (TaskCannotStart status) \<Rightarrow> writeErr 409 (task_text (TaskCannotStart status))
           | TaskErr (TaskNotCancelable status) \<Rightarrow> writeErr 409 (task_text (TaskNotCancelable status))
           | TaskErr e \<Rightarrow> writeErr 422 (task_text e)
           | TaskNil \<Rightarrow> writeJSON [] 202 NoBody))"

definition cancelWorkflow :: "task_exit option \<Rightarrow> Response" where
  "cancelWorkflow outcome =
     (case outcome of
        None \<Rightarrow> writeError 503 ''workflow execution is unavailable''
      | Some outcome \<Rightarrow>
          (case outcome of
             TaskWorkflow workflow \<Rightarrow> writeJSON [] 200 (WorkflowBody workflow)
           | TaskErr (TaskStore ErrNotFound) \<Rightarrow> writeError 404 ''workflow not found''
           | TaskErr (TaskStore ErrConflict) \<Rightarrow> writeErr 409 (CauseStore ErrConflict)
           | TaskErr (TaskNotCancelable status) \<Rightarrow> writeErr 409 (task_text (TaskNotCancelable status))
           | TaskErr e \<Rightarrow> writeError 500 ''could not cancel workflow''
           | TaskNil \<Rightarrow> writeJSON [] 200 NoBody))"

section \<open>Event streams\<close>

text \<open>One turn of the loop of \<^verbatim>\<open>workflowEvents\<close>: the events not sent yet, and those sent by now.\<close>

fun stream_turn :: "string list \<Rightarrow> WorkflowEvent list \<Rightarrow> WorkflowEvent list \<times> string list" where
  "stream_turn seen [] = ([], seen)"
| "stream_turn seen (event # events) =
     (if we_ID event \<in> set seen then stream_turn seen events
      else let (sent, seen) = stream_turn (we_ID event # seen) events in (event # sent, seen))"

text \<open>
  The stream as a whole: in each turn the events listed are sent, then the workflow is looked up; the
  stream ends when that fails, when the workflow is done or when the client goes.
\<close>

fun workflow_stream :: "string list \<Rightarrow> (WorkflowEvent list \<times> Workflow option) list \<Rightarrow> WorkflowEvent list" where
  "workflow_stream seen [] = []"
| "workflow_stream seen ((events, workflow) # turns) =
     (let (sent, seen) = stream_turn seen events in
      sent @ (case workflow of
                None \<Rightarrow> []
              | Some w \<Rightarrow> if Workflow_IsTerminal w then [] else workflow_stream seen turns))"

text \<open>\<^verbatim>\<open>runEvents\<close> forwards what the subscription delivers up to the first terminal event.\<close>

definition terminal_event :: "RunEvent \<Rightarrow> bool" where
  "terminal_event event \<longleftrightarrow> e_Type event \<in> set [''run.succeeded'', ''run.failed'', ''run.canceled'']"

fun run_stream :: "RunEvent list \<Rightarrow> RunEvent list" where
  "run_stream [] = []"
| "run_stream (event # events) = event # (if terminal_event event then [] else run_stream events)"

section \<open>Lemmas\<close>

lemma stream_turn_new:
  assumes "stream_turn seen events = (sent, seen')"
  shows "distinct (map we_ID sent)" "set (map we_ID sent) \<inter> set seen = {}" "set seen' = set (map we_ID sent) \<union> set seen"
    and "set (map we_ID events) \<subseteq> set seen'"
proof -
  have "distinct (map we_ID sent) \<and> set (map we_ID sent) \<inter> set seen = {} \<and> set seen' = set (map we_ID sent) \<union> set seen
      \<and> set (map we_ID events) \<subseteq> set seen'"
    using assms
  proof (induction seen events arbitrary: sent seen' rule: stream_turn.induct)
    case (2 seen event events)
    show ?case
    proof (cases "we_ID event \<in> set seen")
      case True
      then show ?thesis using 2(1) [OF True, of sent seen'] 2(3) by auto
    next
      case False
      obtain sent1 where turn: "stream_turn (we_ID event # seen) events = (sent1, seen')" "sent = event # sent1"
        using 2(3) False by (auto split: prod.splits)
      then show ?thesis using 2(2) [OF False turn(1)] False by auto
    qed
  qed simp
  then show "distinct (map we_ID sent)" "set (map we_ID sent) \<inter> set seen = {}" "set seen' = set (map we_ID sent) \<union> set seen"
      "set (map we_ID events) \<subseteq> set seen'" by blast+
qed

text \<open>No event is sent twice, however often it is listed.\<close>

lemma workflow_stream_distinct:
  "distinct (map we_ID (workflow_stream seen turns)) \<and> set (map we_ID (workflow_stream seen turns)) \<inter> set seen = {}"
proof (induction seen turns rule: workflow_stream.induct)
  case (2 seen events workflow turns)
  obtain sent seen' where turn: "stream_turn seen events = (sent, seen')" by fastforce
  note new = stream_turn_new [OF turn]
  show ?case using 2 [OF turn [symmetric] refl] new unfolding workflow_stream.simps turn
    by (auto split: option.splits)
qed simp

text \<open>A stream of a Run has at most one terminal event, its last.\<close>

lemma run_stream_terminal: "event \<in> set (butlast (run_stream events)) \<Longrightarrow> \<not> terminal_event event"
  by (induction events) (auto split: if_splits)

end
