(* ===== verification/Api_Server.thy ===== *)
theory Api_Server
  imports Api_Agents Api_Runs Api_Tools Api_Workflows
begin

text \<open>
  The server around the handlers: the table of routes, the audit trail, authentication and the request
  context, composed as in \<^verbatim>\<open>Handler\<close>. Logging, metrics, tracing and the recovery from panics of a handler are left out.
\<close>

section \<open>Routes\<close>

datatype endpoint =
    EpHealth | EpReady
  | EpListAgents | EpCreateAgent | EpGetAgent | EpUpdateAgent | EpDeleteAgent | EpAgentHealth
  | EpListRuns | EpCreateRun | EpGetRun | EpListChildren | EpCreateChild | EpCancelRun | EpRunEvents
  | EpListWorkflows | EpCreateWorkflow | EpGetWorkflow | EpStartWorkflow | EpCancelWorkflow | EpWorkflowEvents
  | EpAudit | EpToolServers | EpTools | EpCallTool
  | EpCreateApproval | EpListApprovals | EpGetApproval | EpApprove | EpReject | EpMetrics

definition routes :: "(string \<times> string \<times> endpoint) list" where
  "routes =
     [(''GET'', ''/healthz'', EpHealth), (''GET'', ''/readyz'', EpReady),
      (''GET'', ''/api/v1/agents'', EpListAgents), (''POST'', ''/api/v1/agents'', EpCreateAgent),
      (''GET'', ''/api/v1/agents/{id}'', EpGetAgent), (''PUT'', ''/api/v1/agents/{id}'', EpUpdateAgent),
      (''DELETE'', ''/api/v1/agents/{id}'', EpDeleteAgent), (''GET'', ''/api/v1/agents/{id}/health'', EpAgentHealth),
      (''GET'', ''/api/v1/runs'', EpListRuns), (''POST'', ''/api/v1/runs'', EpCreateRun), (''GET'', ''/api/v1/runs/{id}'', EpGetRun),
      (''GET'', ''/api/v1/runs/{id}/children'', EpListChildren), (''POST'', ''/api/v1/runs/{id}/children'', EpCreateChild),
      (''POST'', ''/api/v1/runs/{id}/cancel'', EpCancelRun), (''GET'', ''/api/v1/runs/{id}/events'', EpRunEvents),
      (''GET'', ''/api/v1/workflows'', EpListWorkflows), (''POST'', ''/api/v1/workflows'', EpCreateWorkflow),
      (''GET'', ''/api/v1/workflows/{id}'', EpGetWorkflow), (''POST'', ''/api/v1/workflows/{id}/start'', EpStartWorkflow),
      (''POST'', ''/api/v1/workflows/{id}/cancel'', EpCancelWorkflow), (''GET'', ''/api/v1/workflows/{id}/events'', EpWorkflowEvents),
      (''GET'', ''/api/v1/audit-events'', EpAudit), (''GET'', ''/api/v1/tools/servers'', EpToolServers),
      (''GET'', ''/api/v1/tools'', EpTools), (''POST'', ''/api/v1/tools/call'', EpCallTool),
      (''POST'', ''/api/v1/approvals'', EpCreateApproval), (''GET'', ''/api/v1/approvals'', EpListApprovals),
      (''GET'', ''/api/v1/approvals/{id}'', EpGetApproval), (''POST'', ''/api/v1/approvals/{id}/approve'', EpApprove),
      (''POST'', ''/api/v1/approvals/{id}/reject'', EpReject), (''GET'', ''/metrics'', EpMetrics)]"

text \<open>
  How \<^verbatim>\<open>http.ServeMux\<close> matches a path without empty or dot segments: segment by segment, \<^verbatim>\<open>{id}\<close> standing
  for any one of them, and a GET pattern also for HEAD. No two patterns of the table match one request. The
  result carries the value of \<^verbatim>\<open>{id}\<close>, if any.
\<close>

fun match_segments :: "string \<Rightarrow> string list \<Rightarrow> string list \<Rightarrow> string option" where
  "match_segments bound [] [] = Some bound"
| "match_segments bound (p # ps) (x # xs) =
     (if p = ''{id}'' \<and> x \<noteq> '''' then match_segments x ps xs else if p = x then match_segments bound ps xs else None)"
| "match_segments bound _ _ = None"

fun find_route :: "(string \<times> string \<times> endpoint) list \<Rightarrow> Request \<Rightarrow> (endpoint \<times> string) option" where
  "find_route [] r = None"
| "find_route ((rmethod, pattern, endpoint) # rest) r =
     (if q_Method r = rmethod \<or> q_Method r = ''HEAD'' \<and> rmethod = ''GET'' then
        (case match_segments '''' (split_on (CHR ''/'') pattern) (split_on (CHR ''/'') (q_Path r)) of
           Some ident \<Rightarrow> Some (endpoint, ident)
         | None \<Rightarrow> find_route rest r)
      else find_route rest r)"

section \<open>The remaining handlers\<close>

definition ready :: "RequestEnv \<Rightarrow> handler" where
  "ready v = (if rv_ready v then replies 200 (StatusBody ''ready'') else refuses 503 ''dependencies are not ready'')"

definition prometheusMetrics :: "RequestEnv \<Rightarrow> handler" where
  "prometheusMetrics v =
     (case rv_metrics v of
        None \<Rightarrow> Respond \<lparr> re_Status = 404, re_Header = [], re_Body = NoBody \<rparr>
      | Some (httpDuration, registry) \<Rightarrow>
          ask (store_read (\<lambda>m. WritePrometheus httpDuration m registry)) (\<lambda>output.
          Respond \<lparr> re_Status = 200, re_Header = [(''Content-Type'', ''text/plain; version=0.0.4; charset=utf-8'')], re_Body = PageBody output \<rparr>))"

definition listAuditEvents :: "Request \<Rightarrow> handler" where
  "listAuditEvents r =
     (case queryNonNegativeInt (query r ''limit'') of
        None \<Rightarrow> refuses 400 ''limit must be between 0 and 1000''
      | Some limit \<Rightarrow>
          if 1000 < limit then refuses 400 ''limit must be between 0 and 1000''
          else ask (store_read (ListAuditEvents (if limit = 0 then 100 else limit))) (\<lambda>events. replies 200 (AuditBody events)))"

text \<open>The event streams, up to the point where they start to send.\<close>

definition runEvents :: "string \<Rightarrow> handler" where
  "runEvents runID =
     ask (store_read (GetRun runID)) (\<lambda>result.
     case result of Inl ErrNotFound \<Rightarrow> refuses 404 ''run not found'' | _ \<Rightarrow> replies 200 StreamBody)"

definition workflowEvents :: "string \<Rightarrow> handler" where
  "workflowEvents workflowID =
     ask (store_read (GetWorkflow workflowID)) (\<lambda>result.
     case result of Inl ErrNotFound \<Rightarrow> refuses 404 ''workflow not found'' | _ \<Rightarrow> replies 200 StreamBody)"

section \<open>Dispatch\<close>

text \<open>
  \<^verbatim>\<open>decodeJSON\<close> for each type of body: the first \<^verbatim>\<open>2^20\<close> bytes are decoded, \<^verbatim>\<open>None\<close> standing for malformed
  JSON, unknown fields and trailing data. And what the workflow manager returns for a start or a cancellation.
\<close>

record Decoders =
  dc_agent :: "string \<Rightarrow> createAgentRequest option"
  dc_run :: "string \<Rightarrow> createRunRequest option"
  dc_workflow :: "string \<Rightarrow> createWorkflowRequest option"
  dc_tool :: "string \<Rightarrow> callToolRequest option"
  dc_approval :: "string \<Rightarrow> createApprovalRequest option"
  dc_outcome :: "string \<Rightarrow> task_exit option"

definition decodeJSON :: "(string \<Rightarrow> 'a option) \<Rightarrow> Request \<Rightarrow> 'a option" where
  "decodeJSON decode r = decode (take (2 ^ 20) (q_Body r))"

definition dispatch :: "golib \<Rightarrow> netlib \<Rightarrow> Decoders \<Rightarrow> ServerConfig \<Rightarrow> RequestEnv \<Rightarrow> Request \<Rightarrow> endpoint \<times> string \<Rightarrow> handler" where
  "dispatch L N D cfg v r target =
     (case target of (endpoint, ident) \<Rightarrow>
        (case endpoint of
           EpHealth \<Rightarrow> replies 200 (StatusBody ''ok'')
         | EpReady \<Rightarrow> ready v
         | EpListAgents \<Rightarrow> listAgents L r
         | EpCreateAgent \<Rightarrow> createAgent L v (decodeJSON (dc_agent D) r)
         | EpGetAgent \<Rightarrow> getAgent ident
         | EpUpdateAgent \<Rightarrow> updateAgent L v r ident (decodeJSON (dc_agent D) r)
         | EpDeleteAgent \<Rightarrow> deleteAgent r ident
         | EpAgentHealth \<Rightarrow> getAgentHealth ident
         | EpListRuns \<Rightarrow> listRuns
         | EpCreateRun \<Rightarrow> createRun L cfg v r (decodeJSON (dc_run D) r)
         | EpGetRun \<Rightarrow> getRun ident
         | EpListChildren \<Rightarrow> listChildRuns ident
         | EpCreateChild \<Rightarrow> createAgentChildRun L cfg v r ident (decodeJSON (dc_run D) r)
         | EpCancelRun \<Rightarrow> cancelRun v ident
         | EpRunEvents \<Rightarrow> runEvents ident
         | EpListWorkflows \<Rightarrow> listWorkflows
         | EpCreateWorkflow \<Rightarrow> createWorkflow L v (decodeJSON (dc_workflow D) r)
         | EpGetWorkflow \<Rightarrow> getWorkflow ident
         | EpStartWorkflow \<Rightarrow> Respond (startWorkflow (dc_outcome D ident))
         | EpCancelWorkflow \<Rightarrow> Respond (cancelWorkflow (dc_outcome D ident))
         | EpWorkflowEvents \<Rightarrow> workflowEvents ident
         | EpAudit \<Rightarrow> listAuditEvents r
         | EpToolServers \<Rightarrow> listToolServers cfg
         | EpTools \<Rightarrow> listTools L N cfg v r
         | EpCallTool \<Rightarrow> callTool L N cfg v (decodeJSON (dc_tool D) r)
         | EpCreateApproval \<Rightarrow> createApproval L cfg v (decodeJSON (dc_approval D) r)
         | EpListApprovals \<Rightarrow> listApprovals r
         | EpGetApproval \<Rightarrow> getApproval ident
         | EpApprove \<Rightarrow> decideApproval v ident True
         | EpReject \<Rightarrow> decideApproval v ident False
         | EpMetrics \<Rightarrow> prometheusMetrics v))"

text \<open>A request no pattern matches is refused by the multiplexer itself.\<close>

definition mux :: "golib \<Rightarrow> netlib \<Rightarrow> Decoders \<Rightarrow> ServerConfig \<Rightarrow> RequestEnv \<Rightarrow> Request \<Rightarrow> handler" where
  "mux L N D cfg v r =
     (case find_route routes r of
        None \<Rightarrow> Respond \<lparr> re_Status = (if list_ex (\<lambda>(m, _). find_route routes (r\<lparr>q_Method := m\<rparr>) \<noteq> None) routes then 405 else 404),
                          re_Header = [], re_Body = NoBody \<rparr>
      | Some target \<Rightarrow> dispatch L N D cfg v r target)"

section \<open>Middleware\<close>

definition audited_request :: "Request \<Rightarrow> bool" where
  "audited_request r \<longleftrightarrow> \<not> (q_Method r = ''GET'' \<or> q_Method r = ''HEAD'' \<or> q_Path r = ''/healthz'' \<or> q_Path r = ''/readyz'')"

definition audit_event :: "ServerConfig \<Rightarrow> RequestEnv \<Rightarrow> Request \<Rightarrow> int \<Rightarrow> AuditEvent" where
  "audit_event cfg v r status =
     \<lparr> au_ID = newID ''aud'' (rv_random v 10) (rv_clock v 10), au_Timestamp = rv_clock v 11, au_RequestID = rv_requestID v,
       au_InstanceID = ss_instanceID cfg,
       au_Subject = (case rv_identity v of None \<Rightarrow> ''anonymous'' | Some identity \<Rightarrow> i_Subject identity),
       au_Roles = (case rv_identity v of None \<Rightarrow> [] | Some identity \<Rightarrow> i_Roles identity),
       au_AgentID = (case rv_identity v of None \<Rightarrow> '''' | Some identity \<Rightarrow> i_AgentID identity),
       au_Method = q_Method r, au_Path = q_Path r, au_Status = status \<rparr>"

definition audit_call :: "ServerConfig \<Rightarrow> RequestEnv \<Rightarrow> AuditEvent \<Rightarrow> Server \<Rightarrow> unit \<times> Server" where
  "audit_call cfg v event s =
     ((), with_store (AppendAuditEvent (rv_clock v 12) event (ss_auditRetention cfg) (ss_auditMaxEvents cfg) (sv_store s)) s)"

definition auditMiddleware :: "ServerConfig \<Rightarrow> RequestEnv \<Rightarrow> Request \<Rightarrow> handler \<Rightarrow> handler" where
  "auditMiddleware cfg v r inner =
     chain inner (\<lambda>response.
       if \<not> audited_request r then Respond response
       else act (audit_call cfg v (audit_event cfg v r (re_Status response))) (\<lambda>_. Respond response))"

definition authMiddleware :: "golib \<Rightarrow> ServerConfig \<Rightarrow> RequestEnv \<Rightarrow> Request \<Rightarrow> (RequestEnv \<Rightarrow> handler) \<Rightarrow> handler" where
  "authMiddleware L cfg v r inner =
     (case ss_authenticator cfg of
        None \<Rightarrow> inner (v\<lparr>rv_identity := None\<rparr>)
      | Some credentials \<Rightarrow>
          (case auth_Middleware L credentials r of
             Unauthorized \<Rightarrow> Respond (writeJSON [(''WWW-Authenticate'', ''Bearer realm='' @ [CHR 0x22] @ ''agentmesh'' @ [CHR 0x22])] 401
                               (ErrorText ''authentication required''))
           | Forbidden \<Rightarrow> refuses 403 ''insufficient permissions''
           | Admitted identity \<Rightarrow> inner (v\<lparr>rv_identity := identity\<rparr>)))"

definition requestContextMiddleware :: "RequestEnv \<Rightarrow> Request \<Rightarrow> (RequestEnv \<Rightarrow> handler) \<Rightarrow> handler" where
  "requestContextMiddleware v r inner =
     (let requestID = normalizedRequestID (rv_random v 11) (rv_clock v 13) (header r ''X-Request-ID'') in
      chain (inner (v\<lparr>rv_requestID := requestID\<rparr>)) (\<lambda>response.
        Respond (response\<lparr>re_Header := put ''X-Request-ID'' requestID (re_Header response)\<rparr>)))"

definition Handler :: "golib \<Rightarrow> netlib \<Rightarrow> Decoders \<Rightarrow> ServerConfig \<Rightarrow> RequestEnv \<Rightarrow> Request \<Rightarrow> handler" where
  "Handler L N D cfg v r =
     requestContextMiddleware v r (\<lambda>v. authMiddleware L cfg v r (\<lambda>v. auditMiddleware cfg v r (mux L N D cfg v r)))"

end
