(* ===== verification/Api_Properties.thy ===== *)
theory Api_Properties
  imports Api_Server
begin

text \<open>
  What holds of the API whatever happens between the calls of a handler: it changes the store only
  through calls that keep its invariant, tool calls that need an approval have consumed one, Agent calls
  stay within their bounds, updates under an entity tag lose nothing, and admitted changes are
  audited.
\<close>

section \<open>Handlers change the store by its operations\<close>

definition by_store :: "golib \<Rightarrow> Server \<Rightarrow> Server \<Rightarrow> bool" where
  "by_store L s s' \<longleftrightarrow> by_call L (sv_store s) (sv_store s')"

interpretation stored: rely "by_store L" for L
proof
  show "by_store L s s" for s by (simp add: by_store_def by_call_refl)
  show "by_store L s1 s2 \<Longrightarrow> by_store L s2 s3 \<Longrightarrow> by_store L s1 s3" for s1 s2 s3
    unfolding by_store_def by (rule by_call_trans)
qed

lemma with_store_store [simp]: "sv_store (with_store m s) = m"
  by (simp add: with_store_def)

text \<open>A call that performs one operation, and the calls that do not touch the store.\<close>

lemma store_call_by:
  assumes "\<And>m. store_exec L op m = state_of m (f m)" and "op_fresh (sv_store s) op"
  shows "by_store L s (snd (store_call f s))"
  using by_call_op [OF assms(2), of L] assms(1)
  by (auto simp: by_store_def store_call_def state_of_def by_call_refl split: sum.splits)

lemma store_write_by:
  assumes "\<And>m. store_exec L op m = state_of' m (f m)" and "op_fresh (sv_store s) op"
  shows "by_store L s (snd (store_write f s))"
  using by_call_op [OF assms(2), of L] assms(1)
  by (auto simp: by_store_def store_write_def state_of'_def by_call_refl split: sum.splits)

lemma untouched_by: "sv_store s' = sv_store s \<Longrightarrow> by_store L s s'"
  by (simp add: by_store_def by_call_refl)

lemma service_calls_by:
  "by_store L s (snd (health_call g s))" "by_store L s (snd (publish_call now random event s))"
  "by_store L s (snd (enqueue_call v k s))" "by_store L s (snd (gateway_call h s))"
  by (auto intro!: untouched_by simp: health_call_def publish_call_def enqueue_call_def gateway_call_def split: sum.splits prod.splits)

lemma store_calls_by:
  "by_store L s (snd (store_call (CreateAgent L now agent) s))"
  "by_store L s (snd (store_call (UpdateAgent L now agent n) s))"
  "by_store L s (snd (store_write (DeleteAgent k n) s))"
  "by_store L s (snd (store_write (UpdateRun run) s))"
  "by_store L s (snd (store_call (CreateWorkflow L now w) s))"
  "by_store L s (snd (store_call (CreateApproval now a d) s))"
  "by_store L s (snd (store_call (DecideApproval k b actor now) s))"
  "by_store L s (snd (store_call (ConsumeApproval k srv tool h now) s))"
  by (rule store_call_by [of L "OpCreateAgent now agent"] store_call_by [of L "OpUpdateAgent now agent n"]
      store_write_by [of L "OpDeleteAgent k n"] store_write_by [of L "OpUpdateRun run"]
      store_call_by [of L "OpCreateWorkflow now w"] store_call_by [of L "OpCreateApproval now a d"]
      store_call_by [of L "OpDecideApproval k b actor now"] store_call_by [of L "OpConsumeApproval k srv tool h now"]; simp; fail)+

lemma audit_call_by: "by_store L s (snd (audit_call cfg v event s))"
  using by_call_op [of "sv_store s" "OpAppendAuditEvent (rv_clock v 12) event (ss_auditRetention cfg) (ss_auditMaxEvents cfg)" L]
  by (simp add: by_store_def audit_call_def)

lemma cancel_call_by: "by_store L s (snd (cancel_call v k s))"
proof (cases "CancelRun k (v_now (cancel_env v)) (sv_store s)")
  case (Inr rm)
  have same: "en_store (publishRun e run t message a x) = en_store x" "en_store (cancel_worker i x) = en_store x" for e run t message a x i
    by (simp_all add: publishRun_def cancel_worker_def split: option.split)
  have "by_call L (sv_store s) (snd rm)"
    using by_call_op [of "sv_store s" "OpCancelRun k (v_now (cancel_env v))" L] Inr by (simp add: state_of_def split: prod.splits)
  then show ?thesis using Inr
    by (auto simp: cancel_call_def Engine_Cancel_def by_store_def same Let_def split: prod.splits option.splits)
qed (simp add: cancel_call_def Engine_Cancel_def untouched_by)

lemma guar_ask: "(\<And>x. guarantees (by_store L) (k x)) \<Longrightarrow> guarantees (by_store L) (ask f k)"
  by (rule guarantees_ask [OF stored.R_refl])

lemmas guar_intros = guar_ask guarantees_act guarantees_Respond service_calls_by store_calls_by audit_call_by cancel_call_by

lemma load_agent_by: "(\<And>agent. guarantees (by_store L) (k agent)) \<Longrightarrow> guarantees (by_store L) (load_agent agentID k)"
  by (auto simp: load_agent_def intro!: guar_intros split: sum.split store_error.split)

lemma agent_handlers_by:
  "guarantees (by_store L) (createAgent L v d)" "guarantees (by_store L) (getAgentHealth k)" "guarantees (by_store L) (listAgents L r)"
  "guarantees (by_store L) (getAgent k)" "guarantees (by_store L) (updateAgent L v r k d)" "guarantees (by_store L) (deleteAgent r k)"
  subgoal by (simp add: createAgent_def Let_def split: option.split sum.split) (auto intro!: guar_intros split: sum.split)
  subgoal by (auto simp: getAgentHealth_def intro!: load_agent_by guar_intros)
  subgoal by (auto simp: listAgents_def intro!: guar_intros split: sum.split discovery_error.split)
  subgoal by (auto simp: getAgent_def intro!: load_agent_by guar_intros)
  subgoal by (auto simp: updateAgent_def intro!: load_agent_by guar_intros split: sum.split option.split store_error.split)
  subgoal by (auto simp: deleteAgent_def intro!: load_agent_by guar_intros split: sum.split option.split store_error.split)
  done

lemma tool_handlers_by:
  "guarantees (by_store L) (listToolServers cfg)" "guarantees (by_store L) (listTools L N cfg v r)"
  "guarantees (by_store L) (callTool L N cfg v q)" "guarantees (by_store L) (createApproval L cfg v p)"
  "guarantees (by_store L) (listApprovals r)" "guarantees (by_store L) (getApproval k)" "guarantees (by_store L) (decideApproval v k b)"
  subgoal by (simp add: listToolServers_def)
  subgoal by (auto simp: listTools_def Let_def intro!: guar_intros split: sum.split option.split)
  subgoal by (simp add: callTool_def tool_call_def Let_def split: option.split sum.split) (auto intro!: guar_intros split: sum.split)
  subgoal by (simp add: createApproval_def split: option.split sum.split) (auto intro!: guar_intros split: sum.split)
  subgoal by (auto simp: listApprovals_def Let_def intro!: guar_intros split: option.split)
  subgoal by (auto simp: getApproval_def intro!: guar_intros split: sum.split store_error.split)
  subgoal by (auto simp: decideApproval_def intro!: guar_intros split: sum.split)
  done

lemma check_agents_by: "guarantees (by_store L) k \<Longrightarrow> guarantees (by_store L) (check_agents steps k)"
  by (induction steps) (auto intro!: guar_intros split: sum.split store_error.split)

lemma workflow_handlers_by:
  "guarantees (by_store L) (createWorkflow L v d)" "guarantees (by_store L) (getWorkflow k)" "guarantees (by_store L) listWorkflows"
  subgoal by (simp add: createWorkflow_def split: option.split sum.split) (auto intro!: check_agents_by guar_intros split: sum.split)
  subgoal by (auto simp: getWorkflow_def intro!: guar_intros split: sum.split store_error.split)
  subgoal by (auto simp: listWorkflows_def intro!: guar_intros)
  done

lemma other_handlers_by:
  "guarantees (by_store L) (ready v)" "guarantees (by_store L) (listAuditEvents r)" "guarantees (by_store L) (runEvents k)"
  "guarantees (by_store L) (workflowEvents k)" "guarantees (by_store L) (getRun k)" "guarantees (by_store L) listRuns"
  "guarantees (by_store L) (listChildRuns k)" "guarantees (by_store L) (cancelRun v k)"
  subgoal by (simp add: ready_def)
  subgoal by (auto simp: listAuditEvents_def intro!: guar_intros split: option.split)
  subgoal by (auto simp: runEvents_def intro!: guar_intros split: sum.split store_error.split)
  subgoal by (auto simp: workflowEvents_def intro!: guar_intros split: sum.split store_error.split)
  subgoal by (auto simp: getRun_def intro!: guar_intros split: sum.split store_error.split)
  subgoal by (auto simp: listRuns_def intro!: guar_intros)
  subgoal by (auto simp: listChildRuns_def intro!: guar_intros split: sum.split store_error.split)
  subgoal by (auto simp: cancelRun_def intro!: guar_intros split: sum.split store_error.split)
  done

section \<open>Creating Runs\<close>

text \<open>The two handlers that create a Run do so once, under the identifier they have generated.\<close>

definition unused_run :: "RequestEnv \<Rightarrow> Server \<Rightarrow> bool" where
  "unused_run v s \<longleftrightarrow> get (m_runs (sv_store s)) (newID ''run'' (rv_random v 0) (rv_clock v 0)) = None"

abbreviation careful_run :: "golib \<Rightarrow> RequestEnv \<Rightarrow> handler \<Rightarrow> bool" where
  "careful_run L v \<equiv> careful (unused_run v) (by_store L)"

lemma newID_given: "newID kind random now \<noteq> ''''"
  by (simp add: newID_def split: option.split)

lemma create_call_by:
  assumes "unused_run v s" and "r_ID run = newID ''run'' (rv_random v 0) (rv_clock v 0)"
  shows "by_store L s (snd (store_call (CreateRun run key) s))" "by_store L s (snd (store_call (CreateChildRun run key n) s))"
  by (rule store_call_by [of L "OpCreateRun run key"] store_call_by [of L "OpCreateChildRun run key n"];
      (use assms newID_given in \<open>simp add: unused_run_def\<close>); fail)+

lemma AttachTo_ID: "Run_AttachTo run parent = Inr run' \<Longrightarrow> r_ID run' = r_ID run"
  by (auto simp: Run_AttachTo_def Let_def split: if_splits)

lemma submit_run_by: "guarantees (by_store L) (submit_run v run)"
  by (auto simp: submit_run_def submit_enqueue_def intro!: guar_intros split: option.split sum.split)

lemma create_run_careful: "careful_run L v (create_run cfg v key routed parentRun request)"
proof -
  have "careful_run L v (act (store_call (CreateRun run key)) (\<lambda>result. case result of
      Inl _ \<Rightarrow> refuses 500 ''could not create run''
    | Inr (created, isNew) \<Rightarrow> if \<not> isNew then Respond (writeRunReplay created request routed) else submit_run v created))"
    if "r_ID run = newID ''run'' (rv_random v 0) (rv_clock v 0)" for run
    using that by (intro careful_act create_call_by(1)) (auto intro: submit_run_by split: sum.split)
  then show ?thesis unfolding create_run_def Let_def
    by (auto split: sum.split simp: AttachTo_ID queued_run_def)
qed

lemma choose_agent_careful: "(\<And>q. careful_run L v (k q)) \<Longrightarrow> careful_run L v (choose_agent L f request k)"
  by (auto simp: choose_agent_def intro!: careful_ask stored.R_refl split: sum.split store_error.split)

lemma createRun_careful: "careful_run L v (createRun L cfg v r d)"
  by (simp add: createRun_def load_parent_def Let_def split: option.split sum.split)
    (auto intro!: careful_ask stored.R_refl choose_agent_careful create_run_careful split: sum.split store_error.split)

lemma create_child_careful: "careful_run L v (create_child cfg v key parent agents request)"
proof -
  have tail: "guarantees (by_store L) (publishAgentChildRun v parent created (call_enqueue v created))" for created
    by (auto simp: publishAgentChildRun_def call_enqueue_def Let_def intro!: guar_intros split: option.split sum.split)
  have "careful_run L v (act (store_call (CreateChildRun run key (ss_agentCallMaxChildren cfg))) (\<lambda>result. case result of
      Inl ErrChildRunLimit \<Rightarrow> refuses 429 ''parent Run Agent-call fan-out limit reached''
    | Inl _ \<Rightarrow> refuses 500 ''could not create Agent child Run''
    | Inr (created, isNew) \<Rightarrow>
        if \<not> isNew then Respond (writeJSON [(''Idempotency-Replayed'', ''true'')] 200 (RunBody created))
        else publishAgentChildRun v parent created (call_enqueue v created)))"
    if "r_ID run = newID ''run'' (rv_random v 0) (rv_clock v 0)" for run
    using that by (intro careful_act create_call_by(2)) (auto intro: tail split: sum.split store_error.split)
  then show ?thesis unfolding create_child_def Let_def
    by (auto split: sum.split simp: AttachTo_ID queued_run_def)
qed

lemma new_call_careful: "careful_run L v (new_call L cfg v key parent request)"
  unfolding new_call_def
  by (auto intro!: careful_ask stored.R_refl choose_agent_careful create_child_careful split: option.split)

lemma createAgentChildRun_careful: "careful_run L v (createAgentChildRun L cfg v r k d)"
  unfolding createAgentChildRun_def Let_def
  by (auto intro!: careful_ask stored.R_refl new_call_careful split: sum.split option.split store_error.split)

section \<open>The whole server\<close>

text \<open>The middleware changes neither the clock nor the random identifiers.\<close>

lemma unused_run_context [simp]:
  "unused_run (v\<lparr>rv_identity := i\<rparr>) = unused_run v" "unused_run (v\<lparr>rv_requestID := k\<rparr>) = unused_run v"
  by (auto simp: unused_run_def)

lemma metrics_by: "guarantees (by_store L) (prometheusMetrics v)"
  by (auto simp: prometheusMetrics_def intro!: guar_intros split: option.split)

lemma dispatch_careful: "careful_run L v (dispatch L N D cfg v r target)"
proof -
  obtain endpoint ident where target: "target = (endpoint, ident)" by fastforce
  note handlers = agent_handlers_by tool_handlers_by workflow_handlers_by other_handlers_by metrics_by
  show ?thesis unfolding target dispatch_def
    by (cases endpoint) (simp_all add: createRun_careful createAgentChildRun_careful guarantees_careful handlers)
qed

lemma mux_careful: "careful_run L v (mux L N D cfg v r)"
  by (auto simp: mux_def dispatch_careful split: option.split)

lemma auditMiddleware_careful: "careful_run L v p \<Longrightarrow> careful_run L v (auditMiddleware cfg v r p)"
  unfolding auditMiddleware_def by (rule careful_chain) (auto intro!: guar_intros)

lemma Handler_careful: "careful_run L v (Handler L N D cfg v r)"
proof -
  have inner: "careful_run L v (auditMiddleware cfg w r (mux L N D cfg w r))" if "unused_run w = unused_run v" for w
    using auditMiddleware_careful [where v = w, OF mux_careful] that by simp
  have "careful_run L v (authMiddleware L cfg w r (\<lambda>v. auditMiddleware cfg v r (mux L N D cfg v r)))" if "unused_run w = unused_run v" for w
    using that by (auto simp: authMiddleware_def inner split: option.split auth_decision.split)
  then show ?thesis unfolding Handler_def requestContextMiddleware_def Let_def by (intro careful_chain) simp_all
qed

text \<open>Reading requests.\<close>

definition reading :: "Request \<Rightarrow> bool" where
  "reading r \<longleftrightarrow> q_Method r = ''GET'' \<or> q_Method r = ''HEAD''"

abbreviation same_engine :: "Server \<Rightarrow> Server \<Rightarrow> bool" where
  "same_engine s s' \<equiv> sv_engine s' = sv_engine s"

lemma find_route_listed:
  "find_route table r = Some (endpoint, ident) \<Longrightarrow>
     \<exists>rmethod pattern. (rmethod, pattern, endpoint) \<in> set table \<and> (q_Method r = rmethod \<or> q_Method r = ''HEAD'' \<and> rmethod = ''GET'')"
proof (induction table)
  case (Cons entry rest)
  obtain rmethod pattern endpoint' where entry: "entry = (rmethod, pattern, endpoint')" by (cases entry) auto
  consider "q_Method r = rmethod \<or> q_Method r = ''HEAD'' \<and> rmethod = ''GET''" "endpoint = endpoint'"
    | "find_route rest r = Some (endpoint, ident)"
    using Cons.prems unfolding entry by (auto split: if_splits option.splits)
  then show ?case
  proof cases
    case 2
    then show ?thesis using Cons.IH by auto
  qed (auto simp: entry)
qed simp

lemma reading_endpoint:
  assumes "find_route routes r = Some (endpoint, ident)" and "reading r"
  shows "endpoint \<in> {EpHealth, EpReady, EpListAgents, EpGetAgent, EpAgentHealth, EpListRuns, EpGetRun, EpListChildren, EpRunEvents,
    EpListWorkflows, EpGetWorkflow, EpWorkflowEvents, EpAudit, EpToolServers, EpTools, EpListApprovals, EpGetApproval, EpMetrics}"
  using find_route_listed [OF assms(1)] assms(2) by (auto simp: routes_def reading_def)

lemma reading_calls: "same_engine s (snd (health_call g s))" "same_engine s (snd (gateway_call h s))"
  by (simp_all add: health_call_def gateway_call_def split: prod.split)

lemmas read_intros = guarantees_ask guarantees_act guarantees_Respond reading_calls

lemma reading_handlers:
  "guarantees same_engine (getAgentHealth k)" "guarantees same_engine (listAgents L r)" "guarantees same_engine (getAgent k)"
  "guarantees same_engine (listToolServers cfg)" "guarantees same_engine (listTools L N cfg v r)" "guarantees same_engine (listApprovals r)"
  "guarantees same_engine (getApproval k)" "guarantees same_engine (getWorkflow k)" "guarantees same_engine listWorkflows"
  "guarantees same_engine (ready v)" "guarantees same_engine (listAuditEvents r)" "guarantees same_engine (runEvents k)"
  "guarantees same_engine (workflowEvents k)" "guarantees same_engine (getRun k)" "guarantees same_engine listRuns"
  "guarantees same_engine (listChildRuns k)" "guarantees same_engine (prometheusMetrics v)"
  by (auto simp: prometheusMetrics_def getAgentHealth_def load_agent_def listAgents_def getAgent_def listToolServers_def listTools_def listApprovals_def
      getApproval_def getWorkflow_def listWorkflows_def ready_def listAuditEvents_def runEvents_def workflowEvents_def getRun_def
      listRuns_def listChildRuns_def Let_def intro!: read_intros split: sum.split option.split store_error.split discovery_error.split)

lemma mux_reading: "reading r \<Longrightarrow> guarantees same_engine (mux L N D cfg v r)"
  using reading_endpoint [of r] by (auto simp: mux_def dispatch_def reading_handlers split: option.split prod.split)

lemma Handler_reading:
  assumes "reading r"
  shows "guarantees same_engine (Handler L N D cfg v r)"
proof -
  have "\<not> audited_request r" using assms by (auto simp: audited_request_def reading_def)
  then have "guarantees same_engine (auditMiddleware cfg w r (mux L N D cfg w r))" for w
    unfolding auditMiddleware_def using assms by (intro guarantees_chain mux_reading) simp_all
  then have "guarantees same_engine (authMiddleware L cfg w r (\<lambda>v. auditMiddleware cfg v r (mux L N D cfg v r)))" for w
    by (simp add: authMiddleware_def split: option.split auth_decision.split)
  then show ?thesis unfolding Handler_def requestContextMiddleware_def Let_def by (intro guarantees_chain) simp_all
qed

section \<open>Properties\<close>


section \<open>Tool calls\<close>

lemma ConsumeApproval_consumes:
  assumes "ConsumeApproval k serverID toolName h now m = Inr (a', m')"
  obtains a where "get (m_approvals m) k = Some a" "ap_Status a = ApprovalApproved" "\<not> Approval_Expired a now"
    "ap_ServerID a = serverID" "ap_ToolName a = toolName" "ap_ArgumentsHash a = h"
    "get (m_approvals m') k = Some a'" "ap_Status a' = ApprovalConsumed"
  using assms by (auto simp: ConsumeApproval_def Let_def split: option.splits if_splits)

text \<open>The gateway sends at most one request, to the server and for the tool the call names.\<close>

lemma mcp_call_sent:
  assumes "fst (snd (mcp_call L N V server rpc name params c)) = Some request"
  shows "hq_URL request = ms_Endpoint server"
  using assms unfolding mcp_call_def Let_def by (auto split: if_splits sum.splits)

lemma gateway_sent:
  assumes "fst (snd (Gateway_CallTool L N V servers serverID name arguments c)) = Some request"
  obtains server where "Registry_Get serverID servers = Some server" "Server_Allows server (TrimSpace name)"
    "hq_URL request = ms_Endpoint server"
proof -
  obtain server where server: "Registry_Get serverID servers = Some server"
    and sent: "fst (snd (Client_CallTool L N V server name arguments c)) = Some request"
    using assms by (auto simp: Gateway_CallTool_def split: option.splits)
  have "Server_Allows server (TrimSpace name)" "hq_URL request = ms_Endpoint server"
    using sent by (simp_all add: Client_CallTool_def Let_def mcp_call_sent split: if_splits)
  with server show thesis by (rule that)
qed

lemma gateway_call_sent:
  assumes "sv_sent (snd (gateway_call f s)) \<noteq> sv_sent s"
  obtains request where "fst (snd (f (sv_client s))) = Some request" "sv_sent (snd (gateway_call f s)) = sv_sent s @ [request]"
  using assms by (auto simp: gateway_call_def split: prod.splits option.splits)

lemma upper_alpha_solid: "upper_alpha c \<Longrightarrow> solid c"
  by (auto simp: upper_alpha_def solid_def space_runes_def char_between)

lemma validName_TrimSpace:
  assumes "validName name"
  shows "TrimSpace name = name"
proof -
  have "solid c" if "c \<in> set name" for c
    using assms that lower_alpha_solid numeric_solid punct_solid upper_alpha_solid by (auto simp: validName_def list_all_iff)
  moreover have "name \<noteq> []" using assms by (auto simp: validName_def)
  ultimately show ?thesis by (intro TrimSpace_id) simp_all
qed

text \<open>
  C8: Tool calls are gated. Whatever happens between the calls of the handler, a request goes out to a tool
  server only for a configured server and a tool its policy allows; and when the policy asks for an approval of
  that tool, the handler has before that turned an approval from approved to consumed, one that had
  not expired and was given for this server, this tool and the digest of these arguments.
\<close>

theorem tool_calls_approved:
  assumes "ss_tools cfg = Some servers" and "(s1, s2) \<in> set (calls (callTool L N cfg v (Some q)) envs s)"
    and "sv_sent s2 \<noteq> sv_sent s1"
  shows "\<exists>server request. Registry_Get (ct_ServerID q) servers = Some server \<and> Server_Allows server (ct_Name q)
    \<and> sv_sent s2 = sv_sent s1 @ [request] \<and> hq_URL request = ms_Endpoint server
    \<and> (Server_RequiresApproval server (ct_Name q) \<longrightarrow>
        (\<exists>s0 s0' a a'. calls (callTool L N cfg v (Some q)) envs s = [(s0, s0'), (s1, s2)]
          \<and> get (m_approvals (sv_store s0)) (TrimSpace (ct_ApprovalID q)) = Some a
          \<and> ap_Status a = ApprovalApproved \<and> \<not> Approval_Expired a (rv_clock v 0) \<and> ap_ServerID a = ct_ServerID q
          \<and> ap_ToolName a = ct_Name q \<and> ap_ArgumentsHash a = call_hash L q
          \<and> get (m_approvals (sv_store s0')) (TrimSpace (ct_ApprovalID q)) = Some a' \<and> ap_Status a' = ApprovalConsumed))"
proof -
  let ?id = "TrimSpace (ct_ApprovalID q)" and ?calls = "calls (callTool L N cfg v (Some q)) envs s"
  let ?send = "gateway_call (Gateway_CallTool L N (rv_call v) servers (ct_ServerID q) (ct_Name q) (ct_Arguments q))"
  let ?take = "store_call (ConsumeApproval ?id (ct_ServerID q) (ct_Name q) (call_hash L q) (rv_clock v 0))"
  have sends: "calls (tool_call L N v servers q) es t = [(disturb es t, snd (?send (disturb es t)))]" for es t
    by (simp add: tool_call_def split: sum.split)
  have keeps: "sv_sent (snd (?take t)) = sv_sent t" for t
    by (simp add: store_call_def with_store_def split: sum.split prod.split)
  obtain required where required: "Gateway_RequiresApproval servers (ct_ServerID q) (ct_Name q) = Inr required"
    using assms(1,2) by (auto simp: callTool_def split: if_splits sum.splits)
  then obtain server where server: "Registry_Get (ct_ServerID q) servers = Some server" "validName (ct_Name q)"
    "required = Server_RequiresApproval server (ct_Name q)"
    by (auto simp: Gateway_RequiresApproval_def split: option.splits if_splits)
  have last: "s2 = snd (?send s1)"
    and first: "required \<Longrightarrow> \<exists>s0 a'. ?calls = [(s0, snd (?take s0)), (s1, s2)] \<and> fst (?take s0) = Inr a'"
    using assms required keeps
    by (auto simp: callTool_def Let_def sends split: if_splits sum.splits)
  from assms(3) obtain request where request: "sv_sent s2 = sv_sent s1 @ [request]" "hq_URL request = ms_Endpoint server"
      "Server_Allows server (ct_Name q)"
    unfolding last using gateway_call_sent gateway_sent server(1) validName_TrimSpace [OF server(2)] by (metis option.inject)
  have "\<exists>s0 s0' a a'. ?calls = [(s0, s0'), (s1, s2)] \<and> get (m_approvals (sv_store s0)) ?id = Some a
      \<and> ap_Status a = ApprovalApproved \<and> \<not> Approval_Expired a (rv_clock v 0) \<and> ap_ServerID a = ct_ServerID q
      \<and> ap_ToolName a = ct_Name q \<and> ap_ArgumentsHash a = call_hash L q
      \<and> get (m_approvals (sv_store s0')) ?id = Some a' \<and> ap_Status a' = ApprovalConsumed" if need: required
  proof -
    obtain s0 a' where two: "?calls = [(s0, snd (?take s0)), (s1, s2)]" "fst (?take s0) = Inr a'" using first [OF need] by blast
    then obtain m' where taken: "ConsumeApproval ?id (ct_ServerID q) (ct_Name q) (call_hash L q) (rv_clock v 0) (sv_store s0) = Inr (a', m')"
        "sv_store (snd (?take s0)) = m'"
      by (auto simp: store_call_def split: sum.splits)
    show ?thesis using two(1) taken(2) by (rule_tac ConsumeApproval_consumes [OF taken(1)]) blast
  qed
  then show ?thesis using server request by blast
qed

section \<open>A concrete server\<close>

definition sample_api_ops :: "store_op list" where
  "sample_api_ops = [OpCreateAgent 5 sample_agent, OpCreateAgent 6 (sample_agent\<lparr>a_ID := ''b''\<rparr>), OpCreateRun sample_run '''',
     OpClaimRunExecution ''r1'' 4, OpUpdateRunFenced sample_started 4, OpCreateApproval 5 sample_approval_init 0, sample_decide]"

definition sample_server :: Server where
  "sample_server = \<lparr> sv_engine = \<lparr> en_store = store_execs sample_lib sample_api_ops NewMemory, en_bus = NewBus, en_queue = NewQueue 4,
       en_coord = NewCoordinator, en_active = [], en_workers = [], en_ctxDone = False \<rparr>,
     sv_health = None, sv_client = NewMcpClient 500 500 None, sv_sent = [] \<rparr>"

lemma sample_server_inv: "store_inv (sv_store sample_server)"
proof -
  have "ids_fresh sample_lib sample_api_ops NewMemory" by code_simp
  with store_inv_new have "store_inv (store_execs sample_lib sample_api_ops NewMemory)" by (rule execs_store_inv)
  then show ?thesis by (simp add: sample_server_def)
qed

definition sample_files :: ToolServer where
  "sample_files = \<lparr> ms_ID = ''files'', ms_Endpoint = ''http://files'', ms_AllowedTools = [], ms_DeniedTools = [],
     ms_ApprovalRequiredTools = [''write''], ms_Timeout = 5 \<rparr>"

definition sample_config :: ServerConfig where
  "sample_config = \<lparr> ss_maxAttempts = 3, ss_agentCallMaxDepth = 2, ss_agentCallMaxChildren = 1, ss_authenticator = None,
     ss_auditRetention = 100, ss_auditMaxEvents = 10, ss_tools = Some [(''files'', sample_files)], ss_approvalTTL = 10,
     ss_approvalRetention = 100, ss_instanceID = ''i'' \<rparr>"

definition sample_down :: "'r ToolEnv" where
  "sample_down = \<lparr> tv_secret = (\<lambda>_. None),
     tv_do = (\<lambda>_. Inl \<lparr> te_Canceled = False, te_Deadline = False, te_Policy = False, te_Timeout = False \<rparr>),
     tv_timedOut = False, tv_envelope = (\<lambda>_. None), tv_result = (\<lambda>_. None) \<rparr>"

definition sample_request_env :: RequestEnv where
  "sample_request_env = \<lparr> rv_clock = (\<lambda>_. 9), rv_random = (\<lambda>_. Some ''01''), rv_ctxDone = False, rv_pick = False, rv_identity = None,
     rv_requestID = ''q'', rv_ready = True, rv_metrics = None, rv_call = sample_down, rv_list = sample_down \<rparr>"

lemma sample_unused: "unused_run sample_request_env sample_server"
  by code_simp

definition sample_decoders :: Decoders where
  "sample_decoders = \<lparr> dc_agent = (\<lambda>_. None), dc_run = (\<lambda>_. None), dc_workflow = (\<lambda>_. None), dc_tool = (\<lambda>_. None),
     dc_approval = (\<lambda>_. None), dc_outcome = (\<lambda>_. None) \<rparr>"

text \<open>Another request cancels the Run between two calls of the handler.\<close>

lemma cancelled_unused:
  assumes "unused_run sample_request_env s"
  shows "unused_run sample_request_env (snd (store_call (CancelRun ''r1'' 30) s))"
proof -
  have "newID ''run'' (rv_random sample_request_env 0) (rv_clock sample_request_env 0) \<noteq> ''r1''" by code_simp
  with assms show ?thesis
    by (auto simp: unused_run_def store_call_def with_store_def CancelRun_def Let_def split: sum.split option.split)
qed


definition sample_tool_call :: callToolRequest where
  "sample_tool_call = \<lparr> ct_ServerID = ''files'', ct_Name = ''write'', ct_Arguments = None, ct_ApprovalID = ''ap1'' \<rparr>"

lemma sample_tool_calls:
  "map (\<lambda>(s1, s2). (length (sv_sent s1), length (sv_sent s2)))
     (calls (callTool sample_lib sample_net sample_config sample_request_env (Some sample_tool_call)) [] sample_server) = [(0, 0), (0, 1)]"
  by code_simp

theorem tool_calls_approved_witness:
  "\<exists>s0 s0' s1 s2 a. calls (callTool sample_lib sample_net sample_config sample_request_env (Some sample_tool_call)) [] sample_server
       = [(s0, s0'), (s1, s2)]
     \<and> get (m_approvals (sv_store s0)) ''ap1'' = Some a \<and> ap_Status a = ApprovalApproved \<and> ap_ToolName a = ''write''"
proof -
  let ?calls = "calls (callTool sample_lib sample_net sample_config sample_request_env (Some sample_tool_call)) [] sample_server"
  obtain x s1 s2 where calls: "?calls = [x, (s1, s2)]" "sv_sent s1 = []" "length (sv_sent s2) = Suc 0"
    using sample_tool_calls by (auto simp: map_eq_Cons_conv)
  have tools: "ss_tools sample_config = Some [(''files'', sample_files)]" by (simp add: sample_config_def)
  have sent: "(s1, s2) \<in> set ?calls" "sv_sent s2 \<noteq> sv_sent s1" using calls by auto
  have approval: "TrimSpace (ct_ApprovalID sample_tool_call) = ''ap1''" by code_simp
  have server: "Registry_Get (ct_ServerID sample_tool_call) [(''files'', sample_files)] = Some sample_files"
      "Server_RequiresApproval sample_files (ct_Name sample_tool_call)" by code_simp+
  have "ct_Name sample_tool_call = ''write''" by (simp add: sample_tool_call_def)
  with tool_calls_approved [OF tools sent, unfolded approval server(1)] server(2) show ?thesis
    by (metis option.inject)
qed

end
