(* ===== verification/Api_Calls.thy ===== *)
theory Api_Calls
  imports Api_Properties
begin

text \<open>
  Agent-to-Agent calls: the walk up the lineage ends and finds exactly the ancestors, ancestors do not
  change while Runs keep their Agent and parent, and so an accepted call respects the bounds.
\<close>

section \<open>Ancestors\<close>

text \<open>The Runs from one up to its root, by identifier.\<close>

fun ancestors :: "Memory \<Rightarrow> string \<Rightarrow> string list \<Rightarrow> bool" where
  "ancestors m k [] \<longleftrightarrow> k = ''''"
| "ancestors m k (x # xs) \<longleftrightarrow> k = x \<and> x \<noteq> '''' \<and>
     (case get (m_runs m) x of None \<Rightarrow> False | Some run \<Rightarrow> ancestors m (r_ParentRunID run) xs)"

definition agent_of :: "Memory \<Rightarrow> string \<Rightarrow> string" where
  "agent_of m k = (case get (m_runs m) k of None \<Rightarrow> '''' | Some run \<Rightarrow> r_AgentID run)"

lemma ancestors_above: "ancestors m k xs \<Longrightarrow> x \<in> set xs \<Longrightarrow> x = k \<or> (x, k) \<in> (parent_rel m)\<^sup>+"
proof (induction m k xs rule: ancestors.induct)
  case (2 m k y xs)
  then obtain run where run: "k = y" "get (m_runs m) y = Some run" "ancestors m (r_ParentRunID run) xs" by (auto split: option.splits)
  show ?case
  proof (cases "x = y")
    case False
    then have x: "x \<in> set xs" using 2(3) by simp
    then have "r_ParentRunID run \<noteq> ''''" using run(3) by (cases xs) auto
    then have "(r_ParentRunID run, k) \<in> parent_rel m" using run(1,2) by (simp add: parent_rel_def parent_of_def)
    then show ?thesis using 2(1) [OF run(2) run(3) x] by (auto intro: trancl_into_trancl)
  qed (use run in simp)
qed simp

lemma ancestors_distinct: "acyclic (parent_rel m) \<Longrightarrow> ancestors m k xs \<Longrightarrow> distinct xs"
proof (induction m k xs rule: ancestors.induct)
  case (2 m k y xs)
  then obtain run where run: "k = y" "get (m_runs m) y = Some run" "ancestors m (r_ParentRunID run) xs" by (auto split: option.splits)
  have "y \<notin> set xs"
  proof
    assume y: "y \<in> set xs"
    then have "r_ParentRunID run \<noteq> ''''" using run(3) by (cases xs) auto
    then have "(r_ParentRunID run, y) \<in> parent_rel m" using run(2) by (simp add: parent_rel_def parent_of_def)
    with ancestors_above [OF run(3) y] have "(y, y) \<in> (parent_rel m)\<^sup>+" by (auto intro: trancl_into_trancl)
    then show False using 2(2) by (simp add: acyclic_def)
  qed
  then show ?case using 2(1) [OF run(2) 2(2) run(3)] by simp
qed simp

lemma parent_rel_wf: "runs_inv m \<Longrightarrow> wf (parent_rel m)"
proof (rule finite_acyclic_wf)
  assume inv: "runs_inv m"
  then show "acyclic (parent_rel m)" by (simp add: runs_inv_def)
  have "parent_rel m \<subseteq> (\<lambda>k. (the (parent_of m k), k)) ` dom (get (m_runs m))"
    by (force simp: parent_rel_def parent_of_def split: option.splits if_splits)
  then show "finite (parent_rel m)" using finite_dom_map_of by (meson finite_imageI finite_subset)
qed

lemma ancestors_exist:
  assumes "runs_inv m" and "k = '''' \<or> get (m_runs m) k \<noteq> None"
  shows "\<exists>xs. ancestors m k xs"
  using assms(2)
proof (induction k rule: wf_induct_rule [OF parent_rel_wf [OF assms(1)]])
  case (1 k)
  show ?case
  proof (cases "k = ''''")
    case True
    then show ?thesis by (intro exI [of _ "[]"]) simp
  next
    case False
    then obtain run where run: "get (m_runs m) k = Some run" using 1(2) by auto
    have "lineage_ok m run" using assms(1) run by (simp add: runs_inv_def)
    then have known: "r_ParentRunID run = '''' \<or> get (m_runs m) (r_ParentRunID run) \<noteq> None"
      by (auto simp: lineage_ok_def split: if_splits)
    have "\<exists>xs. ancestors m (r_ParentRunID run) xs"
    proof (cases "r_ParentRunID run = ''''")
      case False
      then have "(r_ParentRunID run, k) \<in> parent_rel m" using run by (simp add: parent_rel_def parent_of_def)
      then show ?thesis using 1(1) known by blast
    qed (auto intro: exI [of _ "[]"])
    then obtain xs where "ancestors m (r_ParentRunID run) xs" by blast
    then show ?thesis using run False by (intro exI [of _ "k # xs"]) simp
  qed
qed

text \<open>The walk, along a lineage it has not seen yet.\<close>

lemma ancestry_loop_eq:
  assumes "keyed r_ID (m_runs m)"
  shows "ancestors m (r_ParentRunID current) xs \<Longrightarrow> distinct xs \<Longrightarrow> set xs \<inter> set seen = {} \<Longrightarrow>
    ancestry_loop m depth agents seen current = Some (Some (depth + int (length xs), rev (map (agent_of m) xs) @ agents))"
proof (induction xs arbitrary: current depth agents seen)
  case Nil
  then show ?case by (subst ancestry_loop.simps) simp
next
  case (Cons x xs)
  then obtain ancestor where ancestor: "r_ParentRunID current = x" "x \<noteq> ''''" "get (m_runs m) x = Some ancestor"
      "ancestors m (r_ParentRunID ancestor) xs" by (auto split: option.splits)
  have key: "r_ID ancestor = x" using keyedD [OF assms ancestor(3)] .
  have "ancestry_loop m (depth + 1) (r_AgentID ancestor # agents) (r_ID ancestor # seen) ancestor
      = Some (Some (depth + 1 + int (length xs), rev (map (agent_of m) xs) @ r_AgentID ancestor # agents))"
    using Cons.prems(2,3) key by (intro Cons.IH [OF ancestor(4)]) auto
  moreover have "ancestry_loop m depth agents seen current
      = ancestry_loop m (depth + 1) (r_AgentID ancestor # agents) (r_ID ancestor # seen) ancestor"
    using ancestor Cons.prems(3) by (subst ancestry_loop.simps) simp
  ultimately show ?case using ancestor by (simp add: agent_of_def)
qed

text \<open>So for a stored Run the walk of \<^verbatim>\<open>agentCallAncestry\<close> ends, without an error, with its lineage.\<close>

lemma agentCallAncestry_eq:
  assumes "runs_inv m" and "get (m_runs m) k = Some parent"
  obtains xs where "ancestors m k (k # xs)"
    "agentCallAncestry parent m = Some (Some (1 + int (length xs), rev (map (agent_of m) xs) @ [r_AgentID parent]))"
proof -
  have keyed: "keyed r_ID (m_runs m)" and acyclic: "acyclic (parent_rel m)" using assms(1) by (simp_all add: runs_inv_def)
  obtain ys where ys: "ancestors m k ys" using ancestors_exist [OF assms(1), of k] assms(2) by auto
  moreover have "k \<noteq> ''''" using assms by (auto simp: runs_inv_def)
  ultimately obtain xs where xs: "ys = k # xs" "ancestors m (r_ParentRunID parent) xs" using assms(2) by (cases ys) auto
  have "distinct (k # xs)" using ancestors_distinct [OF acyclic ys] xs(1) by simp
  then have "ancestry_loop m 1 [r_AgentID parent] [r_ID parent] parent
      = Some (Some (1 + int (length xs), rev (map (agent_of m) xs) @ [r_AgentID parent]))"
    using keyedD [OF keyed assms(2)] by (intro ancestry_loop_eq [OF keyed xs(2)]) auto
  then show thesis using that ys unfolding xs(1) agentCallAncestry_def by blast
qed

section \<open>Runs keep their lineage\<close>

definition lineage_kept :: "Memory \<Rightarrow> Memory \<Rightarrow> bool" where
  "lineage_kept m m' \<longleftrightarrow> (\<forall>k run. get (m_runs m) k = Some run \<longrightarrow>
     (\<exists>run'. get (m_runs m') k = Some run' \<and> r_AgentID run' = r_AgentID run \<and> r_ParentRunID run' = r_ParentRunID run))"

lemma lineage_kept_refl: "lineage_kept m m"
  by (simp add: lineage_kept_def)

lemma lineage_kept_trans: "lineage_kept m1 m2 \<Longrightarrow> lineage_kept m2 m3 \<Longrightarrow> lineage_kept m1 m3"
  unfolding lineage_kept_def by fastforce

lemma ancestors_kept: "lineage_kept m m' \<Longrightarrow> ancestors m k xs \<Longrightarrow> ancestors m' k xs"
proof (induction m k xs rule: ancestors.induct)
  case (2 m k x xs)
  then obtain run where run: "k = x" "x \<noteq> ''''" "get (m_runs m) x = Some run" "ancestors m (r_ParentRunID run) xs"
    by (auto split: option.splits)
  then obtain run' where "get (m_runs m') x = Some run'" "r_ParentRunID run' = r_ParentRunID run"
    using 2(2) unfolding lineage_kept_def by blast
  then show ?case using run 2(1) [OF run(3) 2(2) run(4)] by simp
qed simp

lemma ancestors_stored: "ancestors m k xs \<Longrightarrow> x \<in> set xs \<Longrightarrow> get (m_runs m) x \<noteq> None"
  by (induction m k xs rule: ancestors.induct) (auto split: option.splits)

lemma agent_of_kept: "lineage_kept m m' \<Longrightarrow> get (m_runs m) k \<noteq> None \<Longrightarrow> agent_of m' k = agent_of m k"
  by (fastforce simp: lineage_kept_def agent_of_def)

text \<open>The walk depends on the Run it starts from only through its identifier, Agent and parent.\<close>

lemma agentCallAncestry_cong:
  assumes "r_ID p = r_ID q" and "r_AgentID p = r_AgentID q" and "r_ParentRunID p = r_ParentRunID q"
  shows "agentCallAncestry p m = agentCallAncestry q m"
  unfolding agentCallAncestry_def assms(1,2) by (subst (1 2) ancestry_loop.simps) (simp add: assms(3))

section \<open>Accepted calls\<close>

text \<open>
  What the others may do while a call is handled: keep the store consistent and the lineage of its Runs,
  and not use the identifier generated for the new Run.
\<close>

definition call_rely :: "RequestEnv \<Rightarrow> Server \<Rightarrow> Server \<Rightarrow> bool" where
  "call_rely v s s' \<longleftrightarrow> (store_inv (sv_store s) \<longrightarrow> store_inv (sv_store s')) \<and> lineage_kept (sv_store s) (sv_store s')
     \<and> (unused_run v s \<longrightarrow> unused_run v s')"

interpretation called: rely "call_rely v" for v
proof
  show "call_rely v s s" for s by (simp add: call_rely_def lineage_kept_refl)
  show "call_rely v s1 s2 \<Longrightarrow> call_rely v s2 s3 \<Longrightarrow> call_rely v s1 s3" for s1 s2 s3
    unfolding call_rely_def using lineage_kept_trans by blast
qed

abbreviation accepted :: "handler \<Rightarrow> (Server \<Rightarrow> Server) list \<Rightarrow> Server \<Rightarrow> bool" where
  "accepted p envs s \<equiv> re_Status (answer p envs s) = 202"

lemma response_status [simp]:
  "re_Status (writeError n message) = n" "re_Status (writeErr n cause) = n" "re_Status (writeJSON h n b) = n"
  by (simp_all add: writeError_def writeErr_def writeJSON_def)

text \<open>Enqueueing the Run of an Agent call publishes nothing, also when it fails and the Run is marked failed.\<close>

lemma call_enqueue_silent: "en_bus (sv_engine (final (call_enqueue v c) [] s)) = en_bus (sv_engine s)"
  by (auto simp: call_enqueue_def enqueue_call_def store_write_def with_store_def disturb_def split: option.splits sum.splits)

lemma call_enqueue_accepted:
  assumes "accepted (call_enqueue v c) envs s"
  shows "re_Body (answer (call_enqueue v c) envs s) = RunBody c"
    and "r_ID c \<in> set (q_jobs (en_queue (sv_engine (final (call_enqueue v c) envs s))))"
    and "sv_store (final (call_enqueue v c) envs s) = sv_store (disturb envs s)"
  using assms
  by (auto simp: call_enqueue_def enqueue_call_def Enqueue_def writeJSON_def split: option.splits sum.splits if_splits)

lemma publish_same_store: "sv_store (snd (publish_call now random event s)) = sv_store s"
  by (simp add: publish_call_def)

lemma same_store_rely: "sv_store s' = sv_store s \<Longrightarrow> call_rely v s s'"
  by (simp add: call_rely_def lineage_kept_refl unused_run_def)

lemma act_through:
  assumes "keep_to (call_rely v) envs" and "\<And>t. sv_store (snd (f t)) = sv_store t"
  obtains s' x where "answer (act f k) envs s = answer (k x) (tl envs) s'" "final (act f k) envs s = final (k x) (tl envs) s'"
    "keep_to (call_rely v) (tl envs)" "call_rely v s s'"
proof
  let ?s = "disturb envs s"
  show "answer (act f k) envs s = answer (k (fst (f ?s))) (tl envs) (snd (f ?s))"
    "final (act f k) envs s = final (k (fst (f ?s))) (tl envs) (snd (f ?s))" by simp_all
  show "keep_to (call_rely v) (tl envs)" using assms(1) by (rule keep_to_tl)
  show "call_rely v s (snd (f ?s))"
    by (rule called.R_trans [OF called.disturb_related [OF assms(1)] same_store_rely]) (rule assms(2))
qed

lemma publishAgentChildRun_through:
  assumes "keep_to (call_rely v) envs"
  obtains es s' where "answer (publishAgentChildRun w parent c k) envs s = answer k es s'"
    "final (publishAgentChildRun w parent c k) envs s = final k es s'" "keep_to (call_rely v) es" "call_rely v s s'"
proof -
  obtain f1 f2 f3 :: "Server \<Rightarrow> unit \<times> Server"
    where p: "publishAgentChildRun w parent c k = act f1 (\<lambda>_. act f2 (\<lambda>_. act f3 (\<lambda>_. k)))"
      and same: "\<And>t. sv_store (snd (f1 t)) = sv_store t" "\<And>t. sv_store (snd (f2 t)) = sv_store t" "\<And>t. sv_store (snd (f3 t)) = sv_store t"
    unfolding publishAgentChildRun_def Let_def using publish_same_store by blast
  note keep = assms keep_to_tl [OF assms] keep_to_tl [OF keep_to_tl [OF assms]]
  obtain s1 where 1: "answer (publishAgentChildRun w parent c k) envs s = answer (act f2 (\<lambda>_. act f3 (\<lambda>_. k))) (tl envs) s1"
      "final (publishAgentChildRun w parent c k) envs s = final (act f2 (\<lambda>_. act f3 (\<lambda>_. k))) (tl envs) s1" "call_rely v s s1"
    unfolding p by (rule act_through [OF keep(1) same(1)])
  obtain s2 where 2: "answer (act f2 (\<lambda>_. act f3 (\<lambda>_. k))) (tl envs) s1 = answer (act f3 (\<lambda>_. k)) (tl (tl envs)) s2"
      "final (act f2 (\<lambda>_. act f3 (\<lambda>_. k))) (tl envs) s1 = final (act f3 (\<lambda>_. k)) (tl (tl envs)) s2" "call_rely v s1 s2"
    by (rule act_through [OF keep(2) same(2)])
  obtain s3 where 3: "answer (act f3 (\<lambda>_. k)) (tl (tl envs)) s2 = answer k (tl (tl (tl envs))) s3"
      "final (act f3 (\<lambda>_. k)) (tl (tl envs)) s2 = final k (tl (tl (tl envs))) s3" "keep_to (call_rely v) (tl (tl (tl envs)))" "call_rely v s2 s3"
    by (rule act_through [OF keep(3) same(3)])
  show thesis
    by (rule that [OF _ _ 3(3) called.R_trans [OF called.R_trans [OF 1(3) 2(3)] 3(4)]])
      (simp_all only: 1(1,2) 2(1,2) 3(1,2))
qed

lemma new_child:
  assumes "store_inv (sv_store s)" and "unused_run v s" and "r_ID run = newID ''run'' (rv_random v 0) (rv_clock v 0)"
    and "CreateChildRun run key n (sv_store s) = Inr ((created, True), m2)"
  shows "r_AgentID created = r_AgentID run \<and> r_ID created = r_ID run" "r_ParentRunID created = r_ParentRunID run" "get (m_runs m2) (r_ID created) = Some created"
    "lineage_kept (sv_store s) m2" "0 < n \<Longrightarrow> int (count_children (r_ParentRunID run) m2) \<le> n"
proof -
  let ?m = "sv_store s"
  have keyed: "keyed r_ID (m_runs ?m)" using assms(1) by (simp add: store_inv_def runs_inv_def)
  have unused: "get (m_runs ?m) (r_ID run) = None" using assms(2,3) by (simp add: unused_run_def)
  note locked = CreateChildRun_cases(1) [OF assms(4)]
  have "key_known key ?m = None"
    using locked createRunLocked_known [of key ?m] by (cases "key_known key ?m") auto
  from locked this keyed obtain run' where run': "(created, True) = (run', True)" "((created, True), m2) = store_run run' key ?m"
    "run' = run\<lparr>r_ParentRunID := r_ParentRunID run', r_RootRunID := r_RootRunID run'\<rparr>" "r_ParentRunID run' = r_ParentRunID run"
    by (rule createRunLocked_new)
  obtain parent root where created: "created = run\<lparr>r_ParentRunID := parent, r_RootRunID := root\<rparr>" using run'(1,3) by blast
  have runs: "m_runs m2 = put (r_ID created) created (m_runs ?m)"
    using run'(1,2) by (auto simp: store_run_def Let_def split: if_splits)
  show "r_AgentID created = r_AgentID run \<and> r_ID created = r_ID run" by (simp add: created)
  show "r_ParentRunID created = r_ParentRunID run" using run'(1,4) by simp
  show "get (m_runs m2) (r_ID created) = Some created" by (simp add: runs)
  show "lineage_kept ?m m2" using unused by (auto simp: lineage_kept_def runs created)
  show "int (count_children (r_ParentRunID run) m2) \<le> n" if "0 < n"
    using child_limit [OF keyed unused that assms(4)] by blast
qed

lemma create_child_accepted:
  assumes "keep_to (call_rely v) envs" and "store_inv (sv_store s)" and "unused_run v s" and "0 < ss_agentCallMaxChildren cfg"
    and "accepted (create_child cfg v key parent agents q) envs s"
  obtains child s1 s2 where "re_Body (answer (create_child cfg v key parent agents q) envs s) = RunBody child"
    "(s1, s2) \<in> set (calls (create_child cfg v key parent agents q) envs s)"
    "r_ID child \<noteq> ''''" "r_AgentID child \<notin> set agents" "r_ParentRunID child = r_ID parent"
    "int (count_children (r_ID parent) (sv_store s2)) \<le> ss_agentCallMaxChildren cfg"
    "get (m_runs (sv_store s2)) (r_ID child) = Some child" "lineage_kept (sv_store s2) (sv_store (final (create_child cfg v key parent agents q) envs s))"
    "lineage_kept (sv_store s) (sv_store s2)"
    "r_ID child \<in> set (q_jobs (en_queue (sv_engine (final (create_child cfg v key parent agents q) envs s))))"
proof -
  let ?p = "create_child cfg v key parent agents q" and ?s1 = "disturb envs s" and ?max = "ss_agentCallMaxChildren cfg"
  define tail where "tail created = publishAgentChildRun v parent created (call_enqueue v created)" for created
  have fresh: "cq_AgentID q \<notin> set agents" using assms(5) by (auto simp: create_child_def)
  let ?queued = "queued_run cfg v (if r_RequestID parent = '''' then rv_requestID v else r_RequestID parent) (q\<lparr>cq_ParentRunID := r_ID parent\<rparr>)"
  obtain run where attached: "Run_AttachTo ?queued parent = Inr run"
    using assms(5) fresh by (cases "Run_AttachTo ?queued parent") (simp_all add: create_child_def Let_def)
  have run: "r_AgentID run = cq_AgentID q" "r_ParentRunID run = r_ID parent" "r_ID run = newID ''run'' (rv_random v 0) (rv_clock v 0)"
    using AttachTo_link [OF attached] by (simp_all add: queued_run_def)
  have p: "?p = act (store_call (CreateChildRun run key ?max)) (\<lambda>result. case result of
              Inl ErrChildRunLimit \<Rightarrow> refuses 429 ''parent Run Agent-call fan-out limit reached''
            | Inl _ \<Rightarrow> refuses 500 ''could not create Agent child Run''
            | Inr (created, isNew) \<Rightarrow>
                if \<not> isNew then Respond (writeJSON [(''Idempotency-Replayed'', ''true'')] 200 (RunBody created)) else tail created)"
    unfolding create_child_def Let_def tail_def if_not_P [OF fresh] attached sum.case by (rule refl)
  have related: "call_rely v s ?s1" using assms(1) by (rule called.disturb_related)
  then have inv: "store_inv (sv_store ?s1)" and unused: "unused_run v ?s1" and kept: "lineage_kept (sv_store s) (sv_store ?s1)"
    using assms(2,3) by (auto simp: call_rely_def)
  obtain created m2 where created: "CreateChildRun run key ?max (sv_store ?s1) = Inr ((created, True), m2)"
    using assms(5) unfolding p
    by (cases "CreateChildRun run key ?max (sv_store ?s1)")
      (auto simp: store_call_def split: if_splits store_error.splits)
  let ?s2 = "with_store m2 ?s1"
  note new = new_child [OF inv unused run(3) created]
  have p': "answer ?p envs s = answer (tail created) (tl envs) ?s2" "final ?p envs s = final (tail created) (tl envs) ?s2"
      "(?s1, ?s2) \<in> set (calls ?p envs s)"
    unfolding p by (simp_all add: store_call_def created)
  obtain es s' where t: "answer (tail created) (tl envs) ?s2 = answer (call_enqueue v created) es s'"
      "final (tail created) (tl envs) ?s2 = final (call_enqueue v created) es s'" "keep_to (call_rely v) es" "call_rely v ?s2 s'"
    unfolding tail_def by (rule publishAgentChildRun_through [OF keep_to_tl [OF assms(1)]])
  have "accepted (call_enqueue v created) es s'" using assms(5) by (simp only: p'(1) t(1))
  note enqueued = call_enqueue_accepted [OF this]
  have later: "lineage_kept m2 (sv_store (final ?p envs s))"
    unfolding p'(2) t(2) enqueued(3)
    using called.R_trans [OF t(4) called.disturb_related [OF t(3)]] by (simp add: call_rely_def)
  show thesis
    by (rule that [of created ?s1 ?s2])
      (use p' t enqueued new run fresh later lineage_kept_trans [OF kept new(4)] assms(4) newID_given in simp_all)
qed

lemma choose_agent_accepted:
  assumes "accepted (choose_agent L routing_error q k) envs s"
  obtains q' where "answer (choose_agent L routing_error q k) envs s = answer (k q') (tl envs) (disturb envs s)"
    "final (choose_agent L routing_error q k) envs s = final (k q') (tl envs) (disturb envs s)"
    "set (calls (k q') (tl envs) (disturb envs s)) \<subseteq> set (calls (choose_agent L routing_error q k) envs s)"
proof (cases "cq_AgentID q = ''''")
  case True
  let ?decide = "store_route L (health_status (disturb envs s)) (sv_store (disturb envs s)) (cq_RequiredCapabilities q)"
  obtain decision where "?decide = Inr decision"
    using assms True by (cases ?decide) (auto simp: choose_agent_def routing_error_def split: router_error.splits)
  then show thesis using True that
    [of "q\<lparr>cq_AgentID := a_ID (d_Agent decision), cq_RequiredCapabilities := d_RequiredCapabilities decision\<rparr>"]
    by (simp add: choose_agent_def subset_insertI)
next
  case False
  let ?load = "store_read (GetAgent (cq_AgentID q)) (disturb envs s)"
  obtain agent where "?load = Inr agent"
    using assms False by (cases ?load) (auto simp: choose_agent_def split: store_error.splits)
  then show thesis using False that [of q] by (simp add: choose_agent_def subset_insertI)
qed

text \<open>
  The parent was read in an earlier state: its status may have changed since, its lineage has not.
\<close>

lemma call_ancestry:
  assumes "runs_inv m0" and "get (m_runs m0) k = Some parent" and "runs_inv m" and kept: "lineage_kept m0 m"
  obtains xs where "ancestors m k (k # xs)" "agent_of m k = r_AgentID parent"
    "agentCallAncestry parent m = Some (Some (1 + int (length xs), rev (map (agent_of m) xs) @ [r_AgentID parent]))"
proof -
  obtain now where now: "get (m_runs m) k = Some now" "r_AgentID now = r_AgentID parent" "r_ParentRunID now = r_ParentRunID parent"
    using kept assms(2) by (auto simp: lineage_kept_def)
  have "r_ID parent = k" "r_ID now = k" using assms(1-3) now(1) by (auto simp: runs_inv_def intro: keyedD)
  then have same: "agentCallAncestry parent m = agentCallAncestry now m" using now by (intro agentCallAncestry_cong) simp_all
  obtain xs where "ancestors m k (k # xs)"
      "agentCallAncestry now m = Some (Some (1 + int (length xs), rev (map (agent_of m) xs) @ [r_AgentID now]))"
    by (rule agentCallAncestry_eq [OF assms(3) now(1)])
  then show thesis using now by (intro that [of xs]) (simp_all add: same agent_of_def)
qed

lemma new_call_accepted:
  assumes "keep_to (call_rely v) envs" and "store_inv (sv_store s0)" and "unused_run v s0" and "0 < ss_agentCallMaxChildren cfg"
    and parent: "get (m_runs (sv_store s0)) k = Some parent" and "call_rely v s0 s"
    and "accepted (new_call L cfg v key parent q) envs s"
  obtains child s1 s2 xs where "re_Body (answer (new_call L cfg v key parent q) envs s) = RunBody child"
    "(s1, s2) \<in> set (calls (new_call L cfg v key parent q) envs s)"
    "int (count_children k (sv_store s2)) \<le> ss_agentCallMaxChildren cfg"
    "ancestors (sv_store (final (new_call L cfg v key parent q) envs s)) (r_ID child) (r_ID child # k # xs)"
    "int (length (k # xs)) \<le> ss_agentCallMaxDepth cfg"
    "agent_of (sv_store (final (new_call L cfg v key parent q) envs s)) (r_ID child)
       \<notin> agent_of (sv_store (final (new_call L cfg v key parent q) envs s)) ` set (k # xs)"
    "lineage_kept (sv_store s0) (sv_store (final (new_call L cfg v key parent q) envs s))"
    "r_ID child \<in> set (q_jobs (en_queue (sv_engine (final (new_call L cfg v key parent q) envs s))))"
proof -
  let ?p = "new_call L cfg v key parent q" and ?s1 = "disturb envs s"
  let ?m = "sv_store ?s1"
  have related: "call_rely v s0 ?s1" using assms(6) called.disturb_related [OF assms(1)] by (rule called.R_trans)
  then have inv: "store_inv ?m" and unused: "unused_run v ?s1" and kept: "lineage_kept (sv_store s0) ?m"
    using assms(2,3) by (auto simp: call_rely_def)
  have runs: "runs_inv ?m" "runs_inv (sv_store s0)" using inv assms(2) by (auto simp: store_inv_def)
  have key: "r_ID parent = k" using runs(2) parent by (auto simp: runs_inv_def intro: keyedD)
  obtain xs where xs: "ancestors ?m k (k # xs)" "agent_of ?m k = r_AgentID parent"
      "agentCallAncestry parent ?m = Some (Some (1 + int (length xs), rev (map (agent_of ?m) xs) @ [r_AgentID parent]))"
    by (rule call_ancestry [OF runs(2) parent runs(1) kept])
  let ?agents = "rev (map (agent_of ?m) xs) @ [r_AgentID parent]"
  let ?k = "create_child cfg v key parent ?agents"
  let ?c = "choose_agent L routing_error q ?k"
  have depth: "int (length (k # xs)) \<le> ss_agentCallMaxDepth cfg"
    and p: "answer ?p envs s = answer ?c (tl envs) ?s1" "final ?p envs s = final ?c (tl envs) ?s1"
      "calls ?p envs s = (?s1, ?s1) # calls ?c (tl envs) ?s1"
    using assms(7) by (auto simp: new_call_def store_read_def xs(3) split: if_splits)
  have "accepted ?c (tl envs) ?s1" using assms(7) p(1) by simp
  then obtain q' where c: "answer ?c (tl envs) ?s1 = answer (?k q') (tl (tl envs)) (disturb (tl envs) ?s1)"
    "final ?c (tl envs) ?s1 = final (?k q') (tl (tl envs)) (disturb (tl envs) ?s1)"
    "set (calls (?k q') (tl (tl envs)) (disturb (tl envs) ?s1)) \<subseteq> set (calls ?c (tl envs) ?s1)"
    by (rule choose_agent_accepted)
  let ?s3 = "disturb (tl envs) ?s1" and ?m' = "sv_store (final ?p envs s)"
  note keep = keep_to_tl [OF assms(1)]
  have related3: "call_rely v ?s1 ?s3" using keep by (rule called.disturb_related)
  then have "store_inv (sv_store ?s3)" "unused_run v ?s3" using inv unused by (auto simp: call_rely_def)
  moreover have "accepted (?k q') (tl (tl envs)) ?s3" using assms(7) p(1) c(1) by simp
  ultimately obtain child s1 s2 where child: "re_Body (answer ?p envs s) = RunBody child"
    "(s1, s2) \<in> set (calls (?k q') (tl (tl envs)) ?s3)" "r_ID child \<noteq> ''''" "r_AgentID child \<notin> set ?agents" "r_ParentRunID child = k"
    "int (count_children k (sv_store s2)) \<le> ss_agentCallMaxChildren cfg" "get (m_runs (sv_store s2)) (r_ID child) = Some child"
    "lineage_kept (sv_store s2) ?m'" "lineage_kept (sv_store ?s3) (sv_store s2)" "r_ID child \<in> set (q_jobs (en_queue (sv_engine (final ?p envs s))))"
    unfolding p(1,2) c(1,2) key [symmetric] by (rule create_child_accepted [OF keep_to_tl [OF keep] _ _ assms(4)])
  have "lineage_kept ?m (sv_store ?s3)" using related3 by (simp add: call_rely_def)
  then have kept': "lineage_kept ?m ?m'" using child(8,9) by (blast intro: lineage_kept_trans)
  obtain stored where stored: "get (m_runs ?m') (r_ID child) = Some stored" "r_AgentID stored = r_AgentID child" "r_ParentRunID stored = k"
    using child(5,7,8) by (auto simp: lineage_kept_def)
  have agents: "agent_of ?m' ` set (k # xs) = set ?agents"
    using ancestors_stored [OF xs(1)] agent_of_kept [OF kept'] xs(2) by (auto simp: image_iff)
  show thesis
  proof (rule that [OF child(1) _ child(6) _ depth _ lineage_kept_trans [OF kept kept'] child(10)])
    show "(s1, s2) \<in> set (calls ?p envs s)" using child(2) c(3) p(3) by auto
    show "ancestors ?m' (r_ID child) (r_ID child # k # xs)" using ancestors_kept [OF kept' xs(1)] stored child(3) by simp
    show "agent_of ?m' (r_ID child) \<notin> agent_of ?m' ` set (k # xs)"
      unfolding agents using child(4) stored by (simp add: agent_of_def)
  qed
qed

lemma createAgentChildRun_accepted:
  assumes "accepted (createAgentChildRun L cfg v r parentID decoded) envs s"
  obtains key parent q where "get (m_runs (sv_store (disturb envs s))) parentID = Some parent"
    "caller_agent cfg v r = Some (r_AgentID parent)"
    "answer (createAgentChildRun L cfg v r parentID decoded) envs s = answer (new_call L cfg v key parent q) (tl (tl envs)) (disturb (tl envs) (disturb envs s))"
    "final (createAgentChildRun L cfg v r parentID decoded) envs s = final (new_call L cfg v key parent q) (tl (tl envs)) (disturb (tl envs) (disturb envs s))"
    "set (calls (new_call L cfg v key parent q) (tl (tl envs)) (disturb (tl envs) (disturb envs s)))
       \<subseteq> set (calls (createAgentChildRun L cfg v r parentID decoded) envs s)"
proof -
  let ?p = "createAgentChildRun L cfg v r parentID decoded" and ?s1 = "disturb envs s"
  let ?s2 = "disturb (tl envs) ?s1"
  obtain parent where parent: "GetRun parentID (sv_store ?s1) = Inr parent"
    using assms by (cases "GetRun parentID (sv_store ?s1)") (auto simp: createAgentChildRun_def store_read_def split: store_error.splits)
  let ?trimmed = "TrimSpace (header r ''Idempotency-Key'')"
  let ?key = "''agent-call:'' @ r_ID parent @ '':'' @ ?trimmed"
  obtain caller request where caller: "caller_agent cfg v r = Some caller" "caller \<noteq> ''''" "caller = r_AgentID parent"
      and given: "?trimmed \<noteq> ''''" "\<not> 128 < length ?trimmed" "decoded = Some request"
    using assms by (auto simp: createAgentChildRun_def store_read_def parent Let_def split: option.splits if_splits)
  note started = createAgentChildRun_def store_read_def parent Let_def caller given
  obtain q where q: "call_request L request = Inr q"
    using assms by (cases "call_request L request")
      (auto simp: started call_request_def check_request_def split: if_splits sum.splits)
  have "GetRunByIdempotencyKey ?key (sv_store ?s2) = Inl ErrNotFound"
    using assms by (cases "GetRunByIdempotencyKey ?key (sv_store ?s2)")
      (auto simp: started q replay_call_def split: store_error.splits if_splits)
  note rest = started q this [unfolded append_Cons append_Nil]
  show thesis
  proof (rule that [of parent ?key q])
    show "get (m_runs (sv_store ?s1)) parentID = Some parent" using parent by (simp add: GetRun_def split: option.splits)
    show "caller_agent cfg v r = Some (r_AgentID parent)" using caller by simp
  qed (use caller(2) given in \<open>auto simp: rest\<close>)
qed


definition sample_agent_call :: Request where
  "sample_agent_call = \<lparr> q_Method = ''POST'', q_Path = ''/api/v1/runs/r1/agent-calls'',
     q_Header = [(''X-AgentMesh-Caller-Agent-ID'', ''a''), (''Idempotency-Key'', ''k'')], q_Query = [], q_Body = '''' \<rparr>"

definition sample_called :: "createRunRequest option" where
  "sample_called = Some \<lparr> cq_AgentID = ''b'', cq_ParentRunID = '''', cq_RequiredCapabilities = [], cq_Input = ''go'' \<rparr>"

definition sample_call_env :: RequestEnv where
  "sample_call_env = sample_request_env\<lparr>rv_clock := (\<lambda>_. 62135596800000000020)\<rparr>"

lemma sample_call_unused: "unused_run sample_call_env sample_server"
  using sample_unused by (simp add: unused_run_def newID_def sample_call_env_def sample_request_env_def)

lemma sample_call_accepted:
  "accepted (createAgentChildRun sample_lib sample_config sample_call_env sample_agent_call ''r1'' sample_called) [\<lambda>s. s] sample_server"
  by code_simp


end
