(* ===== verification/Api_Guards.thy ===== *)
theory Api_Guards
  imports Api_Calls
begin

text \<open>
  Two promises of the API to its clients: entity tags make the updates of Agents conditional, and every
  mutating request that is admitted leaves a record in the audit trail.
\<close>

section \<open>Entity tags\<close>


text \<open>The tag a version is answered with is read back as that version.\<close>

lemma etag_read:
  assumes "get (setAgentETag n) ''ETag'' = Some tag" and "header r ''If-Match'' = tag" and "1 \<le> n" and "n \<le> max_int64"
  shows "agentExpectedVersion r = Inr n"
proof -
  have tag: "header r ''If-Match'' = CHR 0x22 # Itoa n @ [CHR 0x22]" using assms(1,2) by (simp add: setAgentETag_def)
  have "TrimSpace (CHR 0x22 # Itoa n @ [CHR 0x22]) = CHR 0x22 # Itoa n @ [CHR 0x22]"
    by (rule TrimSpace_id) (simp_all add: solid_def space_runes_def)
  moreover have "ParseInt (Itoa n) = Some n" using assms(3,4) by (intro ParseInt_Itoa) (simp_all add: min_int64_def)
  moreover have "Itoa n \<noteq> ''''" using assms(3) by (simp add: Itoa_def)
  ultimately show ?thesis using assms(3)
    by (auto simp: agentExpectedVersion_def tag butlast_append Suc_le_eq)
qed

lemma UpdateAgent_replaces:
  assumes "UpdateAgent L now agent n m = Inr (updated, m')"
  obtains a where "get (m_agents m) (a_ID updated) = Some a" "a_Version a = n" "a_Version updated = n + 1"
    "a_ID updated = TrimSpace (a_ID agent)" "m' = m\<lparr>m_agents := put (a_ID updated) updated (m_agents m)\<rparr>"
  using assms by (auto simp: UpdateAgent_def Let_def NormalizeAndValidate_Inr normalize_fields_def split: sum.splits option.splits if_splits)

text \<open>The only calls of the two handlers that touch the store are the conditional ones.\<close>

lemma same_store_calls [simp]: "sv_store (snd (health_call f s)) = sv_store s"
  by (simp add: health_call_def)

lemma updateAgent_writes:
  assumes "agentExpectedVersion r = Inr n"
    and "(s1, s2) \<in> set (calls (updateAgent L v r agentID decoded) envs s)" and "sv_store s2 \<noteq> sv_store s1"
  obtains request agent updated m' where "decoded = Some request" "NormalizeAndValidate L (requested_agent agentID request) = Inr agent"
    "UpdateAgent L (rv_clock v 0) agent n (sv_store s1) = Inr (updated, m')" "sv_store s2 = m'"
    "answer (updateAgent L v r agentID decoded) envs s = writeJSON (setAgentETag (a_Version updated)) 200 (AgentBody updated)"
proof -
  let ?p = "updateAgent L v r agentID decoded" and ?s1 = "disturb envs s"
  let ?s2 = "disturb (tl envs) ?s1"
  obtain a where a: "GetAgent agentID (sv_store ?s1) = Inr a"
    using assms(2,3) by (cases "GetAgent agentID (sv_store ?s1)") (auto simp: updateAgent_def load_agent_def store_read_def split: store_error.splits)
  obtain request agent where agent: "decoded = Some request" "NormalizeAndValidate L (requested_agent agentID request) = Inr agent"
    using assms(2,3) by (auto simp: updateAgent_def load_agent_def store_read_def a assms(1) split: option.splits sum.splits)
  note start = updateAgent_def load_agent_def store_read_def a assms(1) agent store_call_def
  obtain updated m' where ok: "UpdateAgent L (rv_clock v 0) agent n (sv_store ?s2) = Inr (updated, m')"
    using assms(2,3) by (cases "UpdateAgent L (rv_clock v 0) agent n (sv_store ?s2)") (auto simp: start split: store_error.splits)
  have "answer ?p envs s = writeJSON (setAgentETag (a_Version updated)) 200 (AgentBody updated)" by (simp add: start ok)
  moreover have "s1 = ?s2 \<and> s2 = with_store m' ?s2" using assms(2,3) by (auto simp: start ok)
  ultimately show thesis using that agent ok by (simp add: with_store_def)
qed

lemma deleteAgent_writes:
  assumes "agentExpectedVersion r = Inr n"
    and "(s1, s2) \<in> set (calls (deleteAgent r agentID) envs s)" and "sv_store s2 \<noteq> sv_store s1"
  shows "DeleteAgent agentID n (sv_store s1) = Inr (sv_store s2)"
proof -
  let ?s1 = "disturb envs s"
  let ?s2 = "disturb (tl envs) ?s1"
  obtain a where a: "GetAgent agentID (sv_store ?s1) = Inr a"
    using assms(2,3) by (cases "GetAgent agentID (sv_store ?s1)") (auto simp: deleteAgent_def load_agent_def store_read_def split: store_error.splits)
  note start = deleteAgent_def load_agent_def store_read_def a assms(1) store_write_def
  obtain m' where ok: "DeleteAgent agentID n (sv_store ?s2) = Inr m'"
    using assms(2,3) by (cases "DeleteAgent agentID n (sv_store ?s2)") (auto simp: start split: store_error.splits)
  have "s1 = ?s2 \<and> s2 = with_store m' ?s2" using assms(2,3) by (auto simp: start ok)
  then show ?thesis using ok by (simp add: with_store_def)
qed

text \<open>What one admitted mutating request leaves in the audit trail.\<close>

definition recorded :: "ServerConfig \<Rightarrow> Request \<Rightarrow> Identity option \<Rightarrow> string \<Rightarrow> int \<Rightarrow> AuditEvent \<Rightarrow> bool" where
  "recorded cfg r identity requestID status event \<longleftrightarrow>
     au_Method event = q_Method r \<and> au_Path event = q_Path r \<and> au_Status event = status
   \<and> au_RequestID event = requestID \<and> au_InstanceID event = ss_instanceID cfg
   \<and> au_Subject event = (case identity of None \<Rightarrow> ''anonymous'' | Some i \<Rightarrow> i_Subject i)
   \<and> au_Roles event = (case identity of None \<Rightarrow> [] | Some i \<Rightarrow> i_Roles i)"

definition admission :: "golib \<Rightarrow> ServerConfig \<Rightarrow> Request \<Rightarrow> auth_decision" where
  "admission L cfg r = (case ss_authenticator cfg of None \<Rightarrow> Admitted None | Some credentials \<Rightarrow> auth_Middleware L credentials r)"

lemma audit_first_kept: "\<not> au_Timestamp e < cutoff \<Longrightarrow> audit_first cutoff (es @ [e]) \<le> length es"
  by (induction es) auto

lemma AppendAuditEvent_last:
  assumes "0 < retention \<Longrightarrow> now - au_Timestamp event \<le> retention"
  obtains old where "m_auditEvents (AppendAuditEvent now event retention maxEvents m) = old @ [event]"
proof -
  let ?es = "m_auditEvents m @ [event]" and ?cutoff = "if 0 < retention then now - retention else 0"
  let ?first = "audit_first ?cutoff ?es"
  let ?n = "if 0 < maxEvents \<and> maxEvents < int (length ?es) - int ?first then length ?es - nat maxEvents else ?first"
  have "?first \<le> length (m_auditEvents m)"
    using assms audit_first_zero audit_first_kept [of event ?cutoff] by (cases "0 < retention") simp_all
  then have "?n \<le> length (m_auditEvents m)" by auto
  then have "drop ?n ?es = drop ?n (m_auditEvents m) @ [event]" by simp
  then show thesis using that by (simp add: AppendAuditEvent_def Let_def)
qed

lemma Handler_admitted:
  assumes "admission L cfg r = Admitted identity" and "v' = v\<lparr>rv_requestID := normalizedRequestID (rv_random v 11) (rv_clock v 13) (header r ''X-Request-ID''), rv_identity := identity\<rparr>"
  shows "Handler L N D cfg v r = chain (auditMiddleware cfg v' r (mux L N D cfg v' r))
     (\<lambda>response. Respond (response\<lparr>re_Header := put ''X-Request-ID'' (rv_requestID v') (re_Header response)\<rparr>))"
  using assms by (auto simp: Handler_def requestContextMiddleware_def authMiddleware_def admission_def Let_def split: option.splits)

section \<open>Properties\<close>

text \<open>
  Entity tags protect Agents. A client that sends back the tag of version \<open>n\<close> of an Agent changes the store
  only if version \<open>n\<close> is the one stored at that moment: an update then replaces it by version \<open>n + 1\<close>, stores
  nothing else and answers with the new Agent and its tag; a deletion then removes an Agent that no Run and no
  step of a workflow refers to.
\<close>

theorem etag_guards_agents:
  assumes "get (setAgentETag n) ''ETag'' = Some tag" and "header r ''If-Match'' = tag" and "1 \<le> n" and "n \<le> max_int64"
  shows "((s1, s2) \<in> set (calls (updateAgent L v r agentID decoded) envs s) \<and> sv_store s2 \<noteq> sv_store s1 \<longrightarrow>
      (\<exists>a updated. get (m_agents (sv_store s1)) (TrimSpace agentID) = Some a \<and> a_Version a = n \<and> a_Version updated = n + 1
         \<and> sv_store s2 = (sv_store s1)\<lparr>m_agents := put (TrimSpace agentID) updated (m_agents (sv_store s1))\<rparr>
         \<and> answer (updateAgent L v r agentID decoded) envs s = writeJSON (setAgentETag (n + 1)) 200 (AgentBody updated)))
    \<and> ((s1, s2) \<in> set (calls (deleteAgent r agentID) envs s) \<and> sv_store s2 \<noteq> sv_store s1 \<longrightarrow>
      (\<exists>a. get (m_agents (sv_store s1)) agentID = Some a \<and> a_Version a = n
         \<and> sv_store s2 = (sv_store s1)\<lparr>m_agents := del agentID (m_agents (sv_store s1))\<rparr>
         \<and> \<not> list_ex (\<lambda>(_, run). r_AgentID run = agentID) (m_runs (sv_store s1))
         \<and> \<not> list_ex (\<lambda>(_, workflow). list_ex (\<lambda>step. s_AgentID step = agentID) (w_Steps workflow)) (m_workflows (sv_store s1))))"
proof (intro conjI impI; elim conjE)
  note version = etag_read [OF assms]
  assume "(s1, s2) \<in> set (calls (updateAgent L v r agentID decoded) envs s)" "sv_store s2 \<noteq> sv_store s1"
  then obtain request agent updated m' where agent: "NormalizeAndValidate L (requested_agent agentID request) = Inr agent"
    and ok: "UpdateAgent L (rv_clock v 0) agent n (sv_store s1) = Inr (updated, m')" "sv_store s2 = m'"
      "answer (updateAgent L v r agentID decoded) envs s = writeJSON (setAgentETag (a_Version updated)) 200 (AgentBody updated)"
    by (rule updateAgent_writes [OF version])
  have "TrimSpace (a_ID agent) = TrimSpace agentID"
    using agent by (auto simp: NormalizeAndValidate_Inr normalize_fields_def requested_agent_def)
  with UpdateAgent_replaces [OF ok(1)] ok(2,3) show "\<exists>a updated. get (m_agents (sv_store s1)) (TrimSpace agentID) = Some a \<and> a_Version a = n
      \<and> a_Version updated = n + 1 \<and> sv_store s2 = (sv_store s1)\<lparr>m_agents := put (TrimSpace agentID) updated (m_agents (sv_store s1))\<rparr>
      \<and> answer (updateAgent L v r agentID decoded) envs s = writeJSON (setAgentETag (n + 1)) 200 (AgentBody updated)" by metis
next
  assume "(s1, s2) \<in> set (calls (deleteAgent r agentID) envs s)" "sv_store s2 \<noteq> sv_store s1"
  from deleteAgent_writes [OF etag_read [OF assms] this]
  show "\<exists>a. get (m_agents (sv_store s1)) agentID = Some a \<and> a_Version a = n
      \<and> sv_store s2 = (sv_store s1)\<lparr>m_agents := del agentID (m_agents (sv_store s1))\<rparr>
      \<and> \<not> list_ex (\<lambda>(_, run). r_AgentID run = agentID) (m_runs (sv_store s1))
      \<and> \<not> list_ex (\<lambda>(_, workflow). list_ex (\<lambda>step. s_AgentID step = agentID) (w_Steps workflow)) (m_workflows (sv_store s1))"
    by (auto simp: DeleteAgent_def split: option.splits if_splits)
qed

text \<open>
  C30: Mutating requests are audited. The last call of a mutating request that the authentication admits
  appends an audit event with the caller's subject and roles, the method, the path, the status of the answer and the
  request identifier the answer carries, and that event is the newest of the trail; a request that is not
  admitted makes no call at all.
\<close>

theorem mutations_audited:
  assumes "audited_request r" and "0 < ss_auditRetention cfg \<longrightarrow> rv_clock v 12 - rv_clock v 11 \<le> ss_auditRetention cfg"
  shows "case admission L cfg r of
      Admitted identity \<Rightarrow> (\<exists>cs s1 old event requestID.
        calls (Handler L N D cfg v r) envs s = cs @ [(s1, final (Handler L N D cfg v r) envs s)]
      \<and> m_auditEvents (sv_store (final (Handler L N D cfg v r) envs s)) = old @ [event]
      \<and> get (re_Header (answer (Handler L N D cfg v r) envs s)) ''X-Request-ID'' = Some requestID
      \<and> recorded cfg r identity requestID (re_Status (answer (Handler L N D cfg v r) envs s)) event)
    | _ \<Rightarrow> calls (Handler L N D cfg v r) envs s = [] \<and> final (Handler L N D cfg v r) envs s = s
      \<and> re_Status (answer (Handler L N D cfg v r) envs s) \<in> {401, 403}"
proof (cases "admission L cfg r")
  case (Admitted identity)
  define v' where "v' = v\<lparr>rv_requestID := normalizedRequestID (rv_random v 11) (rv_clock v 13) (header r ''X-Request-ID''), rv_identity := identity\<rparr>"
  let ?p = "mux L N D cfg v' r"
  let ?status = "re_Status (answer ?p envs s)"
  let ?event = "audit_event cfg v' r ?status" and ?s1 = "disturb (drop (length (calls ?p envs s)) envs) (final ?p envs s)"
  note handler = Handler_admitted [OF Admitted v'_def, of N D]
  have run: "calls (Handler L N D cfg v r) envs s = calls ?p envs s @ [(?s1, snd (audit_call cfg v' ?event ?s1))]"
      "final (Handler L N D cfg v r) envs s = snd (audit_call cfg v' ?event ?s1)"
      "re_Status (answer (Handler L N D cfg v r) envs s) = ?status"
      "get (re_Header (answer (Handler L N D cfg v r) envs s)) ''X-Request-ID'' = Some (rv_requestID v')"
    by (simp_all add: handler auditMiddleware_def served_chain assms(1))
  have "0 < ss_auditRetention cfg \<Longrightarrow> rv_clock v' 12 - au_Timestamp ?event \<le> ss_auditRetention cfg"
    using assms(2) by (simp add: audit_event_def v'_def)
  then obtain old where "m_auditEvents (AppendAuditEvent (rv_clock v' 12) ?event (ss_auditRetention cfg) (ss_auditMaxEvents cfg) (sv_store ?s1)) = old @ [?event]"
    by (rule AppendAuditEvent_last)
  then have "m_auditEvents (sv_store (final (Handler L N D cfg v r) envs s)) = old @ [?event]"
    by (simp add: run(2) audit_call_def with_store_def)
  moreover have "recorded cfg r identity (rv_requestID v') ?status ?event" by (simp add: recorded_def audit_event_def v'_def)
  ultimately show ?thesis using run Admitted by auto
qed (auto simp: Handler_def requestContextMiddleware_def authMiddleware_def admission_def Let_def split: option.splits)

section \<open>Concrete requests\<close>

definition sample_replacement :: createAgentRequest where
  "sample_replacement = \<lparr> ca_Name = ''N'', ca_SystemPrompt = '''', ca_Runtime = ''http'', ca_Protocol = ''v1'', ca_Endpoint = ''http://h'',
     ca_Model = '''', ca_Capabilities = [''sql''], ca_EffectIdempotency = '''', ca_MaxConcurrency = 2, ca_Priority = 5 \<rparr>"

definition sample_put :: Request where
  "sample_put = \<lparr> q_Method = ''PUT'', q_Path = ''/api/v1/agents/b'', q_Header = [(''If-Match'', CHR 0x22 # ''1'' @ [CHR 0x22])],
     q_Query = [], q_Body = '''' \<rparr>"

definition stored_version :: "Server \<Rightarrow> int option" where
  "stored_version s = map_option a_Version (get (m_agents (sv_store s)) ''b'')"

lemma sample_versions:
  "map (\<lambda>(s1, s2). (stored_version s1, stored_version s2))
     (calls (updateAgent sample_lib sample_request_env sample_put ''b'' (Some sample_replacement)) [] sample_server)
   = [(Some 1, Some 1), (Some 1, Some 2), (Some 2, Some 2), (Some 2, Some 2)]"
  by code_simp

theorem etag_guards_agents_witness:
  "\<exists>updated. answer (updateAgent sample_lib sample_request_env sample_put ''b'' (Some sample_replacement)) [] sample_server
     = writeJSON (setAgentETag 2) 200 (AgentBody updated)"
proof -
  let ?calls = "calls (updateAgent sample_lib sample_request_env sample_put ''b'' (Some sample_replacement)) [] sample_server"
  obtain x s1 s2 xs where calls: "?calls = x # (s1, s2) # xs" "stored_version s1 = Some 1" "stored_version s2 = Some 2"
    using sample_versions by (auto simp: map_eq_Cons_conv)
  have "get (setAgentETag 1) ''ETag'' = Some (CHR 0x22 # ''1'' @ [CHR 0x22])" by code_simp
  moreover have "header sample_put ''If-Match'' = CHR 0x22 # ''1'' @ [CHR 0x22]" by (simp add: header_def sample_put_def get_or_def)
  moreover have "(1::int) \<le> max_int64" by (simp add: max_int64_def)
  moreover have "(s1, s2) \<in> set ?calls" "sv_store s2 \<noteq> sv_store s1" using calls by (auto simp: stored_version_def)
  ultimately show ?thesis
    using etag_guards_agents [of 1 "CHR 0x22 # ''1'' @ [CHR 0x22]" sample_put s1 s2 sample_lib sample_request_env "''b''"
        "Some sample_replacement" "[]" sample_server] by auto
qed

theorem mutations_audited_witness:
  "\<exists>cs s1. calls (Handler sample_lib sample_net sample_decoders sample_config sample_request_env sample_put) [] sample_server
     = cs @ [(s1, final (Handler sample_lib sample_net sample_decoders sample_config sample_request_env sample_put) [] sample_server)]"
proof -
  have "audited_request sample_put" by code_simp
  moreover have "0 < ss_auditRetention sample_config \<longrightarrow>
      rv_clock sample_request_env 12 - rv_clock sample_request_env 11 \<le> ss_auditRetention sample_config"
    by (simp add: sample_config_def sample_request_env_def)
  moreover have "admission sample_lib sample_config sample_put = Admitted None" by (simp add: admission_def sample_config_def)
  ultimately show ?thesis
    using mutations_audited [of sample_put sample_config sample_request_env sample_lib sample_net sample_decoders "[]" sample_server] by auto
qed

end
