(* ===== verification/Spec2Isabelle.thy ===== *)
theory Spec2Isabelle
  imports Config Redis_Leases Queue_Nats Events_Nats Router Workflow_Properties Llm_Provider Store_Cached Api_Guards
begin

text \<open>
  A verification library for \<^bold>\<open>agentmesh\<close>, a control plane that registers Agents, runs their tasks (Runs)
  and workflows, and mediates their tool calls. The program is the Go module under \<^verbatim>\<open>src/\<close>; file names below are
  relative to \<^verbatim>\<open>src/internal/\<close>.

  \<^bold>\<open>The program.\<close> Clients talk to the HTTP API (\<^verbatim>\<open>httpapi\<close>), which authenticates them (\<^verbatim>\<open>apiauth\<close>), keeps an audit trail
  and reads and writes a repository (\<^verbatim>\<open>store\<close>) of Agents, Runs, workflows and approvals (\<^verbatim>\<open>domain\<close>). A new Run goes through
  the queue (\<^verbatim>\<open>queue\<close>) to the workers of the engine (\<^verbatim>\<open>engine\<close>), which take a lease with a fencing token (\<^verbatim>\<open>coordination\<close>),
  call the Agent through a runtime (\<^verbatim>\<open>runtime\<close>, \<^verbatim>\<open>llm\<close>, \<^verbatim>\<open>protocol\<close>) and publish events (\<^verbatim>\<open>events\<close>). The workflow manager (\<^verbatim>\<open>workflow\<close>)
  turns the steps of a workflow into Runs. The router (\<^verbatim>\<open>router\<close>) picks an Agent by capability, health (\<^verbatim>\<open>agenthealth\<close>) and load.
  Tools are reached through a gateway (\<^verbatim>\<open>mcp\<close>), some of them only with an approval.

  \<^bold>\<open>How the code is modelled.\<close> A Go string is a \<^typ>\<open>string\<close> of bytes; an instant or duration is an integer of
  nanoseconds; a Go map is an association list (the order of its entries is never observable in a result that is
  compared); a struct is a record whose fields carry a short prefix; an error is a value of a datatype with one
  constructor per cause, and a function that may fail returns a sum. An \<^verbatim>\<open>int\<close> that the code multiplies or counts without a
  bound is wrapped to 64 bits (\<^const>\<open>wrap64\<close>), addresses and counters are words. A method that holds a mutex is one function on
  the state. Code that is not in the repository is an argument with named fields: the parts of the standard
  library that are tables or parsers (\<^typ>\<open>golib\<close>, \<^typ>\<open>netlib\<close>, \<^typ>\<open>envlib\<close>), JSON decoders, the network, the clock, random
  identifiers, and which ready branch a \<^verbatim>\<open>select\<close> takes.

  A condition, constant or loop body that has a definition of its own stands next to the function it is a part of.

  \<^bold>\<open>Concurrency.\<close> There are three levels. \<^emph>\<open>The repository\<close> (\<^verbatim>\<open>Store_System\<close>): concurrent calls are serialised by its mutex, so a
  history is a list of operations, and the theorems quantify over all lists. \<^emph>\<open>Engine and workflow manager\<close> (\<^verbatim>\<open>Engine_System\<close>,
  \<^verbatim>\<open>Workflow_System\<close>): a worker or task is a machine with a program counter that makes one call of a service per step; the system
  is an inductive step relation that interleaves all of them, with cancellations, lost leases, deliveries and
  the writes of the API. \<^emph>\<open>API requests\<close> (\<^verbatim>\<open>Programs\<close>): a handler is a program of atomic calls, served with a list of
  disturbances, one before each call; what disturbances may do is a relation, and the rely/guarantee rules are proved once
  in the locale \<^verbatim>\<open>rely\<close>.

  \<^bold>\<open>Theories.\<close>
  \<^item> \<^verbatim>\<open>Prelude\<close>, \<^verbatim>\<open>Strconv\<close>, \<^verbatim>\<open>Json_Strings\<close>, \<^verbatim>\<open>Programs\<close>: the shared vocabulary. Functions of \<^verbatim>\<open>strings\<close>, \<^verbatim>\<open>strconv\<close> and \<^verbatim>\<open>sort\<close> (the locale
    \<^verbatim>\<open>slice_order\<close> shows that for a strict weak order the result does not depend on the order in which a Go map is visited),
    maps, bounded histories, encodings of JSON strings, and programs of atomic calls.
  \<^item> \<^verbatim>\<open>Domain_Run\<close>, \<^verbatim>\<open>Domain_Agent\<close>, \<^verbatim>\<open>Domain_Approval\<close>, \<^verbatim>\<open>Domain_Workflow\<close> (\<^verbatim>\<open>domain/*.go\<close>): the life cycle of a Run as a step relation,
    normalisation and validation of Agents, approvals and their digests, workflow definitions and the cycle check
    (equivalent to acyclicity of the dependency relation).
  \<^item> \<^verbatim>\<open>Store_State\<close>, \<^verbatim>\<open>Store_Agents\<close>, \<^verbatim>\<open>Store_Runs\<close>, \<^verbatim>\<open>Store_Workflows\<close>, \<^verbatim>\<open>Store_Approvals\<close>, \<^verbatim>\<open>Store_System\<close> (\<^verbatim>\<open>store/memory.go\<close>): every operation
    of the repository and its invariant; the locales \<^verbatim>\<open>versioned\<close> (optimistic locking, for Agents and workflows) and \<^verbatim>\<open>fenced_store\<close>
    (fencing of Runs); idempotent creation, finality of cancellation, single use of approvals.
  \<^item> \<^verbatim>\<open>Store_Cached\<close> (\<^verbatim>\<open>store/cached.go\<close>): the read-through cache over the repository, transparent when cache writes succeed and calls
    do not overlap, with lemmas that show what happens otherwise.
  \<^item> \<^verbatim>\<open>Coordination\<close>, \<^verbatim>\<open>Queue_Memory\<close>, \<^verbatim>\<open>Events_Bus\<close>, \<^verbatim>\<open>Agent_Health\<close>, \<^verbatim>\<open>Discovery\<close>, \<^verbatim>\<open>Router\<close> (\<^verbatim>\<open>coordination/memory.go\<close>, \<^verbatim>\<open>queue/memory.go\<close>, \<^verbatim>\<open>events/bus.go\<close>,
    \<^verbatim>\<open>agenthealth/service.go\<close>, \<^verbatim>\<open>discovery/service.go\<close>, \<^verbatim>\<open>router/router.go\<close>): the services, each with the contract its clients use (the
    locales \<^verbatim>\<open>lease_service\<close> and \<^verbatim>\<open>bounded_fifo\<close>).
  \<^item> \<^verbatim>\<open>Redis_Leases\<close>, \<^verbatim>\<open>Queue_Nats\<close>, \<^verbatim>\<open>Events_Nats\<close> (\<^verbatim>\<open>cache/redis.go\<close>, \<^verbatim>\<open>queue/nats.go\<close>, \<^verbatim>\<open>events/nats.go\<close>): the same services shared between
    processes. The Redis and JetStream servers are arguments on an opaque state, with their documented behaviour as the named
    hypotheses \<^const>\<open>redis_laws\<close> and \<^const>\<open>jetstream_laws\<close>, which the witnesses show to hold of concrete servers; calls and
    answers may be lost. The Redis leases refine the contract \<^verbatim>\<open>lease_service\<close>; a queued Run stays due until it is handled; an event
    reaches the subscribers of other processes once.
  \<^item> \<^verbatim>\<open>Engine\<close>, \<^verbatim>\<open>Engine_System\<close>, \<^verbatim>\<open>Engine_Properties\<close> (\<^verbatim>\<open>engine/engine.go\<close>): the worker, every interleaving of workers, and that
    the engine refines sequences of repository calls, counts attempts exactly, always returns, and settles
    what it acknowledges.
  \<^item> \<^verbatim>\<open>Workflow_Plan\<close>, \<^verbatim>\<open>Workflow_Manager\<close>, \<^verbatim>\<open>Workflow_System\<close>, \<^verbatim>\<open>Workflow_Properties\<close> (\<^verbatim>\<open>workflow/manager.go\<close>): the decisions on one workflow
    value, the tasks, their interleavings with the engine, and order, progress and concurrency of steps.
  \<^item> \<^verbatim>\<open>Api_Auth\<close> (\<^verbatim>\<open>apiauth/auth.go\<close>); \<^verbatim>\<open>Protocol\<close>, \<^verbatim>\<open>Runtime_Auth\<close>, \<^verbatim>\<open>Net_Policy\<close>, \<^verbatim>\<open>Runtime_Http\<close>, \<^verbatim>\<open>Llm_Provider\<close> (\<^verbatim>\<open>protocol\<close>, \<^verbatim>\<open>runtime\<close>, \<^verbatim>\<open>llm\<close>); \<^verbatim>\<open>Mcp\<close>
    (\<^verbatim>\<open>mcp\<close>); \<^verbatim>\<open>Config\<close> (\<^verbatim>\<open>config/config.go\<close> and its use in \<^verbatim>\<open>cmd/agentmesh/main.go\<close>); \<^verbatim>\<open>Metrics\<close> (\<^verbatim>\<open>metrics/metrics.go\<close>).
  \<^item> \<^verbatim>\<open>Api_State\<close>, \<^verbatim>\<open>Api_Agents\<close>, \<^verbatim>\<open>Api_Runs\<close>, \<^verbatim>\<open>Api_Tools\<close>, \<^verbatim>\<open>Api_Workflows\<close>, \<^verbatim>\<open>Api_Server\<close> (\<^verbatim>\<open>httpapi/server.go\<close>): the handlers, routes and
    middleware; \<^verbatim>\<open>Api_Properties\<close>, \<^verbatim>\<open>Api_Calls\<close>, \<^verbatim>\<open>Api_Guards\<close>: that the API keeps the store consistent under interference, that tool
    calls are gated by approvals, Agent-to-Agent calls bounded, updates of Agents conditional and mutations audited.

  \<^bold>\<open>Properties.\<close> The texts marked \<open>C1\<close> to \<open>C40\<close> state the properties, each in the theory of the component it is about; a
  property with hypotheses has a witness, an instance on concrete data in the same theory. The order is that of importance:
  consistency and fencing of the store, the engine and the workflow scheduler under all interleavings, approvals,
  authorisation and the network policy, then the contracts of the single services.

  \<^bold>\<open>Termination and bounds.\<close> Loops over data are structural or have a termination proof (\<^verbatim>\<open>strip_runes\<close>, the cycle check by the
  length of its queue and the positive degrees left). The walk up the lineage of a Run is a \<^theory_text>\<open>partial_function\<close> whose end is proved
  from the invariant that lineage is acyclic. A worker is a machine; a well-founded order that every one of its
  steps decreases, whatever its environment does, shows that it returns. No definition uses fuel.

  \<^bold>\<open>What is taken as atomic.\<close> A call of a service is one step. In a handler the search of the router (one read of
  the Agents, one of their loads and the health states) and the walk up the lineage are each one read; a lineage never changes,
  so for the walk this is no restriction. Publishing on the bus and the health check of a newly written Agent are one step each.

  \<^bold>\<open>Not modelled.\<close>
  \<^item> \<^verbatim>\<open>store/postgres\<close>: its methods are SQL texts whose meaning is PostgreSQL's; the contract is that of the in-memory repository.
  \<^item> The worker slots of \<^verbatim>\<open>Consume\<close> in \<^verbatim>\<open>queue/nats.go\<close>, and \<^verbatim>\<open>Ping\<close> and \<^verbatim>\<open>Close\<close> of the clients of Redis and NATS: they change neither the
    stream nor the cache. The engine is modelled with redelivery, and the cached store over an abstract cache (the locale \<^verbatim>\<open>cache\<close>).
  \<^item> \<^verbatim>\<open>telemetry\<close>, \<^verbatim>\<open>observability\<close>, logging and the recovery from panics: no effect on the modelled state.
  \<^item> Start-up, signals and shutdown in \<^verbatim>\<open>cmd/agentmesh/main.go\<close>, the transport of event streams, the floating-point sum of request
    durations, the dashboard: process, network and browser I/O.
\<close>

end
